(* ===== verification/Display.thy ===== *)
theory Display
  imports Prelude
begin

text \<open>
  The display driver (\<open>firmware/src/sh8601/mod.rs\<close>, with the vendor table of
  \<open>sh8601/init.rs\<close>): the QSPI transactions of initialisation and of the two flush operations.
  The write of the SPI bus is the one of \<open>esp-hal-patched/src/spi/master.rs\<close>; whether the
  peripheral accepts a transfer is up to the hardware, so the outcome of the k-th started
  transfer is a parameter kept in the bus state.
\<close>

section \<open>The bus\<close>

datatype data_mode = Single | Quad

datatype spi_error = Overflow | TransferError nat

record txn =
  tx_mode :: data_mode
  tx_cmd :: u16
  tx_addr :: u32
  tx_data :: "u8 list"

text \<open>What the panel and a logic analyser see, in order: the reset pin, pauses and transfers.\<close>

datatype bus_event = PinRst bool | DelayMs nat | Write txn

record spi_bus =
  tx_capacity :: nat                     \<comment> \<open>\<open>tx_buf.capacity()\<close>\<close>
  outcome :: "nat \<Rightarrow> nat option"         \<comment> \<open>of the k-th started transfer: an error code\<close>
  started :: nat
  bus_log :: "bus_event list"

definition half_duplex_write :: "spi_bus \<Rightarrow> data_mode \<Rightarrow> u16 \<Rightarrow> u32 \<Rightarrow> u8 list \<Rightarrow> spi_bus \<times> (spi_error + unit)" where
  "half_duplex_write b mode cmd addr data =
     (if length data > tx_capacity b then (b, Inl Overflow)
      else case outcome b (started b) of
        Some e \<Rightarrow> (b\<lparr>started := started b + 1\<rparr>, Inl (TransferError e))
      | None \<Rightarrow> (b\<lparr>started := started b + 1,
                   bus_log := bus_log b @ [Write \<lparr>tx_mode = mode, tx_cmd = cmd, tx_addr = addr, tx_data = data\<rparr>]\<rparr>,
                 Inr ()))"

section \<open>The driver\<close>

definition display_width :: nat where "display_width = 360"
definition display_height :: nat where "display_height = 360"

definition cmd_write :: u16 where "cmd_write = 0x02"
definition cmd_write_color :: u16 where "cmd_write_color = 0x32"
definition colmod :: u8 where "colmod = 0x3A"
definition caset :: u8 where "caset = 0x2A"
definition raset :: u8 where "raset = 0x2B"
definition ramwr :: u8 where "ramwr = 0x2C"
definition colmod_rgb565 :: u8 where "colmod_rgb565 = 0x55"

definition fb_size :: nat where "fb_size = display_width * display_height * 2"
definition row_bytes :: nat where "row_bytes = display_width * 2"
definition chunk_size :: nat where "chunk_size = 30000"
definition rows_per_chunk :: nat where "rows_per_chunk = chunk_size div row_bytes"

lemma display_sizes:
  "display_width = 360" "display_height = 360" "fb_size = 259200" "row_bytes = 720" "rows_per_chunk = 41"
  by (simp_all add: display_width_def display_height_def fb_size_def row_bytes_def rows_per_chunk_def
      chunk_size_def)

record display =
  d_spi :: spi_bus
  framebuffer :: "u8 list"

definition display_new :: "spi_bus \<Rightarrow> display" where
  "display_new spi = \<lparr>d_spi = spi, framebuffer = replicate fb_size 0\<rparr>"

definition d_emit :: "bus_event \<Rightarrow> display \<Rightarrow> display" where
  "d_emit e d = d\<lparr>d_spi := (d_spi d)\<lparr>bus_log := bus_log (d_spi d) @ [e]\<rparr>\<rparr>"

definition d_transfer :: "display \<Rightarrow> data_mode \<Rightarrow> u16 \<Rightarrow> u32 \<Rightarrow> u8 list \<Rightarrow> display \<times> (spi_error + unit)" where
  "d_transfer d mode cmd addr data =
     (case half_duplex_write (d_spi d) mode cmd addr data of (b, r) \<Rightarrow> (d\<lparr>d_spi := b\<rparr>, r))"

definition write_register :: "display \<Rightarrow> u8 \<Rightarrow> u8 list \<Rightarrow> display \<times> (spi_error + unit)" where
  "write_register d reg data =
     (let addr = push_bit 8 (ucast reg) in d_transfer d Single cmd_write addr data)"

text \<open>The two bytes of a 16-bit coordinate; every coordinate the driver sends is below 360.\<close>

definition be16 :: "nat \<Rightarrow> u8 list" where
  "be16 n = [of_nat (n div 256), of_nat (n mod 256)]"

definition set_window :: "display \<Rightarrow> nat \<Rightarrow> nat \<Rightarrow> nat \<Rightarrow> nat \<Rightarrow> display \<times> (spi_error + unit)" where
  "set_window d x0 y0 x1 y1 =
     and_then (write_register d caset (be16 x0 @ be16 x1))
       (\<lambda>d _. write_register d raset (be16 y0 @ be16 y1))"

text \<open>The vendor sequence: register, data, delay in milliseconds.\<close>

definition init_sequence :: "(u8 \<times> u8 list \<times> nat) list" where
  "init_sequence =
    [(0xF0, [0x28], 0), (0xF2, [0x28], 0), (0x73, [0xF0], 0), (0x7C, [0xD1], 0), (0x83, [0xE0], 0),
     (0x84, [0x61], 0), (0xF2, [0x82], 0), (0xF0, [0x00], 0), (0xF0, [0x01], 0), (0xF1, [0x01], 0),
     (0xB0, [0x56], 0), (0xB1, [0x4D], 0), (0xB2, [0x24], 0), (0xB4, [0x87], 0), (0xB5, [0x44], 0),
     (0xB6, [0x8B], 0), (0xB7, [0x40], 0), (0xB8, [0x86], 0), (0xBA, [0x00], 0), (0xBB, [0x08], 0),
     (0xBC, [0x08], 0), (0xBD, [0x00], 0), (0xC0, [0x80], 0), (0xC1, [0x10], 0), (0xC2, [0x37], 0),
     (0xC3, [0x80], 0), (0xC4, [0x10], 0), (0xC5, [0x37], 0), (0xC6, [0xA9], 0), (0xC7, [0x41], 0),
     (0xC8, [0x01], 0), (0xC9, [0xA9], 0), (0xCA, [0x41], 0), (0xCB, [0x01], 0), (0xD0, [0x91], 0),
     (0xD1, [0x68], 0), (0xD2, [0x68], 0), (0xF5, [0x00, 0xA5], 0), (0xDD, [0x4F], 0),
     (0xDE, [0x4F], 0), (0xF1, [0x10], 0), (0xF0, [0x00], 0), (0xF0, [0x02], 0),
     (0xE0, [0xF0, 0x0A, 0x10, 0x09, 0x09, 0x36, 0x35, 0x33, 0x4A, 0x29, 0x15, 0x15, 0x2E, 0x34], 0),
     (0xE1, [0xF0, 0x0A, 0x0F, 0x08, 0x08, 0x05, 0x34, 0x33, 0x4A, 0x39, 0x15, 0x15, 0x2D, 0x33], 0),
     (0xF0, [0x10], 0), (0xF3, [0x10], 0), (0xE0, [0x07], 0), (0xE1, [0x00], 0), (0xE2, [0x00], 0),
     (0xE3, [0x00], 0), (0xE4, [0xE0], 0), (0xE5, [0x06], 0), (0xE6, [0x21], 0), (0xE7, [0x01], 0),
     (0xE8, [0x05], 0), (0xE9, [0x02], 0), (0xEA, [0xDA], 0), (0xEB, [0x00], 0), (0xEC, [0x00], 0),
     (0xED, [0x0F], 0), (0xEE, [0x00], 0), (0xEF, [0x00], 0), (0xF8, [0x00], 0), (0xF9, [0x00], 0),
     (0xFA, [0x00], 0), (0xFB, [0x00], 0), (0xFC, [0x00], 0), (0xFD, [0x00], 0), (0xFE, [0x00], 0),
     (0xFF, [0x00], 0), (0x60, [0x40], 0), (0x61, [0x04], 0), (0x62, [0x00], 0), (0x63, [0x42], 0),
     (0x64, [0xD9], 0), (0x65, [0x00], 0), (0x66, [0x00], 0), (0x67, [0x00], 0), (0x68, [0x00], 0),
     (0x69, [0x00], 0), (0x6A, [0x00], 0), (0x6B, [0x00], 0), (0x70, [0x40], 0), (0x71, [0x03], 0),
     (0x72, [0x00], 0), (0x73, [0x42], 0), (0x74, [0xD8], 0), (0x75, [0x00], 0), (0x76, [0x00], 0),
     (0x77, [0x00], 0), (0x78, [0x00], 0), (0x79, [0x00], 0), (0x7A, [0x00], 0), (0x7B, [0x00], 0),
     (0x80, [0x48], 0), (0x81, [0x00], 0), (0x82, [0x06], 0), (0x83, [0x02], 0), (0x84, [0xD6], 0),
     (0x85, [0x04], 0), (0x86, [0x00], 0), (0x87, [0x00], 0), (0x88, [0x48], 0), (0x89, [0x00], 0),
     (0x8A, [0x08], 0), (0x8B, [0x02], 0), (0x8C, [0xD8], 0), (0x8D, [0x04], 0), (0x8E, [0x00], 0),
     (0x8F, [0x00], 0), (0x90, [0x48], 0), (0x91, [0x00], 0), (0x92, [0x0A], 0), (0x93, [0x02], 0),
     (0x94, [0xDA], 0), (0x95, [0x04], 0), (0x96, [0x00], 0), (0x97, [0x00], 0), (0x98, [0x48], 0),
     (0x99, [0x00], 0), (0x9A, [0x0C], 0), (0x9B, [0x02], 0), (0x9C, [0xDC], 0), (0x9D, [0x04], 0),
     (0x9E, [0x00], 0), (0x9F, [0x00], 0), (0xA0, [0x48], 0), (0xA1, [0x00], 0), (0xA2, [0x05], 0),
     (0xA3, [0x02], 0), (0xA4, [0xD5], 0), (0xA5, [0x04], 0), (0xA6, [0x00], 0), (0xA7, [0x00], 0),
     (0xA8, [0x48], 0), (0xA9, [0x00], 0), (0xAA, [0x07], 0), (0xAB, [0x02], 0), (0xAC, [0xD7], 0),
     (0xAD, [0x04], 0), (0xAE, [0x00], 0), (0xAF, [0x00], 0), (0xB0, [0x48], 0), (0xB1, [0x00], 0),
     (0xB2, [0x09], 0), (0xB3, [0x02], 0), (0xB4, [0xD9], 0), (0xB5, [0x04], 0), (0xB6, [0x00], 0),
     (0xB7, [0x00], 0), (0xB8, [0x48], 0), (0xB9, [0x00], 0), (0xBA, [0x0B], 0), (0xBB, [0x02], 0),
     (0xBC, [0xDB], 0), (0xBD, [0x04], 0), (0xBE, [0x00], 0), (0xBF, [0x00], 0), (0xC0, [0x10], 0),
     (0xC1, [0x47], 0), (0xC2, [0x56], 0), (0xC3, [0x65], 0), (0xC4, [0x74], 0), (0xC5, [0x88], 0),
     (0xC6, [0x99], 0), (0xC7, [0x01], 0), (0xC8, [0xBB], 0), (0xC9, [0xAA], 0), (0xD0, [0x10], 0),
     (0xD1, [0x47], 0), (0xD2, [0x56], 0), (0xD3, [0x65], 0), (0xD4, [0x74], 0), (0xD5, [0x88], 0),
     (0xD6, [0x99], 0), (0xD7, [0x01], 0), (0xD8, [0xBB], 0), (0xD9, [0xAA], 0), (0xF3, [0x01], 0),
     (0xF0, [0x00], 0), (0x21, [0x00], 0), (0x11, [0x00], 120), (0x29, [0x00], 0), (0x36, [0x00], 0)]"

fun walk_init :: "(u8 \<times> u8 list \<times> nat) list \<Rightarrow> display \<Rightarrow> display \<times> (spi_error + unit)" where
  "walk_init [] d = (d, Inr ())"
| "walk_init ((reg, data, delay_ms) # cmds) d =
     and_then (write_register d reg data)
       (\<lambda>d _. walk_init cmds (if delay_ms > 0 then d_emit (DelayMs delay_ms) d else d))"

definition display_init :: "display \<Rightarrow> display \<times> (spi_error + unit)" where
  "display_init d =
     (let d1 = d_emit (DelayMs 10) (d_emit (PinRst True) d);
          d2 = d_emit (DelayMs 10) (d_emit (PinRst False) d1);
          d3 = d_emit (DelayMs 150) (d_emit (PinRst True) d2)
      in and_then (write_register d3 colmod [colmod_rgb565])
           (\<lambda>d _. walk_init init_sequence d))"

text \<open>
  The body both flush loops share: the slice expressions panic when they are out of range, the
  window is set to whole rows, and the rows go out through the copy buffer.
\<close>

definition send_rows :: "display \<Rightarrow> nat \<Rightarrow> nat \<Rightarrow> nat \<Rightarrow> (display \<times> (spi_error + unit)) option" where
  "send_rows d row rows offset =
     (let bytes = rows * row_bytes in
      case set_window d 0 row (display_width - 1) (row + rows - 1) of
        (d, Inl e) \<Rightarrow> Some (d, Inl e)
      | (d, Inr _) \<Rightarrow>
          if bytes > chunk_size \<or> offset + bytes > length (framebuffer d) then None
          else Some (d_transfer d Quad cmd_write_color (push_bit 8 (ucast ramwr))
                 (take bytes (drop offset (framebuffer d)))))"

text \<open>The \<open>while\<close> loop of \<open>flush\<close>; \<open>None\<close> is a panic or a loop that does not end.\<close>

partial_function (option) flush_loop ::
  "display \<Rightarrow> nat \<Rightarrow> nat \<Rightarrow> (display \<times> (spi_error + unit)) option" where
  "flush_loop d row offset =
     (if offset < length (framebuffer d) then
        let rows_remaining = display_height - row;
            rows = min rows_per_chunk rows_remaining
        in case send_rows d row rows offset of
             None \<Rightarrow> None
           | Some (d, Inl e) \<Rightarrow> Some (d, Inl e)
           | Some (d, Inr _) \<Rightarrow> flush_loop d (row + rows) (offset + rows * row_bytes)
      else Some (d, Inr ()))"

definition flush :: "display \<Rightarrow> (display \<times> (spi_error + unit)) option" where
  "flush d =
     (case set_window d 0 0 (display_width - 1) (display_height - 1) of
        (d, Inl e) \<Rightarrow> Some (d, Inl e)
      | (d, Inr _) \<Rightarrow> flush_loop d 0 0)"

function flush_rows_loop :: "display \<Rightarrow> nat \<Rightarrow> nat \<Rightarrow> (display \<times> (spi_error + unit)) option" where
  "flush_rows_loop d row y1 =
     (if row \<le> y1 then
        let rows = min rows_per_chunk (y1 + 1 - row)
        in case send_rows d row rows (row * row_bytes) of
             None \<Rightarrow> None
           | Some (d, Inl e) \<Rightarrow> Some (d, Inl e)
           | Some (d, Inr _) \<Rightarrow> flush_rows_loop d (row + rows) y1
      else Some (d, Inr ()))"
  by pat_completeness auto
termination
  by (relation "measure (\<lambda>(d, row, y1). y1 + 1 - row)") (auto simp: display_sizes)

declare flush_rows_loop.simps [simp del]

definition flush_rows :: "display \<Rightarrow> nat \<Rightarrow> nat \<Rightarrow> (display \<times> (spi_error + unit)) option" where
  "flush_rows d y0 y1 =
     (let y1 = min y1 (display_height - 1) in
      if y0 > y1 then Some (d, Inr ()) else flush_rows_loop d y0 y1)"

section \<open>A healthy bus\<close>

definition bus_ok :: "display \<Rightarrow> bool" where
  "bus_ok d \<longleftrightarrow> (\<forall>k. outcome (d_spi d) k = None) \<and> rows_per_chunk * row_bytes \<le> tx_capacity (d_spi d)"

text \<open>The transfers of one window and one band.\<close>

definition reg_txn :: "u8 \<Rightarrow> u8 list \<Rightarrow> txn" where
  "reg_txn r bs = \<lparr>tx_mode = Single, tx_cmd = cmd_write, tx_addr = push_bit 8 (ucast r), tx_data = bs\<rparr>"

definition color_txn :: "u8 list \<Rightarrow> txn" where
  "color_txn bs = \<lparr>tx_mode = Quad, tx_cmd = cmd_write_color, tx_addr = push_bit 8 (ucast ramwr), tx_data = bs\<rparr>"

definition window_txns :: "nat \<Rightarrow> nat \<Rightarrow> nat \<Rightarrow> nat \<Rightarrow> txn list" where
  "window_txns x0 y0 x1 y1 = [reg_txn caset (be16 x0 @ be16 x1), reg_txn raset (be16 y0 @ be16 y1)]"

definition band_txns :: "u8 list \<Rightarrow> nat \<Rightarrow> nat \<Rightarrow> txn list" where
  "band_txns fb row rows =
     window_txns 0 row 359 (row + rows - 1) @ [color_txn (take (rows * 720) (drop (row * 720) fb))]"

definition d_sent :: "txn list \<Rightarrow> display \<Rightarrow> display" where
  "d_sent ts d = d\<lparr>d_spi := (d_spi d)\<lparr>started := started (d_spi d) + length ts,
     bus_log := bus_log (d_spi d) @ map Write ts\<rparr>\<rparr>"

lemma bus_ok_sent [simp]: "bus_ok (d_sent ts d) = bus_ok d"
  by (simp add: bus_ok_def d_sent_def)

lemma framebuffer_sent [simp]: "framebuffer (d_sent ts d) = framebuffer d"
  by (simp add: d_sent_def)

lemma d_sent_append: "d_sent us (d_sent ts d) = d_sent (ts @ us) d"
  by (simp add: d_sent_def)

lemma d_sent_Nil [simp]: "d_sent [] d = d"
  by (simp add: d_sent_def)

lemma log_sent: "bus_log (d_spi (d_sent ts d)) = bus_log (d_spi d) @ map Write ts"
  by (simp add: d_sent_def)

lemma transfer_ok:
  assumes "bus_ok d" "length bs \<le> 29520"
  shows "d_transfer d m c a bs = (d_sent [\<lparr>tx_mode = m, tx_cmd = c, tx_addr = a, tx_data = bs\<rparr>] d, Inr ())"
  using assms by (simp add: d_transfer_def half_duplex_write_def bus_ok_def d_sent_def display_sizes)

lemma write_register_ok:
  "bus_ok d \<Longrightarrow> length bs \<le> 29520 \<Longrightarrow> write_register d r bs = (d_sent [reg_txn r bs] d, Inr ())"
  by (simp add: write_register_def transfer_ok reg_txn_def)

lemma set_window_ok: "bus_ok d \<Longrightarrow> set_window d x0 y0 x1 y1 = (d_sent (window_txns x0 y0 x1 y1) d, Inr ())"
  by (simp add: set_window_def write_register_ok be16_def d_sent_append window_txns_def)

lemma send_rows_ok:
  assumes "bus_ok d" "rows \<le> 41" "row * 720 + rows * 720 \<le> length (framebuffer d)"
  shows "send_rows d row rows (row * 720) = Some (d_sent (band_txns (framebuffer d) row rows) d, Inr ())"
  using assms
  by (simp add: send_rows_def Let_def set_window_ok display_sizes chunk_size_def transfer_ok
      d_sent_append band_txns_def color_txn_def)

text \<open>The bands the loop sends from a given row.\<close>

function bands :: "u8 list \<Rightarrow> nat \<Rightarrow> nat \<Rightarrow> txn list" where
  "bands fb row y1 =
     (if row \<le> y1 then band_txns fb row (min 41 (y1 + 1 - row)) @ bands fb (row + min 41 (y1 + 1 - row)) y1
      else [])"
  by pat_completeness auto
termination by (relation "measure (\<lambda>(fb, row, y1). y1 + 1 - row)") auto

declare bands.simps [simp del]

lemma flush_rows_loop_ok:
  assumes "bus_ok d" "(y1 + 1) * 720 \<le> length (framebuffer d)"
  shows "flush_rows_loop d row y1 = Some (d_sent (bands (framebuffer d) row y1) d, Inr ())"
  using assms
proof (induction "framebuffer d" row y1 arbitrary: d rule: bands.induct)
  case (1 row y1)
  show ?case
  proof (cases "row \<le> y1")
    case False
    then show ?thesis by (simp add: flush_rows_loop.simps bands.simps)
  next
    case True
    let ?n = "min 41 (y1 + 1 - row)"
    have fit: "row * 720 + ?n * 720 \<le> length (framebuffer d)" using True "1.prems"(2) by simp
    have step: "send_rows d row ?n (row * 720) = Some (d_sent (band_txns (framebuffer d) row ?n) d, Inr ())"
      by (rule send_rows_ok [OF "1.prems"(1) _ fit]) simp
    let ?d = "d_sent (band_txns (framebuffer d) row ?n) d"
    have "flush_rows_loop ?d (row + ?n) y1 = Some (d_sent (bands (framebuffer ?d) (row + ?n) y1) ?d, Inr ())"
      using "1.hyps" [OF True, of ?d] "1.prems" by simp
    then show ?thesis
      using True step
      by (subst flush_rows_loop.simps, subst bands.simps)
        (simp add: Let_def display_sizes d_sent_append del: min_def)
  qed
qed

lemma flush_loop_eq:
  assumes "bus_ok d" "length (framebuffer d) = 259200" "row \<le> 360"
  shows "flush_loop d row (row * 720) = flush_rows_loop d row 359"
  using assms
proof (induction "framebuffer d" row "359 :: nat" arbitrary: d rule: bands.induct)
  case (1 row)
  show ?case
  proof (cases "row \<le> 359")
    case False
    with "1.prems" show ?thesis
      by (subst flush_loop.simps, subst flush_rows_loop.simps) simp
  next
    case True
    let ?n = "min 41 (360 - row)"
    have fit: "row * 720 + ?n * 720 \<le> length (framebuffer d)" using True "1.prems"(2) by simp
    have step: "send_rows d row ?n (row * 720) = Some (d_sent (band_txns (framebuffer d) row ?n) d, Inr ())"
      by (rule send_rows_ok [OF "1.prems"(1) _ fit]) simp
    let ?d = "d_sent (band_txns (framebuffer d) row ?n) d"
    have "flush_loop ?d (row + ?n) ((row + ?n) * 720) = flush_rows_loop ?d (row + ?n) 359"
      using "1.hyps" [of ?d] True "1.prems" by simp
    moreover have "(row + ?n) * 720 = row * 720 + ?n * 720" by (rule distrib_right)
    ultimately show ?thesis
      using True step "1.prems"(2)
      by (subst flush_loop.simps, subst flush_rows_loop.simps)
        (simp add: Let_def display_sizes)
  qed
qed

end
