(* ===== verification/Panel.thy ===== *)
theory Panel
  imports Display
begin

text \<open>
  The abstract specification of the flush operations: a reference panel that executes the
  memory-write transfers of the SH8601 data sheet (column and row window, memory write in
  row-major order from the window's corner), and the proof that after a flush its memory shows
  the framebuffer.
\<close>

section \<open>The reference panel\<close>

type_synonym pixel_bytes = "u8 \<times> u8"

record panel =
  win_x :: "nat \<times> nat"
  win_y :: "nat \<times> nat"
  gram :: "nat \<Rightarrow> nat \<Rightarrow> pixel_bytes"      \<comment> \<open>row, column\<close>

definition de16 :: "u8 \<Rightarrow> u8 \<Rightarrow> nat" where
  "de16 hi lo = unat hi * 256 + unat lo"

fun window_of :: "u8 list \<Rightarrow> (nat \<times> nat) option" where
  "window_of [a, b, c, d] = Some (de16 a b, de16 c d)"
| "window_of _ = None"

definition fill_window :: "panel \<Rightarrow> u8 list \<Rightarrow> nat \<Rightarrow> nat \<Rightarrow> pixel_bytes" where
  "fill_window P bs r c =
     (let (x0, x1) = win_x P; (y0, y1) = win_y P; k = (r - y0) * (x1 + 1 - x0) + (c - x0)
      in if y0 \<le> r \<and> r \<le> y1 \<and> x0 \<le> c \<and> c \<le> x1 \<and> 2 * k + 1 < length bs
         then (bs ! (2 * k), bs ! (2 * k + 1)) else gram P r c)"

definition panel_step :: "panel \<Rightarrow> txn \<Rightarrow> panel" where
  "panel_step P t =
     (if tx_mode t = Single \<and> tx_cmd t = 0x02 then
        (case window_of (tx_data t) of
           None \<Rightarrow> P
         | Some w \<Rightarrow> if tx_addr t = 0x2A00 then P\<lparr>win_x := w\<rparr>
                     else if tx_addr t = 0x2B00 then P\<lparr>win_y := w\<rparr> else P)
      else if tx_mode t = Quad \<and> tx_cmd t = 0x32 \<and> tx_addr t = 0x2C00 then P\<lparr>gram := fill_window P (tx_data t)\<rparr>
      else P)"

definition panel_run :: "panel \<Rightarrow> txn list \<Rightarrow> panel" where
  "panel_run P ts = foldl panel_step P ts"

lemma panel_run_append: "panel_run P (ts @ us) = panel_run (panel_run P ts) us"
  by (simp add: panel_run_def)

text \<open>The transfers among the events of the bus.\<close>

definition writes :: "bus_event list \<Rightarrow> txn list" where
  "writes es = List.map_filter (\<lambda>e. case e of Write t \<Rightarrow> Some t | _ \<Rightarrow> None) es"

lemma writes_append: "writes (es @ fs) = writes es @ writes fs"
  by (simp add: writes_def map_filter_def)

lemma writes_map [simp]: "writes (map Write ts) = ts"
  by (induction ts) (simp_all add: writes_def map_filter_simps)

section \<open>One band\<close>

lemma de16_be16: "n < 65536 \<Longrightarrow> be16 n = [a, b] \<Longrightarrow> de16 a b = n"
  by (auto simp: be16_def de16_def unat_of_nat)

lemma be16_pair: "window_of (be16 m @ be16 n) = Some (m, n)" if "m < 65536" "n < 65536"
  using de16_be16 [OF that(1)] de16_be16 [OF that(2)] by (simp add: be16_def)

lemma panel_window:
  assumes "x0 < 65536" "x1 < 65536" "y0 < 65536" "y1 < 65536"
  shows "panel_run P (window_txns x0 y0 x1 y1) = P\<lparr>win_x := (x0, x1), win_y := (y0, y1)\<rparr>"
  by (simp add: panel_run_def window_txns_def panel_step_def reg_txn_def cmd_write_def be16_pair assms
      caset_def raset_def)

text \<open>The two bytes of a pixel in the framebuffer.\<close>

definition fb_pixel :: "u8 list \<Rightarrow> nat \<Rightarrow> nat \<Rightarrow> pixel_bytes" where
  "fb_pixel fb r c = (fb ! (r * 720 + c * 2), fb ! (r * 720 + c * 2 + 1))"

lemma panel_band:
  assumes "(row + rows) * 720 \<le> length fb" "row + rows \<le> 360" "0 < rows" "c < 360"
  shows "gram (panel_run P (band_txns fb row rows)) r c =
    (if row \<le> r \<and> r < row + rows then fb_pixel fb r c else gram P r c)"
proof -
  define bs where "bs = take (rows * 720) (drop (row * 720) fb)"
  define k where "k = (r - row) * 360 + c"
  have fit: "row * 720 + rows * 720 \<le> length fb" using assms(1) by (simp add: distrib_right)
  then have len: "length bs = rows * 720" by (simp add: bs_def)
  have run: "panel_run P (band_txns fb row rows) =
      panel_step (P\<lparr>win_x := (0, 359), win_y := (row, row + rows - 1)\<rparr>) (color_txn bs)"
    using assms by (simp add: band_txns_def panel_run_append panel_window) (simp add: panel_run_def bs_def)
  have g: "gram (panel_run P (band_txns fb row rows)) r c =
      (if row \<le> r \<and> r \<le> row + rows - 1 \<and> 2 * k + 1 < rows * 720
       then (bs ! (2 * k), bs ! (2 * k + 1)) else gram P r c)"
    unfolding run using assms(4)
    by (simp add: panel_step_def color_txn_def cmd_write_color_def ramwr_def fill_window_def len k_def Let_def)
  show ?thesis
  proof (cases "row \<le> r \<and> r < row + rows")
    case False
    then have "\<not> (row \<le> r \<and> r \<le> row + rows - 1)" using assms(3) by linarith
    then show ?thesis using g False by (simp only: if_False simp_thms HOL.if_False cong: conj_cong) auto
  next
    case True
    then have "r - row + 1 \<le> rows" by linarith
    then have "(r - row + 1) * 720 \<le> rows * 720" by (rule mult_le_mono1)
    then have lt: "2 * k + 1 < rows * 720" using assms(4) by (simp add: k_def distrib_right)
    have pos: "row * 720 + 2 * k = r * 720 + c * 2"
    proof -
      obtain j where "r = row + j" using True le_Suc_ex by blast
      then show ?thesis by (simp add: k_def distrib_right)
    qed
    have "bs ! i = fb ! (row * 720 + i)" if "i < rows * 720" for i
      using that fit by (simp add: bs_def)
    with lt have "bs ! (2 * k) = fb ! (r * 720 + c * 2)" "bs ! (2 * k + 1) = fb ! (r * 720 + c * 2 + 1)"
      by (simp_all add: pos add.assoc [symmetric] del: add_Suc_right)
    moreover have "r \<le> row + rows - 1" using True by linarith
    ultimately show ?thesis using g lt True by (simp add: fb_pixel_def)
  qed
qed

lemma panel_bands:
  assumes "(y1 + 1) * 720 \<le> length fb" "y1 < 360" "c < 360"
  shows "gram (panel_run P (bands fb row y1)) r c = (if row \<le> r \<and> r \<le> y1 then fb_pixel fb r c else gram P r c)"
  using assms
proof (induction fb row y1 arbitrary: P rule: bands.induct)
  case (1 fb row y1)
  show ?case
  proof (cases "row \<le> y1")
    case False
    then show ?thesis by (subst bands.simps) (auto simp: panel_run_def)
  next
    case True
    define n where "n = min 41 (y1 + 1 - row)"
    have n: "0 < n" "row + n \<le> y1 + 1" using True by (auto simp: n_def)
    then have "(row + n) * 720 \<le> (y1 + 1) * 720" by (intro mult_le_mono1)
    then have fit: "(row + n) * 720 \<le> length fb" using "1.prems"(1) by simp
    have "bands fb row y1 = band_txns fb row n @ bands fb (row + n) y1"
      using True by (subst bands.simps) (simp add: n_def)
    then show ?thesis
      using "1.IH" [OF True "1.prems", folded n_def] panel_band [OF fit _ n(1) "1.prems"(3), of P r] n "1.prems"(2)
      by (auto simp: panel_run_append)
  qed
qed

section \<open>Properties\<close>

definition panel_sees :: "panel \<Rightarrow> display \<Rightarrow> panel" where
  "panel_sees P d = panel_run P (writes (bus_log (d_spi d)))"

lemma panel_sees_sent: "panel_sees P (d_sent ts d) = panel_run (panel_sees P d) ts"
  by (simp add: panel_sees_def log_sent writes_append panel_run_append)

lemma flush_ok:
  assumes "bus_ok d" "length (framebuffer d) = fb_size"
  shows "flush d = Some (d_sent (window_txns 0 0 359 359 @ bands (framebuffer d) 0 359) d, Inr ())"
proof -
  let ?d = "d_sent (window_txns 0 0 359 359) d"
  have "flush_loop ?d 0 (0 * 720) = flush_rows_loop ?d 0 359"
    using assms by (intro flush_loop_eq) (simp_all add: display_sizes)
  also have "\<dots> = Some (d_sent (bands (framebuffer d) 0 359) ?d, Inr ())"
    using assms flush_rows_loop_ok [of ?d 359 0] by (simp add: display_sizes)
  finally show ?thesis
    using assms by (simp add: flush_def set_window_ok display_sizes d_sent_append)
qed

lemma flush_rows_ok:
  assumes "bus_ok d" "length (framebuffer d) = fb_size"
  shows "flush_rows d y0 y1 = Some (d_sent (bands (framebuffer d) y0 (min y1 359)) d, Inr ())"
proof (cases "y0 > min y1 359")
  case True
  then show ?thesis by (subst bands.simps) (auto simp: flush_rows_def display_sizes)
next
  case False
  then show ?thesis
    using assms flush_rows_loop_ok [of d "min y1 359" y0]
    by (auto simp: flush_rows_def display_sizes Let_def)
qed

text \<open>
  C16. On a bus that accepts the transfers, \<open>flush\<close> returns, leaves the framebuffer alone, and
  afterwards every pixel of the panel's memory is the framebuffer's, whatever the panel held.
\<close>

theorem flush_shows_framebuffer:
  assumes "bus_ok d" "length (framebuffer d) = fb_size"
  shows "\<exists>d'. flush d = Some (d', Inr ()) \<and> framebuffer d' = framebuffer d \<and>
    (\<forall>r c. r < display_height \<longrightarrow> c < display_width \<longrightarrow>
       gram (panel_sees P d') r c = fb_pixel (framebuffer d) r c)"
  using assms panel_bands [of 359 "framebuffer d"]
  by (simp add: flush_ok panel_sees_sent panel_run_append display_sizes)

definition lab_bus :: spi_bus where
  "lab_bus = \<lparr>tx_capacity = 32000, outcome = (\<lambda>_. None), started = 0, bus_log = []\<rparr>"

definition dark_panel :: panel where
  "dark_panel = \<lparr>win_x = (0, 0), win_y = (0, 0), gram = (\<lambda>_ _. (0, 0))\<rparr>"

lemma lab_display: "bus_ok (display_new lab_bus)" "length (framebuffer (display_new lab_bus)) = fb_size"
  by (simp_all add: bus_ok_def display_new_def lab_bus_def display_sizes)

theorem flush_shows_framebuffer_witness:
  "\<exists>d'. flush (display_new lab_bus) = Some (d', Inr ()) \<and> framebuffer d' = framebuffer (display_new lab_bus) \<and>
    (\<forall>r c. r < display_height \<longrightarrow> c < display_width \<longrightarrow>
       gram (panel_sees dark_panel d') r c = fb_pixel (framebuffer (display_new lab_bus)) r c)"
  using flush_shows_framebuffer [OF lab_display] .

text \<open>
  \<open>flush_rows\<close> brings exactly the requested rows (cut at the bottom edge) of the panel up
  to date and touches no other row; an empty or out-of-range request does nothing.
\<close>

theorem flush_rows_updates_band:
  assumes "bus_ok d" "length (framebuffer d) = fb_size"
  shows "\<exists>d'. flush_rows d y0 y1 = Some (d', Inr ()) \<and> framebuffer d' = framebuffer d \<and>
    (\<forall>r c. c < display_width \<longrightarrow> gram (panel_sees P d') r c =
       (if y0 \<le> r \<and> r \<le> y1 \<and> r < display_height then fb_pixel (framebuffer d) r c
        else gram (panel_sees P d) r c))"
  using assms panel_bands [of "min y1 359" "framebuffer d"]
  by (auto simp: flush_rows_ok panel_sees_sent display_sizes)

theorem flush_rows_updates_band_witness:
  "\<exists>d'. flush_rows (display_new lab_bus) 100 400 = Some (d', Inr ()) \<and>
    framebuffer d' = framebuffer (display_new lab_bus) \<and>
    (\<forall>r c. c < display_width \<longrightarrow> gram (panel_sees dark_panel d') r c =
       (if 100 \<le> r \<and> r \<le> 400 \<and> r < display_height then fb_pixel (framebuffer (display_new lab_bus)) r c
        else gram (panel_sees dark_panel (display_new lab_bus)) r c))"
  using flush_rows_updates_band [OF lab_display] .

section \<open>Whatever the bus does\<close>

lemma transfer_framebuffer: "d_transfer d m c a bs = (d', r) \<Longrightarrow> framebuffer d' = framebuffer d"
  by (auto simp: d_transfer_def split: prod.splits)

lemma set_window_framebuffer: "set_window d x0 y0 x1 y1 = (d', r) \<Longrightarrow> framebuffer d' = framebuffer d"
  by (auto simp: set_window_def and_then_def write_register_def Let_def
      split: prod.splits sum.splits dest!: transfer_framebuffer)

lemma send_rows_total:
  assumes "rows \<le> 41" "offset + rows * 720 \<le> length (framebuffer d)"
  shows "\<exists>d' r. send_rows d row rows offset = Some (d', r) \<and> framebuffer d' = framebuffer d"
proof -
  obtain d1 r1 where w: "set_window d 0 row 359 (row + rows - 1) = (d1, r1)"
    by (cases "set_window d 0 row 359 (row + rows - 1)")
  obtain d2 r2 where t: "d_transfer d1 Quad cmd_write_color (push_bit 8 (ucast ramwr))
      (take (rows * 720) (drop offset (framebuffer d1))) = (d2, r2)"
    by (cases "d_transfer d1 Quad cmd_write_color (push_bit 8 (ucast ramwr))
      (take (rows * 720) (drop offset (framebuffer d1)))")
  have fb: "framebuffer d1 = framebuffer d" "framebuffer d2 = framebuffer d"
    using set_window_framebuffer [OF w] transfer_framebuffer [OF t] by simp_all
  then show ?thesis
    using assms w t by (cases r1) (simp_all add: send_rows_def Let_def display_sizes chunk_size_def)
qed

lemma flush_rows_loop_total:
  assumes "(y1 + 1) * 720 \<le> length (framebuffer d)"
  shows "\<exists>d' r. flush_rows_loop d row y1 = Some (d', r) \<and> framebuffer d' = framebuffer d"
  using assms
proof (induction "y1 + 1 - row" arbitrary: d row rule: less_induct)
  case less
  show ?case
  proof (cases "row \<le> y1")
    case False
    then show ?thesis by (simp add: flush_rows_loop.simps)
  next
    case True
    define n where "n = min 41 (y1 + 1 - row)"
    have n: "0 < n" "n \<le> 41" "row + n \<le> y1 + 1" using True by (auto simp: n_def)
    then have "(row + n) * 720 \<le> (y1 + 1) * 720" by (intro mult_le_mono1)
    then have "row * 720 + n * 720 \<le> length (framebuffer d)"
      using less.prems by (simp add: distrib_right)
    from send_rows_total [OF n(2) this, of row]
    obtain d1 r1 where s: "send_rows d row n (row * 720) = Some (d1, r1)" "framebuffer d1 = framebuffer d"
      by blast
    have "\<exists>d' r. flush_rows_loop d1 (row + n) y1 = Some (d', r) \<and> framebuffer d' = framebuffer d1"
      using less.hyps [of "row + n" d1] n s(2) less.prems True by simp
    with s show ?thesis
      using True
      by (subst flush_rows_loop.simps) (cases r1, auto simp: Let_def display_sizes n_def)
  qed
qed

lemma flush_loop_total:
  assumes "length (framebuffer d) = 259200" "row \<le> 360"
  shows "\<exists>d' r. flush_loop d row (row * 720) = Some (d', r) \<and> framebuffer d' = framebuffer d"
  using assms
proof (induction "360 - row" arbitrary: d row rule: less_induct)
  case less
  show ?case
  proof (cases "row = 360")
    case True
    then show ?thesis using less.prems by (subst flush_loop.simps) simp
  next
    case False
    define n where "n = min 41 (360 - row)"
    have n: "0 < n" "n \<le> 41" "row + n \<le> 360" using False less.prems(2) by (auto simp: n_def)
    then have "(row + n) * 720 \<le> 360 * 720" by (intro mult_le_mono1)
    then have "row * 720 + n * 720 \<le> length (framebuffer d)"
      using less.prems(1) by (simp add: distrib_right)
    from send_rows_total [OF n(2) this, of row]
    obtain d1 r1 where s: "send_rows d row n (row * 720) = Some (d1, r1)" "framebuffer d1 = framebuffer d"
      by blast
    have "\<exists>d' r. flush_loop d1 (row + n) ((row + n) * 720) = Some (d', r) \<and> framebuffer d' = framebuffer d1"
      using less.hyps [of "row + n" d1] n s(2) less.prems False by simp
    moreover have "(row + n) * 720 = row * 720 + n * 720" by (rule distrib_right)
    ultimately show ?thesis
      using False less.prems s
      by (subst flush_loop.simps) (cases r1, auto simp: Let_def display_sizes n_def)
  qed
qed

text \<open>
  C27. Both flush operations return on every bus, also when transfers fail at arbitrary points or
  the transmit buffer is too small: no slice is out of range, the copy buffer is never exceeded,
  the loops end, and the framebuffer is what it was.
\<close>

theorem flush_total:
  assumes "length (framebuffer d) = fb_size"
  shows "(\<exists>d' r. flush d = Some (d', r) \<and> framebuffer d' = framebuffer d) \<and>
    (\<exists>d' r. flush_rows d y0 y1 = Some (d', r) \<and> framebuffer d' = framebuffer d)"
proof
  obtain d1 r1 where w: "set_window d 0 0 359 359 = (d1, r1)" by (cases "set_window d 0 0 359 359")
  then have fb: "framebuffer d1 = framebuffer d" by (rule set_window_framebuffer)
  show "\<exists>d' r. flush d = Some (d', r) \<and> framebuffer d' = framebuffer d"
    using w fb assms flush_loop_total [of d1 0]
    by (cases r1) (auto simp: flush_def display_sizes)
  have "(min y1 359 + 1) * 720 \<le> (360 :: nat) * 720" by (intro mult_le_mono1) simp
  then show "\<exists>d' r. flush_rows d y0 y1 = Some (d', r) \<and> framebuffer d' = framebuffer d"
    using flush_rows_loop_total [of "min y1 359" d y0] assms
    by (auto simp: flush_rows_def Let_def display_sizes)
qed

definition glitchy :: display where
  "glitchy = display_new (lab_bus\<lparr>outcome := (\<lambda>k. if k = 3 then Some 1 else None)\<rparr>)"

theorem flush_total_witness:
  "(\<exists>d' r. flush glitchy = Some (d', r) \<and> framebuffer d' = framebuffer glitchy) \<and>
   (\<exists>d' r. flush_rows glitchy 9 8 = Some (d', r) \<and> framebuffer d' = framebuffer glitchy)"
  by (rule flush_total) (simp add: glitchy_def display_new_def)

section \<open>Initialisation\<close>

text \<open>The events of a complete initialisation.\<close>

fun init_events :: "(u8 \<times> u8 list \<times> nat) list \<Rightarrow> bus_event list" where
  "init_events [] = []"
| "init_events ((r, bs, ms) # cmds) =
     Write (reg_txn r bs) # (if ms > 0 then [DelayMs ms] else []) @ init_events cmds"

lemma init_events_append: "init_events (xs @ ys) = init_events xs @ init_events ys"
  by (induction xs rule: init_events.induct) simp_all

definition boot_events :: "bus_event list" where
  "boot_events = [PinRst True, DelayMs 10, PinRst False, DelayMs 10, PinRst True, DelayMs 150,
     Write (reg_txn colmod [colmod_rgb565])] @ init_events init_sequence"

definition d_log :: "display \<Rightarrow> bus_event list" where
  "d_log d = bus_log (d_spi d)"

lemma d_log_emit [simp]: "d_log (d_emit e d) = d_log d @ [e]"
  by (simp add: d_log_def d_emit_def)

lemma write_register_log:
  "write_register d reg bs = (d', r) \<Longrightarrow>
   d_log d' = (if r = Inr () then d_log d @ [Write (reg_txn reg bs)] else d_log d)"
  by (auto simp: write_register_def d_transfer_def half_duplex_write_def reg_txn_def d_log_def Let_def
      split: if_splits option.splits)

lemma walk_init_log:
  "walk_init cmds d = (d', r) \<Longrightarrow>
   \<exists>k. d_log d' = d_log d @ take k (init_events cmds) \<and> (r = Inr () \<longrightarrow> length (init_events cmds) \<le> k)"
proof (induction cmds d rule: walk_init.induct)
  case (1 d)
  then show ?case by simp
next
  case (2 reg bs ms cmds d)
  obtain d1 r1 where w: "write_register d reg bs = (d1, r1)" by (cases "write_register d reg bs")
  show ?case
  proof (cases r1)
    case (Inl e)
    then show ?thesis using "2.prems" write_register_log [OF w] w by (intro exI [of _ 0]) auto
  next
    case (Inr u)
    let ?d = "if ms > 0 then d_emit (DelayMs ms) d1 else d1"
    have "walk_init cmds ?d = (d', r)" using "2.prems" w Inr by simp
    from "2.IH" [OF this] obtain k where k: "d_log d' = d_log ?d @ take k (init_events cmds)"
      "r = Inr () \<longrightarrow> length (init_events cmds) \<le> k" by blast
    then show ?thesis
      using write_register_log [OF w] Inr
      by (intro exI [of _ "(if ms > 0 then 2 else 1) + k"]) simp
  qed
qed

text \<open>
  Initialisation on every bus: what reaches the panel is a prefix of the one boot sequence
  (reset pulse, pixel format, vendor table with its pauses), in order, and success means that
  all of it did; the sequence wakes the panel, waits 120 ms, switches it on and ends with the
  orientation.
\<close>

theorem display_init_prefix:
  "case display_init d of (d', r) \<Rightarrow>
     (\<exists>k. d_log d' = d_log d @ (case r of Inr _ \<Rightarrow> boot_events | Inl _ \<Rightarrow> take k boot_events)) \<and>
     (\<exists>es. boot_events = es @ [Write (reg_txn 0x11 [0]), DelayMs 120, Write (reg_txn 0x29 [0]), Write (reg_txn 0x36 [0])])"
proof -
  obtain d' r where i: "display_init d = (d', r)" by (cases "display_init d")
  define d3 where "d3 = d_emit (DelayMs 150) (d_emit (PinRst True) (d_emit (DelayMs 10) (d_emit (PinRst False)
    (d_emit (DelayMs 10) (d_emit (PinRst True) d)))))"
  obtain d4 r4 where w: "write_register d3 colmod [colmod_rgb565] = (d4, r4)"
    by (cases "write_register d3 colmod [colmod_rgb565]")
  have i3: "and_then (d4, r4) (\<lambda>d _. walk_init init_sequence d) = (d', r)"
    using i w by (simp add: display_init_def d3_def)
  have l3: "d_log d3 = d_log d @ take 6 boot_events"
    by (simp add: d3_def boot_events_def)
  have "\<exists>k. d_log d' = d_log d @ take k boot_events \<and> (r = Inr () \<longrightarrow> length boot_events \<le> k)"
  proof (cases r4)
    case (Inl e)
    then show ?thesis using i3 l3 write_register_log [OF w] by (intro exI [of _ 6]) auto
  next
    case (Inr u)
    then have "walk_init init_sequence d4 = (d', r)" using i3 by simp
    from walk_init_log [OF this] obtain k where k:
      "d_log d' = d_log d4 @ take k (init_events init_sequence)"
      "r = Inr () \<longrightarrow> length (init_events init_sequence) \<le> k" by blast
    have "d_log d4 = d_log d @ take 7 boot_events"
      using write_register_log [OF w] Inr l3 by (simp add: boot_events_def)
    with k show ?thesis
      by (intro exI [of _ "Suc (Suc (Suc (Suc (Suc (Suc (Suc k))))))"]) (simp add: boot_events_def)
  qed
  moreover have "\<exists>es. boot_events = es @ [Write (reg_txn 0x11 [0]), DelayMs 120, Write (reg_txn 0x29 [0]), Write (reg_txn 0x36 [0])]"
  proof -
    have "\<exists>cs. init_sequence = cs @ [(0x11, [0], 120), (0x29, [0], 0), (0x36, [0], 0)]"
      by (rule exI [of _ "take 182 init_sequence"]) (simp add: init_sequence_def)
    then obtain cs where cs: "init_sequence = cs @ [(0x11, [0], 120), (0x29, [0], 0), (0x36, [0], 0)]" by blast
    have "init_events init_sequence = init_events cs @
        [Write (reg_txn 0x11 [0]), DelayMs 120, Write (reg_txn 0x29 [0]), Write (reg_txn 0x36 [0])]"
      unfolding cs init_events_append by simp
    then show ?thesis
      unfolding boot_events_def by (metis append_assoc)
  qed
  ultimately show ?thesis using i by (cases r) (auto simp: take_all)
qed

end
