(* ===== verification/Float32.thy ===== *)
theory Float32
  imports Prelude Complex_Main
begin

text \<open>
  The \<open>f32\<close> arithmetic of the sources: a finite binary32 value is the rational number it
  denotes, and each operation is the exact one followed by rounding to the nearest representable
  value, ties to even, with gradual underflow.  The quantities the program computes (volumes,
  percentages, angles) stay far below \<open>2 ^ 128\<close>, so infinities and NaN are not modelled; the sign
  of zero is not either.
\<close>

section \<open>Rounding\<close>

type_synonym f32 = rat

definition round_half_even :: "rat \<Rightarrow> int" where
  "round_half_even y =
     (let f = \<lfloor>y\<rfloor>; d = y - of_int f
      in if d < 1/2 then f else if 1/2 < d then f + 1 else if even f then f else f + 1)"

text \<open>The exponent of the unit in the last place: 24 significant bits, at least \<open>2 ^ -149\<close>.\<close>

definition f32_exp :: "rat \<Rightarrow> int" where
  "f32_exp x = (case find (\<lambda>k. \<bar>x\<bar> < 2 powi (k + 24)) [- 149..104] of Some k \<Rightarrow> k | None \<Rightarrow> 104)"

definition f32_round :: "rat \<Rightarrow> f32" where
  "f32_round x = of_int (round_half_even (x / 2 powi f32_exp x)) * 2 powi f32_exp x"

definition f32_add :: "f32 \<Rightarrow> f32 \<Rightarrow> f32" where "f32_add a b = f32_round (a + b)"
definition f32_sub :: "f32 \<Rightarrow> f32 \<Rightarrow> f32" where "f32_sub a b = f32_round (a - b)"
definition f32_mul :: "f32 \<Rightarrow> f32 \<Rightarrow> f32" where "f32_mul a b = f32_round (a * b)"
definition f32_div :: "f32 \<Rightarrow> f32 \<Rightarrow> f32" where "f32_div a b = f32_round (a / b)"

text \<open>\<open>f32::round\<close> (half away from zero) and the truncating, saturating \<open>as\<close> casts.\<close>

definition f32_round_away :: "f32 \<Rightarrow> f32" where
  "f32_round_away x = (if 0 \<le> x then of_int \<lfloor>x + 1/2\<rfloor> else - of_int \<lfloor>- x + 1/2\<rfloor>)"

definition trunc :: "f32 \<Rightarrow> int" where
  "trunc x = (if 0 \<le> x then \<lfloor>x\<rfloor> else - \<lfloor>- x\<rfloor>)"

definition as_u8 :: "f32 \<Rightarrow> u8" where
  "as_u8 x = of_int (clamp 0 255 (trunc x))"

definition as_i32 :: "f32 \<Rightarrow> int" where
  "as_i32 x = clamp (- (2 ^ 31)) (2 ^ 31 - 1) (trunc x)"

section \<open>Bounds\<close>

lemma round_half_even_cases: "round_half_even y = \<lfloor>y\<rfloor> \<or> (round_half_even y = \<lfloor>y\<rfloor> + 1 \<and> of_int \<lfloor>y\<rfloor> < y)"
  by (auto simp: round_half_even_def Let_def)

lemma round_half_even_le: "y \<le> of_int n \<Longrightarrow> round_half_even y \<le> n"
  using round_half_even_cases [of y] by (auto simp: floor_le_iff; linarith)

lemma round_half_even_ge: "of_int n \<le> y \<Longrightarrow> n \<le> round_half_even y"
  using round_half_even_cases [of y] by (auto simp: le_floor_iff; linarith)

lemma f32_exp_nonpos:
  assumes "\<bar>x\<bar> < 2 ^ 24"
  shows "f32_exp x \<le> 0"
proof -
  define l where "l = [- 149..104 :: int]"
  let ?P = "\<lambda>k. \<bar>x\<bar> < 2 powi (k + 24)"
  have len: "length l = 254" by (simp only: l_def length_upto; simp)
  have nth: "l ! i = int i - 149" if "i < 254" for i
    unfolding l_def using that by (subst nth_upto) auto
  have hit: "?P (l ! 149)"
    using assms by (simp add: nth power_int_def)
  moreover have "l ! 149 \<in> set l" using len by simp
  ultimately have "find ?P l \<noteq> None" unfolding find_None_iff by blast
  then obtain k where k: "find ?P l = Some k" by blast
  then obtain i where i: "i < length l" "k = l ! i" "\<forall>j<i. \<not> ?P (l ! j)"
    by (auto simp: find_Some_iff)
  then have "i \<le> 149" using hit by (meson not_le)
  moreover have "f32_exp x = k" using k by (simp only: f32_exp_def l_def option.case)
  ultimately show ?thesis using i len by (simp add: nth)
qed

text \<open>An integer bound survives rounding: the integers below \<open>2 ^ 24\<close> are on the grid.\<close>

lemma f32_round_bounds:
  assumes "\<bar>x\<bar> < 2 ^ 24"
  shows "x \<le> of_int n \<Longrightarrow> f32_round x \<le> of_int n" and "of_int n \<le> x \<Longrightarrow> of_int n \<le> f32_round x"
proof -
  obtain j where j: "f32_exp x = - int j"
    using f32_exp_nonpos [OF assms] by (metis nonpos_int_cases)
  have p: "(2 :: rat) powi (- int j) = 1 / 2 ^ j"
    by (simp add: power_int_minus divide_inverse)
  have r: "f32_round x = of_int (round_half_even (x * 2 ^ j)) / 2 ^ j"
    by (simp add: f32_round_def j p)
  have scale: "of_int (n * 2 ^ j) = (of_int n * 2 ^ j :: rat)" by simp
  show "f32_round x \<le> of_int n" if "x \<le> of_int n"
  proof -
    have "x * 2 ^ j \<le> of_int (n * 2 ^ j)" using that by (simp add: mult_right_mono)
    then have "round_half_even (x * 2 ^ j) \<le> n * 2 ^ j" by (rule round_half_even_le)
    then have "(of_int (round_half_even (x * 2 ^ j)) :: rat) \<le> of_int (n * 2 ^ j)" by (simp only: of_int_le_iff)
    then show ?thesis by (simp add: r divide_le_eq)
  qed
  show "of_int n \<le> f32_round x" if "of_int n \<le> x"
  proof -
    have "of_int (n * 2 ^ j) \<le> x * 2 ^ j" using that by (simp add: mult_right_mono)
    then have "n * 2 ^ j \<le> round_half_even (x * 2 ^ j)" by (rule round_half_even_ge)
    then have "(of_int (n * 2 ^ j) :: rat) \<le> of_int (round_half_even (x * 2 ^ j))" by (simp only: of_int_le_iff)
    then show ?thesis by (simp add: r le_divide_eq)
  qed
qed

lemma f32_round_int: "\<bar>n\<bar> < 2 ^ 24 \<Longrightarrow> f32_round (of_int n) = of_int n"
proof -
  assume "\<bar>n\<bar> < 2 ^ 24"
  then have "\<bar>of_int n :: rat\<bar> < 2 ^ 24"
    by (metis of_int_abs of_int_less_iff of_int_numeral of_int_power)
  then show ?thesis by (intro antisym) (simp_all add: f32_round_bounds)
qed

lemma f32_round_0 [simp]: "f32_round 0 = 0"
  using f32_round_int [of 0] by simp

text \<open>The conversion \<open>(v * 100.0).round() as u8\<close> of a volume to a percentage.\<close>

definition volume_level :: "f32 \<Rightarrow> u8" where
  "volume_level v = as_u8 (f32_round_away (f32_mul v 100))"

lemma trunc_of_int [simp]: "trunc (of_int n) = n"
  by (simp add: trunc_def flip: of_int_minus)

lemma volume_level_le:
  assumes "0 \<le> v" "v \<le> 1"
  shows "unat (volume_level v) \<le> 100"
proof -
  have "\<bar>v * 100\<bar> < 2 ^ 24" using assms by (simp add: abs_mult)
  from f32_round_bounds [OF this, of 100] f32_round_bounds [OF this, of 0] assms
  have b: "f32_mul v 100 \<le> 100" "0 \<le> f32_mul v 100"
    by (simp_all add: f32_mul_def)
  define n where "n = \<lfloor>f32_mul v 100 + 1/2\<rfloor>"
  have n: "0 \<le> n" "n \<le> 100" using b unfolding n_def floor_le_iff by simp_all
  have "volume_level v = of_int n"
    using n b(2) by (simp add: volume_level_def f32_round_away_def as_u8_def n_def [symmetric] clamp_def)
  moreover have "unat (of_int n :: u8) = nat n"
    using n by (simp add: unsigned_of_int take_bit_int_eq_self)
  ultimately show ?thesis using n by simp
qed

end
