(* ===== verification/Framebuffer.thy ===== *)
theory Framebuffer
  imports Panel Float32
begin

text \<open>
  Drawing into the framebuffer (\<open>firmware/src/sh8601/mod.rs\<close>): the three scanline fills of the
  volume ring and the \<open>DrawTarget\<close> operations.  An index out of range panics, so each operation
  returns an option.  The square root, sine and cosine of \<open>libm\<close> and the rectangle intersection
  of \<open>embedded-graphics\<close> are parameters.
\<close>

section \<open>Pixels\<close>

definition raw_hi :: "u16 \<Rightarrow> u8" where "raw_hi raw = ucast (drop_bit 8 raw)"
definition raw_lo :: "u16 \<Rightarrow> u8" where "raw_lo raw = ucast (raw AND 0xFF)"

definition put_px :: "u8 \<Rightarrow> u8 \<Rightarrow> nat \<Rightarrow> u8 list \<Rightarrow> u8 list option" where
  "put_px hi lo idx fb = (if idx + 1 < length fb then Some (fb[idx := hi, idx + 1 := lo]) else None)"

text \<open>The cast \<open>as usize\<close> of an \<open>i32\<close> on the 32-bit target.\<close>

definition as_usize :: "int \<Rightarrow> nat" where
  "as_usize i = nat (i mod 2 ^ 32)"

type_synonym sqrt_fn = "f32 \<Rightarrow> f32"

text \<open>\<open>libm::sqrtf(v as f32) as i32\<close>\<close>

definition root_of :: "sqrt_fn \<Rightarrow> int \<Rightarrow> int" where
  "root_of sqrtf v = as_i32 (sqrtf (f32_round (of_int v)))"

section \<open>Ring fills\<close>

text \<open>\<open>for x in x0..=x1\<close> over \<open>usize\<close> indices, and over \<open>i32\<close> coordinates with a test.\<close>

definition span_usize :: "u8 \<Rightarrow> u8 \<Rightarrow> nat \<Rightarrow> nat \<Rightarrow> nat \<Rightarrow> u8 list \<Rightarrow> u8 list option" where
  "span_usize hi lo base x0 x1 fb = fold_opt (\<lambda>x. put_px hi lo (base + x * 2)) [x0..<Suc x1] fb"

definition span_i32 :: "(int \<Rightarrow> bool) \<Rightarrow> u8 \<Rightarrow> u8 \<Rightarrow> nat \<Rightarrow> int \<Rightarrow> int \<Rightarrow> u8 list \<Rightarrow> u8 list option" where
  "span_i32 keep hi lo base x0 x1 fb =
     fold_opt (\<lambda>xi fb. if keep xi then put_px hi lo (base + as_usize xi * 2) fb else Some fb) [x0..x1] fb"

definition ring_row :: "sqrt_fn \<Rightarrow> int \<Rightarrow> int \<Rightarrow> int \<Rightarrow> int \<Rightarrow> u8 \<Rightarrow> u8 \<Rightarrow> int \<Rightarrow> u8 list \<Rightarrow> u8 list option" where
  "ring_row sqrtf cx cy inner_r2 outer_r2 hi lo dy fb =
     (let w = int display_width; h = int display_height; dy2 = dy * dy; y = cy + dy in
      if dy2 > outer_r2 then Some fb
      else if y < 0 \<or> y \<ge> h then Some fb
      else
        let base = as_usize y * row_bytes; x_outer = root_of sqrtf (outer_r2 - dy2) in
        if dy2 \<ge> inner_r2 then
          span_usize hi lo base (as_usize (max (cx - x_outer) 0)) (as_usize (min (cx + x_outer) (w - 1))) fb
        else
          let x_inner = root_of sqrtf (inner_r2 - dy2);
              lx0 = as_usize (max (cx - x_outer) 0); lx1 = as_usize (min (cx - x_inner) (w - 1));
              rx0 = as_usize (max (cx + x_inner) 0); rx1 = as_usize (min (cx + x_outer) (w - 1))
          in Option.bind (span_usize hi lo base lx0 lx1 fb) (span_usize hi lo base rx0 rx1))"

definition fill_ring :: "sqrt_fn \<Rightarrow> int \<Rightarrow> int \<Rightarrow> int \<Rightarrow> int \<Rightarrow> u16 \<Rightarrow> u8 list \<Rightarrow> u8 list option" where
  "fill_ring sqrtf cx cy inner_r outer_r color fb =
     fold_opt (ring_row sqrtf cx cy (inner_r * inner_r) (outer_r * outer_r) (raw_hi color) (raw_lo color))
       [- outer_r..outer_r] fb"

text \<open>
  The two tested fills share their row: \<open>skip\<close> is the row-level test of the 270-degree fill,
  \<open>keep\<close> the pixel test on the offset from the centre.
\<close>

definition tested_row ::
  "sqrt_fn \<Rightarrow> (int \<Rightarrow> int \<Rightarrow> bool) \<Rightarrow> (int \<Rightarrow> int \<Rightarrow> bool) \<Rightarrow> int \<Rightarrow> int \<Rightarrow> int \<Rightarrow> int \<Rightarrow> u8 \<Rightarrow> u8 \<Rightarrow> int \<Rightarrow>
   u8 list \<Rightarrow> u8 list option" where
  "tested_row sqrtf skip keep cx cy inner_r2 outer_r2 hi lo dy fb =
     (let w = int display_width; h = int display_height; dy2 = dy * dy; y = cy + dy in
      if dy2 > outer_r2 then Some fb
      else if y < 0 \<or> y \<ge> h then Some fb
      else
        let base = as_usize y * row_bytes; x_outer = root_of sqrtf (outer_r2 - dy2);
            span = span_i32 (\<lambda>xi. keep (xi - cx) dy) hi lo base in
        if skip x_outer dy then Some fb
        else if dy2 \<ge> inner_r2 then span (max (cx - x_outer) 0) (min (cx + x_outer) (w - 1)) fb
        else
          let x_inner = root_of sqrtf (inner_r2 - dy2) in
          Option.bind (span (max (cx - x_outer) 0) (min (cx - x_inner) (w - 1)) fb)
            (span (max (cx + x_inner) 0) (min (cx + x_outer) (w - 1))))"

definition fill_ring_270 :: "sqrt_fn \<Rightarrow> int \<Rightarrow> int \<Rightarrow> int \<Rightarrow> int \<Rightarrow> u16 \<Rightarrow> u8 list \<Rightarrow> u8 list option" where
  "fill_ring_270 sqrtf cx cy inner_r outer_r color fb =
     fold_opt (tested_row sqrtf (\<lambda>x_outer dy. dy > x_outer) (\<lambda>dx dy. \<not> dy > \<bar>dx\<bar>)
         cx cy (inner_r * inner_r) (outer_r * outer_r) (raw_hi color) (raw_lo color))
       [- outer_r..outer_r] fb"

text \<open>\<open>core::f32::consts::PI\<close>\<close>

definition f32_pi :: f32 where "f32_pi = 13176795 / 4194304"

text \<open>The pixel test of the partial arc: two half planes, joined by "or" past 180 degrees.\<close>

definition in_fill :: "f32 \<Rightarrow> f32 \<Rightarrow> bool \<Rightarrow> int \<Rightarrow> int \<Rightarrow> bool" where
  "in_fill bx by' use_or dx dy =
     (let after_start = dx + dy \<le> 0;
          before_end = f32_sub (f32_mul (f32_round (of_int dx)) by') (f32_mul (f32_round (of_int dy)) bx) \<ge> 0
      in if use_or then after_start \<or> before_end else after_start \<and> before_end)"

definition fill_ring_arc ::
  "sqrt_fn \<Rightarrow> (f32 \<Rightarrow> f32) \<Rightarrow> (f32 \<Rightarrow> f32) \<Rightarrow> int \<Rightarrow> int \<Rightarrow> int \<Rightarrow> int \<Rightarrow> f32 \<Rightarrow> u16 \<Rightarrow> u8 list \<Rightarrow> u8 list option" where
  "fill_ring_arc sqrtf cosf sinf cx cy inner_r outer_r sweep_deg color fb =
     (let end_rad = f32_div (f32_mul (f32_add 135 sweep_deg) f32_pi) 180;
          bx = cosf end_rad; by' = sinf end_rad; use_or = sweep_deg > 180
      in fold_opt (tested_row sqrtf (\<lambda>_ _. False) (in_fill bx by' use_or)
             cx cy (inner_r * inner_r) (outer_r * outer_r) (raw_hi color) (raw_lo color))
           [- outer_r..outer_r] fb)"

section \<open>The DrawTarget operations\<close>

definition draw_iter_step :: "(int \<times> int) \<times> u16 \<Rightarrow> u8 list \<Rightarrow> u8 list option" where
  "draw_iter_step p fb =
     (case p of ((x, y), color) \<Rightarrow>
        if x < 0 \<or> y < 0 \<or> x \<ge> int display_width \<or> y \<ge> int display_height then Some fb
        else put_px (raw_hi color) (raw_lo color) (as_usize y * (display_width * 2) + as_usize x * 2) fb)"

definition draw_iter :: "((int \<times> int) \<times> u16) list \<Rightarrow> u8 list \<Rightarrow> u8 list option" where
  "draw_iter pixels fb = fold_opt draw_iter_step pixels fb"

record rectangle =
  rect_x :: int
  rect_y :: int
  rect_w :: nat
  rect_h :: nat

definition screen :: rectangle where
  "screen = \<lparr>rect_x = 0, rect_y = 0, rect_w = display_width, rect_h = display_height\<rparr>"

fun contiguous_loop :: "nat \<Rightarrow> nat \<Rightarrow> nat \<Rightarrow> nat \<Rightarrow> nat \<Rightarrow> nat \<Rightarrow> u16 list \<Rightarrow> u8 list \<Rightarrow> u8 list option" where
  "contiguous_loop x0 y0 width height col row [] fb = Some fb"
| "contiguous_loop x0 y0 width height col row (color # colors) fb =
     (if row \<ge> height then Some fb
      else case put_px (raw_hi color) (raw_lo color) ((y0 + row) * (display_width * 2) + (x0 + col) * 2) fb of
        None \<Rightarrow> None
      | Some fb \<Rightarrow>
          if col + 1 \<ge> width then contiguous_loop x0 y0 width height 0 (row + 1) colors fb
          else contiguous_loop x0 y0 width height (col + 1) row colors fb)"

definition fill_contiguous ::
  "(rectangle \<Rightarrow> rectangle \<Rightarrow> rectangle) \<Rightarrow> rectangle \<Rightarrow> u16 list \<Rightarrow> u8 list \<Rightarrow> u8 list option" where
  "fill_contiguous intersection area colors fb =
     (let area = intersection area screen in
      if rect_w area = 0 \<or> rect_h area = 0 then Some fb
      else contiguous_loop (as_usize (rect_x area)) (as_usize (rect_y area)) (rect_w area) (rect_h area) 0 0 colors fb)"

fun clear_loop :: "u8 \<Rightarrow> u8 \<Rightarrow> u8 list \<Rightarrow> u8 list" where
  "clear_loop hi lo (a # b # fb) = hi # lo # clear_loop hi lo fb"
| "clear_loop hi lo fb = fb"

definition clear_fb :: "u16 \<Rightarrow> u8 list \<Rightarrow> u8 list" where
  "clear_fb color fb = clear_loop (raw_hi color) (raw_lo color) fb"

section \<open>What an operation paints\<close>

definition painted :: "(nat \<Rightarrow> nat \<Rightarrow> bool) \<Rightarrow> pixel_bytes \<Rightarrow> u8 list \<Rightarrow> u8 list \<Rightarrow> bool" where
  "painted S px fb fb' \<longleftrightarrow> length fb' = length fb \<and>
     (\<forall>r c. r < 360 \<longrightarrow> c < 360 \<longrightarrow> fb_pixel fb' r c = (if S r c then px else fb_pixel fb r c))"

lemma painted_none: "(\<And>r c. r < 360 \<Longrightarrow> c < 360 \<Longrightarrow> \<not> S r c) \<Longrightarrow> painted S px fb fb"
  by (simp add: painted_def)

lemma painted_length: "painted S px fb fb' \<Longrightarrow> length fb' = length fb"
  by (simp add: painted_def)

lemma painted_trans:
  "painted S px fb fb1 \<Longrightarrow> painted T px fb1 fb2 \<Longrightarrow> painted (\<lambda>r c. S r c \<or> T r c) px fb fb2"
  by (simp add: painted_def)

lemma painted_cong:
  "painted S px fb fb' \<Longrightarrow> (\<And>r c. r < 360 \<Longrightarrow> c < 360 \<Longrightarrow> S r c = T r c) \<Longrightarrow> painted T px fb fb'"
  by (simp add: painted_def)

lemma fold_painted:
  assumes "\<And>x fb. x \<in> set xs \<Longrightarrow> length fb = n \<Longrightarrow> \<exists>fb'. f x fb = Some fb' \<and> painted (S x) px fb fb'"
    and "length fb = n"
  shows "\<exists>fb'. fold_opt f xs fb = Some fb' \<and> painted (\<lambda>r c. \<exists>x\<in>set xs. S x r c) px fb fb'"
  using assms
proof (induction xs arbitrary: fb)
  case Nil
  then show ?case by (simp add: painted_none)
next
  case (Cons x xs)
  obtain fb1 where 1: "f x fb = Some fb1" "painted (S x) px fb fb1"
    using Cons.prems(1) [OF list.set_intros(1) Cons.prems(2)] by blast
  obtain fb2 where 2: "fold_opt f xs fb1 = Some fb2" "painted (\<lambda>r c. \<exists>x\<in>set xs. S x r c) px fb1 fb2"
    using Cons.IH [OF Cons.prems(1) [OF list.set_intros(2)], of fb1] Cons.prems(2) painted_length [OF 1(2)]
    by auto
  from 1 2 painted_trans [OF 1(2) 2(2)] show ?case by simp
qed

lemma px_index:
  assumes "c < 360" "x < 360"
  shows "r * 720 + c * 2 = y * 720 + x * 2 \<longleftrightarrow> r = y \<and> c = (x :: nat)"
proof
  assume eq: "r * 720 + c * 2 = y * 720 + x * 2"
  have "r = (r * 720 + c * 2) div 720" using assms(1) by simp
  also have "\<dots> = y" unfolding eq using assms(2) by simp
  finally show "r = y \<and> c = x" using eq by simp
qed simp

lemma px_parity: "r * 720 + c * 2 \<noteq> Suc (y * 720 + x * 2)"
proof -
  have "2 dvd r * 720 + c * 2" "2 dvd y * 720 + x * 2"
    by (intro dvd_add dvd_mult dvd_triv_right; simp)+
  then show ?thesis by (metis even_Suc)
qed

lemma put_px_painted:
  assumes "length fb = 259200" "y < 360" "x < 360"
  shows "\<exists>fb'. put_px hi lo (y * 720 + x * 2) fb = Some fb' \<and> painted (\<lambda>r c. r = y \<and> c = x) (hi, lo) fb fb'"
proof -
  let ?i = "y * 720 + x * 2"
  have i: "?i + 1 < length fb" using assms by simp
  have eq: "r * 720 + c * 2 = ?i \<longleftrightarrow> r = y \<and> c = x" "r * 720 + c * 2 \<noteq> Suc ?i" "Suc (r * 720 + c * 2) \<noteq> ?i"
    if "c < 360" for r c
    by (rule px_index [OF that assms(3)], rule px_parity, rule px_parity [symmetric])
  have "painted (\<lambda>r c. r = y \<and> c = x) (hi, lo) fb (fb[?i := hi, ?i + 1 := lo])"
    unfolding painted_def fb_pixel_def
  proof (intro conjI allI impI)
    fix r c :: nat assume rc: "r < 360" "c < 360"
    show "((fb[?i := hi, ?i + 1 := lo]) ! (r * 720 + c * 2), (fb[?i := hi, ?i + 1 := lo]) ! (r * 720 + c * 2 + 1)) =
      (if r = y \<and> c = x then (hi, lo) else (fb ! (r * 720 + c * 2), fb ! (r * 720 + c * 2 + 1)))"
      using eq [OF rc(2)] i by (simp add: nth_list_update eq_commute [of ?i] eq_commute [of "Suc ?i"])
  qed simp
  with i show ?thesis by (simp add: put_px_def)
qed

lemma as_usize_eq: "0 \<le> i \<Longrightarrow> i < 2 ^ 32 \<Longrightarrow> as_usize i = nat i"
  by (simp add: as_usize_def)

text \<open>The colour of an operation, as two bytes.\<close>

definition color_bytes :: "u16 \<Rightarrow> pixel_bytes" where
  "color_bytes raw = (raw_hi raw, raw_lo raw)"

lemma span_usize_painted:
  assumes "length fb = 259200" "y < 360" "x1 < 360"
  shows "\<exists>fb'. span_usize hi lo (y * 720) x0 x1 fb = Some fb' \<and>
    painted (\<lambda>r c. r = y \<and> x0 \<le> c \<and> c \<le> x1) (hi, lo) fb fb'"
proof -
  have "\<exists>fb'. span_usize hi lo (y * 720) x0 x1 fb = Some fb' \<and>
    painted (\<lambda>r c. \<exists>x\<in>set [x0..<Suc x1]. r = y \<and> c = x) (hi, lo) fb fb'"
    unfolding span_usize_def
    by (rule fold_painted [OF put_px_painted]) (use assms in auto)
  then show ?thesis by (elim exE conjE) (intro exI conjI, assumption, erule painted_cong, auto)
qed

lemma span_i32_painted:
  assumes "length fb = 259200" "y < 360" "0 \<le> x0" "x1 < 360"
  shows "\<exists>fb'. span_i32 keep hi lo (y * 720) x0 x1 fb = Some fb' \<and>
    painted (\<lambda>r c. r = y \<and> x0 \<le> int c \<and> int c \<le> x1 \<and> keep (int c)) (hi, lo) fb fb'"
proof -
  have "\<exists>fb'. span_i32 keep hi lo (y * 720) x0 x1 fb = Some fb' \<and>
    painted (\<lambda>r c. \<exists>x\<in>set [x0..x1]. r = y \<and> int c = x \<and> keep x) (hi, lo) fb fb'"
    unfolding span_i32_def
  proof (rule fold_painted [OF _ assms(1)])
    fix x and fb :: "u8 list"
    assume x: "x \<in> set [x0..x1]" and len: "length fb = 259200"
    then have "0 \<le> x" "x < 360" using assms(3,4) by auto
    then have "as_usize x = nat x" "nat x < 360" by (simp_all add: as_usize_eq)
    with put_px_painted [OF len assms(2), of "nat x" hi lo] x assms(3)
    show "\<exists>fb'. (if keep x then put_px hi lo (y * 720 + as_usize x * 2) fb else Some fb) = Some fb' \<and>
        painted (\<lambda>r c. r = y \<and> int c = x \<and> keep x) (hi, lo) fb fb'"
      by (auto simp: painted_none elim!: painted_cong)
  qed
  then show ?thesis by (elim exE conjE) (intro exI conjI, assumption, erule painted_cong, auto)
qed

section \<open>The ring fills paint their rings\<close>

text \<open>
  The contract of the square root: on the integers the fills use, truncating it gives the
  integer square root (which holds of any root accurate to a thousandth).
\<close>

definition sqrt_contract :: "sqrt_fn \<Rightarrow> bool" where
  "sqrt_contract sqrtf \<longleftrightarrow> (\<forall>n::int. 0 \<le> n \<longrightarrow> n < 65536 \<longrightarrow>
     (let s = as_i32 (sqrtf (of_int n)) in 0 \<le> s \<and> s * s \<le> n \<and> n < (s + 1) * (s + 1)))"

lemma root_of_contract:
  assumes "sqrt_contract sqrtf" "0 \<le> n" "n < 65536"
  shows "0 \<le> root_of sqrtf n" "root_of sqrtf n * root_of sqrtf n \<le> n" "n < (root_of sqrtf n + 1) * (root_of sqrtf n + 1)"
proof -
  have "f32_round (of_int n) = of_int n" by (rule f32_round_int) (use assms in simp)
  then show "0 \<le> root_of sqrtf n" "root_of sqrtf n * root_of sqrtf n \<le> n"
      "n < (root_of sqrtf n + 1) * (root_of sqrtf n + 1)"
    using assms by (auto simp: sqrt_contract_def root_of_def Let_def)
qed

lemma root_le_iff:
  assumes "sqrt_contract sqrtf" "0 \<le> n" "n < 65536"
  shows "\<bar>x\<bar> \<le> root_of sqrtf n \<longleftrightarrow> x * x \<le> n"
proof -
  let ?s = "root_of sqrtf n"
  note s = root_of_contract [OF assms]
  show ?thesis
  proof
    assume "\<bar>x\<bar> \<le> ?s"
    then have "\<bar>x\<bar> * \<bar>x\<bar> \<le> ?s * ?s" by (intro mult_mono) simp_all
    with s show "x * x \<le> n" by simp
  next
    assume le: "x * x \<le> n"
    show "\<bar>x\<bar> \<le> ?s"
    proof (rule ccontr)
      assume "\<not> \<bar>x\<bar> \<le> ?s"
      then have "(?s + 1) * (?s + 1) \<le> \<bar>x\<bar> * \<bar>x\<bar>" using s(1) by (intro mult_mono) simp_all
      with s le show False by simp
    qed
  qed
qed

lemma root_ge_iff:
  assumes "sqrt_contract sqrtf" "0 \<le> n" "n < 65536"
  shows "root_of sqrtf n \<le> \<bar>x\<bar> \<longleftrightarrow> n < (\<bar>x\<bar> + 1) * (\<bar>x\<bar> + 1)"
  using root_le_iff [OF assms, of "\<bar>x\<bar> + 1"] by auto

text \<open>The annulus the fills approximate: the disc less the open disc of the inner scanlines.\<close>

definition in_annulus :: "int \<Rightarrow> int \<Rightarrow> int \<Rightarrow> int \<Rightarrow> bool" where
  "in_annulus inner_r outer_r dx dy \<longleftrightarrow>
     dx * dx + dy * dy \<le> outer_r * outer_r \<and>
     (inner_r * inner_r \<le> dy * dy \<or> inner_r * inner_r < (\<bar>dx\<bar> + 1) * (\<bar>dx\<bar> + 1) + dy * dy)"

definition ring_fits :: "int \<Rightarrow> int \<Rightarrow> int \<Rightarrow> bool" where
  "ring_fits cx inner_r outer_r \<longleftrightarrow> 0 \<le> inner_r \<and> inner_r \<le> outer_r \<and> outer_r < 256 \<and> inner_r \<le> cx \<and> cx < 360"

text \<open>One row, in terms of the two roots.\<close>

lemma annulus_row:
  assumes "sqrt_contract sqrtf" "ring_fits cx inner_r outer_r" "dy * dy \<le> outer_r * outer_r"
  defines "xo \<equiv> root_of sqrtf (outer_r * outer_r - dy * dy)"
    and "xi \<equiv> root_of sqrtf (inner_r * inner_r - dy * dy)"
  shows "0 \<le> xo" and "inner_r * inner_r \<le> dy * dy \<Longrightarrow> in_annulus inner_r outer_r dx dy \<longleftrightarrow> \<bar>dx\<bar> \<le> xo"
    and "\<not> inner_r * inner_r \<le> dy * dy \<Longrightarrow> 0 \<le> xi \<and> xi \<le> inner_r \<and>
      (in_annulus inner_r outer_r dx dy \<longleftrightarrow> xi \<le> \<bar>dx\<bar> \<and> \<bar>dx\<bar> \<le> xo)"
proof -
  have sq: "outer_r * outer_r < 65536" "inner_r * inner_r \<le> outer_r * outer_r"
  proof -
    have "outer_r * outer_r \<le> 255 * 255" using assms(2) by (intro mult_mono) (auto simp: ring_fits_def)
    then show "outer_r * outer_r < 65536" by simp
    show "inner_r * inner_r \<le> outer_r * outer_r" using assms(2) by (intro mult_mono) (auto simp: ring_fits_def)
  qed
  have o: "0 \<le> outer_r * outer_r - dy * dy" "outer_r * outer_r - dy * dy < 65536"
    using assms(3) sq zero_le_square [of dy] by linarith+
  note outer = root_le_iff [OF assms(1) o, folded xo_def, of dx]
  show "0 \<le> xo" unfolding xo_def by (rule root_of_contract(1) [OF assms(1) o])
  have dxo: "dx * dx + dy * dy \<le> outer_r * outer_r \<longleftrightarrow> \<bar>dx\<bar> \<le> xo"
    unfolding outer by linarith
  show "inner_r * inner_r \<le> dy * dy \<Longrightarrow> in_annulus inner_r outer_r dx dy \<longleftrightarrow> \<bar>dx\<bar> \<le> xo"
    unfolding in_annulus_def dxo by simp
  assume lt: "\<not> inner_r * inner_r \<le> dy * dy"
  then have i: "0 \<le> inner_r * inner_r - dy * dy" "inner_r * inner_r - dy * dy < 65536"
    using sq zero_le_square [of dy] by linarith+
  note inner = root_ge_iff [OF assms(1) i, folded xi_def, of dx]
  have "xi * xi \<le> inner_r * inner_r"
    using root_of_contract(2) [OF assms(1) i] zero_le_square [of dy] unfolding xi_def by linarith
  then have "xi \<le> inner_r"
    using assms(2) by (metis abs_le_square_iff abs_of_nonneg abs_le_iff power2_eq_square ring_fits_def)
  moreover have "0 \<le> xi" unfolding xi_def by (rule root_of_contract(1) [OF assms(1) i])
  moreover have "inner_r * inner_r < (\<bar>dx\<bar> + 1) * (\<bar>dx\<bar> + 1) + dy * dy \<longleftrightarrow> xi \<le> \<bar>dx\<bar>"
    unfolding inner by linarith
  ultimately show "0 \<le> xi \<and> xi \<le> inner_r \<and> (in_annulus inner_r outer_r dx dy \<longleftrightarrow> xi \<le> \<bar>dx\<bar> \<and> \<bar>dx\<bar> \<le> xo)"
    unfolding in_annulus_def dxo using lt by auto
qed

lemma spans_usize:
  assumes "0 \<le> xi" "xi \<le> cx" "0 \<le> xo" "cx < 360" "c < 360"
  shows "(nat (max (cx - xo) 0) \<le> c \<and> c \<le> nat (min (cx - xi) 359)) \<or>
      (nat (max (cx + xi) 0) \<le> c \<and> c \<le> nat (min (cx + xo) 359)) \<longleftrightarrow>
    xi \<le> \<bar>int c - cx\<bar> \<and> \<bar>int c - cx\<bar> \<le> xo"
    and "nat (max (cx - xo) 0) \<le> c \<and> c \<le> nat (min (cx + xo) 359) \<longleftrightarrow> \<bar>int c - cx\<bar> \<le> xo"
  using assms by linarith+

lemma spans_i32:
  assumes "0 \<le> xi" "xi \<le> cx" "0 \<le> xo" "cx < 360" "c < 360"
  shows "(max (cx - xo) 0 \<le> int c \<and> int c \<le> min (cx - xi) 359) \<or>
      (max (cx + xi) 0 \<le> int c \<and> int c \<le> min (cx + xo) 359) \<longleftrightarrow>
    xi \<le> \<bar>int c - cx\<bar> \<and> \<bar>int c - cx\<bar> \<le> xo"
    and "max (cx - xo) 0 \<le> int c \<and> int c \<le> min (cx + xo) 359 \<longleftrightarrow> \<bar>int c - cx\<bar> \<le> xo"
  using assms by linarith+

lemma bind_painted:
  assumes "\<exists>fb1. f fb = Some fb1 \<and> painted S px fb fb1"
    and "\<And>fb1. length fb1 = length fb \<Longrightarrow> \<exists>fb2. g fb1 = Some fb2 \<and> painted T px fb1 fb2"
  shows "\<exists>fb2. Option.bind (f fb) g = Some fb2 \<and> painted (\<lambda>r c. S r c \<or> T r c) px fb fb2"
proof -
  obtain fb1 where 1: "f fb = Some fb1" "painted S px fb fb1" using assms(1) by blast
  obtain fb2 where 2: "g fb1 = Some fb2" "painted T px fb1 fb2"
    using assms(2) [OF painted_length [OF 1(2)]] by blast
  from 1 2 painted_trans [OF 1(2) 2(2)] show ?thesis by simp
qed

lemma some_painted_cong:
  "\<exists>fb'. a = Some fb' \<and> painted S px fb fb' \<Longrightarrow> (\<And>r c. r < 360 \<Longrightarrow> c < 360 \<Longrightarrow> S r c = T r c) \<Longrightarrow>
   \<exists>fb'. a = Some fb' \<and> painted T px fb fb'"
  by (auto elim!: painted_cong)

lemma ring_row_painted:
  assumes "sqrt_contract sqrtf" "ring_fits cx inner_r outer_r" "length fb = 259200"
  shows "\<exists>fb'. ring_row sqrtf cx cy (inner_r * inner_r) (outer_r * outer_r) hi lo dy fb = Some fb' \<and>
    painted (\<lambda>r c. int r = cy + dy \<and> in_annulus inner_r outer_r (int c - cx) dy) (hi, lo) fb fb'"
proof (cases "dy * dy > outer_r * outer_r \<or> cy + dy < 0 \<or> cy + dy \<ge> 360")
  case True
  have "\<not> in_annulus inner_r outer_r dx dy" if "dy * dy > outer_r * outer_r" for dx
    using that zero_le_square [of dx] unfolding in_annulus_def by linarith
  with True show ?thesis
    by (auto simp: ring_row_def Let_def display_sizes intro!: painted_none)
next
  case False
  then have le: "dy * dy \<le> outer_r * outer_r" by simp
  define y where "y = nat (cy + dy)"
  have y: "y < 360" "int y = cy + dy" "as_usize (cy + dy) = y" using False by (auto simp: y_def as_usize_eq)
  define xo where "xo = root_of sqrtf (outer_r * outer_r - dy * dy)"
  define xi where "xi = root_of sqrtf (inner_r * inner_r - dy * dy)"
  note row = annulus_row [OF assms(1,2) le, folded xo_def xi_def]
  have cx: "0 \<le> cx" "cx < 360" "inner_r < 256" "inner_r \<le> cx" using assms(2) by (auto simp: ring_fits_def)
  note xo0 = row(1)
  have u: "as_usize (max (cx - xo) 0) = nat (max (cx - xo) 0)"
    "as_usize (min (cx + xo) 359) = nat (min (cx + xo) 359)" "nat (min (cx + xo) 359) < 360"
    using cx xo0 by (simp_all add: as_usize_eq)
  show ?thesis
  proof (cases "inner_r * inner_r \<le> dy * dy")
    case True
    have "ring_row sqrtf cx cy (inner_r * inner_r) (outer_r * outer_r) hi lo dy fb =
        span_usize hi lo (y * 720) (nat (max (cx - xo) 0)) (nat (min (cx + xo) 359)) fb"
      using True False y u by (simp add: ring_row_def Let_def display_sizes xo_def [symmetric])
    then show ?thesis
      using span_usize_painted [OF assms(3) y(1) u(3), of hi lo "nat (max (cx - xo) 0)"]
        spans_usize(2) [OF _ _ xo0 cx(2), of 0] row(2) [OF True] cx(1) y(2)
      by (elim some_painted_cong [THEN exE]; simp) (auto elim!: painted_cong)
  next
    case inner: False
    have xi: "0 \<le> xi" "xi \<le> inner_r" using row(3) [OF inner] by blast+
    then have xi_cx: "xi \<le> cx" using cx(4) by linarith
    have v: "as_usize (min (cx - xi) 359) = nat (min (cx - xi) 359)" "nat (min (cx - xi) 359) < 360"
      "as_usize (max (cx + xi) 0) = nat (max (cx + xi) 0)"
      using cx xi xi_cx by (simp_all add: as_usize_eq)
    have eq: "ring_row sqrtf cx cy (inner_r * inner_r) (outer_r * outer_r) hi lo dy fb =
        Option.bind (span_usize hi lo (y * 720) (nat (max (cx - xo) 0)) (nat (min (cx - xi) 359)) fb)
          (span_usize hi lo (y * 720) (nat (max (cx + xi) 0)) (nat (min (cx + xo) 359)))"
      using inner False y u v by (simp add: ring_row_def Let_def display_sizes xo_def [symmetric] xi_def [symmetric])
    show ?thesis
      unfolding eq
    proof (rule some_painted_cong [OF bind_painted])
      show "\<exists>fb1. span_usize hi lo (y * 720) (nat (max (cx - xo) 0)) (nat (min (cx - xi) 359)) fb = Some fb1 \<and>
          painted (\<lambda>r c. r = y \<and> nat (max (cx - xo) 0) \<le> c \<and> c \<le> nat (min (cx - xi) 359)) (hi, lo) fb fb1"
        by (rule span_usize_painted [OF assms(3) y(1) v(2)])
      show "\<exists>fb2. span_usize hi lo (y * 720) (nat (max (cx + xi) 0)) (nat (min (cx + xo) 359)) fb1 = Some fb2 \<and>
          painted (\<lambda>r c. r = y \<and> nat (max (cx + xi) 0) \<le> c \<and> c \<le> nat (min (cx + xo) 359)) (hi, lo) fb1 fb2"
        if "length fb1 = length fb" for fb1
        by (rule span_usize_painted) (use that assms(3) y(1) u(3) in auto)
      show "(r = y \<and> nat (max (cx - xo) 0) \<le> c \<and> c \<le> nat (min (cx - xi) 359) \<or>
            r = y \<and> nat (max (cx + xi) 0) \<le> c \<and> c \<le> nat (min (cx + xo) 359)) =
          (int r = cy + dy \<and> in_annulus inner_r outer_r (int c - cx) dy)" if "c < 360" for r c
        using spans_usize(1) [OF xi(1) xi_cx xo0 cx(2) that] row(3) [OF inner, of "int c - cx"] y(2) by auto
    qed
  qed
qed

lemma tested_row_painted:
  assumes "sqrt_contract sqrtf" "ring_fits cx inner_r outer_r" "length fb = 259200"
    and "\<And>xo dx. skip xo dy \<Longrightarrow> \<bar>dx\<bar> \<le> xo \<Longrightarrow> \<not> keep dx dy"
  shows "\<exists>fb'. tested_row sqrtf skip keep cx cy (inner_r * inner_r) (outer_r * outer_r) hi lo dy fb = Some fb' \<and>
    painted (\<lambda>r c. int r = cy + dy \<and> in_annulus inner_r outer_r (int c - cx) dy \<and> keep (int c - cx) dy)
      (hi, lo) fb fb'"
proof (cases "dy * dy > outer_r * outer_r \<or> cy + dy < 0 \<or> cy + dy \<ge> 360")
  case True
  have "\<not> in_annulus inner_r outer_r dx dy" if "dy * dy > outer_r * outer_r" for dx
    using that zero_le_square [of dx] unfolding in_annulus_def by linarith
  with True show ?thesis
    by (auto simp: tested_row_def Let_def display_sizes intro!: painted_none)
next
  case False
  then have le: "dy * dy \<le> outer_r * outer_r" by simp
  define y where "y = nat (cy + dy)"
  have y: "y < 360" "int y = cy + dy" "as_usize (cy + dy) = y" using False by (auto simp: y_def as_usize_eq)
  define xo where "xo = root_of sqrtf (outer_r * outer_r - dy * dy)"
  define xi where "xi = root_of sqrtf (inner_r * inner_r - dy * dy)"
  note row = annulus_row [OF assms(1,2) le, folded xo_def xi_def]
  have cx: "0 \<le> cx" "cx < 360" "inner_r \<le> cx" using assms(2) by (auto simp: ring_fits_def)
  note xo0 = row(1)
  let ?keep = "\<lambda>xi. keep (xi - cx) dy"
  have annulus_xo: "\<bar>dx\<bar> \<le> xo" if "in_annulus inner_r outer_r dx dy" for dx
    using that row(2,3) by blast
  consider "skip xo dy" | "\<not> skip xo dy" "inner_r * inner_r \<le> dy * dy"
    | "\<not> skip xo dy" "\<not> inner_r * inner_r \<le> dy * dy" by blast
  then show ?thesis
  proof cases
    case 1
    then have "tested_row sqrtf skip keep cx cy (inner_r * inner_r) (outer_r * outer_r) hi lo dy fb = Some fb"
      using False by (simp add: tested_row_def Let_def display_sizes xo_def [symmetric])
    moreover have "\<not> (in_annulus inner_r outer_r dx dy \<and> keep dx dy)" for dx
      using annulus_xo assms(4) [OF 1] by blast
    ultimately show ?thesis by (auto intro!: painted_none)
  next
    case 2
    have eq: "tested_row sqrtf skip keep cx cy (inner_r * inner_r) (outer_r * outer_r) hi lo dy fb =
        span_i32 ?keep hi lo (y * 720) (max (cx - xo) 0) (min (cx + xo) 359) fb"
      using 2 False y by (simp add: tested_row_def Let_def display_sizes xo_def [symmetric])
    have "int r = cy + dy \<longleftrightarrow> r = y" for r using y(2) by auto
    then show ?thesis
      unfolding eq
      using spans_i32(2) [OF _ _ xo0 cx(2), of 0] row(2) [OF 2(2)] cx(1)
      by (intro some_painted_cong [OF span_i32_painted [OF assms(3) y(1)]]) auto
  next
    case 3
    have xi: "0 \<le> xi" "xi \<le> inner_r" using row(3) [OF 3(2)] by blast+
    then have xi_cx: "xi \<le> cx" using cx(3) by linarith
    have eq: "tested_row sqrtf skip keep cx cy (inner_r * inner_r) (outer_r * outer_r) hi lo dy fb =
        Option.bind (span_i32 ?keep hi lo (y * 720) (max (cx - xo) 0) (min (cx - xi) 359) fb)
          (span_i32 ?keep hi lo (y * 720) (max (cx + xi) 0) (min (cx + xo) 359))"
      using 3 False y by (simp add: tested_row_def Let_def display_sizes xo_def [symmetric] xi_def [symmetric])
    show ?thesis
      unfolding eq
    proof (rule some_painted_cong [OF bind_painted])
      show "\<exists>fb1. span_i32 ?keep hi lo (y * 720) (max (cx - xo) 0) (min (cx - xi) 359) fb = Some fb1 \<and>
          painted (\<lambda>r c. r = y \<and> max (cx - xo) 0 \<le> int c \<and> int c \<le> min (cx - xi) 359 \<and> ?keep (int c)) (hi, lo) fb fb1"
        by (rule span_i32_painted [OF assms(3) y(1)]) auto
      show "\<exists>fb2. span_i32 ?keep hi lo (y * 720) (max (cx + xi) 0) (min (cx + xo) 359) fb1 = Some fb2 \<and>
          painted (\<lambda>r c. r = y \<and> max (cx + xi) 0 \<le> int c \<and> int c \<le> min (cx + xo) 359 \<and> ?keep (int c)) (hi, lo) fb1 fb2"
        if "length fb1 = length fb" for fb1
        by (rule span_i32_painted) (use that assms(3) y(1) in auto)
      show "(r = y \<and> max (cx - xo) 0 \<le> int c \<and> int c \<le> min (cx - xi) 359 \<and> ?keep (int c) \<or>
            r = y \<and> max (cx + xi) 0 \<le> int c \<and> int c \<le> min (cx + xo) 359 \<and> ?keep (int c)) =
          (int r = cy + dy \<and> in_annulus inner_r outer_r (int c - cx) dy \<and> ?keep (int c))" if "c < 360" for r c
        using spans_i32(1) [OF xi(1) xi_cx xo0 cx(2) that] row(3) [OF 3(2), of "int c - cx"] y(2) by auto
    qed
  qed
qed

text \<open>All the rows of a ring.\<close>

lemma rows_painted:
  assumes "\<And>dy fb. length fb = 259200 \<Longrightarrow> \<exists>fb'. f dy fb = Some fb' \<and>
      painted (\<lambda>r c. int r = cy + dy \<and> in_annulus inner_r outer_r (int c - cx) dy \<and> P (int c - cx) dy) px fb fb'"
    and "length fb = 259200" "0 \<le> outer_r"
  shows "\<exists>fb'. fold_opt f [- outer_r..outer_r] fb = Some fb' \<and>
    painted (\<lambda>r c. in_annulus inner_r outer_r (int c - cx) (int r - cy) \<and> P (int c - cx) (int r - cy)) px fb fb'"
proof -
  have in_range: "- outer_r \<le> dy \<and> dy \<le> outer_r" if "in_annulus inner_r outer_r dx dy" for dx dy
  proof -
    have "\<bar>dy\<bar> * \<bar>dy\<bar> \<le> outer_r * outer_r"
      using that zero_le_square [of dx] unfolding in_annulus_def abs_mult_self by linarith
    then have "\<bar>dy\<bar> \<le> outer_r" using assms(3) by (meson abs_ge_zero mult_strict_mono' not_le)
    then show ?thesis by linarith
  qed
  have "\<exists>fb'. fold_opt f [- outer_r..outer_r] fb = Some fb' \<and>
    painted (\<lambda>r c. \<exists>dy\<in>set [- outer_r..outer_r]. int r = cy + dy \<and>
      in_annulus inner_r outer_r (int c - cx) dy \<and> P (int c - cx) dy) px fb fb'"
    using assms(1,2) by (intro fold_painted) auto
  then show ?thesis
  proof (rule some_painted_cong)
    fix r c :: nat
    have "int r = cy + dy \<longleftrightarrow> dy = int r - cy" for dy by auto
    then show "(\<exists>dy\<in>set [- outer_r..outer_r]. int r = cy + dy \<and>
        in_annulus inner_r outer_r (int c - cx) dy \<and> P (int c - cx) dy) =
      (in_annulus inner_r outer_r (int c - cx) (int r - cy) \<and> P (int c - cx) (int r - cy))"
      using in_range by auto
  qed
qed

lemma fill_ring_painted:
  assumes "sqrt_contract sqrtf" "ring_fits cx inner_r outer_r" "length fb = 259200"
  shows "\<exists>fb'. fill_ring sqrtf cx cy inner_r outer_r color fb = Some fb' \<and>
    painted (\<lambda>r c. in_annulus inner_r outer_r (int c - cx) (int r - cy)) (color_bytes color) fb fb'"
  unfolding fill_ring_def color_bytes_def
  using rows_painted [where P = "\<lambda>_ _. True", OF _ assms(3)] ring_row_painted [OF assms(1,2)] assms(2)
  by (simp add: ring_fits_def)

lemma fill_ring_270_painted:
  assumes "sqrt_contract sqrtf" "ring_fits cx inner_r outer_r" "length fb = 259200"
  shows "\<exists>fb'. fill_ring_270 sqrtf cx cy inner_r outer_r color fb = Some fb' \<and>
    painted (\<lambda>r c. in_annulus inner_r outer_r (int c - cx) (int r - cy) \<and> int r - cy \<le> \<bar>int c - cx\<bar>)
      (color_bytes color) fb fb'"
  unfolding fill_ring_270_def color_bytes_def
  using rows_painted [where P = "\<lambda>dx dy. dy \<le> \<bar>dx\<bar>", OF _ assms(3)]
    tested_row_painted [OF assms(1,2), where keep = "\<lambda>dx dy. \<not> dy > \<bar>dx\<bar>" and skip = "\<lambda>xo dy. dy > xo"] assms(2)
  by (simp add: ring_fits_def not_less)

lemma fill_ring_arc_painted:
  assumes "sqrt_contract sqrtf" "ring_fits cx inner_r outer_r" "length fb = 259200"
  shows "\<exists>fb'. fill_ring_arc sqrtf cosf sinf cx cy inner_r outer_r sweep color fb = Some fb' \<and>
    painted (\<lambda>r c. in_annulus inner_r outer_r (int c - cx) (int r - cy) \<and>
        in_fill (cosf (f32_div (f32_mul (f32_add 135 sweep) f32_pi) 180))
          (sinf (f32_div (f32_mul (f32_add 135 sweep) f32_pi) 180)) (sweep > 180) (int c - cx) (int r - cy))
      (color_bytes color) fb fb'"
  unfolding fill_ring_arc_def color_bytes_def Let_def
  using rows_painted [OF _ assms(3)] tested_row_painted [OF assms(1,2)] assms(2)
  by (simp add: ring_fits_def)

section \<open>The DrawTarget operations\<close>

text \<open>The last entry of a pixel list for one coordinate.\<close>

definition last_color :: "((int \<times> int) \<times> u16) list \<Rightarrow> nat \<Rightarrow> nat \<Rightarrow> u16 option" where
  "last_color pixels r c = map_option snd (find (\<lambda>p. fst p = (int c, int r)) (rev pixels))"

lemma find_append: "find P (xs @ ys) = (case find P xs of None \<Rightarrow> find P ys | Some x \<Rightarrow> Some x)"
  by (induction xs) auto

lemma last_color_snoc:
  "last_color (ps @ [p]) r c = (if fst p = (int c, int r) then Some (snd p) else last_color ps r c)"
  by (simp add: last_color_def)

lemma draw_iter_step_painted:
  assumes "length fb = 259200"
  shows "\<exists>fb'. draw_iter_step ((x, y), color) fb = Some fb' \<and>
    painted (\<lambda>r c. (x, y) = (int c, int r)) (color_bytes color) fb fb'"
proof (cases "x < 0 \<or> y < 0 \<or> x \<ge> 360 \<or> y \<ge> 360")
  case True
  then show ?thesis by (auto simp: draw_iter_step_def display_sizes intro!: painted_none)
next
  case False
  then have "as_usize x = nat x" "as_usize y = nat y" by (simp_all add: as_usize_eq)
  moreover have "nat x < 360" "nat y < 360" using False by linarith+
  ultimately show ?thesis
    using put_px_painted [OF assms, of "nat y" "nat x" "raw_hi color" "raw_lo color"] False
    by (auto simp: draw_iter_step_def display_sizes color_bytes_def elim!: painted_cong)
qed

lemma draw_iter_ok:
  assumes "length fb = 259200"
  shows "\<exists>fb'. draw_iter pixels fb = Some fb' \<and> length fb' = length fb \<and>
    (\<forall>r c. r < 360 \<longrightarrow> c < 360 \<longrightarrow> fb_pixel fb' r c =
      (case last_color pixels r c of Some color \<Rightarrow> color_bytes color | None \<Rightarrow> fb_pixel fb r c))"
  unfolding draw_iter_def
proof (induction pixels rule: rev_induct)
  case Nil
  then show ?case by (simp add: last_color_def)
next
  case (snoc p pixels)
  obtain x y color where p: "p = ((x, y), color)" by (metis surj_pair)
  obtain fb1 where 1: "fold_opt draw_iter_step pixels fb = Some fb1" "length fb1 = length fb"
    "\<And>r c. r < 360 \<Longrightarrow> c < 360 \<Longrightarrow> fb_pixel fb1 r c =
      (case last_color pixels r c of Some color \<Rightarrow> color_bytes color | None \<Rightarrow> fb_pixel fb r c)"
    using snoc.IH by blast
  obtain fb2 where 2: "draw_iter_step ((x, y), color) fb1 = Some fb2"
    "painted (\<lambda>r c. (x, y) = (int c, int r)) (color_bytes color) fb1 fb2"
    using draw_iter_step_painted [of fb1 x y color] 1(2) assms by auto
  show ?case
    using 1 2 by (auto simp: fold_opt_append p last_color_snoc painted_def)
qed

text \<open>The row-major points of an area with a non-negative corner.\<close>

definition area_points :: "rectangle \<Rightarrow> (int \<times> int) list" where
  "area_points a = map (\<lambda>k. (rect_x a + int (k mod rect_w a), rect_y a + int (k div rect_w a))) [0..<rect_w a * rect_h a]"

definition inside_screen :: "rectangle \<Rightarrow> bool" where
  "inside_screen a \<longleftrightarrow> 0 \<le> rect_x a \<and> 0 \<le> rect_y a \<and> 0 < rect_w a \<and> 0 < rect_h a \<and>
     rect_x a + int (rect_w a) \<le> 360 \<and> rect_y a + int (rect_h a) \<le> 360"

lemma contiguous_loop_draw:
  assumes "x0 + w \<le> 360" "y0 + h \<le> 360" "col < w" "k = row * w + col"
  shows "contiguous_loop x0 y0 w h col row colors fb =
    draw_iter (zip (map (\<lambda>k. (int (x0 + k mod w), int (y0 + k div w))) [k..<w * h]) colors) fb"
  using assms(3,4)
proof (induction colors arbitrary: col row k fb)
  case Nil
  then show ?case by (simp add: draw_iter_def)
next
  case (Cons color colors)
  show ?case
  proof (cases "row < h")
    case False
    then have "w * h \<le> k" using Cons.prems by (simp add: mult.commute [of w]) (meson add_leD1 mult_le_mono1 not_less trans_le_add1)
    with False show ?thesis by (simp add: draw_iter_def)
  next
    case True
    have "row * w + col < (row + 1) * w" using Cons.prems(1) by simp
    also have "\<dots> \<le> h * w" using True by (intro mult_le_mono1) simp
    finally have k: "k < w * h" using Cons.prems(2) by (simp add: mult.commute)
    have dm: "k mod w = col" "k div w = row" using Cons.prems by simp_all
    have coords: "x0 + col < 360" "y0 + row < 360" using assms(1,2) Cons.prems(1) True by simp_all
    have us: "as_usize (int n) = n" if "n < 360" for n using that by (simp add: as_usize_eq)
    have step: "draw_iter_step ((int (x0 + col), int (y0 + row)), color) fb =
        put_px (raw_hi color) (raw_lo color) ((y0 + row) * (display_width * 2) + (x0 + col) * 2) fb"
      using coords us [OF coords(1)] us [OF coords(2)]
      by (simp add: draw_iter_step_def display_sizes)
    have cons: "[k..<w * h] = k # [Suc k..<w * h]" using k by (simp add: upt_conv_Cons)
    show ?thesis
    proof (cases "col + 1 \<ge> w")
      case wrap: True
      have "contiguous_loop x0 y0 w h 0 (row + 1) colors fb' =
          draw_iter (zip (map (\<lambda>k. (int (x0 + k mod w), int (y0 + k div w))) [Suc k..<w * h]) colors) fb'" for fb'
        by (rule Cons.IH) (use wrap Cons.prems in auto)
      then show ?thesis
        using wrap True by (simp add: cons dm draw_iter_def step [simplified] split: option.splits)
    next
      case False
      have "contiguous_loop x0 y0 w h (col + 1) row colors fb' =
          draw_iter (zip (map (\<lambda>k. (int (x0 + k mod w), int (y0 + k div w))) [Suc k..<w * h]) colors) fb'" for fb'
        by (rule Cons.IH) (use False Cons.prems in auto)
      then show ?thesis
        using False True by (simp add: cons dm draw_iter_def step [simplified] split: option.splits)
    qed
  qed
qed

lemma fill_contiguous_inside:
  assumes "inside_screen area" "intersection area screen = area"
  shows "fill_contiguous intersection area colors fb = draw_iter (zip (area_points area) colors) fb"
proof -
  have us: "as_usize (rect_x area) = nat (rect_x area)" "as_usize (rect_y area) = nat (rect_y area)"
    using assms(1) by (simp_all add: inside_screen_def as_usize_eq)
  have "contiguous_loop (nat (rect_x area)) (nat (rect_y area)) (rect_w area) (rect_h area) 0 0 colors fb =
    draw_iter (zip (map (\<lambda>k. (int (nat (rect_x area) + k mod rect_w area), int (nat (rect_y area) + k div rect_w area)))
      [0..<rect_w area * rect_h area]) colors) fb"
    using assms(1) by (intro contiguous_loop_draw) (auto simp: inside_screen_def)
  then show ?thesis
    using assms by (simp add: fill_contiguous_def us area_points_def inside_screen_def)
qed

lemma clear_loop_nth:
  "even (length fb) \<Longrightarrow> length (clear_loop hi lo fb) = length fb \<and>
   (\<forall>i<length fb. clear_loop hi lo fb ! i = (if even i then hi else lo))"
proof (induction hi lo fb rule: clear_loop.induct)
  case (1 hi lo a b fb)
  then have IH: "length (clear_loop hi lo fb) = length fb"
    "\<And>i. i < length fb \<Longrightarrow> clear_loop hi lo fb ! i = (if even i then hi else lo)" by simp_all
  show ?case
  proof (intro conjI allI impI)
    fix i assume "i < length (a # b # fb)"
    then consider "i = 0" | "i = 1" | j where "i = Suc (Suc j)" "j < length fb"
      by (metis One_nat_def Suc_less_eq length_Cons not0_implies_Suc)
    then show "clear_loop hi lo (a # b # fb) ! i = (if even i then hi else lo)"
      by cases (simp_all add: IH)
  qed (simp add: IH)
qed simp_all

lemma clear_painted: "length fb = 259200 \<Longrightarrow> painted (\<lambda>_ _. True) (color_bytes color) fb (clear_fb color fb)"
proof -
  assume len: "length fb = 259200"
  then have nth: "length (clear_fb color fb) = length fb"
    "\<And>i. i < length fb \<Longrightarrow> clear_fb color fb ! i = (if even i then raw_hi color else raw_lo color)"
    using clear_loop_nth [of fb "raw_hi color" "raw_lo color"] by (simp_all add: clear_fb_def)
  show ?thesis
    unfolding painted_def fb_pixel_def color_bytes_def
    using len by (auto simp: nth)
qed

section \<open>Properties\<close>

text \<open>A square root that keeps the contract.\<close>

definition isqrt :: "int \<Rightarrow> int" where
  "isqrt n = (case position (\<lambda>k. n < (int k + 1) * (int k + 1)) [0..<256] of Some k \<Rightarrow> int k | None \<Rightarrow> 0)"

definition ref_sqrtf :: sqrt_fn where
  "ref_sqrtf x = of_int (isqrt \<lfloor>x\<rfloor>)"

lemma isqrt_spec:
  assumes "0 \<le> n" "n < 65536"
  shows "0 \<le> isqrt n" "isqrt n * isqrt n \<le> n" "n < (isqrt n + 1) * (isqrt n + 1)" "isqrt n < 256"
proof -
  define xs where "xs = [0..<256 :: nat]"
  let ?P = "\<lambda>k. n < (int k + 1) * (int k + 1)"
  have xs: "length xs = 256" "\<And>i. i < 256 \<Longrightarrow> xs ! i = i"
    by (simp_all add: xs_def del: upt_rec_numeral)
  have "255 \<in> set xs" "?P 255" using assms by (simp_all add: xs_def del: upt_rec_numeral)
  then have "position ?P xs \<noteq> None" unfolding position_None by blast
  then obtain m where m: "position ?P xs = Some m" by blast
  then have "m < 256" "?P m" "\<forall>j<m. \<not> ?P j" using xs by (auto simp: position_Some)
  moreover have "isqrt n = int m" using m by (simp add: isqrt_def xs_def [symmetric])
  moreover have "int m * int m \<le> n"
  proof (cases m)
    case (Suc j)
    then have "\<not> ?P j" using \<open>\<forall>j<m. \<not> ?P j\<close> by blast
    then show ?thesis by (simp add: Suc add.commute)
  qed (simp add: assms)
  ultimately show "0 \<le> isqrt n" "isqrt n * isqrt n \<le> n" "n < (isqrt n + 1) * (isqrt n + 1)" "isqrt n < 256"
    by simp_all
qed

lemma ref_sqrtf_contract: "sqrt_contract ref_sqrtf"
proof -
  have "as_i32 (ref_sqrtf (of_int n)) = isqrt n" if "0 \<le> n" "n < 65536" for n
    using isqrt_spec [OF that] by (simp add: ref_sqrtf_def as_i32_def trunc_def clamp_def)
  then show ?thesis by (simp add: sqrt_contract_def Let_def isqrt_spec)
qed

text \<open>
  The three scanline fills never index out of range and paint exactly their rings, leaving
  every other pixel alone: the full ring is the annulus, the 270-degree ring is the annulus
  without the wedge around six o'clock, and the partial arc is the annulus cut by its two half
  planes.
\<close>

theorem ring_fills_paint:
  assumes "sqrt_contract sqrtf" "ring_fits cx inner_r outer_r" "length fb = fb_size"
  shows "\<exists>fb1 fb2 fb3.
    fill_ring sqrtf cx cy inner_r outer_r color fb = Some fb1 \<and>
    painted (\<lambda>r c. in_annulus inner_r outer_r (int c - cx) (int r - cy)) (color_bytes color) fb fb1 \<and>
    fill_ring_270 sqrtf cx cy inner_r outer_r color fb = Some fb2 \<and>
    painted (\<lambda>r c. in_annulus inner_r outer_r (int c - cx) (int r - cy) \<and> int r - cy \<le> \<bar>int c - cx\<bar>)
      (color_bytes color) fb fb2 \<and>
    fill_ring_arc sqrtf cosf sinf cx cy inner_r outer_r sweep color fb = Some fb3 \<and>
    painted (\<lambda>r c. in_annulus inner_r outer_r (int c - cx) (int r - cy) \<and>
        in_fill (cosf (f32_div (f32_mul (f32_add 135 sweep) f32_pi) 180))
          (sinf (f32_div (f32_mul (f32_add 135 sweep) f32_pi) 180)) (sweep > 180) (int c - cx) (int r - cy))
      (color_bytes color) fb fb3"
proof -
  have len: "length fb = 259200" using assms(3) by (simp add: display_sizes)
  note fills = fill_ring_painted [OF assms(1,2) len] fill_ring_270_painted [OF assms(1,2) len]
    fill_ring_arc_painted [OF assms(1,2) len]
  show ?thesis using fills by blast
qed

theorem ring_fills_paint_witness:
  "\<exists>fb1 fb2 fb3.
    fill_ring ref_sqrtf 180 180 163 177 0xFFFF (framebuffer glitchy) = Some fb1 \<and>
    painted (\<lambda>r c. in_annulus 163 177 (int c - 180) (int r - 180)) (color_bytes 0xFFFF) (framebuffer glitchy) fb1 \<and>
    fill_ring_270 ref_sqrtf 180 180 163 177 0xFFFF (framebuffer glitchy) = Some fb2 \<and>
    painted (\<lambda>r c. in_annulus 163 177 (int c - 180) (int r - 180) \<and> int r - 180 \<le> \<bar>int c - 180\<bar>)
      (color_bytes 0xFFFF) (framebuffer glitchy) fb2 \<and>
    fill_ring_arc ref_sqrtf (\<lambda>_. 1) (\<lambda>_. 0) 180 180 163 177 135 0xFFFF (framebuffer glitchy) = Some fb3 \<and>
    painted (\<lambda>r c. in_annulus 163 177 (int c - 180) (int r - 180) \<and>
        in_fill 1 0 (135 > (180 :: f32)) (int c - 180) (int r - 180))
      (color_bytes 0xFFFF) (framebuffer glitchy) fb3"
  by (rule ring_fills_paint [OF ref_sqrtf_contract, where cosf = "\<lambda>_. 1" and sinf = "\<lambda>_. 0"])
    (simp_all add: ring_fits_def glitchy_def display_new_def)

text \<open>
  \<open>draw_iter\<close> accepts every pixel stream: entries off the screen are skipped, the last
  entry of a coordinate wins, the rest of the framebuffer is untouched.  \<open>clear\<close> sets every
  pixel, and \<open>fill_contiguous\<close> of an area on the screen is the trait's default, drawing the
  area's points in row-major order with the given colours.
\<close>

theorem draw_target_operations:
  assumes "length fb = fb_size" "inside_screen area" "intersection area screen = area"
  shows "(\<exists>fb'. draw_iter pixels fb = Some fb' \<and> length fb' = length fb \<and>
      (\<forall>r c. r < display_height \<longrightarrow> c < display_width \<longrightarrow> fb_pixel fb' r c =
        (case last_color pixels r c of Some color \<Rightarrow> color_bytes color | None \<Rightarrow> fb_pixel fb r c))) \<and>
    painted (\<lambda>_ _. True) (color_bytes color) fb (clear_fb color fb) \<and>
    fill_contiguous intersection area colors fb = draw_iter (zip (area_points area) colors) fb"
  using assms draw_iter_ok [of fb pixels] clear_painted [of fb color] fill_contiguous_inside [of area intersection]
  by (simp add: display_sizes)

definition icon_area :: rectangle where
  "icon_area = \<lparr>rect_x = 148, rect_y = 60, rect_w = 64, rect_h = 64\<rparr>"

theorem draw_target_operations_witness:
  "(\<exists>fb'. draw_iter [((400, 2), 7), ((3, 2), 8)] (framebuffer glitchy) = Some fb' \<and>
      length fb' = length (framebuffer glitchy) \<and>
      (\<forall>r c. r < display_height \<longrightarrow> c < display_width \<longrightarrow> fb_pixel fb' r c =
        (case last_color [((400, 2), 7), ((3, 2), 8)] r c of
           Some color \<Rightarrow> color_bytes color | None \<Rightarrow> fb_pixel (framebuffer glitchy) r c))) \<and>
    painted (\<lambda>_ _. True) (color_bytes 9) (framebuffer glitchy) (clear_fb 9 (framebuffer glitchy)) \<and>
    fill_contiguous (\<lambda>a b. a) icon_area [1, 2] (framebuffer glitchy) =
      draw_iter (zip (area_points icon_area) [1, 2]) (framebuffer glitchy)"
  by (rule draw_target_operations) (simp_all add: inside_screen_def icon_area_def glitchy_def display_new_def)

text \<open>The intersection of two rectangles with the screen, as the library documents it.\<close>

definition clip_to :: "rectangle \<Rightarrow> rectangle \<Rightarrow> rectangle" where
  "clip_to a b =
     (let x0 = max (rect_x a) (rect_x b); y0 = max (rect_y a) (rect_y b);
          x1 = min (rect_x a + int (rect_w a)) (rect_x b + int (rect_w b));
          y1 = min (rect_y a + int (rect_h a)) (rect_y b + int (rect_h b))
      in \<lparr>rect_x = x0, rect_y = y0, rect_w = nat (x1 - x0), rect_h = nat (y1 - y0)\<rparr>)"

text \<open>
  An area that hangs over the left edge is skewed: its colours are consumed as if they
  belonged to the clipped area, so the first screen pixel of a two-pixel row that starts at
  x = -1 gets the first colour, where the trait's default gives it the second.
\<close>

theorem fill_contiguous_clip_skew:
  "case (fill_contiguous clip_to \<lparr>rect_x = - 1, rect_y = 0, rect_w = 2, rect_h = 1\<rparr> [0x1111, 0x2222] [0, 0, 0, 0],
         draw_iter (zip (area_points \<lparr>rect_x = - 1, rect_y = 0, rect_w = 2, rect_h = 1\<rparr>) [0x1111, 0x2222]) [0, 0, 0, 0])
   of (code, trait_default) \<Rightarrow> code = Some [0x11, 0x11, 0, 0] \<and> trait_default = Some [0x22, 0x22, 0, 0]"
  by code_simp

end
