(* ===== verification/Drawing.thy ===== *)
theory Drawing
  imports Framebuffer "HOL-Library.Monad_Syntax"
begin

text \<open>
  The screens of the firmware (\<open>firmware/src/main.rs\<close>, lines 54 to 412): volume arc, labels,
  battery, icon and status.  The shapes, images and fonts of \<open>embedded-graphics\<close> and
  \<open>u8g2-fonts\<close> and the functions of \<open>libm\<close> are not part of the repository; a value of \<open>gfx\<close>
  holds them, each shape as the \<open>DrawTarget\<close> calls it makes.  A drawing function maps the
  framebuffer to the new one, or to \<open>None\<close> when it panics.
\<close>

section \<open>The graphics libraries\<close>

datatype draw_call =
    DrawIter "((int \<times> int) \<times> u16) list"
  | FillContiguous rectangle "u16 list"

datatype color = Black | White | Yellow | Red | Green | DimGray | LightGray | LimeGreen | CornflowerBlue

datatype font = HelvR24 | HelvR12 | ProFont15

record gfx =
  gx_rgb565 :: "color \<Rightarrow> u16"
  gx_intersection :: "rectangle \<Rightarrow> rectangle \<Rightarrow> rectangle"
  gx_circle :: "int \<times> int \<Rightarrow> nat \<Rightarrow> color \<Rightarrow> draw_call list"      \<comment> \<open>top left, diameter, fill\<close>
  gx_rect_fill :: "rectangle \<Rightarrow> color \<Rightarrow> draw_call list"
  gx_rect_stroke :: "rectangle \<Rightarrow> color \<Rightarrow> nat \<Rightarrow> bool \<Rightarrow> draw_call list"  \<comment> \<open>width, stroke inside\<close>
  gx_image :: "u8 list \<Rightarrow> nat \<Rightarrow> int \<times> int \<Rightarrow> draw_call list"
  gx_text :: "font \<Rightarrow> str \<Rightarrow> int \<times> int \<Rightarrow> color \<Rightarrow> draw_call list \<times> bool" \<comment> \<open>the calls, and whether it is Ok\<close>
  gx_sqrt :: "f32 \<Rightarrow> f32"
  gx_cos :: "f32 \<Rightarrow> f32"
  gx_sin :: "f32 \<Rightarrow> f32"

type_synonym fb = "u8 list"

fun run_call :: "gfx \<Rightarrow> draw_call \<Rightarrow> fb \<Rightarrow> fb option" where
  "run_call g (DrawIter ps) fb = draw_iter ps fb"
| "run_call g (FillContiguous a cs) fb = fill_contiguous (gx_intersection g) a cs fb"

definition run_calls :: "gfx \<Rightarrow> draw_call list \<Rightarrow> fb \<Rightarrow> fb option" where
  "run_calls g cs fb = fold_opt (run_call g) cs fb"

definition rect_at :: "int \<Rightarrow> int \<Rightarrow> nat \<Rightarrow> nat \<Rightarrow> rectangle" where
  "rect_at x y w h = \<lparr>rect_x = x, rect_y = y, rect_w = w, rect_h = h\<rparr>"

definition fill_rect :: "gfx \<Rightarrow> int \<Rightarrow> int \<Rightarrow> nat \<Rightarrow> nat \<Rightarrow> color \<Rightarrow> fb \<Rightarrow> fb option" where
  "fill_rect g x y w h c fb = run_calls g (gx_rect_fill g (rect_at x y w h) c) fb"

text \<open>\<open>render_aligned\<close>, followed by \<open>unwrap\<close> or with the result dropped.\<close>

definition text_unwrap :: "gfx \<Rightarrow> font \<Rightarrow> str \<Rightarrow> int \<times> int \<Rightarrow> color \<Rightarrow> fb \<Rightarrow> fb option" where
  "text_unwrap g f t p c fb = (case gx_text g f t p c of (cs, ok) \<Rightarrow> if ok then run_calls g cs fb else None)"

definition text_ignore :: "gfx \<Rightarrow> font \<Rightarrow> str \<Rightarrow> int \<times> int \<Rightarrow> color \<Rightarrow> fb \<Rightarrow> fb option" where
  "text_ignore g f t p c fb = run_calls g (fst (gx_text g f t p c)) fb"

section \<open>The volume arc\<close>

definition draw_arc_cap :: "gfx \<Rightarrow> int \<times> int \<Rightarrow> nat \<Rightarrow> color \<Rightarrow> fb \<Rightarrow> fb option" where
  "draw_arc_cap g centre diameter c fb =
     (let r = int (diameter div 2)
      in run_calls g (gx_circle g (fst centre - r, snd centre - r) diameter c) fb)"

definition arc_tip_point :: "gfx \<Rightarrow> f32 \<Rightarrow> int \<times> int" where
  "arc_tip_point g sweep_deg =
     (let rad = f32_mul (f32_add 135 sweep_deg) (f32_div f32_pi 180)
      in (180 + as_i32 (f32_mul 170 (gx_cos g rad)), 180 + as_i32 (f32_mul 170 (gx_sin g rad))))"

definition sweep_of :: "u8 \<Rightarrow> f32" where
  "sweep_of volume = f32_mul 270 (f32_div (of_nat (unat volume)) 100)"

definition draw_volume :: "gfx \<Rightarrow> u8 \<Rightarrow> fb \<Rightarrow> fb option" where
  "draw_volume g volume fb0 = do {
     fb \<leftarrow> fill_ring (gx_sqrt g) 180 180 154 186 (gx_rgb565 g Black) fb0;
     fb \<leftarrow> draw_arc_cap g (60, 300) 32 Black fb;
     fb \<leftarrow> draw_arc_cap g (300, 300) 32 Black fb;
     fb \<leftarrow> fill_ring_270 (gx_sqrt g) 180 180 163 177 (gx_rgb565 g DimGray) fb;
     fb \<leftarrow> draw_arc_cap g (60, 300) 14 DimGray fb;
     fb \<leftarrow> draw_arc_cap g (300, 300) 14 DimGray fb;
     let fill_sweep = sweep_of volume;
     if fill_sweep \<ge> 1 then do {
       fb \<leftarrow> fill_ring_arc (gx_sqrt g) (gx_cos g) (gx_sin g) 180 180 163 177 fill_sweep (gx_rgb565 g White) fb;
       fb \<leftarrow> draw_arc_cap g (60, 300) 14 White fb;
       draw_arc_cap g (arc_tip_point g fill_sweep) 14 White fb
     } else Some fb
   }"

text \<open>
  The rows \<open>draw_volume_delta\<close> reports as changed: the span of the two arc ends, widened by the
  start cap and by the special points between the two sweeps.
\<close>

definition dirty_span :: "int \<Rightarrow> int \<Rightarrow> bool \<Rightarrow> f32 \<Rightarrow> f32 \<Rightarrow> int \<times> int" where
  "dirty_span old_y new_y zero lo hi =
     (let cap_r = int (14 div 2 + 1);
          y_min = min old_y new_y - cap_r;
          y_max = max old_y new_y + cap_r;
          y_min = (if zero then min y_min (300 - cap_r) else y_min);
          y_max = (if zero then max y_max (300 + cap_r) else y_max);
          y_min = (if lo \<le> 135 \<and> hi \<ge> 135 then min y_min (10 - cap_r) else y_min)
      in fold (\<lambda>special (y_min, y_max).
             if lo \<le> special \<and> hi \<ge> special then (min y_min (180 - cap_r), max y_max (180 + cap_r))
             else (y_min, y_max)) [45, 225] (y_min, y_max))"

definition dirty_rows :: "gfx \<Rightarrow> u8 \<Rightarrow> u8 \<Rightarrow> nat \<times> nat" where
  "dirty_rows g prev_vol new_vol =
     (let prev_sweep = sweep_of prev_vol; new_sweep = sweep_of new_vol;
          p_old = (if prev_vol > 0 then arc_tip_point g prev_sweep else (60, 300));
          p_new = (if new_vol > 0 then arc_tip_point g new_sweep else (60, 300));
          (y_min, y_max) = dirty_span (snd p_old) (snd p_new) (prev_vol = 0 \<or> new_vol = 0)
             (min prev_sweep new_sweep) (max prev_sweep new_sweep)
      in (nat (max y_min 0 mod 65536), nat (min y_max 359 mod 65536)))"

definition draw_volume_delta :: "gfx \<Rightarrow> u8 \<Rightarrow> u8 \<Rightarrow> fb \<Rightarrow> (fb \<times> (nat \<times> nat)) option" where
  "draw_volume_delta g prev_vol new_vol fb =
     (if prev_vol = new_vol then Some (fb, (0, 0))
      else do {
        fb \<leftarrow> draw_volume g new_vol fb;
        Some (fb, dirty_rows g prev_vol new_vol)
      })"

section \<open>Labels\<close>

definition draw_status :: "gfx \<Rightarrow> str \<Rightarrow> fb \<Rightarrow> fb option" where
  "draw_status g t fb = do {
     fb \<leftarrow> fill_rect g 30 158 300 90 Black fb;
     text_unwrap g HelvR24 t (180, 210) Green fb
   }"

definition draw_mute_indicator :: "gfx \<Rightarrow> bool \<Rightarrow> fb \<Rightarrow> fb option" where
  "draw_mute_indicator g muted fb = draw_status g (if muted then ascii ''MUTED'' else []) fb"

definition draw_not_connected :: "gfx \<Rightarrow> fb \<Rightarrow> fb option" where
  "draw_not_connected g fb =
     text_unwrap g HelvR24 (ascii ''NOT DETECTED'') (180, 190) Yellow (clear_fb (gx_rgb565 g Black) fb)"

definition draw_wifi_line :: "gfx \<Rightarrow> str \<Rightarrow> fb \<Rightarrow> fb option" where
  "draw_wifi_line g t fb = do {
     fb \<leftarrow> fill_rect g 40 205 280 28 Black fb;
     if t \<noteq> [] then text_unwrap g HelvR12 t (180, 228) CornflowerBlue fb else Some fb
   }"

definition batt_color :: "u8 \<Rightarrow> color" where
  "batt_color pct = (if pct > 50 then LimeGreen else if pct > 20 then Yellow else Red)"

definition batt_fill_w :: "u8 \<Rightarrow> nat" where
  "batt_fill_w pct = min (unat pct * (52 - 4) div 100) (52 - 4)"

definition draw_battery :: "gfx \<Rightarrow> u8 \<Rightarrow> fb \<Rightarrow> fb option" where
  "draw_battery g pct fb = do {
     fb \<leftarrow> fill_rect g (154 - 1) (306 - 1) (52 + 7) (22 + 2) Black fb;
     let c = batt_color pct;
     fb \<leftarrow> run_calls g (gx_rect_stroke g (rect_at 154 306 52 22) c 2 False) fb;
     fb \<leftarrow> fill_rect g (154 + 52) (306 + 6) 5 10 c fb;
     fb \<leftarrow> (if batt_fill_w pct > 0 then fill_rect g (154 + 2) (306 + 2) (batt_fill_w pct) (22 - 4) c fb else Some fb);
     text_ignore g HelvR12 (show_dec (unat pct) @ ascii ''%'') (154 + 52 div 2, 306 + 22 - 3) White fb
   }"

definition draw_rx_stats :: "gfx \<Rightarrow> u32 \<Rightarrow> u32 \<Rightarrow> u32 \<Rightarrow> u32 \<Rightarrow> nat \<Rightarrow> u32 \<Rightarrow> fb \<Rightarrow> fb option" where
  "draw_rx_stats g bytes ok overflow tx_drop free tick fb = do {
     fb \<leftarrow> fill_rect g 0 248 360 22 Black fb;
     text_ignore g ProFont15
       (ascii ''t='' @ show_dec (unat tick) @ ascii '' b='' @ show_dec (unat bytes) @
        ascii '' ok='' @ show_dec (unat ok) @ ascii '' of='' @ show_dec (unat overflow) @
        ascii '' h='' @ show_dec free @ ascii '' dr='' @ show_dec (unat tx_drop)) (180, 264) LightGray fb
   }"

section \<open>Icon and name\<close>

definition icon_size :: nat where "icon_size = 64"
definition icon_x :: int where "icon_x = (360 - int icon_size) div 2"
definition icon_y :: int where "icon_y = 60"

definition draw_icon :: "gfx \<Rightarrow> u8 list \<Rightarrow> nat \<Rightarrow> int \<times> int \<Rightarrow> fb \<Rightarrow> fb option" where
  "draw_icon g pixels width origin fb = run_calls g (gx_image g pixels width origin) fb"

definition draw_app_icon :: "gfx \<Rightarrow> u8 list \<Rightarrow> fb \<Rightarrow> fb option" where
  "draw_app_icon g pixels fb = do {
     fb \<leftarrow> fill_rect g icon_x icon_y icon_size icon_size Black fb;
     let expected = icon_size * icon_size * 2;
     if length pixels = expected then draw_icon g pixels icon_size (icon_x, icon_y) fb
     else run_calls g (gx_rect_stroke g (rect_at icon_x icon_y icon_size icon_size) DimGray 2 True) fb
   }"

definition draw_app_name :: "gfx \<Rightarrow> str \<Rightarrow> fb \<Rightarrow> fb option" where
  "draw_app_name g name fb = do {
     fb \<leftarrow> fill_rect g 20 (icon_y + int icon_size + 10) 320 40 Black fb;
     text_ignore g HelvR24 name (180, icon_y + int icon_size + 36) White fb
   }"

section \<open>Battery\<close>

definition raw_to_batt_pct :: "u16 \<Rightarrow> u8" where
  "raw_to_batt_pct raw =
     (let vpin_mv = (ucast raw * 3100) div 4095 :: u32; vbat_mv = vpin_mv * 2
      in ucast (min (sat_sub vbat_mv 3000 * 100 div 1200) 100))"

section \<open>No drawing function panics\<close>

text \<open>
  What the screens rely on: an intersection with the screen lies on it, every text the program
  unwraps is one the font can render, and sine and cosine stay within one.
\<close>

definition on_screen :: "rectangle \<Rightarrow> bool" where
  "on_screen a \<longleftrightarrow> rect_w a = 0 \<or> rect_h a = 0 \<or> inside_screen a"

definition printable :: "str \<Rightarrow> bool" where
  "printable t \<longleftrightarrow> (\<forall>b\<in>set t. 32 \<le> b \<and> b < 127)"

definition gfx_contract :: "gfx \<Rightarrow> bool" where
  "gfx_contract g \<longleftrightarrow> (\<forall>a. on_screen (gx_intersection g a screen)) \<and>
     (\<forall>f t p c. printable t \<longrightarrow> snd (gx_text g f t p c)) \<and> sqrt_contract (gx_sqrt g) \<and>
     (\<forall>x. \<bar>gx_cos g x\<bar> \<le> 1 \<and> \<bar>gx_sin g x\<bar> \<le> 1)"

text \<open>A drawing function that returns, on a framebuffer of the display's size, another one.\<close>

definition draws :: "(fb \<Rightarrow> fb option) \<Rightarrow> bool" where
  "draws f \<longleftrightarrow> (\<forall>fb. length fb = fb_size \<longrightarrow> (\<exists>fb'. f fb = Some fb' \<and> length fb' = fb_size))"

named_theorems draw_intros \<open>drawing functions that do not panic\<close>

lemma draws_bind: "draws f \<Longrightarrow> draws h \<Longrightarrow> draws (\<lambda>fb. Option.bind (f fb) h)"
  unfolding draws_def by fastforce

lemma drawsE:
  assumes "draws f" "length fb = fb_size"
  obtains fb' where "f fb = Some fb'" "length fb' = fb_size"
  using assms unfolding draws_def by blast

lemma draws_Some [draw_intros]: "draws Some"
  by (simp add: draws_def)

lemma draws_if [draw_intros]: "draws f \<Longrightarrow> draws h \<Longrightarrow> draws (\<lambda>fb. if P then f fb else h fb)"
  by (cases P) simp_all

lemma draws_painted:
  "(\<And>fb. length fb = 259200 \<Longrightarrow> \<exists>fb'. f fb = Some fb' \<and> painted S px fb fb') \<Longrightarrow> draws f"
  unfolding draws_def display_sizes by (metis painted_length)

lemma draws_fold: "(\<And>x. x \<in> set xs \<Longrightarrow> draws (f x)) \<Longrightarrow> draws (fold_opt f xs)"
proof (induction xs)
  case Nil
  then show ?case by (simp add: draws_def)
next
  case (Cons x xs)
  have "fold_opt f (x # xs) = (\<lambda>fb. Option.bind (f x fb) (fold_opt f xs))"
    by (rule ext) (simp split: option.splits)
  then show ?case using Cons by (simp add: draws_bind)
qed

lemma draws_draw_iter: "draws (draw_iter ps)"
  unfolding draws_def display_sizes by (metis draw_iter_ok)

lemma draws_contiguous:
  assumes "on_screen (intersection area screen)"
  shows "draws (fill_contiguous intersection area cs)"
proof (cases "inside_screen (intersection area screen)")
  case True
  let ?a = "intersection area screen"
  have "fill_contiguous intersection area cs = fill_contiguous (\<lambda>_ _. ?a) ?a cs"
    by (rule ext) (simp add: fill_contiguous_def)
  also have "\<dots> = draw_iter (zip (area_points ?a) cs)"
    by (rule ext) (rule fill_contiguous_inside [OF True], simp)
  finally show ?thesis by (simp add: draws_draw_iter)
next
  case False
  then have "fill_contiguous intersection area cs = Some"
    using assms by (auto simp: fill_contiguous_def on_screen_def fun_eq_iff)
  then show ?thesis by (simp add: draws_def)
qed

lemma draws_calls [draw_intros]: "gfx_contract g \<Longrightarrow> draws (run_calls g cs)"
proof -
  assume g: "gfx_contract g"
  have "draws (run_call g c)" for c
  proof (cases c)
    case (DrawIter ps)
    then have "run_call g c = draw_iter ps" by (simp add: fun_eq_iff)
    then show ?thesis by (simp add: draws_draw_iter)
  next
    case (FillContiguous a ps)
    then have "run_call g c = fill_contiguous (gx_intersection g) a ps" by (simp add: fun_eq_iff)
    then show ?thesis using g by (simp add: draws_contiguous gfx_contract_def)
  qed
  then have "draws (fold_opt (run_call g) cs)" by (rule draws_fold)
  then show ?thesis by (simp add: run_calls_def [abs_def])
qed

lemma draws_rect [draw_intros]: "gfx_contract g \<Longrightarrow> draws (fill_rect g x y w h c)"
  unfolding fill_rect_def [abs_def] by (rule draws_calls)

lemma draws_text_ignore [draw_intros]: "gfx_contract g \<Longrightarrow> draws (text_ignore g f t p c)"
  unfolding text_ignore_def [abs_def] by (rule draws_calls)

lemma draws_text [draw_intros]: "gfx_contract g \<Longrightarrow> printable t \<Longrightarrow> draws (text_unwrap g f t p c)"
proof -
  assume g: "gfx_contract g" and t: "printable t"
  obtain cs where "gx_text g f t p c = (cs, True)"
    using g t unfolding gfx_contract_def by (metis prod.collapse)
  then have "text_unwrap g f t p c = run_calls g cs" by (simp add: text_unwrap_def fun_eq_iff)
  then show ?thesis using draws_calls [OF g] by simp
qed

lemma draws_cap [draw_intros]: "gfx_contract g \<Longrightarrow> draws (draw_arc_cap g p d c)"
  unfolding draw_arc_cap_def [abs_def] Let_def by (rule draws_calls)

lemma draws_rings [draw_intros]:
  assumes "gfx_contract g" "ring_fits cx inner_r outer_r"
  shows "draws (fill_ring (gx_sqrt g) cx cy inner_r outer_r c)"
    "draws (fill_ring_270 (gx_sqrt g) cx cy inner_r outer_r c)"
    "draws (fill_ring_arc (gx_sqrt g) cosf sinf cx cy inner_r outer_r s c)"
proof -
  have s: "sqrt_contract (gx_sqrt g)" using assms(1) by (simp add: gfx_contract_def)
  show "draws (fill_ring (gx_sqrt g) cx cy inner_r outer_r c)"
    by (rule draws_painted, erule fill_ring_painted [OF s assms(2)])
  show "draws (fill_ring_270 (gx_sqrt g) cx cy inner_r outer_r c)"
    by (rule draws_painted, erule fill_ring_270_painted [OF s assms(2)])
  show "draws (fill_ring_arc (gx_sqrt g) cosf sinf cx cy inner_r outer_r s c)"
    by (rule draws_painted, erule fill_ring_arc_painted [OF s assms(2)])
qed

lemma ring_fits_volume [draw_intros]: "ring_fits 180 154 186" "ring_fits 180 163 177"
  by (simp_all add: ring_fits_def)

lemma printable_labels [draw_intros]:
  "printable []" "printable (ascii ''MUTED'')" "printable (ascii ''NOT DETECTED'')"
  by (simp_all add: printable_def ascii_def)

lemma draws_volume [draw_intros]: "gfx_contract g \<Longrightarrow> draws (draw_volume g v)"
  unfolding draw_volume_def [abs_def] Let_def
  by (intro draws_bind draw_intros) assumption+

lemma draws_status [draw_intros]: "gfx_contract g \<Longrightarrow> printable t \<Longrightarrow> draws (draw_status g t)"
  unfolding draw_status_def [abs_def] by (intro draws_bind draw_intros) assumption+

lemma draws_mute [draw_intros]: "gfx_contract g \<Longrightarrow> draws (draw_mute_indicator g m)"
  unfolding draw_mute_indicator_def [abs_def]
  by (cases m) (simp_all add: draws_status printable_labels)

lemma draws_clear [draw_intros]: "draws f \<Longrightarrow> draws (\<lambda>fb. f (clear_fb c fb))"
  unfolding draws_def display_sizes by (metis clear_painted painted_length)

lemma draws_not_connected [draw_intros]: "gfx_contract g \<Longrightarrow> draws (draw_not_connected g)"
  unfolding draw_not_connected_def [abs_def] by (intro draw_intros) assumption+

lemma draws_wifi_line [draw_intros]: "gfx_contract g \<Longrightarrow> printable t \<Longrightarrow> draws (draw_wifi_line g t)"
  unfolding draw_wifi_line_def [abs_def] by (intro draws_bind draw_intros) assumption+

lemma draws_battery [draw_intros]: "gfx_contract g \<Longrightarrow> draws (draw_battery g pct)"
  unfolding draw_battery_def [abs_def] Let_def by (intro draws_bind draw_intros) assumption+

lemma draws_rx_stats [draw_intros]: "gfx_contract g \<Longrightarrow> draws (draw_rx_stats g b ok ov dr fr t)"
  unfolding draw_rx_stats_def [abs_def] by (intro draws_bind draw_intros) assumption+

lemma draws_app_icon [draw_intros]: "gfx_contract g \<Longrightarrow> draws (draw_app_icon g px)"
  unfolding draw_app_icon_def [abs_def] Let_def draw_icon_def by (intro draws_bind draw_intros) assumption+

lemma draws_app_name [draw_intros]: "gfx_contract g \<Longrightarrow> draws (draw_app_name g n)"
  unfolding draw_app_name_def [abs_def] by (intro draws_bind draw_intros) assumption+

section \<open>The dirty rows\<close>

lemma tip_bounds:
  assumes "gfx_contract g"
  shows "10 \<le> snd (arc_tip_point g s) \<and> snd (arc_tip_point g s) \<le> 350"
proof -
  define v where "v = gx_sin g (f32_mul (f32_add 135 s) (f32_div f32_pi 180))"
  have v: "- 1 \<le> v" "v \<le> 1" using assms unfolding gfx_contract_def v_def by (metis abs_le_iff minus_le_iff)+
  then have "\<bar>170 * v\<bar> < 2 ^ 24" by simp
  from f32_round_bounds [OF this, of 170] f32_round_bounds [OF this, of "- 170"] v
  have "- 170 \<le> f32_mul 170 v" "f32_mul 170 v \<le> 170" by (simp_all add: f32_mul_def)
  then have "- 170 \<le> trunc (f32_mul 170 v)" "trunc (f32_mul 170 v) \<le> 170"
    by (auto simp: trunc_def le_floor_iff floor_le_iff) (linarith+)?
  then show ?thesis by (simp add: arc_tip_point_def Let_def v_def [symmetric] as_i32_def clamp_def)
qed

lemma dirty_span_cover:
  assumes "10 \<le> p" "p \<le> 350" "10 \<le> q" "q \<le> 350" "dirty_span p q zero lo hi = (y2, y3)"
  shows "2 \<le> y2" "y2 \<le> min p q - 8" "max p q + 8 \<le> y3" "y3 \<le> 358"
    "zero \<Longrightarrow> y2 \<le> 292" "zero \<Longrightarrow> 308 \<le> y3" "lo \<le> 135 \<Longrightarrow> 135 \<le> hi \<Longrightarrow> y2 \<le> 2"
proof -
  define top where "top \<longleftrightarrow> lo \<le> 135 \<and> 135 \<le> hi"
  define mid where "mid \<longleftrightarrow> lo \<le> 45 \<and> 45 \<le> hi \<or> lo \<le> 225 \<and> 225 \<le> hi"
  define m where "m = (if zero then min (min p q - 8) 292 else min p q - 8)"
  define m' where "m' = (if top then min m 2 else m)"
  have y: "y2 = (if mid then min m' 172 else m')"
    "y3 = (let M = (if zero then max (max p q + 8) 308 else max p q + 8) in if mid then max M 188 else M)"
    using assms(5) unfolding dirty_span_def Let_def m'_def m_def top_def mid_def
    by (auto split: if_splits)
  have m: "2 \<le> m" "m \<le> min p q - 8" "zero \<Longrightarrow> m \<le> 292" using assms(1-4) by (auto simp: m_def)
  have m': "2 \<le> m'" "m' \<le> m" "top \<Longrightarrow> m' \<le> 2" using m(1) by (auto simp: m'_def)
  show "2 \<le> y2" "y2 \<le> min p q - 8" "zero \<Longrightarrow> y2 \<le> 292" using m m' by (auto simp: y(1))
  show "lo \<le> 135 \<Longrightarrow> 135 \<le> hi \<Longrightarrow> y2 \<le> 2" using m'(3) by (auto simp: y(1) top_def)
  show "max p q + 8 \<le> y3" "y3 \<le> 358" "zero \<Longrightarrow> 308 \<le> y3" using assms(1-4) by (auto simp: y(2) Let_def)
qed

lemma dirty_rows_cover:
  assumes "gfx_contract g" "dirty_rows g a b = (y0, y1)"
  shows "y0 \<le> y1 \<and> y1 \<le> 359 \<and>
    (a > 0 \<longrightarrow> int y0 \<le> snd (arc_tip_point g (sweep_of a)) - 8 \<and> snd (arc_tip_point g (sweep_of a)) + 8 \<le> int y1) \<and>
    (b > 0 \<longrightarrow> int y0 \<le> snd (arc_tip_point g (sweep_of b)) - 8 \<and> snd (arc_tip_point g (sweep_of b)) + 8 \<le> int y1) \<and>
    (a = 0 \<or> b = 0 \<longrightarrow> y0 \<le> 292 \<and> 308 \<le> y1) \<and>
    (min (sweep_of a) (sweep_of b) \<le> 135 \<and> 135 \<le> max (sweep_of a) (sweep_of b) \<longrightarrow> y0 \<le> 2)"
proof -
  define p where "p = snd (if a > 0 then arc_tip_point g (sweep_of a) else (60, 300))"
  define q where "q = snd (if b > 0 then arc_tip_point g (sweep_of b) else (60, 300))"
  have pq: "10 \<le> p" "p \<le> 350" "10 \<le> q" "q \<le> 350"
    using tip_bounds [OF assms(1)] by (auto simp: p_def q_def)
  obtain y2 y3 where span: "dirty_span p q (a = 0 \<or> b = 0) (min (sweep_of a) (sweep_of b)) (max (sweep_of a) (sweep_of b)) = (y2, y3)"
    by fastforce
  note cover = dirty_span_cover [OF pq span]
  have "dirty_rows g a b = (nat (max y2 0 mod 65536), nat (min y3 359 mod 65536))"
    unfolding dirty_rows_def Let_def p_def [symmetric] q_def [symmetric] span by simp
  moreover have r: "0 \<le> y2" "y2 < 65536" "0 \<le> y3" "y3 \<le> 358" using cover(1-4) pq by linarith+
  moreover from r have "max y2 0 mod 65536 = y2" "min y3 359 mod 65536 = y3" by simp_all
  ultimately have "y0 = nat y2" "y1 = nat y3" using assms(2) by simp_all
  then have i: "int y0 = y2" "int y1 = y3" using r by simp_all
  have "y2 \<le> p - 8" "y2 \<le> q - 8" "p + 8 \<le> y3" "q + 8 \<le> y3" using cover(2,3) by linarith+
  moreover from i this r have "y0 \<le> y1 \<and> y1 \<le> 359" "a = 0 \<or> b = 0 \<longrightarrow> y0 \<le> 292 \<and> 308 \<le> y1"
    "min (sweep_of a) (sweep_of b) \<le> 135 \<and> 135 \<le> max (sweep_of a) (sweep_of b) \<longrightarrow> y0 \<le> 2"
    using cover(5-7) by (linarith, auto simp: le_nat_iff nat_le_iff \<open>y0 = nat y2\<close> \<open>y1 = nat y3\<close>)
  ultimately show ?thesis unfolding i p_def q_def by auto
qed

section \<open>Properties\<close>

text \<open>
  No screen can take the firmware down: on a framebuffer of the display's size each drawing
  function returns a framebuffer of the same size, for every volume, name, icon and percentage,
  when the libraries clip to the screen and render printable text.
\<close>

theorem screens_never_panic:
  assumes "gfx_contract g" "printable text"
  shows "draws (draw_volume g v) \<and> draws (draw_status g text) \<and> draws (draw_mute_indicator g m) \<and>
    draws (draw_not_connected g) \<and> draws (draw_wifi_line g text) \<and> draws (draw_battery g pct) \<and>
    draws (draw_app_icon g pixels) \<and> draws (draw_app_name g name) \<and>
    draws (draw_rx_stats g bytes ok overflow dropped free tick)"
  using assms by (intro conjI draw_intros)

text \<open>A reference library: shapes as runs of one colour, text that draws nothing.\<close>

definition ref_gfx :: gfx where
  "ref_gfx = \<lparr>gx_rgb565 = (\<lambda>c. case c of Black \<Rightarrow> 0 | White \<Rightarrow> 0xFFFF | Red \<Rightarrow> 0xF800 | Green \<Rightarrow> 0x07E0
        | Yellow \<Rightarrow> 0xFFE0 | _ \<Rightarrow> 0x6B4D),
     gx_intersection = clip_to,
     gx_circle = (\<lambda>(x, y) d c. [DrawIter [((x + int d div 2, y + int d div 2), 0xFFFF)]]),
     gx_rect_fill = (\<lambda>a c. [FillContiguous a (replicate (rect_w a * rect_h a) (if c = Black then 0 else 0xFFFF))]),
     gx_rect_stroke = (\<lambda>a c w i. [DrawIter [((rect_x a, rect_y a), 0xFFFF)]]),
     gx_image = (\<lambda>px w (x, y). [DrawIter [((x, y), 0xFFFF)]]),
     gx_text = (\<lambda>f t p c. ([], True)),
     gx_sqrt = ref_sqrtf, gx_cos = (\<lambda>_. 1), gx_sin = (\<lambda>_. 0)\<rparr>"

lemma clip_on_screen: "on_screen (clip_to a screen)"
  by (auto simp: on_screen_def inside_screen_def clip_to_def Let_def screen_def display_sizes)

lemma ref_gfx_contract: "gfx_contract ref_gfx"
  by (simp add: gfx_contract_def ref_gfx_def clip_on_screen ref_sqrtf_contract)

theorem screens_never_panic_witness:
  "draws (draw_volume ref_gfx 42) \<and> draws (draw_status ref_gfx [77]) \<and> draws (draw_mute_indicator ref_gfx True) \<and>
    draws (draw_not_connected ref_gfx) \<and> draws (draw_wifi_line ref_gfx [77]) \<and> draws (draw_battery ref_gfx 20) \<and>
    draws (draw_app_icon ref_gfx []) \<and> draws (draw_app_name ref_gfx [200]) \<and>
    draws (draw_rx_stats ref_gfx 1 2 3 4 5 6)"
  by (rule screens_never_panic [OF ref_gfx_contract]) (simp add: printable_def)

text \<open>
  The rows \<open>draw_volume_delta\<close> reports are a valid request for \<open>flush_rows\<close> and contain the
  round tips of the arc at the old and the new volume, the fixed start cap when one volume is
  zero, and the top of the arc when the change sweeps across it.
\<close>

theorem dirty_rows_sound:
  assumes "gfx_contract g" "length fb = fb_size" "prev_vol \<noteq> new_vol"
  shows "\<exists>fb' y0 y1. draw_volume_delta g prev_vol new_vol fb = Some (fb', (y0, y1)) \<and>
    draw_volume g new_vol fb = Some fb' \<and> y0 \<le> y1 \<and> y1 \<le> 359 \<and>
    (\<forall>v. (v = prev_vol \<or> v = new_vol) \<and> v > 0 \<longrightarrow>
       int y0 \<le> snd (arc_tip_point g (sweep_of v)) - 8 \<and> snd (arc_tip_point g (sweep_of v)) + 8 \<le> int y1) \<and>
    (prev_vol = 0 \<or> new_vol = 0 \<longrightarrow> y0 \<le> 292 \<and> 308 \<le> y1) \<and>
    (min (sweep_of prev_vol) (sweep_of new_vol) \<le> 135 \<and> 135 \<le> max (sweep_of prev_vol) (sweep_of new_vol) \<longrightarrow> y0 \<le> 2)"
proof -
  obtain fb' where fb': "draw_volume g new_vol fb = Some fb'"
    using drawsE [OF draws_volume [OF assms(1)] assms(2)] by metis
  obtain y0 y1 where "dirty_rows g prev_vol new_vol = (y0, y1)" by (cases "dirty_rows g prev_vol new_vol")
  with dirty_rows_cover [OF assms(1) this] fb' assms(3) show ?thesis
    by (auto simp: draw_volume_delta_def)
qed

theorem dirty_rows_sound_witness:
  "\<exists>fb' y0 y1. draw_volume_delta ref_gfx 0 50 (framebuffer glitchy) = Some (fb', (y0, y1)) \<and>
    draw_volume ref_gfx 50 (framebuffer glitchy) = Some fb' \<and> y0 \<le> y1 \<and> y1 \<le> 359 \<and>
    (\<forall>v. (v = 0 \<or> v = 50) \<and> v > 0 \<longrightarrow>
       int y0 \<le> snd (arc_tip_point ref_gfx (sweep_of v)) - 8 \<and> snd (arc_tip_point ref_gfx (sweep_of v)) + 8 \<le> int y1) \<and>
    ((0 :: u8) = 0 \<or> (50 :: u8) = 0 \<longrightarrow> y0 \<le> 292 \<and> 308 \<le> y1) \<and>
    (min (sweep_of 0) (sweep_of 50) \<le> 135 \<and> 135 \<le> max (sweep_of 0) (sweep_of 50) \<longrightarrow> y0 \<le> 2)"
  by (rule dirty_rows_sound [OF ref_gfx_contract]) (simp_all add: glitchy_def display_new_def)

lemma batt_vpin: "unat ((ucast (raw :: u16) * 3100) div 4095 :: u32) = unat raw * 3100 div 4095"
proof -
  have "unat raw < 65536" using unsigned_less [of raw] by simp
  then have "unat (ucast raw * 3100 :: u32) = unat raw * 3100"
    by (simp add: unat_word_ariths unat_ucast_up)
  then show ?thesis by (simp add: unat_div)
qed

lemma unat_batt_pct:
  "unat (raw_to_batt_pct raw) = min 100 ((unat raw * 3100 div 4095 * 2 - 3000) * 100 div 1200)"
proof -
  define v where "v = unat raw * 3100 div 4095"
  have "unat raw < 2 ^ LENGTH(16)" by (rule unsigned_less)
  then have "unat raw < 65536" by simp
  then have v: "v < 50000" unfolding v_def by (simp add: div_less_iff_less_mult)
  define w where "w = ((ucast raw * 3100) div 4095 :: u32)"
  have w: "unat w = v" by (simp add: w_def v_def batt_vpin)
  have w2: "unat (w * 2) = v * 2" using v w by (simp add: unat_word_ariths)
  have s: "unat (sat_sub (w * 2) 3000) = v * 2 - 3000" by (simp add: unat_sat_sub w2)
  have m: "unat (sat_sub (w * 2) 3000 * 100) = (v * 2 - 3000) * 100"
    using v by (simp add: unat_word_ariths s)
  have d: "unat (sat_sub (w * 2) 3000 * 100 div 1200) = (v * 2 - 3000) * 100 div 1200"
    by (simp add: unat_div m)
  have "unat (min (sat_sub (w * 2) 3000 * 100 div 1200) 100) = min ((v * 2 - 3000) * 100 div 1200) 100"
    by (simp add: min_def word_le_nat_alt d)
  then show ?thesis
    by (simp add: raw_to_batt_pct_def w_def [symmetric] v_def [symmetric] min.commute unsigned_ucast_eq take_bit_nat_eq_self)
qed

text \<open>
  The battery percentage is at most 100 for every 16-bit reading, grows with the reading and
  is computed without overflow: it is the exact integer formula of the divider and the linear
  range from 3.0 V to 4.2 V.
\<close>

theorem battery_percentage:
  "unat (raw_to_batt_pct raw) = min 100 ((unat raw * 3100 div 4095 * 2 - 3000) * 100 div 1200) \<and>
   (raw \<le> raw' \<longrightarrow> raw_to_batt_pct raw \<le> raw_to_batt_pct raw')"
proof (intro conjI impI unat_batt_pct)
  assume "raw \<le> raw'"
  then have "unat raw * 3100 div 4095 * 2 \<le> unat raw' * 3100 div 4095 * 2"
    by (intro mult_le_mono1 div_le_mono) (simp add: word_le_nat_alt)
  then have "(unat raw * 3100 div 4095 * 2 - 3000) * 100 div 1200 \<le> (unat raw' * 3100 div 4095 * 2 - 3000) * 100 div 1200"
    by (intro div_le_mono mult_le_mono1) simp
  then show "raw_to_batt_pct raw \<le> raw_to_batt_pct raw'"
    unfolding word_le_nat_alt unat_batt_pct by (simp add: min_def)
qed

theorem battery_percentage_witness:
  "raw_to_batt_pct 2000 \<le> raw_to_batt_pct 2500 \<and> unat (raw_to_batt_pct 2500) = 65"
  using battery_percentage [of 2000 2500] battery_percentage [of 2500 2500] by simp

end
