(* ===== verification/Messages.thy ===== *)
theory Messages
  imports Prelude
begin

text \<open>
  The message types both sides of the link share (\<open>protocol/src/messages.rs\<close>), constructor
  by constructor.  A Rust \<open>i32\<close> or \<open>i16\<close> is a word read with \<open>sint\<close>; the constructor
  \<open>Echo\<close>, which both enums have, is \<open>EchoReq\<close> on the host's side.
\<close>

definition protocol_version :: u16 where
  "protocol_version = 2"

text \<open>Minimal information about an audio app.\<close>

record app_info =
  ai_id :: u32
  ai_name :: str
  ai_volume :: u8
  ai_muted :: bool

datatype gesture_kind =
  KSingleTap | KLongPress | KSwipeUp | KSwipeDown | KSwipeLeft | KSwipeRight

text \<open>Messages from the companion to the device.\<close>

datatype host_to_device =
    Ping
  | SetAppList "app_info list"
  | SetAppIcon (icon_app_id: u32) (icon_pixels: "u8 list")
  | SetSelectedApp u32
  | SetVolume u32 u8
  | SetMute u32 bool
  | SetBacklight (active_pct: u8) (dim_after_secs: u16) (off_after_secs: u16)
  | EchoReq "u8 list"
  | SetWifiConfig (ssid: str) (password: str)
  | GetWifiStatus

text \<open>Messages from the device to the companion.\<close>

datatype device_to_host =
    Ready u16
  | Pong
  | Echo "u8 list"
  | EncoderDelta u32
  | Gesture gesture_kind
  | VolumeDelta u32 u16
  | AppSelected u32
  | MuteToggle u32
  | Ack
  | WifiStatus bool str

end
