(* ===== verification/Codec.thy ===== *)
theory Codec
  imports Messages
begin

text \<open>
  The wire codec (\<open>protocol/src/codec.rs\<close>): CRC-8, framing of one message and the streaming
  decoder.  The crates \<open>postcard\<close> and \<open>cobs\<close> are not part of the repository, so a value of
  \<open>wire_lib\<close> holds the five library functions the codec calls, and the locale \<open>wire_format\<close>
  states what their documentation promises.
\<close>

section \<open>The libraries the codec calls\<close>

record 'm wire_lib =
  to_allocvec :: "'m \<Rightarrow> u8 list option"            \<comment> \<open>postcard: serialize\<close>
  from_bytes :: "u8 list \<Rightarrow> 'm option"             \<comment> \<open>postcard: deserialize\<close>
  max_encoding_length :: "nat \<Rightarrow> nat"              \<comment> \<open>cobs: worst-case encoded length\<close>
  cobs_encode :: "u8 list \<Rightarrow> u8 list"              \<comment> \<open>cobs: the bytes written to the output\<close>
  cobs_decode :: "u8 list \<Rightarrow> u8 list option"       \<comment> \<open>cobs: decode into a second buffer\<close>
  cobs_decode_in_place :: "u8 list \<Rightarrow> u8 list option" \<comment> \<open>cobs: the decoded prefix of the buffer\<close>

section \<open>Errors and CRC-8\<close>

datatype error = Serialize | Deserialize | Cobs | BadCrc | FrameTooShort | BufferFull

text \<open>One round of the inner loop, one byte, and the whole slice.\<close>

definition crc8_bit :: "u8 \<Rightarrow> u8" where
  "crc8_bit crc = (if crc AND 0x80 \<noteq> 0 then push_bit 1 crc XOR 0x07 else push_bit 1 crc)"

definition crc8_byte :: "u8 \<Rightarrow> u8 \<Rightarrow> u8" where
  "crc8_byte crc b = (crc8_bit ^^ 8) (crc XOR b)"

definition crc8 :: "u8 list \<Rightarrow> u8" where
  "crc8 data = foldl crc8_byte 0 data"

section \<open>One frame\<close>

text \<open>
  \<open>encode\<close>: the output buffer has \<open>max + 1\<close> bytes; \<open>cobs::encode\<close> fills a prefix of it,
  \<open>truncate\<close> keeps one byte more, and the indexing \<open>out[encoded_len]\<close> panics when the
  encoding is longer than the library announced.
\<close>

definition encode :: "'m wire_lib \<Rightarrow> 'm \<Rightarrow> (error + u8 list) option" where
  "encode W msg =
     (case to_allocvec W msg of
        None \<Rightarrow> Some (Inl Serialize)
      | Some payload \<Rightarrow>
          let with_crc = payload @ [crc8 payload];
              max_cobs_len = max_encoding_length W (length with_crc);
              enc = cobs_encode W with_crc;
              encoded_len = length enc;
              out = enc @ replicate (max_cobs_len + 1 - encoded_len) 0
          in if max_cobs_len < encoded_len then None
             else Some (Inr ((take (encoded_len + 1) out)[encoded_len := 0])))"

definition decode :: "'m wire_lib \<Rightarrow> u8 list \<Rightarrow> error + 'm" where
  "decode W frame =
     (case cobs_decode W frame of
        None \<Rightarrow> Inl Cobs
      | Some decoded \<Rightarrow>
          if length decoded < 2 then Inl FrameTooShort
          else let payload = take (length decoded - 1) decoded;
                   crc_bytes = drop (length decoded - 1) decoded
               in if crc8 payload \<noteq> crc_bytes ! 0 then Inl BadCrc
                  else (case from_bytes W payload of None \<Rightarrow> Inl Deserialize | Some m \<Rightarrow> Inr m))"

definition decode_in_place :: "'m wire_lib \<Rightarrow> u8 list \<Rightarrow> error + 'm" where
  "decode_in_place W buf =
     (case cobs_decode_in_place W buf of
        None \<Rightarrow> Inl Cobs
      | Some decoded \<Rightarrow>
          let decoded_len = length decoded
          in if decoded_len < 2 then Inl FrameTooShort
             else let payload = take (decoded_len - 1) decoded;
                      crc_bytes = drop (decoded_len - 1) decoded
                  in if crc8 payload \<noteq> crc_bytes ! 0 then Inl BadCrc
                     else (case from_bytes W payload of None \<Rightarrow> Inl Deserialize | Some m \<Rightarrow> Inr m))"

section \<open>The streaming decoder\<close>

record decoder =
  dec_buf :: "u8 list"
  max_frame_len :: nat

definition decoder_new :: "nat \<Rightarrow> decoder" where
  "decoder_new n = \<lparr>dec_buf = [], max_frame_len = n\<rparr>"

definition decoder_reset :: "decoder \<Rightarrow> decoder" where
  "decoder_reset d = d\<lparr>dec_buf := []\<rparr>"

definition decoder_push :: "decoder \<Rightarrow> u8 list \<Rightarrow> decoder \<times> (error + unit)" where
  "decoder_push d bytes =
     (if length (dec_buf d) + length bytes > max_frame_len d
      then (d\<lparr>dec_buf := []\<rparr>, Inl BufferFull)
      else (d\<lparr>dec_buf := dec_buf d @ bytes\<rparr>, Inr ()))"

definition next_frame :: "'m wire_lib \<Rightarrow> decoder \<Rightarrow> decoder \<times> (error + 'm option)" where
  "next_frame W d =
     (case position (\<lambda>b. b = 0) (dec_buf d) of
        None \<Rightarrow> (d, Inr None)
      | Some e \<Rightarrow>
          if e = 0 then (d\<lparr>dec_buf := drop (e + 1) (dec_buf d)\<rparr>, Inr None)
          else (d\<lparr>dec_buf := drop (e + 1) (dec_buf d)\<rparr>,
                map_sum id Some (decode_in_place W (take e (dec_buf d)))))"

text \<open>
  The drain loop of the decoder's documentation (\<open>call next_frame in a loop until it returns
  None\<close>), as every client writes it: messages are collected, an error ends the loop too.
\<close>

lemma next_frame_shrinks:
  "next_frame W d = (d', r) \<Longrightarrow> r \<noteq> Inr None \<Longrightarrow> length (dec_buf d') < length (dec_buf d)"
  by (auto simp: next_frame_def dest!: position_less split: option.splits if_splits)

function drain :: "'m wire_lib \<Rightarrow> decoder \<Rightarrow> decoder \<times> 'm list" where
  "drain W d =
     (case next_frame W d of
        (d', Inr (Some m)) \<Rightarrow> (let (d'', ms) = drain W d' in (d'', m # ms))
      | (d', Inr None) \<Rightarrow> (d', [])
      | (d', Inl e) \<Rightarrow> (d', []))"
  by pat_completeness auto
termination
  by (relation "measure (\<lambda>(W, d). length (dec_buf d))") (auto dest!: next_frame_shrinks [OF sym])

declare drain.simps [simp del]

lemma drain_None: "next_frame W d = (d', Inr None) \<Longrightarrow> drain W d = (d', [])"
  by (subst drain.simps) simp

lemma drain_Err: "next_frame W d = (d', Inl e) \<Longrightarrow> drain W d = (d', [])"
  by (subst drain.simps) simp

lemma drain_Some:
  "next_frame W d = (d', Inr (Some m)) \<Longrightarrow> drain W d = (let (d'', ms) = drain W d' in (d'', m # ms))"
  by (subst drain.simps) simp

text \<open>Feeding a sequence of chunks, draining after each one.\<close>

fun feed :: "'m wire_lib \<Rightarrow> decoder \<Rightarrow> u8 list list \<Rightarrow> decoder \<times> 'm list" where
  "feed W d [] = (d, [])"
| "feed W d (c # cs) =
     (let (d1, ms1) = drain W (fst (decoder_push d c));
          (d2, ms2) = feed W d1 cs
      in (d2, ms1 @ ms2))"


section \<open>CRC-8: linear algebra of the register\<close>

lemma xor_cancel: "(a :: 'a::len word) XOR c = b XOR c \<longleftrightarrow> a = b" "c XOR a = c XOR b \<longleftrightarrow> a = b"
  by (metis bit.xor_left_self xor.commute)+

lemma crc8_bit_alt: "crc8_bit c = push_bit 1 c XOR (if bit c 7 then 7 else 0)"
proof -
  have "c AND 0x80 = 0 \<longleftrightarrow> \<not> bit c 7"
    using and_exp_eq_0_iff_not_bit [of c 7] by simp
  then show ?thesis by (simp add: crc8_bit_def)
qed

lemma bit_crc8_bit_0: "bit (crc8_bit c) 0 = bit c 7"
  by (auto simp: crc8_bit_alt bit_0 even_xor_iff)

lemma crc8_bit_inj: "crc8_bit a = crc8_bit b \<Longrightarrow> a = b"
proof -
  assume eq: "crc8_bit a = crc8_bit b"
  then have top: "bit a 7 = bit b 7" by (metis bit_crc8_bit_0)
  with eq have shift: "push_bit 1 a = push_bit 1 b"
    by (simp add: crc8_bit_alt xor_cancel split: if_splits)
  have low: "bit a n = bit b n" if "n < 7" for n
  proof -
    have "bit (push_bit 1 a) (Suc n) = bit a n" "bit (push_bit 1 b) (Suc n) = bit b n"
      unfolding bit_push_bit_iff using that by simp_all
    with shift show ?thesis by metis
  qed
  show "a = b"
  proof (rule bit_word_eqI)
    fix n assume "n < LENGTH(8)"
    then have "n < 7 \<or> n = 7" by auto
    then show "bit a n = bit b n" using low top by blast
  qed
qed

lemma inj_crc8_bits: "inj (crc8_bit ^^ n)"
  by (rule inj_fn) (simp add: inj_on_def crc8_bit_inj)

lemma crc8_bit_0 [simp]: "crc8_bit 0 = 0"
  by (simp add: crc8_bit_def)

lemma crc8_bits_0 [simp]: "(crc8_bit ^^ n) 0 = 0"
  by (induction n) simp_all

lemma crc8_byte_eq_iff: "crc8_byte c a = crc8_byte d b \<longleftrightarrow> c XOR a = d XOR b"
  using inj_crc8_bits [of 8] by (auto simp: crc8_byte_def inj_on_def)

lemma crc8_byte_zero_iff: "crc8_byte c b = 0 \<longleftrightarrow> b = c"
proof -
  have "crc8_byte c b = 0 \<longleftrightarrow> crc8_byte c b = crc8_byte 0 0" by (simp add: crc8_byte_def)
  also have "\<dots> \<longleftrightarrow> c XOR b = 0" by (simp only: crc8_byte_eq_iff xor_self_eq)
  also have "\<dots> \<longleftrightarrow> b = c" by (metis xor_cancel(2) xor_self_eq)
  finally show ?thesis .
qed

lemma crc8_foldl_inj: "foldl crc8_byte a xs = foldl crc8_byte b xs \<longleftrightarrow> a = b"
  by (induction xs arbitrary: a b) (simp_all add: crc8_byte_eq_iff xor_cancel)

lemma crc8_snoc: "crc8 (xs @ [b]) = crc8_byte (crc8 xs) b"
  by (simp add: crc8_def)

text \<open>The residue: a received block passes the check exactly when its CRC is zero.\<close>

lemma crc8_residue: "crc8 (xs @ [b]) = 0 \<longleftrightarrow> b = crc8 xs"
  by (simp add: crc8_snoc crc8_byte_zero_iff)

lemma crc8_one_byte: "x \<noteq> y \<Longrightarrow> crc8 (xs @ x # ys) \<noteq> crc8 (xs @ y # ys)"
  by (simp add: crc8_def crc8_foldl_inj crc8_byte_eq_iff xor_cancel)

lemma crc8_list_update:
  "i < length xs \<Longrightarrow> v \<noteq> xs ! i \<Longrightarrow> crc8 (xs[i := v]) \<noteq> crc8 xs"
  by (metis crc8_one_byte id_take_nth_drop upd_conv_take_nth_drop)

section \<open>What the libraries promise\<close>

text \<open>
  \<open>cobs\<close>: the encoding of any bytes holds no zero byte and is not empty, the encoding of a
  non-empty block fits the announced length, decoding inverts encoding, and decoding in place
  gives what decoding into a second buffer gives.
\<close>

locale cobs_contract =
  fixes W :: "'m wire_lib"
  assumes cobs_bound: "xs \<noteq> [] \<Longrightarrow> length (cobs_encode W xs) \<le> max_encoding_length W (length xs)"
    and cobs_no_zero: "0 \<notin> set (cobs_encode W xs)"
    and cobs_nonempty: "cobs_encode W xs \<noteq> []"
    and cobs_round: "cobs_decode W (cobs_encode W xs) = Some xs"
    and cobs_in_place: "cobs_decode_in_place W ys = cobs_decode W ys"
begin

lemma decode_in_place_eq: "decode_in_place W ys = decode W ys"
  by (simp add: decode_in_place_def decode_def cobs_in_place Let_def split: option.splits)

lemma encode_shape:
  assumes "to_allocvec W m = Some p"
  shows "encode W m = Some (Inr (cobs_encode W (p @ [crc8 p]) @ [0]))"
proof -
  let ?e = "cobs_encode W (p @ [crc8 p])"
  let ?m = "max_encoding_length W (Suc (length p))"
  have le: "length ?e \<le> ?m"
    using cobs_bound [of "p @ [crc8 p]"] by simp
  then obtain k where k: "?m + 1 - length ?e = Suc k"
    by (metis Suc_diff_le Suc_eq_plus1)
  have "(take (length ?e + 1) (?e @ replicate (Suc k) 0))[length ?e := 0] = ?e @ [0]"
    by simp
  with le k show ?thesis
    by (simp add: encode_def assms Let_def)
qed

lemma encode_never_panics: "encode W m \<noteq> None"
proof (cases "to_allocvec W m")
  case None
  then show ?thesis by (simp add: encode_def)
next
  case (Some p)
  then show ?thesis by (simp add: encode_shape)
qed

lemma encode_OkE:
  assumes "encode W m = Some (Inr f)"
  obtains p where "to_allocvec W m = Some p" "f = cobs_encode W (p @ [crc8 p]) @ [0]"
  using assms encode_shape by (cases "to_allocvec W m") (auto simp: encode_def)

text \<open>A block that passes through the framing with one byte changed fails the CRC check.\<close>

lemma decode_block:
  assumes "cobs_decode W frame = Some blk" and "2 \<le> length blk"
  shows "decode W frame =
    (if crc8 blk \<noteq> 0 then Inl BadCrc
     else (case from_bytes W (butlast blk) of None \<Rightarrow> Inl Deserialize | Some m \<Rightarrow> Inr m))"
proof -
  obtain p b where blk: "blk = p @ [b]"
    using assms(2) by (metis append_butlast_last_id le_zero_eq list.size(3) numeral_2_eq_2 Zero_not_Suc)
  have "crc8 blk \<noteq> 0 \<longleftrightarrow> crc8 p \<noteq> b" by (auto simp: blk crc8_residue)
  then show ?thesis
    using assms(2) by (auto simp: decode_def assms(1) blk Let_def split: option.splits)
qed

end

text \<open>\<open>postcard\<close>: a serialized message is not empty and deserializes to itself.\<close>

locale wire_format = cobs_contract W for W :: "'m wire_lib" +
  assumes ser_nonempty: "to_allocvec W m = Some p \<Longrightarrow> p \<noteq> []"
    and de_ser: "to_allocvec W m = Some p \<Longrightarrow> from_bytes W p = Some m"
begin

lemma decode_encode:
  assumes "encode W m = Some (Inr f)"
  shows "decode W (butlast f) = Inr m"
proof -
  obtain p where p: "to_allocvec W m = Some p" "f = cobs_encode W (p @ [crc8 p]) @ [0]"
    using assms by (rule encode_OkE)
  have "crc8 (p @ [crc8 p]) = 0" by (simp add: crc8_residue)
  with p show ?thesis
    using decode_block [OF cobs_round, of "p @ [crc8 p]"] ser_nonempty [OF p(1)] de_ser [OF p(1)]
    by (cases p) simp_all
qed

lemma frame_shape:
  assumes "encode W m = Some (Inr f)"
  obtains g where "f = g @ [0]" "g \<noteq> []" "0 \<notin> set g" "decode_in_place W g = Inr m"
proof -
  obtain p where p: "f = cobs_encode W (p @ [crc8 p]) @ [0]"
    using assms by (rule encode_OkE)
  show thesis
    using that [OF p cobs_nonempty cobs_no_zero] decode_encode [OF assms] p
    by (simp add: decode_in_place_eq)
qed

text \<open>One complete frame at the front of the buffer is delivered and consumed.\<close>

lemma next_frame_hit:
  assumes "encode W m = Some (Inr f)" and "dec_buf d = f @ rest"
  shows "next_frame W d = (d\<lparr>dec_buf := rest\<rparr>, Inr (Some m))"
proof -
  obtain g where g: "f = g @ [0]" "g \<noteq> []" "0 \<notin> set g" "decode_in_place W g = Inr m"
    using assms(1) by (rule frame_shape)
  have "position (\<lambda>b. b = 0) (dec_buf d) = Some (length g)"
    using g(3) assms(2) by (simp add: g(1)) (rule position_append_hit, auto)
  then show ?thesis
    using g assms(2) by (simp add: next_frame_def)
qed

lemma next_frame_miss: "0 \<notin> set (dec_buf d) \<Longrightarrow> next_frame W d = (d, Inr None)"
proof -
  assume "0 \<notin> set (dec_buf d)"
  then have "position (\<lambda>b. b = 0) (dec_buf d) = None" by (auto simp: position_None)
  then show ?thesis by (simp add: next_frame_def)
qed

text \<open>
  Draining a buffer that holds the beginning of a sequence of frames delivers the messages
  of the complete ones and leaves the incomplete one.
\<close>

lemma drain_frames:
  assumes "list_all2 (\<lambda>m f. encode W m = Some (Inr f)) ms fs"
    and "dec_buf d @ r = concat fs"
  shows "\<exists>k b. drain W d = (d\<lparr>dec_buf := b\<rparr>, take k ms) \<and> 0 \<notin> set b \<and> b @ r = concat (drop k fs)"
  using assms
proof (induction ms fs arbitrary: d rule: list_all2_induct)
  case Nil
  then have "dec_buf d = []" "r = []" by simp_all
  moreover from this have "drain W d = (d, [])"
    by (simp add: drain_None next_frame_miss)
  ultimately show ?case by (intro exI [of _ "0::nat"] exI [of _ "[]"]) (cases d, simp)
next
  case (Cons m ms f fs)
  obtain g where g: "f = g @ [0]" "g \<noteq> []" "0 \<notin> set g"
    using Cons.hyps(1) by (rule frame_shape)
  show ?case
  proof (cases "0 \<in> set (dec_buf d)")
    case False
    then have "drain W d = (d, [])"
      by (simp add: drain_None next_frame_miss)
    then show ?thesis
      using False Cons.prems
      by (intro exI [of _ "0::nat"] exI [of _ "dec_buf d"]) simp
  next
    case True
    have "\<exists>b2. dec_buf d = f @ b2 \<and> b2 @ r = concat fs"
      using Cons.prems True g(1,3)
      by (auto simp: append_eq_append_conv2 append_eq_Cons_conv Cons_eq_append_conv)
    then obtain b2 where b2: "dec_buf d = f @ b2" "b2 @ r = concat fs" by blast
    let ?d = "d\<lparr>dec_buf := b2\<rparr>"
    obtain k b where IH: "drain W ?d = (?d\<lparr>dec_buf := b\<rparr>, take k ms)" "0 \<notin> set b"
        "b @ r = concat (drop k fs)"
      using Cons.IH [of ?d] b2(2) by auto
    have "drain W d = (d\<lparr>dec_buf := b\<rparr>, take (Suc k) (m # ms))"
      using IH(1) by (simp add: drain_Some [OF next_frame_hit [OF Cons.hyps(1) b2(1)]])
    with IH(2,3) show ?thesis by (intro exI [of _ "Suc k"] exI [of _ b]) simp
  qed
qed

lemma feed_frames:
  assumes "list_all2 (\<lambda>m f. encode W m = Some (Inr f)) ms fs"
    and "dec_buf d @ concat cs = concat fs" and "0 \<notin> set (dec_buf d)"
    and "\<forall>c\<in>set cs. \<forall>f\<in>set fs. length c + length f \<le> Suc (max_frame_len d)"
  shows "feed W d cs = (d\<lparr>dec_buf := []\<rparr>, ms)"
  using assms
proof (induction cs arbitrary: d ms fs)
  case Nil
  have "fs = []"
  proof (rule ccontr)
    assume "fs \<noteq> []"
    then obtain f fs' m ms' where "fs = f # fs'" "encode W m = Some (Inr f)"
      using Nil.prems(1) by (cases fs) (auto simp: list_all2_Cons2)
    with Nil.prems(2,3) show False by (auto elim!: frame_shape)
  qed
  with Nil.prems show ?case by (cases d) simp
next
  case (Cons c cs)
  have fits: "length (dec_buf d) + length c \<le> max_frame_len d"
  proof (cases fs)
    case Nil
    with Cons.prems(2) show ?thesis by simp
  next
    case (Cons f fs')
    then obtain m where "encode W m = Some (Inr f)"
      using Cons.prems(1) by (auto simp: list_all2_Cons2)
    then obtain g where g: "f = g @ [0]" by (rule frame_shape)
    have "length (dec_buf d) \<le> length g"
    proof (rule ccontr)
      assume "\<not> ?thesis"
      then have "length (g @ [0]) \<le> length (dec_buf d)" by simp
      then have "take (length (g @ [0])) (dec_buf d) = g @ [0]"
        using Cons.prems(2) Cons g
        by (metis append_eq_append_conv_if append_take_drop_id concat.simps(2) nat_le_linear take_append append_eq_conv_conj)
      then show False using Cons.prems(3) by (metis in_set_conv_decomp in_set_takeD)
    qed
    with Cons g Cons.prems(4) show ?thesis by auto
  qed
  let ?d = "d\<lparr>dec_buf := dec_buf d @ c\<rparr>"
  have push: "decoder_push d c = (?d, Inr ())"
    using fits by (simp add: decoder_push_def)
  obtain k b where dr: "drain W ?d = (?d\<lparr>dec_buf := b\<rparr>, take k ms)" "0 \<notin> set b"
      "b @ concat cs = concat (drop k fs)"
    using drain_frames [OF Cons.prems(1), of ?d "concat cs"] Cons.prems(2) by auto
  have "feed W (?d\<lparr>dec_buf := b\<rparr>) cs = (?d\<lparr>dec_buf := []\<rparr>, drop k ms)"
    using Cons.IH [of "drop k ms" "drop k fs" "?d\<lparr>dec_buf := b\<rparr>"] dr(2,3) Cons.prems(1,4)
    by (auto dest: in_set_dropD intro: list_all2_dropI)
  then show ?case using push dr(1) by simp
qed

end

end
