(* ===== verification/Reference_Wire.thy ===== *)
theory Reference_Wire
  imports Codec
begin

text \<open>
  An instance of the library contracts of theory \<open>Codec\<close>: consistent overhead byte stuffing
  as the \<open>cobs\<close> crate documents it, and the documented \<open>postcard\<close> wire format (varint
  integers, zigzag for signed ones, length-prefixed sequences, constructor index first) for the
  two message enums.  It shows that the contracts can hold together for these very message
  types; theorems about the code stay parametric in the library.
\<close>

section \<open>Consistent overhead byte stuffing\<close>

text \<open>The accumulator is the current block of non-zero bytes, at most 253 long.\<close>

fun cobs_enc :: "u8 list \<Rightarrow> u8 list \<Rightarrow> u8 list" where
  "cobs_enc blk [] = of_nat (length blk + 1) # blk"
| "cobs_enc blk (x # xs) =
     (if x = 0 then of_nat (length blk + 1) # blk @ cobs_enc [] xs
      else if length blk = 253 then 255 # (blk @ [x]) @ (if xs = [] then [] else cobs_enc [] xs)
      else cobs_enc (blk @ [x]) xs)"

function cobs_dec :: "u8 list \<Rightarrow> u8 list option" where
  "cobs_dec [] = Some []"
| "cobs_dec (c # r) =
     (let n = unat c - 1 in
      if c = 0 \<or> length r < n \<or> 0 \<in> set (take n r) then None
      else if drop n r = [] then Some (take n r)
      else map_option (\<lambda>t. take n r @ (if c = 255 then [] else [0]) @ t) (cobs_dec (drop n r)))"
  by pat_completeness auto
termination
  by (relation "measure length") auto

lemma cobs_enc_nonempty: "cobs_enc blk xs \<noteq> []"
  by (induction blk xs rule: cobs_enc.induct) auto

lemma unat_of_nat_small: "n < 256 \<Longrightarrow> unat (of_nat n :: u8) = n"
  by (simp add: unat_of_nat)

lemma of_nat_nonzero: "0 < n \<Longrightarrow> n < 256 \<Longrightarrow> (of_nat n :: u8) \<noteq> 0"
  by (metis unat_of_nat_small less_nat_zero_code unat_0)

lemma of_nat_not_255: "n < 255 \<Longrightarrow> (of_nat n :: u8) \<noteq> 255"
proof
  assume "n < 255" "(of_nat n :: u8) = 255"
  then have "unat (of_nat n :: u8) = 255" by simp
  with \<open>n < 255\<close> show False by (simp add: unat_of_nat_small)
qed

lemma cobs_enc_no_zero:
  "0 \<notin> set blk \<Longrightarrow> length blk \<le> 253 \<Longrightarrow> 0 \<notin> set (cobs_enc blk xs)"
proof (induction blk xs rule: cobs_enc.induct)
  case (1 blk)
  have "(of_nat (length blk + 1) :: u8) \<noteq> 0"
    using 1 by (intro of_nat_nonzero) auto
  with 1 show ?case by auto
next
  case (2 blk x xs)
  have "(of_nat (length blk + 1) :: u8) \<noteq> 0"
    using 2 by (intro of_nat_nonzero) auto
  with 2 show ?case by auto
qed

lemma cobs_dec_block:
  assumes "0 \<notin> set blk" "length blk = n" "n \<le> 254"
  shows "cobs_dec (of_nat (n + 1) # blk @ rest) =
    (if rest = [] then Some blk
     else map_option (\<lambda>t. blk @ (if n = 254 then [] else [0]) @ t) (cobs_dec rest))"
proof -
  have c: "unat (of_nat (n + 1) :: u8) = n + 1"
    using assms(3) by (intro unat_of_nat_small) auto
  have nz: "(of_nat (n + 1) :: u8) \<noteq> 0"
    using assms(3) by (intro of_nat_nonzero) auto
  have full: "((of_nat (n + 1) :: u8) = 255) = (n = 254)"
    using assms(3) of_nat_not_255 [of "n + 1"] by (cases "n = 254") auto
  show ?thesis
    using assms by (simp only: cobs_dec.simps Let_def c full) (use nz in auto)
qed

lemma cobs_dec_enc:
  "0 \<notin> set blk \<Longrightarrow> length blk \<le> 253 \<Longrightarrow> cobs_dec (cobs_enc blk xs) = Some (blk @ xs)"
proof (induction blk xs rule: cobs_enc.induct)
  case (1 blk)
  then show ?case using cobs_dec_block [of blk "length blk" "[]"] by simp
next
  case (2 blk x xs)
  consider "x = 0" | "x \<noteq> 0" "length blk = 253" | "x \<noteq> 0" "length blk < 253"
    using 2 by fastforce
  then show ?case
  proof cases
    case 1
    then show ?thesis
      using 2 cobs_dec_block [of blk "length blk" "cobs_enc [] xs"] by (simp add: cobs_enc_nonempty)
  next
    case a: 2
    then show ?thesis
      using 2 cobs_dec_block [of "blk @ [x]" 254 "if xs = [] then [] else cobs_enc [] xs"]
      by (auto simp: cobs_enc_nonempty)
  next
    case 3
    then show ?thesis using 2 by simp
  qed
qed

text \<open>The documented bound: one byte of overhead per 254 bytes, rounded up.\<close>

definition cobs_max :: "nat \<Rightarrow> nat" where
  "cobs_max n = n + n div 254 + (if n mod 254 > 0 then 1 else 0)"

lemma cobs_max_alt: "cobs_max n = n + (n + 253) div 254"
proof -
  define q r where "q = n div 254" and "r = n mod 254"
  then have n: "n = 254 * q + r" "r < 254" by simp_all
  have "(r + 253) div 254 = (if r > 0 then 1 else 0)"
    using n(2) by (cases "r = 0") (auto intro!: div_nat_eqI)
  moreover have "(n + 253) div 254 = q + (r + 253) div 254"
    by (simp add: n(1) add.assoc)
  ultimately show ?thesis by (simp add: cobs_max_def q_def r_def)
qed

lemma cobs_enc_length:
  "length blk \<le> 253 \<Longrightarrow> length (cobs_enc blk xs) \<le>
     (if length blk + length xs = 0 then 1 else cobs_max (length blk + length xs))"
proof (induction blk xs rule: cobs_enc.induct)
  case (1 blk)
  then show ?case by (auto simp: cobs_max_def)
next
  case (2 blk x xs)
  consider "x = 0" | "x \<noteq> 0" "length blk = 253" | "x \<noteq> 0" "length blk < 253"
    using 2 by fastforce
  then show ?case
  proof cases
    case 1
    then show ?thesis using 2(1) [OF 1] by (auto simp: cobs_max_alt split: if_splits)
  next
    case a: 2
    show ?thesis
    proof (cases "xs = []")
      case True
      with a show ?thesis by (simp add: cobs_max_alt)
    next
      case False
      with a 2(2) [OF a False] show ?thesis by (simp add: cobs_max_alt)
    qed
  next
    case 3
    then show ?thesis using 2 by simp
  qed
qed

section \<open>Postcard primitives\<close>

text \<open>
  A parser returns the value and the bytes left.  \<open>inverts\<close> is the law every pair of a
  writer and a parser satisfies: the parser reads back what the writer wrote, whatever follows.
\<close>

definition inverts :: "('a \<Rightarrow> u8 list) \<Rightarrow> (u8 list \<Rightarrow> ('a \<times> u8 list) option) \<Rightarrow> bool" where
  "inverts wr rd \<longleftrightarrow> (\<forall>x rest. rd (wr x @ rest) = Some (x, rest))"

lemma invertsD: "inverts wr rd \<Longrightarrow> rd (wr x @ rest) = Some (x, rest)"
  by (simp add: inverts_def)

fun wr_nat :: "nat \<Rightarrow> u8 list" where
  "wr_nat n = (if n < 128 then [of_nat n] else of_nat (n mod 128 + 128) # wr_nat (n div 128))"

declare wr_nat.simps [simp del]

fun rd_nat :: "u8 list \<Rightarrow> (nat \<times> u8 list) option" where
  "rd_nat [] = None"
| "rd_nat (b # r) =
     (if unat b < 128 then Some (unat b, r)
      else map_option (\<lambda>(k, r'). (unat b - 128 + 128 * k, r')) (rd_nat r))"

lemma inverts_nat: "inverts wr_nat rd_nat"
proof -
  have "rd_nat (wr_nat n @ rest) = Some (n, rest)" for n rest
  proof (induction n rule: wr_nat.induct)
    case (1 n)
    show ?case
    proof (cases "n < 128")
      case True
      then show ?thesis by (subst wr_nat.simps) (simp add: unat_of_nat_small)
    next
      case False
      have u: "unat (of_nat (n mod 128 + 128) :: u8) = n mod 128 + 128"
        by (rule unat_of_nat_small) simp
      show ?thesis
        using False 1 [OF False] by (subst wr_nat.simps) (simp add: u del: of_nat_add)
    qed
  qed
  then show ?thesis by (simp add: inverts_def)
qed

definition wr_word :: "'a::len word \<Rightarrow> u8 list" where
  "wr_word w = wr_nat (unat w)"

definition rd_word :: "u8 list \<Rightarrow> ('a::len word \<times> u8 list) option" where
  "rd_word bs = map_option (\<lambda>(k, r). (of_nat k, r)) (rd_nat bs)"

lemma inverts_word: "inverts wr_word rd_word"
  by (simp add: inverts_def wr_word_def rd_word_def invertsD [OF inverts_nat])

text \<open>Signed integers: zigzag, so that small negative numbers stay short.\<close>

definition wr_signed :: "'a::len word \<Rightarrow> u8 list" where
  "wr_signed w = (let i = sint w in wr_nat (nat (if 0 \<le> i then 2 * i else - 2 * i - 1)))"

definition rd_signed :: "u8 list \<Rightarrow> ('a::len word \<times> u8 list) option" where
  "rd_signed bs = map_option (\<lambda>(k, r).
     (if even k then of_int (int (k div 2)) else of_int (- int (k div 2) - 1), r)) (rd_nat bs)"

lemma inverts_signed: "inverts wr_signed rd_signed"
proof -
  have "rd_signed (wr_signed w @ rest) = Some (w, rest)" for w :: "'a::len word" and rest
  proof (cases "0 \<le> sint w")
    case True
    then obtain k where k: "sint w = int k" by (metis nonneg_int_cases)
    then have "(of_nat k :: 'a word) = w" by (metis of_int_of_nat_eq of_int_sint scast_id)
    with k show ?thesis
      by (simp add: wr_signed_def rd_signed_def invertsD [OF inverts_nat] nat_mult_distrib)
  next
    case False
    then obtain k where "- sint w - 1 = int k" by (metis nonneg_int_cases add.commute diff_ge_0_iff_ge int_one_le_iff_zero_less neg_0_less_iff_less not_le)
    then have k: "sint w = - int k - 1" by simp
    then have w: "of_int (- int k - 1) = w" by (metis of_int_sint scast_id)
    have n: "nat (- 2 * sint w - 1) = 2 * k + 1" using k by simp
    with False w show ?thesis
      by (simp add: wr_signed_def rd_signed_def invertsD [OF inverts_nat] Let_def)
  qed
  then show ?thesis by (simp add: inverts_def)
qed

definition wr_byte :: "u8 \<Rightarrow> u8 list" where "wr_byte b = [b]"

fun rd_byte :: "u8 list \<Rightarrow> (u8 \<times> u8 list) option" where
  "rd_byte [] = None"
| "rd_byte (b # r) = Some (b, r)"

definition wr_bool :: "bool \<Rightarrow> u8 list" where "wr_bool b = [if b then 1 else 0]"

fun rd_bool :: "u8 list \<Rightarrow> (bool \<times> u8 list) option" where
  "rd_bool [] = None"
| "rd_bool (b # r) = (if b = 0 then Some (False, r) else if b = 1 then Some (True, r) else None)"

lemma inverts_byte: "inverts wr_byte rd_byte"
  by (simp add: inverts_def wr_byte_def)

lemma inverts_bool: "inverts wr_bool rd_bool"
  by (simp add: inverts_def wr_bool_def)

fun rd_times :: "(u8 list \<Rightarrow> ('a \<times> u8 list) option) \<Rightarrow> nat \<Rightarrow> u8 list \<Rightarrow> ('a list \<times> u8 list) option" where
  "rd_times rd 0 bs = Some ([], bs)"
| "rd_times rd (Suc n) bs =
     (case rd bs of None \<Rightarrow> None
      | Some (x, r) \<Rightarrow> map_option (\<lambda>(xs, r'). (x # xs, r')) (rd_times rd n r))"

definition wr_seq :: "('a \<Rightarrow> u8 list) \<Rightarrow> 'a list \<Rightarrow> u8 list" where
  "wr_seq wr xs = wr_nat (length xs) @ concat (map wr xs)"

definition rd_seq :: "(u8 list \<Rightarrow> ('a \<times> u8 list) option) \<Rightarrow> u8 list \<Rightarrow> ('a list \<times> u8 list) option" where
  "rd_seq rd bs = (case rd_nat bs of None \<Rightarrow> None | Some (n, r) \<Rightarrow> rd_times rd n r)"

lemma rd_times_writes:
  "inverts wr rd \<Longrightarrow> rd_times rd (length xs) (concat (map wr xs) @ rest) = Some (xs, rest)"
  by (induction xs) (simp_all add: invertsD)

lemma inverts_seq: "inverts wr rd \<Longrightarrow> inverts (wr_seq wr) (rd_seq rd)"
  by (simp add: inverts_def [of "wr_seq wr"] wr_seq_def rd_seq_def invertsD [OF inverts_nat] rd_times_writes)

lemmas postcard_inverts =
  invertsD [OF inverts_nat] invertsD [OF inverts_word] invertsD [OF inverts_signed]
  invertsD [OF inverts_byte] invertsD [OF inverts_bool] invertsD [OF inverts_seq [OF inverts_byte]]

section \<open>Postcard for the two message enums\<close>

definition bind2 :: "('a \<times> u8 list) option \<Rightarrow> ('a \<Rightarrow> u8 list \<Rightarrow> 'b option) \<Rightarrow> 'b option" where
  "bind2 p f = (case p of None \<Rightarrow> None | Some (x, r) \<Rightarrow> f x r)"

lemma bind2_Some [simp]: "bind2 (Some (x, r)) f = f x r"
  by (simp add: bind2_def)

definition wr_app :: "app_info \<Rightarrow> u8 list" where
  "wr_app a = wr_word (ai_id a) @ wr_seq wr_byte (ai_name a) @ wr_byte (ai_volume a) @ wr_bool (ai_muted a)"

definition rd_app :: "u8 list \<Rightarrow> (app_info \<times> u8 list) option" where
  "rd_app bs =
     bind2 (rd_word bs) (\<lambda>i r. bind2 (rd_seq rd_byte r) (\<lambda>n r. bind2 (rd_byte r) (\<lambda>v r.
     bind2 (rd_bool r) (\<lambda>m r. Some (\<lparr>ai_id = i, ai_name = n, ai_volume = v, ai_muted = m\<rparr>, r)))))"

lemma inverts_app: "inverts wr_app rd_app"
  by (simp add: inverts_def wr_app_def rd_app_def postcard_inverts)

fun gesture_index :: "gesture_kind \<Rightarrow> nat" where
  "gesture_index KSingleTap = 0"
| "gesture_index KLongPress = 1"
| "gesture_index KSwipeUp = 2"
| "gesture_index KSwipeDown = 3"
| "gesture_index KSwipeLeft = 4"
| "gesture_index KSwipeRight = 5"

definition gestures :: "gesture_kind list" where
  "gestures = [KSingleTap, KLongPress, KSwipeUp, KSwipeDown, KSwipeLeft, KSwipeRight]"

lemma gestures_index: "gesture_index g < length gestures \<and> gestures ! gesture_index g = g"
  by (cases g) (simp_all add: gestures_def)

fun wr_h2d :: "host_to_device \<Rightarrow> u8 list" where
  "wr_h2d Ping = wr_nat 0"
| "wr_h2d (SetAppList as) = wr_nat 1 @ wr_seq wr_app as"
| "wr_h2d (SetAppIcon i px) = wr_nat 2 @ wr_word i @ wr_seq wr_byte px"
| "wr_h2d (SetSelectedApp i) = wr_nat 3 @ wr_word i"
| "wr_h2d (SetVolume i l) = wr_nat 4 @ wr_word i @ wr_byte l"
| "wr_h2d (SetMute i m) = wr_nat 5 @ wr_word i @ wr_bool m"
| "wr_h2d (SetBacklight p d f) = wr_nat 6 @ wr_byte p @ wr_word d @ wr_word f"
| "wr_h2d (EchoReq xs) = wr_nat 7 @ wr_seq wr_byte xs"
| "wr_h2d (SetWifiConfig s p) = wr_nat 8 @ wr_seq wr_byte s @ wr_seq wr_byte p"
| "wr_h2d GetWifiStatus = wr_nat 9"

definition rd_h2d :: "u8 list \<Rightarrow> host_to_device option" where
  "rd_h2d bs = bind2 (rd_nat bs) (\<lambda>k r.
     if k = 0 then Some Ping
     else if k = 1 then bind2 (rd_seq rd_app r) (\<lambda>as r. Some (SetAppList as))
     else if k = 2 then bind2 (rd_word r) (\<lambda>i r. bind2 (rd_seq rd_byte r) (\<lambda>px r. Some (SetAppIcon i px)))
     else if k = 3 then bind2 (rd_word r) (\<lambda>i r. Some (SetSelectedApp i))
     else if k = 4 then bind2 (rd_word r) (\<lambda>i r. bind2 (rd_byte r) (\<lambda>l r. Some (SetVolume i l)))
     else if k = 5 then bind2 (rd_word r) (\<lambda>i r. bind2 (rd_bool r) (\<lambda>m r. Some (SetMute i m)))
     else if k = 6 then bind2 (rd_byte r) (\<lambda>p r. bind2 (rd_word r) (\<lambda>d r. bind2 (rd_word r) (\<lambda>f r. Some (SetBacklight p d f))))
     else if k = 7 then bind2 (rd_seq rd_byte r) (\<lambda>xs r. Some (EchoReq xs))
     else if k = 8 then bind2 (rd_seq rd_byte r) (\<lambda>s r. bind2 (rd_seq rd_byte r) (\<lambda>p r. Some (SetWifiConfig s p)))
     else if k = 9 then Some GetWifiStatus
     else None)"

fun wr_d2h :: "device_to_host \<Rightarrow> u8 list" where
  "wr_d2h (Ready v) = wr_nat 0 @ wr_word v"
| "wr_d2h Pong = wr_nat 1"
| "wr_d2h (Echo xs) = wr_nat 2 @ wr_seq wr_byte xs"
| "wr_d2h (EncoderDelta d) = wr_nat 3 @ wr_signed d"
| "wr_d2h (Gesture g) = wr_nat 4 @ wr_nat (gesture_index g)"
| "wr_d2h (VolumeDelta i d) = wr_nat 5 @ wr_word i @ wr_signed d"
| "wr_d2h (AppSelected i) = wr_nat 6 @ wr_word i"
| "wr_d2h (MuteToggle i) = wr_nat 7 @ wr_word i"
| "wr_d2h Ack = wr_nat 8"
| "wr_d2h (WifiStatus c s) = wr_nat 9 @ wr_bool c @ wr_seq wr_byte s"

definition rd_d2h :: "u8 list \<Rightarrow> device_to_host option" where
  "rd_d2h bs = bind2 (rd_nat bs) (\<lambda>k r.
     if k = 0 then bind2 (rd_word r) (\<lambda>v r. Some (Ready v))
     else if k = 1 then Some Pong
     else if k = 2 then bind2 (rd_seq rd_byte r) (\<lambda>xs r. Some (Echo xs))
     else if k = 3 then bind2 (rd_signed r) (\<lambda>d r. Some (EncoderDelta d))
     else if k = 4 then bind2 (rd_nat r) (\<lambda>j r. if j < length gestures then Some (Gesture (gestures ! j)) else None)
     else if k = 5 then bind2 (rd_word r) (\<lambda>i r. bind2 (rd_signed r) (\<lambda>d r. Some (VolumeDelta i d)))
     else if k = 6 then bind2 (rd_word r) (\<lambda>i r. Some (AppSelected i))
     else if k = 7 then bind2 (rd_word r) (\<lambda>i r. Some (MuteToggle i))
     else if k = 8 then Some Ack
     else if k = 9 then bind2 (rd_bool r) (\<lambda>c r. bind2 (rd_seq rd_byte r) (\<lambda>s r. Some (WifiStatus c s)))
     else None)"

lemma rd_nat_wr [simp]: "rd_nat (wr_nat n) = Some (n, [])"
  using invertsD [OF inverts_nat, of n "[]"] by simp

lemmas postcard_inverts0 = postcard_inverts [where rest = "[]", simplified]
  invertsD [OF inverts_app] invertsD [OF inverts_seq [OF inverts_app]]
  invertsD [OF inverts_seq [OF inverts_app], where rest = "[]", simplified]

lemma rd_h2d_wr: "rd_h2d (wr_h2d m) = Some m"
  by (cases m) (simp_all add: rd_h2d_def postcard_inverts postcard_inverts0)

lemma rd_d2h_wr: "rd_d2h (wr_d2h m) = Some m"
  by (cases m) (simp_all add: rd_d2h_def postcard_inverts postcard_inverts0 gestures_index)

lemma wr_nat_nonempty: "wr_nat n \<noteq> []"
  by (subst wr_nat.simps) simp

lemma wr_h2d_nonempty: "wr_h2d m \<noteq> []"
  by (cases m) (simp_all add: wr_nat_nonempty)

lemma wr_d2h_nonempty: "wr_d2h m \<noteq> []"
  by (cases m) (simp_all add: wr_nat_nonempty)

section \<open>The instances\<close>

definition cobs_wire :: "('m \<Rightarrow> u8 list) \<Rightarrow> (u8 list \<Rightarrow> 'm option) \<Rightarrow> 'm wire_lib" where
  "cobs_wire wr rd = \<lparr>to_allocvec = (\<lambda>m. Some (wr m)), from_bytes = rd, max_encoding_length = cobs_max,
     cobs_encode = cobs_enc [], cobs_decode = cobs_dec, cobs_decode_in_place = cobs_dec\<rparr>"

definition host_wire :: "host_to_device wire_lib" where
  "host_wire = cobs_wire wr_h2d rd_h2d"

definition dev_wire :: "device_to_host wire_lib" where
  "dev_wire = cobs_wire wr_d2h rd_d2h"

lemma cobs_enc_bound: "xs \<noteq> [] \<Longrightarrow> length (cobs_enc [] xs) \<le> cobs_max (length xs)"
  using cobs_enc_length [of "[]" xs] by simp

lemma cobs_wire_format:
  assumes "\<And>m. rd (wr m) = Some m" and "\<And>m. wr m \<noteq> []"
  shows "wire_format (cobs_wire wr rd)"
  by unfold_locales
    (use assms cobs_enc_bound cobs_enc_no_zero [of "[]"] cobs_dec_enc [of "[]"]
      in \<open>auto simp: cobs_wire_def cobs_enc_nonempty\<close>)

interpretation host_link: wire_format host_wire
  unfolding host_wire_def by (rule cobs_wire_format) (simp_all add: rd_h2d_wr wr_h2d_nonempty)

interpretation dev_link: wire_format dev_wire
  unfolding dev_wire_def by (rule cobs_wire_format) (simp_all add: rd_d2h_wr wr_d2h_nonempty)

end
