(* ===== verification/Link.thy ===== *)
theory Link
  imports Reference_Wire
begin

text \<open>
  The properties of the link layer: what a receiver that uses the codec of \<open>Codec\<close> sees of
  what a sender encoded, through any chunking of the byte stream, and after corruption.  They
  hold for every pair of libraries with the documented contract (\<open>wire_format\<close>); the
  witnesses use the reference formats of \<open>Reference_Wire\<close>.
\<close>

section \<open>The decoder's buffer\<close>

lemma next_frame_max: "max_frame_len (fst (next_frame W d)) = max_frame_len d"
  by (auto simp: next_frame_def split: option.splits)

lemma next_frame_length: "length (dec_buf (fst (next_frame W d))) \<le> length (dec_buf d)"
  by (auto simp: next_frame_def split: option.splits)

lemma drain_bound:
  "length (dec_buf (fst (drain W d))) \<le> length (dec_buf d) \<and> max_frame_len (fst (drain W d)) = max_frame_len d"
proof (induction W d rule: drain.induct)
  case (1 W d)
  obtain d' r where nf: "next_frame W d = (d', r)" by (cases "next_frame W d")
  then have le: "length (dec_buf d') \<le> length (dec_buf d)" "max_frame_len d' = max_frame_len d"
    by (metis fst_conv next_frame_length, metis fst_conv next_frame_max)
  show ?case
  proof (cases "\<exists>m. r = Inr (Some m)")
    case True
    then obtain m where r: "r = Inr (Some m)" by blast
    have "length (dec_buf (fst (drain W d'))) \<le> length (dec_buf d') \<and>
        max_frame_len (fst (drain W d')) = max_frame_len d'"
      by (rule "1.IH" [OF _ r refl]) (simp add: nf r)
    with le nf r show ?thesis by (simp add: drain_Some case_prod_beta)
  next
    case False
    then have "drain W d = (d', [])"
      using nf by (cases r) (auto simp: drain_Err intro: drain_None)
    with le show ?thesis by simp
  qed
qed

lemma push_bound: "length (dec_buf (fst (decoder_push d c))) \<le> max (length (dec_buf d)) (max_frame_len d)"
  by (simp add: decoder_push_def)

lemma push_max: "max_frame_len (fst (decoder_push d c)) = max_frame_len d"
  by (simp add: decoder_push_def)

lemma feed_bound:
  assumes "length (dec_buf d) \<le> max_frame_len d"
  shows "length (dec_buf (fst (feed W d cs))) \<le> max_frame_len d \<and> max_frame_len (fst (feed W d cs)) = max_frame_len d"
  using assms
proof (induction cs arbitrary: d)
  case (Cons c cs)
  let ?d = "fst (drain W (fst (decoder_push d c)))"
  have "length (dec_buf ?d) \<le> max_frame_len ?d" "max_frame_len ?d = max_frame_len d"
    using drain_bound [of W "fst (decoder_push d c)"] push_bound [of d c] push_max [of d c] Cons.prems
    by simp_all
  with Cons.IH [of ?d] show ?case by (simp add: case_prod_beta)
qed simp

section \<open>Properties\<close>

text \<open>
  C11. Whatever the chunking: when the bytes of a sequence of encoded messages arrive in chunks,
  and a chunk and a frame together fit the decoder's buffer, pushing each chunk and draining
  after it delivers exactly the messages, in order, and leaves the decoder empty.
\<close>

theorem stream_roundtrip:
  assumes "wire_format W" and "list_all2 (\<lambda>m f. encode W m = Some (Inr f)) ms fs"
    and "concat cs = concat fs" and "\<forall>c\<in>set cs. \<forall>f\<in>set fs. length c + length f \<le> Suc n"
  shows "feed W (decoder_new n) cs = (decoder_new n, ms)"
  using wire_format.feed_frames [OF assms(1,2), of "decoder_new n" cs] assms(3,4)
  by (simp add: decoder_new_def)

lemma host_frames:
  "encode host_wire (SetVolume 7 55) = Some (Inr [5, 4, 7, 55, 69, 0])"
  "encode host_wire Ping = Some (Inr [1, 1, 1, 0])"
  by code_simp+

theorem stream_roundtrip_witness:
  "feed host_wire (decoder_new 9) [[5, 4], [], [7, 55, 69], [0, 1, 1], [1, 0]] =
     (decoder_new 9, [SetVolume 7 55, Ping])"
  using stream_roundtrip [OF host_link.wire_format_axioms,
      of "[SetVolume 7 55, Ping]" "[[5, 4, 7, 55, 69, 0], [1, 1, 1, 0]]"
         "[[5, 4], [], [7, 55, 69], [0, 1, 1], [1, 0]]" 9]
  by (simp add: host_frames)

text \<open>
  \<open>encode\<close> never panics; a frame it produces ends in the only zero byte it holds, is at
  most one byte longer than the bound the framing library announces for the payload and its
  checksum, and both decoders give the message back.
\<close>

theorem encode_frame:
  assumes "wire_format W" and "to_allocvec W m = Some p"
  shows "\<exists>g. encode W m = Some (Inr (g @ [0])) \<and> g \<noteq> [] \<and> 0 \<notin> set g \<and>
    length g \<le> max_encoding_length W (length p + 1) \<and> decode W g = Inr m \<and> decode_in_place W g = Inr m"
proof -
  note contract = wire_format.axioms(1) [OF assms(1)]
  let ?g = "cobs_encode W (p @ [crc8 p])"
  have enc: "encode W m = Some (Inr (?g @ [0]))"
    by (rule cobs_contract.encode_shape [OF contract assms(2)])
  then have "decode W ?g = Inr m" using wire_format.decode_encode [OF assms(1) enc] by simp
  moreover have "length ?g \<le> max_encoding_length W (length p + 1)"
    using cobs_contract.cobs_bound [OF contract, of "p @ [crc8 p]"] by simp
  ultimately show ?thesis
    using enc cobs_contract.cobs_no_zero [OF contract] cobs_contract.cobs_nonempty [OF contract]
      cobs_contract.decode_in_place_eq [OF contract] by auto
qed

theorem encode_frame_witness:
  "\<exists>g. encode host_wire (SetVolume 7 55) = Some (Inr (g @ [0])) \<and> g \<noteq> [] \<and> 0 \<notin> set g \<and>
    length g \<le> max_encoding_length host_wire 4 \<and>
    decode host_wire g = Inr (SetVolume 7 55) \<and> decode_in_place host_wire g = Inr (SetVolume 7 55)"
proof -
  have "to_allocvec host_wire (SetVolume 7 55) = Some [4, 7, 55]" by code_simp
  from encode_frame [OF host_link.wire_format_axioms this] show ?thesis by (simp add: numeral_eq_Suc)
qed

text \<open>
  C29. The checksum catches every single-byte corruption: a frame that decodes to the payload
  and checksum of a message with one byte changed is refused with \<open>BadCrc\<close>.
\<close>

theorem corrupt_byte_rejected:
  assumes "wire_format W" and "to_allocvec W m = Some p" and "i \<le> length p"
    and "v \<noteq> (p @ [crc8 p]) ! i" and "cobs_decode W frame = Some ((p @ [crc8 p])[i := v])"
  shows "decode W frame = Inl BadCrc \<and> decode_in_place W frame = Inl BadCrc"
proof -
  note contract = wire_format.axioms(1) [OF assms(1)]
  let ?b = "(p @ [crc8 p])[i := v]"
  have "crc8 (p @ [crc8 p]) = 0" by (simp add: crc8_residue)
  moreover have "crc8 ?b \<noteq> crc8 (p @ [crc8 p])"
    using assms(3,4) by (intro crc8_list_update) simp_all
  moreover have "2 \<le> length ?b"
    using wire_format.ser_nonempty [OF assms(1,2)] by (cases p) (simp_all del: list_update.simps)
  ultimately have "decode W frame = Inl BadCrc"
    using cobs_contract.decode_block [OF contract assms(5)] by simp
  then show ?thesis by (simp add: cobs_contract.decode_in_place_eq [OF contract])
qed

theorem corrupt_byte_rejected_witness:
  "decode host_wire [5, 4, 7, 54, 69] = Inl BadCrc \<and> decode_in_place host_wire [5, 4, 7, 54, 69] = Inl BadCrc"
proof -
  have "to_allocvec host_wire (SetVolume 7 55) = Some [4, 7, 55]" by code_simp
  moreover have "cobs_decode host_wire [5, 4, 7, 54, 69] = Some (([4, 7, 55] @ [crc8 [4, 7, 55]])[2 := 54])"
    by code_simp
  ultimately show ?thesis
    using corrupt_byte_rejected [OF host_link.wire_format_axioms,
        of "SetVolume 7 55" "[4, 7, 55]" 2 54 "[5, 4, 7, 54, 69]"] by simp
qed

text \<open>
  The decoder's memory is bounded: from any buffer within the limit, no sequence of chunks
  from the transport, valid or not, makes the buffer outgrow \<open>max_frame_len\<close>.
\<close>

theorem decoder_bounded:
  assumes "length (dec_buf d) \<le> max_frame_len d"
  shows "length (dec_buf (fst (feed W d cs))) \<le> max_frame_len d"
  using feed_bound [OF assms] by (rule conjunct1)

theorem decoder_bounded_witness:
  "length (dec_buf (fst (feed host_wire (decoder_new 4) [[1, 2, 3, 4, 5], [9, 9], [0, 7]]))) \<le> max_frame_len (decoder_new 4)"
  by (rule decoder_bounded) (simp add: decoder_new_def)

text \<open>
  C30. Resynchronisation: bytes left over from a broken frame are consumed with the next
  terminator, whatever they are, and the frame after it is delivered.
\<close>

theorem decoder_resync:
  assumes "wire_format W" and "encode W m = Some (Inr f)"
    and "dec_buf d = junk @ [0] @ f @ rest" and "0 \<notin> set junk"
  shows "next_frame W (fst (next_frame W d)) = (d\<lparr>dec_buf := rest\<rparr>, Inr (Some m))"
proof -
  have "position (\<lambda>b. b = 0) (dec_buf d) = Some (length junk)"
    unfolding assms(3) append_Cons append_Nil using assms(4) by (intro position_append_hit) auto
  then have "fst (next_frame W d) = d\<lparr>dec_buf := f @ rest\<rparr>"
    by (simp add: next_frame_def assms(3))
  then show ?thesis
    using wire_format.next_frame_hit [OF assms(1,2), of "d\<lparr>dec_buf := f @ rest\<rparr>" rest] by simp
qed

theorem decoder_resync_witness:
  "next_frame host_wire (fst (next_frame host_wire
     ((decoder_new 64)\<lparr>dec_buf := [200, 3] @ [0] @ [1, 1, 1, 0] @ [9]\<rparr>))) =
   ((decoder_new 64)\<lparr>dec_buf := [9]\<rparr>, Inr (Some Ping))"
  using decoder_resync [OF host_link.wire_format_axioms host_frames(2),
      of "(decoder_new 64)\<lparr>dec_buf := [200, 3] @ [0] @ [1, 1, 1, 0] @ [9]\<rparr>" "[200, 3]" "[9]"]
  by (simp add: decoder_new_def)

text \<open>
  A lone terminator hides what follows it: the loop that drains the decoder until it says
  that no complete frame is buffered stops at an empty frame, with complete frames behind it.
\<close>

theorem lone_terminator_stalls_drain:
  "encode host_wire Ping = Some (Inr [1, 1, 1, 0]) \<and>
   drain host_wire ((decoder_new 64)\<lparr>dec_buf := [0, 1, 1, 1, 0]\<rparr>) =
     ((decoder_new 64)\<lparr>dec_buf := [1, 1, 1, 0]\<rparr>, []) \<and>
   drain host_wire ((decoder_new 64)\<lparr>dec_buf := [1, 1, 1, 0]\<rparr>) = (decoder_new 64, [Ping])"
proof (intro conjI host_frames)
  show "drain host_wire ((decoder_new 64)\<lparr>dec_buf := [0, 1, 1, 1, 0]\<rparr>) =
     ((decoder_new 64)\<lparr>dec_buf := [1, 1, 1, 0]\<rparr>, [])"
    by (rule drain_None) (simp add: next_frame_def)
  have "next_frame host_wire ((decoder_new 64)\<lparr>dec_buf := [1, 1, 1, 0]\<rparr>) = (decoder_new 64, Inr (Some Ping))"
    using host_link.next_frame_hit [OF host_frames(2), of "(decoder_new 64)\<lparr>dec_buf := [1, 1, 1, 0]\<rparr>" "[]"]
    by (simp add: decoder_new_def)
  moreover have "drain host_wire (decoder_new 64) = (decoder_new 64, [])"
    by (rule drain_None) (simp add: host_link.next_frame_miss decoder_new_def)
  ultimately show "drain host_wire ((decoder_new 64)\<lparr>dec_buf := [1, 1, 1, 0]\<rparr>) = (decoder_new 64, [Ping])"
    by (simp add: drain_Some)
qed

end
