(* ===== verification/Usb_Serial.thy ===== *)
theory Usb_Serial
  imports Link
begin

text \<open>
  The USB transport of the firmware (\<open>firmware/src/usb_serial.rs\<close>) over the non-blocking FIFO
  operations of \<open>esp-hal-patched/src/usb_serial_jtag.rs\<close>.  The peripheral's registers are the
  environment's: \<open>rx_script\<close> says what each attempt to read finds (a byte, or an empty FIFO),
  \<open>tx_free\<close> whether the k-th attempt to write finds room.
\<close>

section \<open>The peripheral\<close>

record jtag =
  rx_script :: "u8 option list"
  tx_free :: "nat \<Rightarrow> bool"
  tx_tries :: nat
  tx_fifo :: "u8 list"                   \<comment> \<open>the bytes accepted so far\<close>
  tx_commits :: nat                      \<comment> \<open>how often \<open>wr_done\<close> was set\<close>

definition read_byte :: "jtag \<Rightarrow> jtag \<times> u8 option" where
  "read_byte j = (case rx_script j of [] \<Rightarrow> (j, None) | x # xs \<Rightarrow> (j\<lparr>rx_script := xs\<rparr>, x))"

definition write_byte_nb :: "jtag \<Rightarrow> u8 \<Rightarrow> jtag \<times> bool" where
  "write_byte_nb j word =
     (if tx_free j (tx_tries j) then (j\<lparr>tx_tries := tx_tries j + 1, tx_fifo := tx_fifo j @ [word]\<rparr>, True)
      else (j\<lparr>tx_tries := tx_tries j + 1\<rparr>, False))"

definition flush_tx_nb :: "jtag \<Rightarrow> jtag" where
  "flush_tx_nb j = j\<lparr>tx_commits := tx_commits j + 1\<rparr>"

section \<open>The transport\<close>

definition usb_max_frame_len :: nat where "usb_max_frame_len = 12 * 1024"
definition scratch_len :: nat where "scratch_len = 512"
definition spin_budget :: nat where "spin_budget = 20000"

record rx_stats =
  st_bytes :: u32
  st_ok :: u32
  st_err :: u32
  st_overflow :: u32
  st_tx_drop :: u32

record usb_serial =
  us_jtag :: jtag
  us_decoder :: decoder
  us_stats :: rx_stats

definition usb_new :: "jtag \<Rightarrow> usb_serial" where
  "usb_new j = \<lparr>us_jtag = j, us_decoder = decoder_new usb_max_frame_len,
     us_stats = \<lparr>st_bytes = 0, st_ok = 0, st_err = 0, st_overflow = 0, st_tx_drop = 0\<rparr>\<rparr>"

text \<open>The read loop of \<open>poll\<close>: until the scratch buffer is full or a read finds no byte.\<close>

fun read_bytes :: "nat \<Rightarrow> jtag \<Rightarrow> jtag \<times> u8 list" where
  "read_bytes 0 j = (j, [])"
| "read_bytes (Suc room) j =
     (case read_byte j of
        (j, None) \<Rightarrow> (j, [])
      | (j, Some b) \<Rightarrow> (case read_bytes room j of (j, bs) \<Rightarrow> (j, b # bs)))"

definition usb_receive :: "u8 list \<Rightarrow> usb_serial \<Rightarrow> usb_serial" where
  "usb_receive bytes u =
     (if length bytes > 0 then
        let st = us_stats u; st = st\<lparr>st_bytes := sat_add (st_bytes st) (of_nat (length bytes))\<rparr>
        in case decoder_push (us_decoder u) bytes of
             (d, Inl _) \<Rightarrow> u\<lparr>us_decoder := d, us_stats := st\<lparr>st_overflow := sat_add (st_overflow st) 1\<rparr>\<rparr>
           | (d, Inr _) \<Rightarrow> u\<lparr>us_decoder := d, us_stats := st\<rparr>
      else u)"

definition usb_poll :: "'m wire_lib \<Rightarrow> usb_serial \<Rightarrow> usb_serial \<times> 'm option" where
  "usb_poll W u =
     (case read_bytes scratch_len (us_jtag u) of (j, bytes) \<Rightarrow>
        let u = usb_receive bytes (u\<lparr>us_jtag := j\<rparr>); st = us_stats u
        in case next_frame W (us_decoder u) of
             (d, Inr (Some msg)) \<Rightarrow> (u\<lparr>us_decoder := d, us_stats := st\<lparr>st_ok := sat_add (st_ok st) 1\<rparr>\<rparr>, Some msg)
           | (d, Inr None) \<Rightarrow> (u\<lparr>us_decoder := d\<rparr>, None)
           | (d, Inl _) \<Rightarrow> (u\<lparr>us_decoder := d, us_stats := st\<lparr>st_err := sat_add (st_err st) 1\<rparr>\<rparr>, None))"

text \<open>The inner loop of \<open>send\<close>: at most \<open>budget\<close> attempts for one byte.\<close>

fun spin_write :: "nat \<Rightarrow> jtag \<Rightarrow> u8 \<Rightarrow> jtag \<times> bool" where
  "spin_write 0 j b = (j, False)"
| "spin_write (Suc budget) j b =
     (case write_byte_nb j b of (j, True) \<Rightarrow> (j, True) | (j, False) \<Rightarrow> spin_write budget j b)"

fun write_frame :: "jtag \<Rightarrow> u8 list \<Rightarrow> jtag \<times> bool" where
  "write_frame j [] = (j, True)"
| "write_frame j (b # bs) =
     (case spin_write spin_budget j b of (j, False) \<Rightarrow> (j, False) | (j, True) \<Rightarrow> write_frame j bs)"

text \<open>\<open>None\<close> is a panic of the encoder.\<close>

definition usb_send :: "'m wire_lib \<Rightarrow> usb_serial \<Rightarrow> 'm \<Rightarrow> (usb_serial \<times> (error + unit)) option" where
  "usb_send W u msg =
     (case encode W msg of
        None \<Rightarrow> None
      | Some (Inl e) \<Rightarrow> Some (u, Inl e)
      | Some (Inr bytes) \<Rightarrow>
          (case write_frame (us_jtag u) bytes of
             (j, False) \<Rightarrow>
               let st = us_stats u
               in Some (u\<lparr>us_jtag := j, us_stats := st\<lparr>st_tx_drop := sat_add (st_tx_drop st) 1\<rparr>\<rparr>, Inr ())
           | (j, True) \<Rightarrow> Some (u\<lparr>us_jtag := flush_tx_nb j\<rparr>, Inr ())))"

section \<open>Receiving\<close>

definition script_bytes :: "u8 option list \<Rightarrow> u8 list" where
  "script_bytes s = List.map_filter id s"

lemma script_bytes_simps [simp]:
  "script_bytes [] = []" "script_bytes (None # s) = script_bytes s" "script_bytes (Some b # s) = b # script_bytes s"
  by (simp_all add: script_bytes_def map_filter_simps)

lemma read_bytes_spec:
  assumes "read_bytes n j = (j', bs)"
  shows "j' = j\<lparr>rx_script := rx_script j'\<rparr>" "script_bytes (rx_script j) = bs @ script_bytes (rx_script j')"
    "length (rx_script j') \<le> length (rx_script j)" "length bs \<le> n"
    "0 < n \<Longrightarrow> rx_script j \<noteq> [] \<Longrightarrow> length (rx_script j') < length (rx_script j)"
  using assms
proof (induction n j arbitrary: j' bs rule: read_bytes.induct)
  case (2 n j)
  {
    case 1
    show ?case
    proof (cases "rx_script j")
      case Nil
      with 1 show ?thesis by (simp add: read_byte_def)
    next
      case (Cons x xs)
      then show ?thesis
        using 1 "2.IH"(1) [of "j\<lparr>rx_script := xs\<rparr>" "Some (the x)" "the x"]
        by (cases x) (auto simp: read_byte_def split: prod.splits)
    qed
  next
    case 2
    then show ?case
      using "2.IH"(2)
      by (auto simp: read_byte_def split: prod.splits list.splits option.splits)
  next
    case 3
    then show ?case
      using "2.IH"(3)
      by (fastforce simp: read_byte_def split: prod.splits list.splits option.splits)
  next
    case 4
    then show ?case
      using "2.IH"(4)
      by (fastforce simp: read_byte_def split: prod.splits list.splits option.splits)
  next
    case 5
    then show ?case
      using "2.IH"(3)
      by (fastforce simp: read_byte_def split: prod.splits list.splits option.splits)
  }
qed simp_all

lemma read_bytes_length:
  "read_bytes n j = (j', bs) \<Longrightarrow> length (rx_script j') + length bs \<le> length (rx_script j)"
proof (induction n arbitrary: j j' bs)
  case (Suc n)
  show ?case
  proof (cases "rx_script j")
    case Nil
    with Suc.prems show ?thesis by (simp add: read_byte_def)
  next
    case (Cons x xs)
    show ?thesis
    proof (cases x)
      case None
      with Suc.prems Cons show ?thesis by (auto simp: read_byte_def)
    next
      case (Some b)
      obtain j1 bs1 where r: "read_bytes n (j\<lparr>rx_script := xs\<rparr>) = (j1, bs1)" by fastforce
      from Suc.IH [OF this] show ?thesis using Suc.prems Cons Some r by (auto simp: read_byte_def)
    qed
  qed
qed simp

text \<open>A poll that delivers a message uses up input, so a loop of polls ends.\<close>

definition usb_pending :: "usb_serial \<Rightarrow> nat" where
  "usb_pending u = length (rx_script (us_jtag u)) + length (dec_buf (us_decoder u))"

lemma usb_poll_progress:
  assumes "usb_poll W u = (u', res)"
  shows "res \<noteq> None \<Longrightarrow> usb_pending u' < usb_pending u"
proof -
  assume res: "res \<noteq> None"
  obtain j bs where rd: "read_bytes scratch_len (us_jtag u) = (j, bs)" by fastforce
  let ?u = "usb_receive bs (u\<lparr>us_jtag := j\<rparr>)"
  have u: "us_jtag ?u = j" "length (dec_buf (us_decoder ?u)) \<le> length (dec_buf (us_decoder u)) + length bs"
    by (auto simp: usb_receive_def decoder_push_def Let_def)
  obtain d r where nf: "next_frame W (us_decoder ?u) = (d, r)" by fastforce
  have "r \<noteq> Inr None" "us_jtag u' = j" "us_decoder u' = d"
    using assms res u(1) by (auto simp: usb_poll_def rd Let_def nf split: sum.splits option.splits)
  with next_frame_shrinks [OF nf] u read_bytes_length [OF rd] show ?thesis
    by (simp add: usb_pending_def)
qed

text \<open>
  What the transport owes its client at any moment: the messages whose frames are still in the
  decoder or in the FIFO, followed by nothing else.
\<close>

definition usb_owes :: "'m wire_lib \<Rightarrow> usb_serial \<Rightarrow> 'm list \<Rightarrow> bool" where
  "usb_owes W u ms \<longleftrightarrow> (\<exists>fs. list_all2 (\<lambda>m f. encode W m = Some (Inr f)) ms fs \<and>
     dec_buf (us_decoder u) @ script_bytes (rx_script (us_jtag u)) = concat fs \<and>
     length (concat fs) \<le> max_frame_len (us_decoder u))"

context wire_format
begin

text \<open>One look at a decoder that holds the beginning of a sequence of frames.\<close>

lemma next_frame_prefix:
  assumes "list_all2 (\<lambda>m f. encode W m = Some (Inr f)) ms fs" and "dec_buf d @ r = concat fs"
  obtains (hit) m ms' f fs' b where "ms = m # ms'" "fs = f # fs'" "dec_buf d = f @ b" "b @ r = concat fs'"
      "next_frame W d = (d\<lparr>dec_buf := b\<rparr>, Inr (Some m))"
  | (miss) "next_frame W d = (d, Inr None)" "r = [] \<Longrightarrow> ms = []"
proof (cases ms)
  case Nil
  then have "dec_buf d = []" using assms by simp
  then show thesis using Nil miss by (simp add: next_frame_miss)
next
  case (Cons m ms')
  then obtain f fs' where fs: "fs = f # fs'" "encode W m = Some (Inr f)"
    using assms(1) by (auto simp: list_all2_Cons1)
  obtain g where g: "f = g @ [0]" "0 \<notin> set g" using fs(2) by (rule frame_shape)
  show thesis
  proof (cases "0 \<in> set (dec_buf d)")
    case False
    then have "r \<noteq> []" using assms(2) fs(1) g by auto
    with False show thesis using miss by (simp add: next_frame_miss)
  next
    case True
    then have "\<exists>b. dec_buf d = f @ b \<and> b @ r = concat fs'"
      using assms(2) fs(1) g by (auto simp: append_eq_append_conv2 append_eq_Cons_conv Cons_eq_append_conv)
    then obtain b where b: "dec_buf d = f @ b" "b @ r = concat fs'" by blast
    with next_frame_hit [OF fs(2) b(1)] Cons fs(1) show thesis by (intro hit)
  qed
qed

lemma usb_poll_owes:
  assumes "usb_owes W u ms" "usb_poll W u = (u', res)"
  shows "case res of Some m \<Rightarrow> (\<exists>ms'. ms = m # ms' \<and> usb_owes W u' ms')
      | None \<Rightarrow> usb_owes W u' ms \<and> (rx_script (us_jtag u) = [] \<longrightarrow> ms = [])"
    "st_err (us_stats u') = st_err (us_stats u) \<and> st_overflow (us_stats u') = st_overflow (us_stats u)"
    "length (rx_script (us_jtag u')) \<le> length (rx_script (us_jtag u))"
    "rx_script (us_jtag u) \<noteq> [] \<Longrightarrow> length (rx_script (us_jtag u')) < length (rx_script (us_jtag u))"
proof -
  obtain fs where fs: "list_all2 (\<lambda>m f. encode W m = Some (Inr f)) ms fs"
    "dec_buf (us_decoder u) @ script_bytes (rx_script (us_jtag u)) = concat fs"
    "length (concat fs) \<le> max_frame_len (us_decoder u)"
    using assms(1) by (auto simp: usb_owes_def)
  obtain j bs where rd: "read_bytes scratch_len (us_jtag u) = (j, bs)" by fastforce
  note spec = read_bytes_spec [OF rd]
  let ?u = "usb_receive bs (u\<lparr>us_jtag := j\<rparr>)"
  have split: "dec_buf (us_decoder u) @ bs @ script_bytes (rx_script j) = concat fs"
    using fs(2) spec(2) by simp
  have "length (dec_buf (us_decoder u)) + length bs \<le> max_frame_len (us_decoder u)"
    using fs(3) unfolding split [symmetric] by simp
  then have u: "us_decoder ?u = (us_decoder u)\<lparr>dec_buf := dec_buf (us_decoder u) @ bs\<rparr>" "us_jtag ?u = j"
    "st_err (us_stats ?u) = st_err (us_stats u)" "st_overflow (us_stats ?u) = st_overflow (us_stats u)"
    by (cases "us_decoder u", auto simp: usb_receive_def decoder_push_def Let_def)+
  have buf: "dec_buf (us_decoder ?u) @ script_bytes (rx_script j) = concat fs"
    using split by (simp add: u(1))
  have poll: "usb_poll W u = (case next_frame W (us_decoder ?u) of
       (d, Inr (Some msg)) \<Rightarrow> (?u\<lparr>us_decoder := d, us_stats := (us_stats ?u)\<lparr>st_ok := sat_add (st_ok (us_stats ?u)) 1\<rparr>\<rparr>, Some msg)
     | (d, Inr None) \<Rightarrow> (?u\<lparr>us_decoder := d\<rparr>, None)
     | (d, Inl _) \<Rightarrow> (?u\<lparr>us_decoder := d, us_stats := (us_stats ?u)\<lparr>st_err := sat_add (st_err (us_stats ?u)) 1\<rparr>\<rparr>, None))"
    by (simp add: usb_poll_def rd Let_def)
  show script: "length (rx_script (us_jtag u')) \<le> length (rx_script (us_jtag u))"
    "rx_script (us_jtag u) \<noteq> [] \<Longrightarrow> length (rx_script (us_jtag u')) < length (rx_script (us_jtag u))"
    using assms(2) spec(3,5) u(2) unfolding poll
    by (auto simp: scratch_len_def split: prod.splits sum.splits option.splits)
  have empty: "rx_script (us_jtag u) = [] \<Longrightarrow> script_bytes (rx_script j) = []"
    using spec(2) by simp
  show "case res of Some m \<Rightarrow> (\<exists>ms'. ms = m # ms' \<and> usb_owes W u' ms')
      | None \<Rightarrow> usb_owes W u' ms \<and> (rx_script (us_jtag u) = [] \<longrightarrow> ms = [])"
  proof (cases rule: next_frame_prefix [OF fs(1) buf, case_names hit miss])
    case (hit m ms' f fs' b)
    then have "usb_owes W u' ms'"
      using assms(2) fs(1,3) u(1,2) unfolding poll usb_owes_def by (auto intro!: exI [of _ fs'])
    with hit show ?thesis using assms(2) unfolding poll by auto
  next
    case miss
    then have "usb_owes W u' ms" "res = None"
      using assms(2) fs(1,3) u(1,2) buf unfolding poll usb_owes_def by (auto intro!: exI [of _ fs])
    with miss(2) empty show ?thesis by auto
  qed
  show "st_err (us_stats u') = st_err (us_stats u) \<and> st_overflow (us_stats u') = st_overflow (us_stats u)"
    using assms(2) u(3,4) unfolding poll by (cases rule: next_frame_prefix [OF fs(1) buf]) auto
qed

end

text \<open>A run of polls, as the main loop makes them.\<close>

fun usb_polls :: "'m wire_lib \<Rightarrow> nat \<Rightarrow> usb_serial \<Rightarrow> usb_serial \<times> 'm list" where
  "usb_polls W 0 u = (u, [])"
| "usb_polls W (Suc k) u =
     (case usb_poll W u of (u, res) \<Rightarrow>
        case usb_polls W k u of (u, ms) \<Rightarrow> (u, (case res of Some m \<Rightarrow> m # ms | None \<Rightarrow> ms)))"

context wire_format
begin

lemma usb_polls_owes:
  assumes "usb_owes W u ms" "usb_polls W k u = (u', got)"
  shows "\<exists>rest. ms = got @ rest \<and> usb_owes W u' rest \<and>
    (length (rx_script (us_jtag u)) + length ms \<le> k \<longrightarrow> rest = []) \<and>
    st_err (us_stats u') = st_err (us_stats u) \<and> st_overflow (us_stats u') = st_overflow (us_stats u)"
  using assms
proof (induction k arbitrary: u ms u' got)
  case 0
  then show ?case by auto
next
  case (Suc k)
  obtain u1 res where p: "usb_poll W u = (u1, res)" by fastforce
  obtain got1 where k: "usb_polls W k u1 = (u', got1)" "got = (case res of Some m \<Rightarrow> m # got1 | None \<Rightarrow> got1)"
    using Suc.prems(2) p by (auto split: prod.splits)
  note step = usb_poll_owes [OF Suc.prems(1) p]
  show ?case
  proof (cases res)
    case None
    then have "usb_owes W u1 ms" using step(1) by simp
    from Suc.IH [OF this k(1)] obtain rest where r: "ms = got1 @ rest" "usb_owes W u' rest"
      "length (rx_script (us_jtag u1)) + length ms \<le> k \<longrightarrow> rest = []"
      "st_err (us_stats u') = st_err (us_stats u1)" "st_overflow (us_stats u') = st_overflow (us_stats u1)"
      by blast
    have "rest = []" if "length (rx_script (us_jtag u)) + length ms \<le> Suc k"
    proof (cases "rx_script (us_jtag u) = []")
      case True
      then show ?thesis using step(1) None r(1) by simp
    next
      case False
      then show ?thesis using step(4) r(3) that by simp
    qed
    moreover have "got = got1" using None k(2) by simp
    moreover have "st_err (us_stats u') = st_err (us_stats u)" "st_overflow (us_stats u') = st_overflow (us_stats u)"
      using r(4,5) step(2) by simp_all
    ultimately show ?thesis using r(1,2) by blast
  next
    case (Some m)
    then obtain ms' where ms': "ms = m # ms'" "usb_owes W u1 ms'" using step(1) by auto
    then obtain rest where "ms' = got1 @ rest" "usb_owes W u' rest"
      "length (rx_script (us_jtag u1)) + length ms' \<le> k \<longrightarrow> rest = []"
      "st_err (us_stats u') = st_err (us_stats u1)" "st_overflow (us_stats u') = st_overflow (us_stats u1)"
      using Suc.IH [OF ms'(2) k(1)] by auto
    with Some k(2) ms'(1) step(2,3) show ?thesis by auto
  qed
qed

end

section \<open>Sending\<close>

lemma spin_write_spec:
  assumes "spin_write n j b = (j', ok)"
  shows "tx_fifo j' = (if ok then tx_fifo j @ [b] else tx_fifo j) \<and> tx_free j' = tx_free j \<and>
    tx_tries j' \<le> tx_tries j + n \<and> tx_tries j \<le> tx_tries j' \<and> tx_commits j' = tx_commits j \<and>
    rx_script j' = rx_script j \<and> (\<not> ok \<longrightarrow> (\<forall>i<n. \<not> tx_free j (tx_tries j + i)))"
  using assms
proof (induction n arbitrary: j)
  case (Suc n)
  show ?case
  proof (cases "tx_free j (tx_tries j)")
    case True
    then show ?thesis using Suc.prems by (auto simp: write_byte_nb_def)
  next
    case False
    then have "spin_write n (j\<lparr>tx_tries := tx_tries j + 1\<rparr>) b = (j', ok)"
      using Suc.prems by (simp add: write_byte_nb_def)
    from Suc.IH [OF this] False show ?thesis by (auto simp: less_Suc_eq_0_disj)
  qed
qed simp

lemma write_frame_spec:
  assumes "write_frame j bs = (j', ok)"
  shows "\<exists>k\<le>length bs. tx_fifo j' = tx_fifo j @ take k bs \<and> (ok \<longleftrightarrow> k = length bs) \<and>
      tx_tries j' \<le> tx_tries j + spin_budget * length bs \<and> tx_free j' = tx_free j \<and>
      tx_commits j' = tx_commits j \<and> rx_script j' = rx_script j \<and>
      (\<not> ok \<longrightarrow> (\<exists>t\<ge>tx_tries j. \<forall>i < spin_budget. \<not> tx_free j (t + i)))"
  using assms
proof (induction j bs rule: write_frame.induct)
  case (1 j)
  then show ?case by simp
next
  case (2 j b bs)
  obtain j1 ok1 where s: "spin_write spin_budget j b = (j1, ok1)" by fastforce
  note spec = spin_write_spec [OF s]
  show ?case
  proof (cases ok1)
    case False
    then show ?thesis
      using "2.prems" s spec by (intro exI [of _ 0]) (auto intro!: exI [of _ "tx_tries j"])
  next
    case True
    then have "write_frame j1 bs = (j', ok)" using "2.prems" s by simp
    with "2.IH" [OF s [symmetric] eqTrueI [OF True]] obtain k where k: "k \<le> length bs" "tx_fifo j' = tx_fifo j1 @ take k bs"
      "ok \<longleftrightarrow> k = length bs" "tx_tries j' \<le> tx_tries j1 + spin_budget * length bs" "tx_free j' = tx_free j1"
      "tx_commits j' = tx_commits j1" "rx_script j' = rx_script j1"
      "\<not> ok \<longrightarrow> (\<exists>t\<ge>tx_tries j1. \<forall>i < spin_budget. \<not> tx_free j1 (t + i))" by auto
    then show ?thesis
      using True spec by (intro exI [of _ "Suc k"]) (auto dest: order_trans)
  qed
qed

section \<open>Properties\<close>

text \<open>
  Nothing is lost, duplicated or reordered on the way in: when the bytes that reach the FIFO,
  at any pace and with any gaps, are the frames of a sequence of messages that fits the decoder,
  polling delivers a prefix of the sequence, all of it after enough polls, and counts no error
  and no overflow.
\<close>

theorem usb_receives_in_order:
  assumes "wire_format W" and "list_all2 (\<lambda>m f. encode W m = Some (Inr f)) ms fs"
    and "script_bytes (rx_script j) = concat fs" and "length (concat fs) \<le> usb_max_frame_len"
    and "usb_polls W k (usb_new j) = (u, got)"
  shows "\<exists>rest. ms = got @ rest \<and> (length (rx_script j) + length ms \<le> k \<longrightarrow> rest = []) \<and>
    st_err (us_stats u) = 0 \<and> st_overflow (us_stats u) = 0"
proof -
  have "usb_owes W (usb_new j) ms"
    using assms(2-4) by (auto simp: usb_owes_def usb_new_def decoder_new_def)
  from wire_format.usb_polls_owes [OF assms(1) this assms(5)] show ?thesis
    by (auto simp: usb_new_def)
qed

definition lab_jtag :: "u8 option list \<Rightarrow> (nat \<Rightarrow> bool) \<Rightarrow> jtag" where
  "lab_jtag rx room = \<lparr>rx_script = rx, tx_free = room, tx_tries = 0, tx_fifo = [], tx_commits = 0\<rparr>"

theorem usb_receives_in_order_witness:
  "snd (usb_polls host_wire 20 (usb_new (lab_jtag
     [Some 5, None, Some 4, Some 7, Some 55, None, None, Some 69, Some 0, Some 1, Some 1, Some 1, Some 0] (\<lambda>_. True))))
   = [SetVolume 7 55, Ping]"
proof -
  let ?j = "lab_jtag [Some 5, None, Some 4, Some 7, Some 55, None, None, Some 69, Some 0, Some 1, Some 1, Some 1, Some 0] (\<lambda>_. True)"
  obtain u got where p: "usb_polls host_wire 20 (usb_new ?j) = (u, got)" by fastforce
  have "\<exists>rest. [SetVolume 7 55, Ping] = got @ rest \<and>
      (length (rx_script ?j) + length [SetVolume 7 55, Ping] \<le> 20 \<longrightarrow> rest = []) \<and>
      st_err (us_stats u) = 0 \<and> st_overflow (us_stats u) = 0"
    by (rule usb_receives_in_order [OF host_link.wire_format_axioms, of _ "[[5, 4, 7, 55, 69, 0], [1, 1, 1, 0]]", OF _ _ _ p])
      (simp_all add: host_frames lab_jtag_def usb_max_frame_len_def)
  with p show ?thesis by (simp add: lab_jtag_def)
qed

text \<open>
  \<open>send\<close> never blocks the main loop: it writes a prefix of the frame with at most 20 000
  attempts per byte.  The whole frame goes out, followed by a commit, unless the FIFO refused
  20 000 attempts in a row; only then the frame is cut short and counted as dropped.
\<close>

theorem usb_send_bounded:
  assumes "encode W msg = Some (Inr bytes)"
  shows "\<exists>u' k. usb_send W u msg = Some (u', Inr ()) \<and> k \<le> length bytes \<and>
    tx_fifo (us_jtag u') = tx_fifo (us_jtag u) @ take k bytes \<and>
    tx_tries (us_jtag u') \<le> tx_tries (us_jtag u) + spin_budget * length bytes \<and>
    rx_script (us_jtag u') = rx_script (us_jtag u) \<and> us_decoder u' = us_decoder u \<and>
    (if k = length bytes
     then us_stats u' = us_stats u \<and> tx_commits (us_jtag u') = tx_commits (us_jtag u) + 1
     else us_stats u' = (us_stats u)\<lparr>st_tx_drop := sat_add (st_tx_drop (us_stats u)) 1\<rparr> \<and>
       (\<exists>t\<ge>tx_tries (us_jtag u). \<forall>i < spin_budget. \<not> tx_free (us_jtag u) (t + i)))"
proof -
  obtain j ok where w: "write_frame (us_jtag u) bytes = (j, ok)" by fastforce
  from write_frame_spec [OF w] obtain k where k: "k \<le> length bytes"
    "tx_fifo j = tx_fifo (us_jtag u) @ take k bytes" "ok \<longleftrightarrow> k = length bytes"
    "tx_tries j \<le> tx_tries (us_jtag u) + spin_budget * length bytes"
    "tx_commits j = tx_commits (us_jtag u)" "rx_script j = rx_script (us_jtag u)"
    "\<not> ok \<longrightarrow> (\<exists>t\<ge>tx_tries (us_jtag u). \<forall>i < spin_budget. \<not> tx_free (us_jtag u) (t + i))" by blast
  show ?thesis
  proof (cases ok)
    case True
    then show ?thesis using assms w k
      by (intro exI [of _ "u\<lparr>us_jtag := flush_tx_nb j\<rparr>"] exI [of _ k]) (simp add: usb_send_def flush_tx_nb_def)
  next
    case False
    then show ?thesis using assms w k
      by (intro exI [of _ "u\<lparr>us_jtag := j, us_stats := (us_stats u)\<lparr>st_tx_drop := sat_add (st_tx_drop (us_stats u)) 1\<rparr>\<rparr>"] exI [of _ k])
        (simp add: usb_send_def Let_def)
  qed
qed

lemma dev_frames:
  "encode dev_wire Ack = Some (Inr [3, 8, 56, 0])"
  "encode dev_wire (AppSelected 300) = Some (Inr [5, 6, 172, 2, 151, 0])"
  by code_simp+

theorem usb_send_bounded_witness:
  "\<exists>u' k. usb_send dev_wire (usb_new (lab_jtag [] (\<lambda>i. i \<noteq> 2))) Ack = Some (u', Inr ()) \<and> k \<le> 4 \<and>
    tx_fifo (us_jtag u') = take k [3, 8, 56, 0]"
proof -
  obtain u' k where "usb_send dev_wire (usb_new (lab_jtag [] (\<lambda>i. i \<noteq> 2))) Ack = Some (u', Inr ())"
    "k \<le> length [3, 8, 56, 0 :: u8]"
    "tx_fifo (us_jtag u') = tx_fifo (us_jtag (usb_new (lab_jtag [] (\<lambda>i. i \<noteq> 2)))) @ take k [3, 8, 56, 0]"
    using usb_send_bounded [OF dev_frames(1), of "usb_new (lab_jtag [] (\<lambda>i. i \<noteq> 2))"] by blast
  then show ?thesis
    by (intro exI [of _ u'] exI [of _ k]) (simp add: usb_new_def lab_jtag_def)
qed

lemma spin_write_hit:
  "tx_free j (tx_tries j) \<Longrightarrow> 0 < n \<Longrightarrow>
   spin_write n j b = (j\<lparr>tx_tries := tx_tries j + 1, tx_fifo := tx_fifo j @ [b]\<rparr>, True)"
  by (cases n) (simp_all add: write_byte_nb_def)

lemma spin_write_stuck:
  "\<forall>i<n. \<not> tx_free j (tx_tries j + i) \<Longrightarrow> spin_write n j b = (j\<lparr>tx_tries := tx_tries j + n\<rparr>, False)"
proof (induction n arbitrary: j)
  case (Suc n)
  then have "\<not> tx_free j (tx_tries j)" by (metis add_0_right zero_less_Suc)
  moreover have "\<forall>i<n. \<not> tx_free (j\<lparr>tx_tries := tx_tries j + 1\<rparr>) (tx_tries (j\<lparr>tx_tries := tx_tries j + 1\<rparr>) + i)"
    using Suc.prems by auto
  ultimately show ?case using Suc.IH [of "j\<lparr>tx_tries := tx_tries j + 1\<rparr>"] by (simp add: write_byte_nb_def)
qed simp

text \<open>
  A dropped frame is not dropped whole: its first bytes stay on the wire without a
  terminator, so the frame sent next is glued to them and the host discards that one too.
\<close>

theorem usb_drop_loses_next_frame:
  "\<exists>u1 u2. usb_send dev_wire (usb_new (lab_jtag [] (\<lambda>i. i < 3 \<or> 20003 \<le> i))) (AppSelected 300) = Some (u1, Inr ()) \<and>
    st_tx_drop (us_stats u1) = 1 \<and> usb_send dev_wire u1 Ack = Some (u2, Inr ()) \<and> st_tx_drop (us_stats u2) = 1 \<and>
    tx_fifo (us_jtag u2) = [5, 6, 172] @ [3, 8, 56, 0] \<and>
    drain dev_wire ((decoder_new 64)\<lparr>dec_buf := tx_fifo (us_jtag u2)\<rparr>) = (decoder_new 64, [])"
proof -
  define room where "room = (\<lambda>i :: nat. i < 3 \<or> 20003 \<le> i)"
  have hit: "spin_write spin_budget j b = (j\<lparr>tx_tries := tx_tries j + 1, tx_fifo := tx_fifo j @ [b]\<rparr>, True)"
    if "tx_free j = room" "tx_tries j < 3 \<or> 20003 \<le> tx_tries j" for j b
    using that by (intro spin_write_hit) (auto simp: room_def spin_budget_def)
  have stuck: "spin_write spin_budget j b = (j\<lparr>tx_tries := tx_tries j + 20000\<rparr>, False)"
    if "tx_free j = room" "tx_tries j = 3" for j b
    using that spin_write_stuck [of spin_budget j b] by (auto simp: room_def spin_budget_def)
  define j1 where "j1 = (lab_jtag [] room)\<lparr>tx_tries := 20003, tx_fifo := [5, 6, 172]\<rparr>"
  have w1: "write_frame (lab_jtag [] room) [5, 6, 172, 2, 151, 0] = (j1, False)"
    by (simp add: hit stuck lab_jtag_def j1_def)
  have w2: "write_frame j1 [3, 8, 56, 0] = (j1\<lparr>tx_tries := 20007, tx_fifo := [5, 6, 172, 3, 8, 56, 0]\<rparr>, True)"
    by (simp add: hit lab_jtag_def j1_def)
  have "next_frame dev_wire ((decoder_new 64)\<lparr>dec_buf := [5, 6, 172, 3, 8, 56, 0]\<rparr>) = (decoder_new 64, Inl Cobs)"
    by code_simp
  then have "drain dev_wire ((decoder_new 64)\<lparr>dec_buf := [5, 6, 172, 3, 8, 56, 0]\<rparr>) = (decoder_new 64, [])"
    by (rule drain_Err)
  then show ?thesis
    using w1 w2 unfolding room_def [symmetric]
    by (simp add: usb_send_def dev_frames usb_new_def Let_def flush_tx_nb_def sat_add_def)
qed

end
