(* ===== verification/Wifi_Tcp.thy ===== *)
theory Wifi_Tcp
  imports Usb_Serial
begin

text \<open>
  The WiFi transport of the firmware (\<open>firmware/src/wifi_tcp.rs\<close>): the connection state machine,
  the TCP receive path into the frame decoder, and \<open>send\<close>.  The WiFi controller and the
  \<open>smoltcp\<close> stack are third-party: what one \<open>poll\<close> observes of them is an argument
  (\<open>wifi_obs\<close>), what it asks of them is the log \<open>wt_calls\<close>.
\<close>

section \<open>The network stack, as observed\<close>

type_synonym ipv4 = "u8 \<times> u8 \<times> u8 \<times> u8"

datatype dhcp_event = Configured "ipv4 \<times> nat" "ipv4 option" | Deconfigured

datatype wifi_call = CallConnect | CallAddRoute ipv4 | CallRemoveRoute | CallListen nat | CallAbort

record wifi_obs =
  ob_connected :: "bool option"          \<comment> \<open>\<open>controller.is_connected()\<close>, \<open>None\<close> an error\<close>
  ob_dhcp :: "dhcp_event option"
  ob_listening :: bool
  ob_active :: bool                      \<comment> \<open>the first query of the TCP socket\<close>
  ob_active_after :: bool                \<comment> \<open>the query after a possible \<open>listen\<close>\<close>
  ob_rx :: "u8 list"                     \<comment> \<open>the slice \<open>recv\<close> offers\<close>

datatype wifi_tcp_state = WtConnecting | WtWaitingForIp | WtListening | WtActive

record wifi_tcp =
  wt_state :: wifi_tcp_state
  wt_decoder :: decoder
  wt_connected_ip :: "str option"
  wt_pending_event :: "device_to_host option"
  wt_phase_started_ms :: u64
  wt_addrs :: "(ipv4 \<times> nat) list"
  wt_calls :: "wifi_call list"
  wt_can_send :: "nat \<Rightarrow> bool"           \<comment> \<open>of the k-th send\<close>
  wt_accepts :: "nat \<Rightarrow> nat"             \<comment> \<open>bytes \<open>send_slice\<close> takes at the k-th send\<close>
  wt_sends :: nat
  wt_sent :: "u8 list"

definition tcp_port :: nat where "tcp_port = 9000"
definition wifi_max_frame_len :: nat where "wifi_max_frame_len = 12 * 1024"

text \<open>
  \<open>init_wifi\<close>: the fallible steps in order (stack, controller, SSID, password, configuration,
  start, connect); the first that fails makes it \<open>None\<close>.
\<close>

definition init_wifi :: "bool list \<Rightarrow> (nat \<Rightarrow> bool) \<Rightarrow> (nat \<Rightarrow> nat) \<Rightarrow> wifi_tcp option" where
  "init_wifi steps can_send accepts =
     (if list_all id steps
      then Some \<lparr>wt_state = WtConnecting, wt_decoder = decoder_new wifi_max_frame_len, wt_connected_ip = None,
             wt_pending_event = None, wt_phase_started_ms = 0, wt_addrs = [((0, 0, 0, 0), 0)],
             wt_calls = [CallConnect], wt_can_send = can_send, wt_accepts = accepts, wt_sends = 0, wt_sent = []\<rparr>
      else None)"

definition wt_call :: "wifi_call \<Rightarrow> wifi_tcp \<Rightarrow> wifi_tcp" where
  "wt_call c w = w\<lparr>wt_calls := wt_calls w @ [c]\<rparr>"

fun show_ipv4 :: "ipv4 \<Rightarrow> str" where
  "show_ipv4 (a, b, c, d) = show_dec (unat a) @ ascii ''.'' @ show_dec (unat b) @ ascii ''.'' @
     show_dec (unat c) @ ascii ''.'' @ show_dec (unat d)"

definition poll_connecting :: "wifi_obs \<Rightarrow> u64 \<Rightarrow> wifi_tcp \<Rightarrow> wifi_tcp" where
  "poll_connecting ob timestamp_ms w =
     (if ob_connected ob = Some True
      then w\<lparr>wt_phase_started_ms := timestamp_ms, wt_state := WtWaitingForIp\<rparr>
      else if sat_sub timestamp_ms (wt_phase_started_ms w) > 10000
      then wt_call CallConnect (w\<lparr>wt_phase_started_ms := timestamp_ms\<rparr>)
      else w)"

definition poll_waiting :: "wifi_obs \<Rightarrow> u64 \<Rightarrow> wifi_tcp \<Rightarrow> wifi_tcp" where
  "poll_waiting ob timestamp_ms w =
     (case ob_dhcp ob of
        Some (Configured addr router) \<Rightarrow>
          let w = w\<lparr>wt_addrs := (if wt_addrs w = [] then [addr] else (wt_addrs w)[0 := addr])\<rparr>;
              w = (case router of Some r \<Rightarrow> wt_call (CallAddRoute r) w | None \<Rightarrow> w);
              ip_str = show_ipv4 (fst addr)
          in w\<lparr>wt_connected_ip := Some ip_str, wt_pending_event := Some (WifiStatus True ip_str), wt_state := WtListening\<rparr>
      | Some Deconfigured \<Rightarrow>
          let w = wt_call CallRemoveRoute (w\<lparr>wt_addrs := []\<rparr>)
          in wt_call CallConnect (w\<lparr>wt_connected_ip := None, wt_phase_started_ms := timestamp_ms, wt_state := WtConnecting\<rparr>)
      | None \<Rightarrow>
          if sat_sub timestamp_ms (wt_phase_started_ms w) > 15000
          then wt_call CallConnect (w\<lparr>wt_phase_started_ms := timestamp_ms, wt_state := WtConnecting\<rparr>)
          else w)"

definition poll_listening :: "wifi_obs \<Rightarrow> wifi_tcp \<Rightarrow> wifi_tcp" where
  "poll_listening ob w =
     (let w = (if \<not> ob_listening ob \<and> \<not> ob_active ob then wt_call (CallListen tcp_port) w else w)
      in if ob_active_after ob then w\<lparr>wt_state := WtActive\<rparr> else w)"

definition poll_active :: "'m wire_lib \<Rightarrow> wifi_obs \<Rightarrow> wifi_tcp \<Rightarrow> wifi_tcp \<times> 'm option" where
  "poll_active W ob w =
     (if \<not> ob_active ob then (wt_call CallAbort (w\<lparr>wt_state := WtListening\<rparr>), None)
      else
        let n = min (length (ob_rx ob)) 256; received = take n (ob_rx ob) in
        if n > 0 then
          let d = (case decoder_push (wt_decoder w) received of
                     (d, Inl _) \<Rightarrow> decoder_reset d | (d, Inr _) \<Rightarrow> d)
          in case next_frame W d of
               (d, Inr (Some msg)) \<Rightarrow> (w\<lparr>wt_decoder := d\<rparr>, Some msg)
             | (d, _) \<Rightarrow> (w\<lparr>wt_decoder := d\<rparr>, None)
        else (w, None))"

definition wifi_poll :: "'m wire_lib \<Rightarrow> wifi_obs \<Rightarrow> u64 \<Rightarrow> wifi_tcp \<Rightarrow> wifi_tcp \<times> 'm option" where
  "wifi_poll W ob timestamp_ms w =
     (case wt_state w of
        WtConnecting \<Rightarrow> (poll_connecting ob timestamp_ms w, None)
      | WtWaitingForIp \<Rightarrow> (poll_waiting ob timestamp_ms w, None)
      | WtListening \<Rightarrow> (poll_listening ob w, None)
      | WtActive \<Rightarrow> poll_active W ob w)"

definition wifi_take_event :: "wifi_tcp \<Rightarrow> wifi_tcp \<times> device_to_host option" where
  "wifi_take_event w = (w\<lparr>wt_pending_event := None\<rparr>, wt_pending_event w)"

definition wifi_is_active :: "wifi_tcp \<Rightarrow> bool" where
  "wifi_is_active w \<longleftrightarrow> wt_state w = WtActive"

text \<open>\<open>send\<close>: \<open>None\<close> is a panic of the encoder, an encoding error is silent.\<close>

definition wifi_send :: "'m wire_lib \<Rightarrow> wifi_tcp \<Rightarrow> 'm \<Rightarrow> wifi_tcp option" where
  "wifi_send W w msg =
     (if wt_state w \<noteq> WtActive then Some w
      else case encode W msg of
        None \<Rightarrow> None
      | Some (Inl _) \<Rightarrow> Some w
      | Some (Inr bytes) \<Rightarrow>
          let k = wt_sends w; w = w\<lparr>wt_sends := k + 1\<rparr>
          in if wt_can_send w k then Some (w\<lparr>wt_sent := wt_sent w @ take (wt_accepts w k) bytes\<rparr>) else Some w)"

section \<open>The diagram\<close>

inductive wifi_edge :: "wifi_tcp_state \<Rightarrow> wifi_tcp_state \<Rightarrow> bool" where
  stay: "wifi_edge s s"
| associated: "wifi_edge WtConnecting WtWaitingForIp"
| retry: "wifi_edge WtWaitingForIp WtConnecting"
| leased: "wifi_edge WtWaitingForIp WtListening"
| accepted: "wifi_edge WtListening WtActive"
| closed: "wifi_edge WtActive WtListening"

inductive_simps wifi_edge_simps: "wifi_edge s t"

code_pred wifi_edge .

lemmas wifi_poll_defs = wifi_poll_def poll_connecting_def poll_waiting_def poll_listening_def
  poll_active_def wt_call_def Let_def

text \<open>A run of the firmware's use of the transport: polls, sends and taking the event.\<close>

inductive wifi_reach :: "host_to_device wire_lib \<Rightarrow> device_to_host wire_lib \<Rightarrow> wifi_tcp \<Rightarrow> bool"
  for W V where
  init: "init_wifi steps can_send accepts = Some w \<Longrightarrow> wifi_reach W V w"
| poll: "wifi_reach W V w \<Longrightarrow> wifi_poll W ob t w = (w', res) \<Longrightarrow> wifi_reach W V w'"
| event: "wifi_reach W V w \<Longrightarrow> wifi_take_event w = (w', ev) \<Longrightarrow> wifi_reach W V w'"
| send: "wifi_reach W V w \<Longrightarrow> wifi_send V w m = Some w' \<Longrightarrow> wifi_reach W V w'"

definition wifi_inv :: "wifi_tcp \<Rightarrow> bool" where
  "wifi_inv w \<longleftrightarrow> (wt_state w \<in> {WtListening, WtActive} \<longleftrightarrow> wt_connected_ip w \<noteq> None) \<and>
     max_frame_len (wt_decoder w) = wifi_max_frame_len \<and> length (dec_buf (wt_decoder w)) \<le> wifi_max_frame_len \<and>
     (\<forall>ev. wt_pending_event w = Some ev \<longrightarrow> (\<exists>ip. ev = WifiStatus True ip \<and> wt_connected_ip w = Some ip))"

lemma decoder_push_bounded:
  "length (dec_buf d) \<le> max_frame_len d \<Longrightarrow> decoder_push d bs = (d', r) \<Longrightarrow>
   length (dec_buf d') \<le> max_frame_len d \<and> max_frame_len d' = max_frame_len d"
  by (auto simp: decoder_push_def split: if_splits)

lemma next_frame_bounded:
  "next_frame W d = (d', r) \<Longrightarrow> length (dec_buf d') \<le> length (dec_buf d) \<and> max_frame_len d' = max_frame_len d"
  by (metis fst_conv next_frame_length next_frame_max)

lemma poll_active_state:
  assumes "poll_active W ob w = (w', res)" "length (dec_buf (wt_decoder w)) \<le> max_frame_len (wt_decoder w)"
  shows "w' = w\<lparr>wt_decoder := wt_decoder w'\<rparr> \<or> (w' = wt_call CallAbort (w\<lparr>wt_state := WtListening\<rparr>) \<and> res = None)"
    and "length (dec_buf (wt_decoder w')) \<le> max_frame_len (wt_decoder w) \<and>
      max_frame_len (wt_decoder w') = max_frame_len (wt_decoder w)"
proof -
  define d where "d = (case decoder_push (wt_decoder w) (take (min (length (ob_rx ob)) 256) (ob_rx ob)) of
      (d, Inl _) \<Rightarrow> decoder_reset d | (d, Inr _) \<Rightarrow> d)"
  have d: "length (dec_buf d) \<le> max_frame_len (wt_decoder w)" "max_frame_len d = max_frame_len (wt_decoder w)"
    using decoder_push_bounded [OF assms(2)] unfolding d_def
    by (auto simp: decoder_reset_def split: prod.splits sum.splits)
  obtain d' r where nf: "next_frame W d = (d', r)" by fastforce
  note nb = next_frame_bounded [OF nf]
  have "poll_active W ob w = (if \<not> ob_active ob then (wt_call CallAbort (w\<lparr>wt_state := WtListening\<rparr>), None)
      else if ob_rx ob \<noteq> [] then (w\<lparr>wt_decoder := d'\<rparr>, case r of Inr (Some m) \<Rightarrow> Some m | _ \<Rightarrow> None)
      else (w, None))"
    unfolding poll_active_def d_def [symmetric] Let_def nf by (auto split: sum.splits option.splits)
  then show "w' = w\<lparr>wt_decoder := wt_decoder w'\<rparr> \<or> (w' = wt_call CallAbort (w\<lparr>wt_state := WtListening\<rparr>) \<and> res = None)"
    "length (dec_buf (wt_decoder w')) \<le> max_frame_len (wt_decoder w) \<and>
      max_frame_len (wt_decoder w') = max_frame_len (wt_decoder w)"
    using assms d nb by (auto simp: wt_call_def split: if_splits)
qed

lemma wifi_inv_poll:
  assumes "wifi_inv w" "wifi_poll W ob t w = (w', res)"
  shows "wifi_inv w'"
proof (cases "wt_state w")
  case WtActive
  then have p: "poll_active W ob w = (w', res)" using assms(2) by (simp add: wifi_poll_def)
  have "length (dec_buf (wt_decoder w)) \<le> max_frame_len (wt_decoder w)" using assms(1) by (simp add: wifi_inv_def)
  from poll_active_state [OF p this] assms(1) WtActive show ?thesis
    unfolding wifi_inv_def wt_call_def by (elim disjE conjE; cases w') auto
qed (use assms in \<open>auto simp: wifi_inv_def wifi_poll_defs split: if_splits option.splits dhcp_event.splits\<close>)

lemma wifi_inv_send: "wifi_inv w \<Longrightarrow> wifi_send V w m = Some w' \<Longrightarrow> wifi_inv w'"
  by (auto simp: wifi_send_def wifi_inv_def Let_def split: if_splits option.splits sum.splits)

lemma wifi_reach_inv: "wifi_reach W V w \<Longrightarrow> wifi_inv w"
proof (induction rule: wifi_reach.induct)
  case (init steps can_send accepts w)
  then show ?case by (auto simp: init_wifi_def wifi_inv_def decoder_new_def split: if_splits)
next
  case (event w w' ev)
  then show ?case by (auto simp: wifi_take_event_def wifi_inv_def)
qed (auto intro: wifi_inv_poll wifi_inv_send)

section \<open>Runs of polls\<close>

fun wifi_polls :: "'m wire_lib \<Rightarrow> (wifi_obs \<times> u64) list \<Rightarrow> wifi_tcp \<Rightarrow> wifi_tcp \<times> 'm list" where
  "wifi_polls W [] w = (w, [])"
| "wifi_polls W ((ob, t) # obs) w =
     (case wifi_poll W ob t w of (w, res) \<Rightarrow>
        case wifi_polls W obs w of (w, ms) \<Rightarrow> (w, (case res of Some m \<Rightarrow> m # ms | None \<Rightarrow> ms)))"

lemma wifi_poll_edge:
  "wifi_poll W ob t w = (w', res) \<Longrightarrow> wifi_edge (wt_state w) (wt_state w') \<and> (res \<noteq> None \<longrightarrow> wt_state w = WtActive)"
  by (cases "wt_state w")
    (auto simp: wifi_poll_defs wifi_edge_simps split: if_splits option.splits dhcp_event.splits prod.splits sum.splits)

lemma wifi_poll_online:
  assumes "wt_state w \<in> {WtListening, WtActive}" "wifi_poll W ob t w = (w', res)"
  shows "wt_state w' \<in> {WtListening, WtActive} \<and> wt_connected_ip w' = wt_connected_ip w \<and>
    wt_pending_event w' = wt_pending_event w \<and> (\<exists>cs. wt_calls w' = wt_calls w @ cs \<and> CallConnect \<notin> set cs)"
  using assms
  by (auto simp: wifi_poll_defs split: if_splits option.splits prod.splits sum.splits)

lemma wifi_polls_online:
  assumes "wt_state w \<in> {WtListening, WtActive}"
  shows "case wifi_polls W obs w of (w', ms) \<Rightarrow>
    wt_state w' \<in> {WtListening, WtActive} \<and> wt_connected_ip w' = wt_connected_ip w \<and>
    wt_pending_event w' = wt_pending_event w \<and> (\<exists>cs. wt_calls w' = wt_calls w @ cs \<and> CallConnect \<notin> set cs)"
  using assms
proof (induction W obs w rule: wifi_polls.induct)
  case (2 W ob t obs w)
  obtain w1 res where p: "wifi_poll W ob t w = (w1, res)" by fastforce
  obtain w2 ms where q: "wifi_polls W obs w1 = (w2, ms)" by fastforce
  from wifi_poll_online [OF "2.prems" p] "2.IH" [OF p [symmetric]] q
  show ?case by (auto simp: p q)
qed simp

text \<open>The bytes a run of polls takes from the socket.\<close>

definition taken :: "(wifi_obs \<times> u64) list \<Rightarrow> u8 list" where
  "taken obs = concat (map (\<lambda>(ob, t). take 256 (ob_rx ob)) obs)"

context wire_format
begin

lemma wifi_polls_in_order:
  assumes "wt_state w = WtActive" "\<forall>(ob, t)\<in>set obs. ob_active ob"
    and "list_all2 (\<lambda>m f. encode W m = Some (Inr f)) ms fs"
    and "dec_buf (wt_decoder w) @ taken obs @ later = concat fs"
    and "length (concat fs) \<le> max_frame_len (wt_decoder w)"
    and "wifi_polls W obs w = (w', got)"
  shows "\<exists>rest fs'. ms = got @ rest \<and> list_all2 (\<lambda>m f. encode W m = Some (Inr f)) rest fs' \<and>
    dec_buf (wt_decoder w') @ later = concat fs' \<and> wt_state w' = WtActive"
  using assms
proof (induction obs arbitrary: w ms fs got)
  case Nil
  then show ?case by (auto simp: taken_def)
next
  case (Cons x obs)
  obtain ob t where x: "x = (ob, t)" by fastforce
  obtain w1 res where p: "wifi_poll W ob t w = (w1, res)" by fastforce
  obtain got1 where q: "wifi_polls W obs w1 = (w', got1)" "got = (case res of Some m \<Rightarrow> m # got1 | None \<Rightarrow> got1)"
    using Cons.prems(6) p x by (auto split: prod.splits)
  let ?r = "take 256 (ob_rx ob)"
  have act: "ob_active ob" "\<forall>(ob, t)\<in>set obs. ob_active ob" using Cons.prems(2) x by auto
  have bytes: "dec_buf (wt_decoder w) @ ?r @ taken obs @ later = concat fs"
    using Cons.prems(4) x by (simp add: taken_def)
  show ?case
  proof (cases "ob_rx ob = []")
    case True
    then have "w1 = w" "res = None" using p Cons.prems(1) act by (auto simp: wifi_poll_def poll_active_def)
    then show ?thesis using Cons.IH [of w ms fs got1] Cons.prems act q bytes True by simp
  next
    case False
    let ?d = "(wt_decoder w)\<lparr>dec_buf := dec_buf (wt_decoder w) @ ?r\<rparr>"
    have "length (dec_buf (wt_decoder w)) + length ?r \<le> max_frame_len (wt_decoder w)"
      using Cons.prems(5) unfolding bytes [symmetric] by simp
    then have push: "decoder_push (wt_decoder w) ?r = (?d, Inr ())" by (simp add: decoder_push_def)
    have eq: "take (min (length (ob_rx ob)) 256) (ob_rx ob) = ?r" by (simp add: min_def)
    have poll: "(w1, res) = (case next_frame W ?d of
        (d, Inr (Some msg)) \<Rightarrow> (w\<lparr>wt_decoder := d\<rparr>, Some msg) | (d, _) \<Rightarrow> (w\<lparr>wt_decoder := d\<rparr>, None))"
      using p Cons.prems(1) act(1) False unfolding wifi_poll_def poll_active_def Let_def eq push
      by simp
    have buf: "dec_buf ?d @ (taken obs @ later) = concat fs" using bytes by simp
    show ?thesis
    proof (cases rule: next_frame_prefix [OF Cons.prems(3) buf, case_names hit miss])
      case (hit m ms' f fs' b)
      then have w1: "w1 = w\<lparr>wt_decoder := ?d\<lparr>dec_buf := b\<rparr>\<rparr>" "res = Some m" using poll by auto
      have "\<exists>rest fs''. ms' = got1 @ rest \<and> list_all2 (\<lambda>m f. encode W m = Some (Inr f)) rest fs'' \<and>
          dec_buf (wt_decoder w') @ later = concat fs'' \<and> wt_state w' = WtActive"
        by (rule Cons.IH [of w1 ms' fs']) (use w1 hit Cons.prems(1,3,5) act q in auto)
      with hit(1) q(2) w1 show ?thesis by auto
    next
      case miss
      then have w1: "w1 = w\<lparr>wt_decoder := ?d\<rparr>" "res = None" using poll by auto
      have "\<exists>rest fs''. ms = got1 @ rest \<and> list_all2 (\<lambda>m f. encode W m = Some (Inr f)) rest fs'' \<and>
          dec_buf (wt_decoder w') @ later = concat fs'' \<and> wt_state w' = WtActive"
        by (rule Cons.IH [of w1 ms fs]) (use w1 Cons.prems(1,3,5) act q buf in auto)
      with q(2) w1 show ?thesis by auto
    qed
  qed
qed

end

section \<open>Properties\<close>

text \<open>
  C19. In every reachable state of the WiFi transport an address is held exactly while listening
  or serving, the frame buffer is bounded, a pending event announces the address held; each
  poll moves along an edge of the connection diagram, and only a connection in service delivers
  messages.
\<close>

theorem wifi_state_machine:
  assumes "wifi_reach W V w" "wifi_poll W ob t w = (w', res)"
  shows "wifi_inv w \<and> wifi_inv w' \<and> wifi_edge (wt_state w) (wt_state w') \<and> (res \<noteq> None \<longrightarrow> wifi_is_active w)"
  using wifi_reach_inv [OF assms(1)] wifi_inv_poll [OF _ assms(2)] wifi_poll_edge [OF assms(2)]
  by (simp add: wifi_is_active_def)

definition wifi_boot :: wifi_tcp where
  "wifi_boot = the (init_wifi [] (\<lambda>_. True) (\<lambda>_. 2048))"

definition quiet_obs :: wifi_obs where
  "quiet_obs = \<lparr>ob_connected = Some False, ob_dhcp = None, ob_listening = False, ob_active = False,
     ob_active_after = False, ob_rx = []\<rparr>"

lemma wifi_boot_init: "init_wifi [] (\<lambda>_. True) (\<lambda>_. 2048) = Some wifi_boot"
  by (simp add: wifi_boot_def init_wifi_def)

theorem wifi_state_machine_witness:
  "wifi_inv wifi_boot \<and> wifi_inv (fst (wifi_poll host_wire quiet_obs 10001 wifi_boot)) \<and>
   wt_calls (fst (wifi_poll host_wire quiet_obs 10001 wifi_boot)) = [CallConnect, CallConnect]"
proof -
  have r: "wifi_reach host_wire dev_wire wifi_boot" by (rule wifi_reach.init [OF wifi_boot_init])
  obtain w' res where p: "wifi_poll host_wire quiet_obs 10001 wifi_boot = (w', res)" by fastforce
  then have "wt_calls w' = [CallConnect, CallConnect]"
    by (auto simp: wifi_boot_def init_wifi_def wifi_poll_defs quiet_obs_def sat_sub_def)
  with wifi_state_machine [OF r p] p show ?thesis by simp
qed

text \<open>
  C28. Over TCP too the messages arrive in order and once: while a client is in service, polls
  that take the bytes of a sequence of frames, together no longer than the decoder's 12 KiB, in slices
  of any size, deliver a prefix of its messages, and what is not delivered yet is still in the decoder
  or in the socket.
\<close>

theorem wifi_receives_in_order:
  assumes "wire_format W" "wt_state w = WtActive" "\<forall>(ob, t)\<in>set obs. ob_active ob"
    and "list_all2 (\<lambda>m f. encode W m = Some (Inr f)) ms fs"
    and "dec_buf (wt_decoder w) @ taken obs @ later = concat fs"
    and "length (concat fs) \<le> max_frame_len (wt_decoder w)"
    and "wifi_polls W obs w = (w', got)"
  shows "\<exists>rest fs'. ms = got @ rest \<and> list_all2 (\<lambda>m f. encode W m = Some (Inr f)) rest fs' \<and>
    dec_buf (wt_decoder w') @ later = concat fs' \<and> wt_state w' = WtActive"
  by (rule wire_format.wifi_polls_in_order [OF assms])

definition serving :: wifi_tcp where
  "serving = wifi_boot\<lparr>wt_state := WtActive, wt_connected_ip := Some (show_ipv4 (10, 0, 0, 7))\<rparr>"

definition rx_obs :: "u8 list \<Rightarrow> wifi_obs" where
  "rx_obs bs = quiet_obs\<lparr>ob_active := True, ob_active_after := True, ob_rx := bs\<rparr>"

lemma serving_decoder: "dec_buf (wt_decoder serving) = []" "max_frame_len (wt_decoder serving) = 12288"
  "wt_state serving = WtActive"
  by (simp_all add: serving_def wifi_boot_def init_wifi_def decoder_new_def wifi_max_frame_len_def)

theorem wifi_receives_in_order_witness:
  "\<exists>rest. [SetVolume 7 55, Ping] = snd (wifi_polls host_wire [(rx_obs [5, 4], 1), (rx_obs [7, 55, 69, 0, 1, 1], 2)] serving) @ rest"
proof -
  let ?obs = "[(rx_obs [5, 4], 1), (rx_obs [7, 55, 69, 0, 1, 1], 2)]"
  obtain w' got where p: "wifi_polls host_wire ?obs serving = (w', got)" by fastforce
  have "\<exists>rest fs'. [SetVolume 7 55, Ping] = got @ rest \<and>
      list_all2 (\<lambda>m f. encode host_wire m = Some (Inr f)) rest fs' \<and>
      dec_buf (wt_decoder w') @ [1, 0] = concat fs' \<and> wt_state w' = WtActive"
    by (rule wifi_receives_in_order [OF host_link.wire_format_axioms _ _ _ _ _ p,
          of "[SetVolume 7 55, Ping]" "[[5, 4, 7, 55, 69, 0], [1, 1, 1, 0]]" "[1, 0]"])
      (simp_all add: serving_decoder host_frames taken_def rx_obs_def quiet_obs_def)
  with p show ?thesis by auto
qed

text \<open>
  Once an address was acquired the transport never notices that the network is gone: from
  the listening or serving state no sequence of observations makes it leave these two states,
  give up the address, report a change or ask the controller to connect again.
\<close>

theorem wifi_never_reconnects:
  assumes "wt_state w \<in> {WtListening, WtActive}" "wifi_polls W obs w = (w', ms)"
  shows "wt_state w' \<in> {WtListening, WtActive} \<and> wt_connected_ip w' = wt_connected_ip w \<and>
    wt_pending_event w' = wt_pending_event w \<and> (\<exists>cs. wt_calls w' = wt_calls w @ cs \<and> CallConnect \<notin> set cs)"
  using wifi_polls_online [OF assms(1), of W obs] assms(2) by simp

theorem wifi_never_reconnects_witness:
  "wt_connected_ip (fst (wifi_polls host_wire [(quiet_obs, 100000), (quiet_obs\<lparr>ob_dhcp := Some Deconfigured\<rparr>, 900000)] serving))
     = Some (show_ipv4 (10, 0, 0, 7))"
  using wifi_never_reconnects [of serving host_wire, OF _ prod.collapse [symmetric],
      of "[(quiet_obs, 100000), (quiet_obs\<lparr>ob_dhcp := Some Deconfigured\<rparr>, 900000)]"]
  by (simp add: serving_def)

text \<open>
  Two stalls of the receive path: of two frames that arrive in one slice the second waits
  until further bytes arrive, however often the transport is polled; and bytes of a frame that a
  client left unfinished are glued to the first frame of the next client, which is lost.
\<close>

theorem wifi_receive_stalls:
  "snd (wifi_polls host_wire [(rx_obs [1, 1, 1, 0, 1, 1, 1, 0], 1), (rx_obs [], 2), (rx_obs [], 3)] serving) = [Ping] \<and>
   snd (wifi_polls host_wire [(rx_obs [5, 4], 1), (quiet_obs, 2),
      (quiet_obs\<lparr>ob_active := True, ob_active_after := True\<rparr>, 3), (rx_obs [1, 1, 1, 0], 4)] serving) = []"
proof
  have b: "serving = serving\<lparr>wt_decoder := decoder_new 12288, wt_state := WtActive\<rparr>"
    by (simp add: serving_def wifi_boot_def init_wifi_def wifi_max_frame_len_def)
  have hit: "next_frame host_wire ((decoder_new 12288)\<lparr>dec_buf := [1, 1, 1, 0, 1, 1, 1, 0]\<rparr>) =
      ((decoder_new 12288)\<lparr>dec_buf := [1, 1, 1, 0]\<rparr>, Inr (Some Ping))"
    using host_link.next_frame_hit [OF host_frames(2), of "(decoder_new 12288)\<lparr>dec_buf := [1, 1, 1, 0, 1, 1, 1, 0]\<rparr>"]
    by simp
  have part: "next_frame host_wire ((decoder_new 12288)\<lparr>dec_buf := [5, 4]\<rparr>) = ((decoder_new 12288)\<lparr>dec_buf := [5, 4]\<rparr>, Inr None)"
    by code_simp
  have bad: "next_frame host_wire ((decoder_new 12288)\<lparr>dec_buf := [5, 4, 1, 1, 1, 0]\<rparr>) = (decoder_new 12288, Inl BadCrc)"
    by code_simp
  have push: "decoder_push ((decoder_new 12288)\<lparr>dec_buf := xs\<rparr>) ys = ((decoder_new 12288)\<lparr>dec_buf := xs @ ys\<rparr>, Inr ())"
    if "length xs + length ys \<le> 12288" for xs ys
    using that by (simp add: decoder_push_def decoder_new_def)
  have new: "decoder_new 12288 = (decoder_new 12288)\<lparr>dec_buf := []\<rparr>" by (simp add: decoder_new_def)
  have new_push: "decoder_push (decoder_new 12288) ys = ((decoder_new 12288)\<lparr>dec_buf := ys\<rparr>, Inr ())"
    if "length ys \<le> 12288" for ys
    using push [of "[]" ys] that new by simp
  show "snd (wifi_polls host_wire [(rx_obs [1, 1, 1, 0, 1, 1, 1, 0], 1), (rx_obs [], 2), (rx_obs [], 3)] serving) = [Ping]"
    by (subst b) (simp add: wifi_poll_defs rx_obs_def quiet_obs_def new_push hit)
  show "snd (wifi_polls host_wire [(rx_obs [5, 4], 1), (quiet_obs, 2),
      (quiet_obs\<lparr>ob_active := True, ob_active_after := True\<rparr>, 3), (rx_obs [1, 1, 1, 0], 4)] serving) = []"
    by (subst b) (simp add: wifi_poll_defs rx_obs_def quiet_obs_def new_push push part bad)
qed

end
