(* ===== verification/Backlight.thy ===== *)
theory Backlight
  imports Prelude
begin

text \<open>
  The backlight controller (\<open>firmware/src/backlight.rs\<close>) and the LEDC channel operation it
  drives (\<open>esp-hal-patched/src/ledc/channel.rs\<close>): the idle state machine Active, Dim, Off, its
  timeouts in loop ticks, and the duty cycle written to the PWM channel.
\<close>

section \<open>The PWM channel\<close>

datatype ledc_error = LedcDuty | LedcTimer | LedcChannel

text \<open>
  The timer of the channel, if configured, with the duty resolution of that timer, if
  configured; and the duty register (the value is shifted left by the four fractional bits).
\<close>

record ledc_channel =
  ch_timer :: "u32 option option"
  ch_duty_reg :: u32

definition set_duty_hw :: "ledc_channel \<Rightarrow> u32 \<Rightarrow> ledc_channel" where
  "set_duty_hw ch duty = ch\<lparr>ch_duty_reg := push_bit 4 duty\<rparr>"

definition set_duty :: "ledc_channel \<Rightarrow> u8 \<Rightarrow> ledc_channel \<times> (ledc_error + unit)" where
  "set_duty ch duty_pct =
     (case ch_timer ch of
        None \<Rightarrow> (ch, Inl LedcChannel)
      | Some None \<Rightarrow> (ch, Inl LedcTimer)
      | Some (Some duty_exp) \<Rightarrow>
          let duty_range = 2 ^ unat duty_exp;
              duty_value = (duty_range * ucast duty_pct) div 100
          in if 100 < duty_pct then (ch, Inl LedcDuty)
             else (set_duty_hw ch duty_value, Inr ()))"

definition channel_configure :: "ledc_channel \<Rightarrow> u32 option \<Rightarrow> u8 \<Rightarrow> ledc_channel \<times> (ledc_error + unit)" where
  "channel_configure ch timer duty_pct = set_duty (ch\<lparr>ch_timer := Some timer\<rparr>) duty_pct"

section \<open>The controller\<close>

datatype bl_level = Active | Dim | Off

record backlight =
  bl_channel :: ledc_channel
  bl_state :: bl_level
  last_activity_tick :: u32
  bl_active_pct :: u8
  dim_after_ticks :: u32
  off_after_ticks :: u32

definition default_active_pct :: u8 where "default_active_pct = 100"
definition default_dim_after_secs :: u16 where "default_dim_after_secs = 30"
definition default_off_after_secs :: u16 where "default_off_after_secs = 90"
definition ticks_per_sec :: u32 where "ticks_per_sec = 333"

definition secs_to_ticks :: "u16 \<Rightarrow> u32" where
  "secs_to_ticks secs = sat_mul (ucast secs) ticks_per_sec"

text \<open>\<open>new\<close>: an 8-bit timer; the expectation that configuration succeeds is the \<open>None\<close> case.\<close>

definition backlight_new :: "backlight option" where
  "backlight_new =
     (case channel_configure \<lparr>ch_timer = None, ch_duty_reg = 0\<rparr> (Some 8) default_active_pct of
        (ch, Inl _) \<Rightarrow> None
      | (ch, Inr _) \<Rightarrow> Some
          \<lparr>bl_channel = ch, bl_state = Active, last_activity_tick = 0,
           bl_active_pct = default_active_pct,
           dim_after_ticks = secs_to_ticks default_dim_after_secs,
           off_after_ticks = secs_to_ticks default_off_after_secs\<rparr>)"

definition level_pct :: "backlight \<Rightarrow> bl_level \<Rightarrow> u8" where
  "level_pct b st =
     (case st of Active \<Rightarrow> bl_active_pct b | Dim \<Rightarrow> max (bl_active_pct b div 4) 5 | Off \<Rightarrow> 0)"

definition bl_set_state :: "backlight \<Rightarrow> bl_level \<Rightarrow> backlight" where
  "bl_set_state b st =
     (let b1 = b\<lparr>bl_state := st\<rparr>;
          pct = level_pct b1 st
      in b1\<lparr>bl_channel := fst (set_duty (bl_channel b1) pct)\<rparr>)"

definition notify_activity :: "backlight \<Rightarrow> u32 \<Rightarrow> backlight" where
  "notify_activity b now_tick =
     (let b1 = b\<lparr>last_activity_tick := now_tick\<rparr>
      in if bl_state b1 \<noteq> Active then bl_set_state b1 Active else b1)"

definition wake_from_off :: "backlight \<Rightarrow> u32 \<Rightarrow> backlight \<times> bool" where
  "wake_from_off b now_tick =
     (let was_off = (bl_state b = Off) in (notify_activity b now_tick, was_off))"

definition bl_tick :: "backlight \<Rightarrow> u32 \<Rightarrow> backlight" where
  "bl_tick b now_tick =
     (let idle = now_tick - last_activity_tick b;
          next = (case bl_state b of
                    Active \<Rightarrow> if dim_after_ticks b \<le> idle then Dim else Active
                  | Dim \<Rightarrow> if off_after_ticks b \<le> sat_sub idle (dim_after_ticks b) then Off else Dim
                  | Off \<Rightarrow> Off)
      in if next \<noteq> bl_state b then bl_set_state b next else b)"

definition set_active_pct :: "backlight \<Rightarrow> u8 \<Rightarrow> backlight" where
  "set_active_pct b pct =
     (let b1 = b\<lparr>bl_active_pct := clamp 1 100 pct\<rparr>
      in if bl_state b1 = Active
         then b1\<lparr>bl_channel := fst (set_duty (bl_channel b1) (bl_active_pct b1))\<rparr> else b1)"

definition set_timeouts :: "backlight \<Rightarrow> u16 \<Rightarrow> u16 \<Rightarrow> backlight" where
  "set_timeouts b dim_after off_after =
     b\<lparr>dim_after_ticks := (if dim_after = 0 then - 1 else secs_to_ticks dim_after),
       off_after_ticks := (if off_after = 0 then - 1 else secs_to_ticks off_after)\<rparr>"

section \<open>Levels are ordered by brightness\<close>

instantiation bl_level :: linorder
begin

fun rank_level :: "bl_level \<Rightarrow> nat" where
  "rank_level Off = 0"
| "rank_level Dim = 1"
| "rank_level Active = 2"

definition less_eq_bl_level :: "bl_level \<Rightarrow> bl_level \<Rightarrow> bool" where
  "less_eq_bl_level a b \<longleftrightarrow> rank_level a \<le> rank_level b"

definition less_bl_level :: "bl_level \<Rightarrow> bl_level \<Rightarrow> bool" where
  "less_bl_level a b \<longleftrightarrow> rank_level a < rank_level b"

instance
proof
  fix a b c :: bl_level
  have inj: "rank_level a = rank_level b \<Longrightarrow> a = b" for a b by (cases a; cases b) auto
  show "(a < b) = (a \<le> b \<and> \<not> b \<le> a)" by (auto simp: less_eq_bl_level_def less_bl_level_def)
  show "a \<le> a" by (simp add: less_eq_bl_level_def)
  show "a \<le> b \<Longrightarrow> b \<le> c \<Longrightarrow> a \<le> c" by (simp add: less_eq_bl_level_def)
  show "a \<le> b \<Longrightarrow> b \<le> a \<Longrightarrow> a = b" by (simp add: less_eq_bl_level_def inj)
  show "a \<le> b \<or> b \<le> a" by (auto simp: less_eq_bl_level_def)
qed

end

section \<open>Well-formedness\<close>

text \<open>
  The channel has its 8-bit timer and the brightness is a percentage of at least one; the duty
  register shows the level of the state, except that a change of brightness while dimmed waits
  for the next transition.
\<close>

definition duty_of :: "u8 \<Rightarrow> u32" where
  "duty_of pct = push_bit 4 ((256 * ucast pct) div 100)"

definition bl_wf :: "backlight \<Rightarrow> bool" where
  "bl_wf b \<longleftrightarrow> ch_timer (bl_channel b) = Some (Some 8) \<and> 1 \<le> bl_active_pct b \<and> bl_active_pct b \<le> 100"

definition bl_lit :: "backlight \<Rightarrow> bool" where
  "bl_lit b \<longleftrightarrow> (bl_state b \<noteq> Dim \<longrightarrow> ch_duty_reg (bl_channel b) = duty_of (level_pct b (bl_state b)))"

named_theorems bl_defs \<open>the operations of the controller\<close>

lemmas [bl_defs] = notify_activity_def wake_from_off_def bl_tick_def set_active_pct_def
  set_timeouts_def Let_def

lemma set_duty_ok:
  "ch_timer ch = Some (Some 8) \<Longrightarrow> pct \<le> 100 \<Longrightarrow>
   set_duty ch pct = (ch\<lparr>ch_duty_reg := duty_of pct\<rparr>, Inr ())"
  by (auto simp: set_duty_def set_duty_hw_def duty_of_def Let_def not_less [symmetric])

lemma level_pct_bound:
  assumes "bl_active_pct b \<le> 100"
  shows "level_pct b st \<le> 100"
proof -
  have "unat (bl_active_pct b div 4) \<le> 25"
    using assms by (simp add: unat_div word_le_nat_alt)
  then have "bl_active_pct b div 4 \<le> 100" by (simp add: word_le_nat_alt)
  with assms show ?thesis by (simp add: level_pct_def split: bl_level.split)
qed

lemma bl_set_state_wf:
  assumes "bl_wf b"
  shows "bl_wf (bl_set_state b st)" "bl_lit (bl_set_state b st)" "bl_state (bl_set_state b st) = st"
    "ch_duty_reg (bl_channel (bl_set_state b st)) = duty_of (level_pct b st)"
proof -
  have lp: "level_pct (b\<lparr>bl_state := st\<rparr>) st = level_pct b st"
    by (simp add: level_pct_def split: bl_level.split)
  have d: "set_duty (bl_channel b) (level_pct b st) =
      ((bl_channel b)\<lparr>ch_duty_reg := duty_of (level_pct b st)\<rparr>, Inr ())"
    using assms by (intro set_duty_ok level_pct_bound) (auto simp: bl_wf_def)
  have s: "bl_set_state b st =
      b\<lparr>bl_state := st, bl_channel := (bl_channel b)\<lparr>ch_duty_reg := duty_of (level_pct b st)\<rparr>\<rparr>"
    by (simp add: bl_set_state_def Let_def lp d)
  show "bl_wf (bl_set_state b st)" using assms by (simp add: s bl_wf_def)
  show "bl_state (bl_set_state b st) = st" by (simp add: s)
  show "ch_duty_reg (bl_channel (bl_set_state b st)) = duty_of (level_pct b st)" by (simp add: s)
  show "bl_lit (bl_set_state b st)"
    by (simp add: s bl_lit_def level_pct_def split: bl_level.split)
qed

lemma bl_set_state_fields [simp]:
  "last_activity_tick (bl_set_state b st) = last_activity_tick b"
  "dim_after_ticks (bl_set_state b st) = dim_after_ticks b"
  "off_after_ticks (bl_set_state b st) = off_after_ticks b"
  "bl_active_pct (bl_set_state b st) = bl_active_pct b"
  "bl_state (bl_set_state b st) = st"
  by (simp_all add: bl_set_state_def Let_def)

lemma bl_wf_update [simp]:
  "bl_wf (b\<lparr>last_activity_tick := t\<rparr>) = bl_wf b" "bl_wf (b\<lparr>dim_after_ticks := x\<rparr>) = bl_wf b"
  "bl_wf (b\<lparr>off_after_ticks := x\<rparr>) = bl_wf b"
  "bl_lit (b\<lparr>last_activity_tick := t\<rparr>) = bl_lit b" "bl_lit (b\<lparr>dim_after_ticks := x\<rparr>) = bl_lit b"
  "bl_lit (b\<lparr>off_after_ticks := x\<rparr>) = bl_lit b"
  by (simp_all add: bl_wf_def bl_lit_def level_pct_def split: bl_level.split)

lemma notify_activity_wf: "bl_wf b \<and> bl_lit b \<Longrightarrow> bl_wf (notify_activity b t) \<and> bl_lit (notify_activity b t)"
  by (simp add: bl_defs bl_set_state_wf)

lemma notify_activity_Active [simp]: "bl_state (notify_activity b t) = Active"
  by (simp add: bl_defs)

lemma notify_activity_fields [simp]:
  "last_activity_tick (notify_activity b t) = t"
  "dim_after_ticks (notify_activity b t) = dim_after_ticks b"
  "off_after_ticks (notify_activity b t) = off_after_ticks b"
  by (simp_all add: bl_defs)

lemma bl_tick_wf: "bl_wf b \<and> bl_lit b \<Longrightarrow> bl_wf (bl_tick b t) \<and> bl_lit (bl_tick b t)"
  by (simp add: bl_defs bl_set_state_wf)

lemma bl_tick_fields [simp]:
  "last_activity_tick (bl_tick b t) = last_activity_tick b"
  "dim_after_ticks (bl_tick b t) = dim_after_ticks b"
  "off_after_ticks (bl_tick b t) = off_after_ticks b"
  by (simp_all add: bl_defs)

lemma set_active_pct_wf:
  assumes "bl_wf b \<and> bl_lit b"
  shows "bl_wf (set_active_pct b p) \<and> bl_lit (set_active_pct b p)"
proof -
  have c: "1 \<le> clamp 1 100 p" "clamp 1 100 p \<le> 100"
    using clamp_bounds [of 1 "100 :: u8" p] by simp_all
  show ?thesis
    using assms c
    by (auto simp: set_active_pct_def Let_def bl_wf_def bl_lit_def set_duty_ok level_pct_def split: bl_level.splits)
qed

lemma set_timeouts_wf: "bl_wf b \<and> bl_lit b \<Longrightarrow> bl_wf (set_timeouts b d f) \<and> bl_lit (set_timeouts b d f)"
  by (simp add: set_timeouts_def bl_wf_def bl_lit_def level_pct_def split: bl_level.splits)

lemma backlight_new_wf: "\<exists>b. backlight_new = Some b \<and> bl_wf b \<and> bl_lit b \<and> bl_state b = Active"
proof -
  have "channel_configure \<lparr>ch_timer = None, ch_duty_reg = 0\<rparr> (Some 8) default_active_pct =
      (\<lparr>ch_timer = Some (Some 8), ch_duty_reg = duty_of 100\<rparr>, Inr ())"
    by (simp add: channel_configure_def default_active_pct_def set_duty_ok)
  then show ?thesis
    by (simp add: backlight_new_def bl_wf_def bl_lit_def level_pct_def default_active_pct_def)
qed

section \<open>Reachable controllers\<close>

inductive bl_reach :: "backlight \<Rightarrow> bool" where
  bl_start: "backlight_new = Some b \<Longrightarrow> bl_reach b"
| bl_activity: "bl_reach b \<Longrightarrow> bl_reach (notify_activity b t)"
| bl_ticks: "bl_reach b \<Longrightarrow> bl_reach (bl_tick b t)"
| bl_bright: "bl_reach b \<Longrightarrow> bl_reach (set_active_pct b p)"
| bl_times: "bl_reach b \<Longrightarrow> bl_reach (set_timeouts b d f)"

lemma bl_reach_wf: "bl_reach b \<Longrightarrow> bl_wf b \<and> bl_lit b"
proof (induction rule: bl_reach.induct)
  case (bl_start b)
  moreover obtain b' where "backlight_new = Some b'" "bl_wf b'" "bl_lit b'"
    using backlight_new_wf by blast
  ultimately show ?case by (metis option.inject)
qed (simp_all add: notify_activity_wf bl_tick_wf set_active_pct_wf set_timeouts_wf)

section \<open>The idle specification\<close>

text \<open>
  What the documentation of the state machine promises, on natural numbers: \<open>n\<close> ticks after
  the last activity the screen is active until \<open>dim\<close>, then dimmed, and off \<open>off\<close> ticks later.
\<close>

definition idle_level :: "nat \<Rightarrow> nat \<Rightarrow> nat \<Rightarrow> bl_level" where
  "idle_level dim off n = (if n < dim then Active else if n < dim + off then Dim else Off)"

text \<open>The main loop calls \<open>tick\<close> once per loop tick: \<open>n\<close> calls after the last activity.\<close>

fun idle_run :: "backlight \<Rightarrow> nat \<Rightarrow> backlight" where
  "idle_run b 0 = b"
| "idle_run b (Suc n) = bl_tick (idle_run b n) (last_activity_tick b + of_nat (Suc n))"

lemma idle_run_fields [simp]:
  "last_activity_tick (idle_run b n) = last_activity_tick b"
  "dim_after_ticks (idle_run b n) = dim_after_ticks b"
  "off_after_ticks (idle_run b n) = off_after_ticks b"
  by (induction n) simp_all

lemma bl_tick_state:
  "bl_state (bl_tick b t) =
     (let idle = t - last_activity_tick b in
      case bl_state b of
        Active \<Rightarrow> if dim_after_ticks b \<le> idle then Dim else Active
      | Dim \<Rightarrow> if off_after_ticks b \<le> sat_sub idle (dim_after_ticks b) then Off else Dim
      | Off \<Rightarrow> Off)"
  by (auto simp: bl_tick_def Let_def split: bl_level.splits)

lemma idle_step:
  assumes "bl_state b = idle_level (unat (dim_after_ticks b)) (unat (off_after_ticks b)) n"
    and "0 < off_after_ticks b" and "Suc n < 2 ^ 32"
  shows "bl_state (bl_tick b (last_activity_tick b + of_nat (Suc n))) =
    idle_level (unat (dim_after_ticks b)) (unat (off_after_ticks b)) (Suc n)"
proof -
  let ?i = "of_nat (Suc n) :: u32"
  have u: "unat ?i = Suc n"
    using assms(3) by (intro unat_of_nat_eq) simp
  have le: "dim_after_ticks b \<le> ?i \<longleftrightarrow> unat (dim_after_ticks b) \<le> Suc n"
    "off_after_ticks b \<le> sat_sub ?i (dim_after_ticks b) \<longleftrightarrow>
       unat (off_after_ticks b) \<le> Suc n - unat (dim_after_ticks b)"
    by (simp_all only: word_le_nat_alt unat_sat_sub u)
  have off: "0 < unat (off_after_ticks b)" using assms(2) by (simp add: word_less_nat_alt)
  have idle: "last_activity_tick b + ?i - last_activity_tick b = ?i" by simp
  show ?thesis
    unfolding bl_tick_state idle Let_def le assms(1)
    using off by (auto simp: idle_level_def split: if_splits)
qed

lemma idle_run_level:
  assumes "bl_state b = Active" and "0 < dim_after_ticks b" and "0 < off_after_ticks b"
  shows "n < 2 ^ 32 \<Longrightarrow> bl_state (idle_run b n) = idle_level (unat (dim_after_ticks b)) (unat (off_after_ticks b)) n"
proof (induction n)
  case 0
  then show ?case using assms by (simp add: idle_level_def word_less_nat_alt)
next
  case (Suc n)
  then have "bl_state (idle_run b n) = idle_level (unat (dim_after_ticks b)) (unat (off_after_ticks b)) n"
    by simp
  then show ?case
    using idle_step [of "idle_run b n" n] assms(3) Suc.prems by simp
qed

lemma timeouts_positive:
  "0 < dim_after_ticks (set_timeouts b d f) \<and> 0 < off_after_ticks (set_timeouts b d f)"
proof -
  have "0 < secs_to_ticks s" if "s \<noteq> 0" for s
  proof -
    have u: "unat (ucast s :: u32) = unat s" by (simp add: unat_ucast_up)
    have "0 < unat s" using that by (simp add: unat_gt_0)
    then have "0 < unat (secs_to_ticks s)"
      by (simp add: secs_to_ticks_def unat_sat_mul u ticks_per_sec_def)
    then show ?thesis by (simp add: word_less_nat_alt)
  qed
  then show ?thesis by (simp add: set_timeouts_def word_less_nat_alt unat_minus_one)
qed

lemma unat_secs_to_ticks: "unat (secs_to_ticks s) = 333 * unat s"
proof -
  have "unat (ucast s :: u32) = unat s" by (simp add: unat_ucast_up)
  moreover have "unat s < 65536" using unsigned_less [of s] by simp
  ultimately show ?thesis
    by (simp add: secs_to_ticks_def unat_sat_mul ticks_per_sec_def)
qed

section \<open>Properties\<close>

text \<open>
  C22. The idle state machine refines its specification: from an active screen and with any
  timeouts the host can set, \<open>n\<close> main-loop ticks after the last activity the controller is in
  the state the specification names, for every \<open>n\<close> the 32-bit tick counter can tell apart.  A timeout
  of 0, which the documentation says disables its transition, is the largest number of ticks: with it
  the screen stays active for the first 2^32 - 2 idle ticks, and dims at the next (after about five
  months).
\<close>

theorem backlight_idle_refines:
  assumes "bl_state b = Active" and "n < 2 ^ 32"
  shows "bl_state (idle_run (set_timeouts b d f) n) =
      idle_level (if d = 0 then 2 ^ 32 - 1 else 333 * unat d) (if f = 0 then 2 ^ 32 - 1 else 333 * unat f) n \<and>
    (d = 0 \<longrightarrow> bl_state (idle_run (set_timeouts b d f) n) = (if n < 2 ^ 32 - 1 then Active else Dim))"
proof -
  let ?b = "set_timeouts b d f"
  have "bl_state ?b = Active" using assms(1) by (simp add: set_timeouts_def)
  from idle_run_level [OF this _ _ assms(2)] timeouts_positive [of b d f]
  have "bl_state (idle_run ?b n) =
      idle_level (if d = 0 then 2 ^ 32 - 1 else 333 * unat d) (if f = 0 then 2 ^ 32 - 1 else 333 * unat f) n"
    by (auto simp: set_timeouts_def unat_secs_to_ticks unat_minus_one)
  moreover have "0 < unat f" if "f \<noteq> 0" using that by (simp add: unat_gt_0)
  ultimately show ?thesis using assms(2) by (auto simp: idle_level_def)
qed

definition demo_backlight :: backlight where
  "demo_backlight = \<lparr>bl_channel = \<lparr>ch_timer = Some (Some 8), ch_duty_reg = duty_of 100\<rparr>,
     bl_state = Active, last_activity_tick = 7, bl_active_pct = 100,
     dim_after_ticks = 9990, off_after_ticks = 29970\<rparr>"

theorem backlight_idle_refines_witness:
  "bl_state (idle_run (set_timeouts demo_backlight 30 90) 10000) = Dim"
proof -
  have "bl_state demo_backlight = Active" "(10000 :: nat) < 2 ^ 32"
    by (simp_all add: demo_backlight_def)
  from backlight_idle_refines [OF this, of 30 90] show ?thesis by (simp add: idle_level_def)
qed

text \<open>
  In every reachable state of the controller the brightness is between 1 and 100, the
  channel keeps its 8-bit timer so no duty update is ever rejected, and the duty register
  shows the brightness of the state (while dimmed, that of the last transition).
\<close>

theorem backlight_duty_invariant:
  assumes "bl_reach b"
  shows "1 \<le> bl_active_pct b \<and> bl_active_pct b \<le> 100 \<and>
    (\<forall>st. snd (set_duty (bl_channel b) (level_pct b st)) = Inr ()) \<and>
    (bl_state b = Active \<longrightarrow> ch_duty_reg (bl_channel b) = duty_of (bl_active_pct b)) \<and>
    (bl_state b = Off \<longrightarrow> ch_duty_reg (bl_channel b) = 0)"
proof -
  have wf: "bl_wf b" "bl_lit b" using bl_reach_wf [OF assms] by auto
  then have "snd (set_duty (bl_channel b) (level_pct b st)) = Inr ()" for st
    by (simp add: set_duty_ok level_pct_bound bl_wf_def)
  with wf show ?thesis
    by (auto simp: bl_wf_def bl_lit_def level_pct_def duty_of_def)
qed

theorem backlight_duty_invariant_witness:
  "\<exists>b. bl_reach b \<and> bl_state b = Active \<and> ch_duty_reg (bl_channel b) = duty_of (bl_active_pct b)"
proof -
  obtain b where b: "backlight_new = Some b" "bl_state b = Active"
    using backlight_new_wf by blast
  have "bl_reach b" by (rule bl_start [OF b(1)])
  with backlight_duty_invariant [OF this] b(2) show ?thesis by blast
qed

text \<open>
  Ticking never brightens the screen and never leaves the off state; only activity does,
  and activity always ends in the active state with the full duty cycle.
\<close>

theorem backlight_tick_monotone:
  "bl_state (bl_tick b t) \<le> bl_state b \<and> (bl_state b = Off \<longrightarrow> bl_tick b t = b) \<and>
   snd (wake_from_off b t) = (bl_state b = Off) \<and> bl_state (fst (wake_from_off b t)) = Active"
  by (auto simp: bl_tick_state bl_tick_def wake_from_off_def Let_def less_eq_bl_level_def split: bl_level.splits)

theorem backlight_tick_monotone_witness:
  "bl_state (bl_tick demo_backlight 9997) \<le> Active \<and> bl_state (bl_tick demo_backlight 9997) = Dim"
  using backlight_tick_monotone [of demo_backlight 9997] by (simp add: bl_tick_state demo_backlight_def)

text \<open>
  The dimmed level is brighter than the active one exactly when the active brightness is
  set below five per cent, the floor of the dimmed level.
\<close>

theorem backlight_dim_brightens:
  "level_pct b Active < level_pct b Dim \<longleftrightarrow> bl_active_pct b < 5"
proof -
  have "unat (bl_active_pct b div 4) = unat (bl_active_pct b) div 4" by (simp add: unat_div)
  then show ?thesis
    by (auto simp: level_pct_def max_def word_less_nat_alt word_le_nat_alt)
qed

end
