(* ===== verification/Encoder.thy ===== *)
theory Encoder
  imports Prelude
begin

text \<open>
  The rotary encoder (\<open>firmware/src/encoder.rs\<close>): the GPIO interrupt handler with its shared
  step count and the 8 ms guard both channels check.  \<open>COUNT\<close> and \<open>LAST_COUNT_US\<close> are the two
  atomics, \<open>PINS\<close> the option filled by \<open>Encoder::new\<close>, here with the interrupt flag of each pin.
\<close>

section \<open>State and handler\<close>

record encoder =
  enc_count :: u32                       \<comment> \<open>an \<open>i32\<close>\<close>
  enc_last_us :: u32
  enc_pins :: "(bool \<times> bool) option"

definition guard_us :: u32 where "guard_us = 8000"

definition encoder_boot :: encoder where
  "encoder_boot = \<lparr>enc_count = 0, enc_last_us = 0, enc_pins = None\<rparr>"

definition encoder_new :: "encoder \<Rightarrow> encoder" where
  "encoder_new e = e\<lparr>enc_pins := Some (False, False)\<rparr>"

definition encoder_get :: "encoder \<Rightarrow> u32" where
  "encoder_get e = enc_count e"

definition gpio_encoder_handler :: "u64 \<Rightarrow> encoder \<Rightarrow> encoder" where
  "gpio_encoder_handler now e =
     (let now_us = ucast now;
          last = enc_last_us e;
          elapsed = now_us - last
      in case enc_pins e of
           None \<Rightarrow> e
         | Some (pin_a, pin_b) \<Rightarrow>
             (let e1 = (if pin_a
                        then (if guard_us \<le> elapsed
                              then e\<lparr>enc_count := enc_count e + 1, enc_last_us := now_us\<rparr> else e)
                               \<lparr>enc_pins := Some (False, pin_b)\<rparr>
                        else e);
                  pin_a' = (if pin_a then False else pin_a)
              in if pin_b
                 then (if guard_us \<le> elapsed
                       then e1\<lparr>enc_count := enc_count e1 - 1, enc_last_us := now_us\<rparr> else e1)
                        \<lparr>enc_pins := Some (pin_a', False)\<rparr>
                 else e1))"

section \<open>Runs of the interrupt\<close>

text \<open>An interrupt: the time since boot and the pins whose rising edge is pending.\<close>

type_synonym edge = "u64 \<times> bool \<times> bool"

fun enc_irq :: "encoder \<Rightarrow> edge \<Rightarrow> encoder" where
  "enc_irq e (t, a, b) =
     gpio_encoder_handler t (case enc_pins e of None \<Rightarrow> e | Some _ \<Rightarrow> e\<lparr>enc_pins := Some (a, b)\<rparr>)"

definition enc_run :: "encoder \<Rightarrow> edge list \<Rightarrow> encoder" where
  "enc_run e evs = foldl enc_irq e evs"

text \<open>Abstractly: the edges the guard lets through, and the step each one counts.\<close>

fun accepted :: "u32 \<Rightarrow> edge list \<Rightarrow> edge list" where
  "accepted l [] = []"
| "accepted l ((t, a, b) # evs) =
     (if (a \<or> b) \<and> guard_us \<le> ucast t - l
      then (t, a, b) # accepted (ucast t) evs else accepted l evs)"

fun edge_step :: "edge \<Rightarrow> int" where
  "edge_step (t, a, b) = (if a then 1 else 0) - (if b then 1 else 0)"

lemma enc_irq_armed:
  assumes "enc_pins e = Some p"
  shows "enc_irq e (t, a, b) =
    (if (a \<or> b) \<and> guard_us \<le> ucast t - enc_last_us e
     then e\<lparr>enc_count := enc_count e + of_int (edge_step (t, a, b)), enc_last_us := ucast t,
            enc_pins := Some (False, False)\<rparr>
     else e\<lparr>enc_pins := Some (False, False)\<rparr>)"
  using assms by (cases a; cases b) (simp_all add: gpio_encoder_handler_def Let_def)

lemma enc_run_accepted:
  assumes "enc_pins e = Some p"
  shows "enc_count (enc_run e evs) =
    enc_count e + of_int (sum_list (map edge_step (accepted (enc_last_us e) evs)))"
  using assms
proof (induction evs arbitrary: e p)
  case Nil
  then show ?case by (simp add: enc_run_def)
next
  case (Cons ev evs)
  obtain t a b where ev: "ev = (t, a, b)" by (cases ev) auto
  have pins: "enc_pins (enc_irq e ev) = Some (False, False)"
    unfolding ev enc_irq_armed [OF Cons.prems] by simp
  have run: "enc_run e (ev # evs) = enc_run (enc_irq e ev) evs" by (simp add: enc_run_def)
  show ?case
    unfolding run Cons.IH [OF pins] unfolding ev enc_irq_armed [OF Cons.prems] by simp
qed

text \<open>The 32-bit difference of two readings of the clock never exceeds the real one.\<close>

lemma elapsed_le:
  assumes "unat t0 \<le> unat t1"
  shows "unat (ucast (t1 :: u64) - ucast t0 :: u32) \<le> unat t1 - unat t0"
proof -
  have "(ucast t1 - ucast t0 :: u32) = of_nat (unat t1) - of_nat (unat t0)" by simp
  also have "\<dots> = of_nat (unat t1 - unat t0)" using assms by (simp only: of_nat_diff)
  finally show ?thesis by (simp add: unat_of_nat)
qed

lemma accepted_after:
  assumes "sorted (map (\<lambda>ev. unat (fst ev)) evs)" and "\<forall>ev\<in>set evs. unat (t0 :: u64) \<le> unat (fst ev)"
    and "ev \<in> set (accepted (ucast t0) evs)"
  shows "unat t0 + 8000 \<le> unat (fst ev)"
  using assms
proof (induction evs arbitrary: t0)
  case Nil
  then show ?case by simp
next
  case (Cons e evs)
  obtain t a b where e: "e = (t, a, b)" by (cases e) auto
  show ?case
  proof (cases "(a \<or> b) \<and> guard_us \<le> (ucast t - ucast t0 :: u32)")
    case False
    with Cons show ?thesis by (auto simp: e)
  next
    case True
    then have "8000 \<le> unat (ucast t - ucast t0 :: u32)"
      by (simp add: guard_us_def word_le_nat_alt)
    then have t: "unat t0 + 8000 \<le> unat t"
      using elapsed_le [of t0 t] Cons.prems(2) by (simp add: e)
    have "ev = (t, a, b) \<or> unat t + 8000 \<le> unat (fst ev)"
      using Cons.IH [of t] Cons.prems True by (auto simp: e)
    with t show ?thesis by auto
  qed
qed

lemma accepted_subset: "set (accepted l evs) \<subseteq> set evs"
  by (induction l evs rule: accepted.induct) auto

lemma accepted_spaced:
  assumes "sorted (map (\<lambda>ev. unat (fst ev)) evs)"
  shows "sorted_wrt (\<lambda>x y. unat (fst x) + 8000 \<le> unat (fst y)) (accepted l evs)"
  using assms
proof (induction l evs rule: accepted.induct)
  case (2 l t a b evs)
  then show ?case
    using accepted_after [of evs t] by (auto split: if_splits)
qed simp

section \<open>Properties\<close>

text \<open>
  The interrupt handler refines its specification: the count moves by the sum of the steps
  of the edges the guard accepts, and any two accepted edges are at least 8 ms apart in real
  time, whatever the wrap-around of the 32-bit clock, for interrupts in the order of time.
\<close>

theorem encoder_debounce_refines:
  assumes "enc_pins e = Some p" and "sorted (map (\<lambda>ev. unat (fst ev)) evs)"
  shows "enc_count (enc_run e evs) =
      enc_count e + of_int (sum_list (map edge_step (accepted (enc_last_us e) evs))) \<and>
    sorted_wrt (\<lambda>x y. unat (fst x) + 8000 \<le> unat (fst y)) (accepted (enc_last_us e) evs)"
  using enc_run_accepted [OF assms(1)] accepted_spaced [OF assms(2)] by blast

theorem encoder_debounce_refines_witness:
  "enc_count (enc_run (encoder_new encoder_boot) [(9000, True, False), (9500, True, False), (20000, True, False)]) = 2"
proof -
  have "enc_pins (encoder_new encoder_boot) = Some (False, False)"
    by (simp add: encoder_new_def)
  from encoder_debounce_refines [OF this, of "[(9000, True, False), (9500, True, False), (20000, True, False)]"]
  show ?thesis by (simp add: encoder_new_def encoder_boot_def guard_us_def)
qed

text \<open>
  When both channels have a pending edge at one interrupt, neither suppresses the other:
  an armed handler past its guard counts both, so the count does not move while the guard is
  rearmed.
\<close>

theorem encoder_simultaneous_edges:
  assumes "enc_pins e = Some p" and "guard_us \<le> ucast t - enc_last_us e"
  shows "enc_count (enc_irq e (t, True, True)) = enc_count e \<and>
    enc_last_us (enc_irq e (t, True, True)) = ucast t"
  unfolding enc_irq_armed [OF assms(1)] using assms(2) by simp

theorem encoder_simultaneous_edges_witness:
  "enc_count (enc_irq (encoder_new encoder_boot) (9000, True, True)) = 0"
proof -
  have "enc_pins (encoder_new encoder_boot) = Some (False, False)"
    "guard_us \<le> ucast (9000 :: u64) - enc_last_us (encoder_new encoder_boot)"
    by (simp_all add: encoder_new_def encoder_boot_def guard_us_def)
  from encoder_simultaneous_edges [OF this] show ?thesis
    by (simp add: encoder_new_def encoder_boot_def)
qed

end
