(* ===== verification/Touch.thy ===== *)
theory Touch
  imports Messages
begin

text \<open>
  The CST816 touch driver (\<open>firmware/src/touch.rs\<close>).  The I2C transaction that reads the six
  registers is the environment's: its outcome, \<open>None\<close> for a bus error, is an argument of
  \<open>touch_read\<close>.
\<close>

section \<open>The driver\<close>

datatype touch_gesture =
  GNone | GSwipeUp | GSwipeDown | GSwipeLeft | GSwipeRight | GSingleTap | GDoubleTap | GLongPress

definition gesture_from_id :: "u8 \<Rightarrow> touch_gesture" where
  "gesture_from_id i =
     (if i = 0x01 then GSwipeUp else if i = 0x02 then GSwipeDown else if i = 0x03 then GSwipeLeft
      else if i = 0x04 then GSwipeRight else if i = 0x05 then GSingleTap else if i = 0x0B then GDoubleTap
      else if i = 0x0C then GLongPress else GNone)"

record touch_event =
  te_x :: u16
  te_y :: u16
  te_gesture :: touch_gesture

record cst816 =
  last_gesture :: touch_gesture
  finger_down :: bool

text \<open>Registers 0x01 to 0x06: gesture, number of points, then x and y, high byte first.\<close>

type_synonym touch_regs = "u8 \<times> u8 \<times> u8 \<times> u8 \<times> u8 \<times> u8"

definition cst816_new :: cst816 where
  "cst816_new = \<lparr>last_gesture = GNone, finger_down = False\<rparr>"

definition coordinate :: "u8 \<Rightarrow> u8 \<Rightarrow> u16" where
  "coordinate hi lo = push_bit 8 (ucast hi AND 0x0F) OR ucast lo"

fun touch_read :: "touch_regs option \<Rightarrow> cst816 \<Rightarrow> cst816 \<times> touch_event option" where
  "touch_read None s = (s, None)"
| "touch_read (Some (b0, b1, b2, b3, b4, b5)) s =
     (let gesture = gesture_from_id b0;
          num_points = b1;
          s1 = s\<lparr>finger_down := (num_points > 0 \<and> num_points \<noteq> 0xFF)\<rparr>
      in if num_points = 0 \<and> gesture = GNone then (s1\<lparr>last_gesture := GNone\<rparr>, None)
         else if num_points = 0xFF then (s1, None)
         else if gesture = last_gesture s1 then (s1, None)
         else let s2 = s1\<lparr>last_gesture := gesture\<rparr>
              in if gesture = GNone then (s2, None)
                 else (s2, Some \<lparr>te_x = coordinate b2 b3, te_y = coordinate b4 b5, te_gesture = gesture\<rparr>))"

text \<open>\<open>to_wire_gesture\<close> of \<open>firmware/src/main.rs\<close>.\<close>

fun to_wire_gesture :: "touch_gesture \<Rightarrow> gesture_kind option" where
  "to_wire_gesture GSingleTap = Some KSingleTap"
| "to_wire_gesture GLongPress = Some KLongPress"
| "to_wire_gesture GSwipeUp = Some KSwipeUp"
| "to_wire_gesture GSwipeDown = Some KSwipeDown"
| "to_wire_gesture GSwipeLeft = Some KSwipeLeft"
| "to_wire_gesture GSwipeRight = Some KSwipeRight"
| "to_wire_gesture GDoubleTap = None"
| "to_wire_gesture GNone = None"

section \<open>Runs of the driver\<close>

fun touch_run :: "cst816 \<Rightarrow> touch_regs option list \<Rightarrow> touch_event list" where
  "touch_run s [] = []"
| "touch_run s (r # rs) =
     (case touch_read r s of
        (s', None) \<Rightarrow> touch_run s' rs
      | (s', Some ev) \<Rightarrow> ev # touch_run s' rs)"

text \<open>
  Abstractly the driver is an edge detector: of the gestures it observes (a bus error and the
  invalid count 0xFF show nothing), it reports each one that differs from the one before.
\<close>

fun observed :: "touch_regs option \<Rightarrow> touch_gesture option" where
  "observed None = None"
| "observed (Some (b0, b1, b2, b3, b4, b5)) = (if b1 = 0xFF then None else Some (gesture_from_id b0))"

fun rising_edges :: "touch_gesture \<Rightarrow> touch_gesture list \<Rightarrow> touch_gesture list" where
  "rising_edges p [] = []"
| "rising_edges p (g # gs) = (if g \<noteq> p \<and> g \<noteq> GNone then [g] else []) @ rising_edges g gs"

lemma touch_read_observed:
  "map te_gesture (case snd (touch_read r s) of None \<Rightarrow> [] | Some ev \<Rightarrow> [ev]) =
     (case observed r of None \<Rightarrow> [] | Some g \<Rightarrow> if g \<noteq> last_gesture s \<and> g \<noteq> GNone then [g] else []) \<and>
   last_gesture (fst (touch_read r s)) = (case observed r of None \<Rightarrow> last_gesture s | Some g \<Rightarrow> g)"
  by (cases "(r, s)" rule: touch_read.cases) (auto simp: Let_def)

lemma coordinate_bound: "unat (coordinate hi lo) < 4096"
proof -
  have m: "(0x0F :: u16) = mask 4" by (simp add: mask_eq_exp_minus_1)
  have "coordinate hi lo = take_bit 12 (coordinate hi lo)"
    by (rule bit_word_eqI)
      (auto simp: coordinate_def m bit_simps dest: bit_imp_le_length)
  then have "unat (coordinate hi lo) = take_bit 12 (unat (coordinate hi lo))"
    by (metis unsigned_take_bit_eq)
  also have "\<dots> < 2 ^ 12" by (rule take_bit_nat_less_exp)
  finally show ?thesis by simp
qed

section \<open>Properties\<close>

text \<open>
  The touch driver refines an edge detector: over any sequence of register reads the
  gestures it reports are exactly the changes of the observed gesture to another one, so a
  gesture held over many reads is reported once.
\<close>

theorem touch_run_refines:
  "map te_gesture (touch_run s rs) = rising_edges (last_gesture s) (List.map_filter observed rs)"
proof (induction rs arbitrary: s)
  case Nil
  then show ?case by (simp add: List.map_filter_simps)
next
  case (Cons r rs)
  show ?case
    using touch_read_observed [of r s] Cons.IH [of "fst (touch_read r s)"]
    by (cases "touch_read r s"; cases "snd (touch_read r s)"; cases "observed r")
      (auto simp: List.map_filter_simps split: if_splits)
qed

text \<open>
  Every reported event has a real gesture and coordinates of at most twelve bits, and the
  driver's idea of a finger on the screen is that of the last successful read.
\<close>

theorem touch_event_bounds:
  assumes "touch_read (Some (b0, b1, b2, b3, b4, b5)) s = (s', Some ev)"
  shows "unat (te_x ev) < 4096 \<and> unat (te_y ev) < 4096 \<and> te_gesture ev \<noteq> GNone \<and>
    te_gesture ev = gesture_from_id b0 \<and> finger_down s' = (b1 \<noteq> 0)"
  using assms by (auto simp: Let_def coordinate_bound word_gt_0 split: if_splits)

theorem touch_event_bounds_witness:
  "\<exists>s' ev. touch_read (Some (5, 0, 0xF1, 2, 0, 9)) cst816_new = (s', Some ev) \<and> unat (te_x ev) < 4096 \<and>
     finger_down s' = False"
proof -
  have r: "touch_read (Some (5, 0, 0xF1, 2, 0, 9)) cst816_new =
      (\<lparr>last_gesture = GSingleTap, finger_down = False\<rparr>,
       Some \<lparr>te_x = coordinate 0xF1 2, te_y = coordinate 0 9, te_gesture = GSingleTap\<rparr>)"
    by (simp add: cst816_new_def gesture_from_id_def)
  from touch_event_bounds [OF r] r show ?thesis by auto
qed

end
