(* ===== verification/Haptic.thy ===== *)
theory Haptic
  imports Prelude
begin

text \<open>
  The DRV2605 haptic driver (\<open>firmware/src/haptic.rs\<close>).  The I2C master and the chip behind it
  are a parameter: a bus state with a write and a write-then-read transaction.  The locale
  \<open>register_chip\<close> states what the data sheet says of the chip, one byte register per address.
\<close>

section \<open>The bus\<close>

record 'b i2c_ops =
  i2c_write :: "'b \<Rightarrow> u8 \<Rightarrow> u8 list \<Rightarrow> 'b \<times> bool"
  i2c_write_read :: "'b \<Rightarrow> u8 \<Rightarrow> u8 list \<Rightarrow> 'b \<times> u8 option"

section \<open>The driver\<close>

definition drv2605_addr :: u8 where "drv2605_addr = 0x5A"
definition reg_status :: u8 where "reg_status = 0x00"
definition reg_mode :: u8 where "reg_mode = 0x01"
definition reg_library :: u8 where "reg_library = 0x03"
definition reg_waveform :: u8 where "reg_waveform = 0x04"
definition reg_go :: u8 where "reg_go = 0x0C"
definition reg_rated_voltage :: u8 where "reg_rated_voltage = 0x16"
definition reg_od_clamp :: u8 where "reg_od_clamp = 0x17"
definition reg_feedback :: u8 where "reg_feedback = 0x1A"
definition reg_control3 :: u8 where "reg_control3 = 0x1D"

lemmas drv2605_regs = drv2605_addr_def reg_status_def reg_mode_def reg_library_def reg_waveform_def
  reg_go_def reg_rated_voltage_def reg_od_clamp_def reg_feedback_def reg_control3_def

datatype effect = StrongClick | SharpClick | SoftBump | ShortBuzz | MediumClick | Tick

fun effect_id :: "effect \<Rightarrow> u8" where
  "effect_id StrongClick = 1"
| "effect_id SharpClick = 4"
| "effect_id SoftBump = 7"
| "effect_id ShortBuzz = 47"
| "effect_id MediumClick = 10"
| "effect_id Tick = 27"

definition wr2605 :: "'b i2c_ops \<Rightarrow> u8 \<Rightarrow> u8 \<Rightarrow> 'b \<Rightarrow> 'b" where
  "wr2605 io r v bus = fst (i2c_write io bus drv2605_addr [r, v])"

text \<open>A read-modify-write of one register; a failed read leaves the register alone.\<close>

definition modify2605 :: "'b i2c_ops \<Rightarrow> u8 \<Rightarrow> (u8 \<Rightarrow> u8) \<Rightarrow> 'b \<Rightarrow> 'b" where
  "modify2605 io r f bus =
     (case i2c_write_read io bus drv2605_addr [r] of
        (bus1, None) \<Rightarrow> bus1
      | (bus1, Some v) \<Rightarrow> wr2605 io r (f v) bus1)"

definition haptic_init :: "'b i2c_ops \<Rightarrow> 'b \<Rightarrow> 'b" where
  "haptic_init io bus =
     (let bus1 = fst (i2c_write_read io bus drv2605_addr [reg_status]);
          bus2 = wr2605 io reg_mode 0x00 bus1;
          bus3 = wr2605 io reg_library 0x01 bus2;
          bus4 = modify2605 io reg_feedback (\<lambda>fb. fb AND 0x7F) bus3;
          bus5 = wr2605 io reg_rated_voltage 0xFF bus4;
          bus6 = wr2605 io reg_od_clamp 0xFF bus5
      in modify2605 io reg_control3 (\<lambda>c3. c3 OR 0x20) bus6)"

definition haptic_play :: "'b i2c_ops \<Rightarrow> effect \<Rightarrow> 'b \<Rightarrow> 'b" where
  "haptic_play io e bus =
     (let bus1 = wr2605 io reg_waveform (effect_id e) bus;
          bus2 = wr2605 io (reg_waveform + 1) 0x00 bus1
      in wr2605 io reg_go 0x01 bus2)"

section \<open>The chip\<close>

locale register_chip =
  fixes io :: "'b i2c_ops" and regs :: "'b \<Rightarrow> u8 \<Rightarrow> u8"
  assumes write_reg: "regs (fst (i2c_write io bus drv2605_addr [r, v])) = (regs bus)(r := v)"
    and read_reg: "\<exists>bus'. i2c_write_read io bus drv2605_addr [r] = (bus', Some (regs bus r)) \<and> regs bus' = regs bus"
begin

lemma regs_wr [simp]: "regs (wr2605 io r v bus) = (regs bus)(r := v)"
  by (simp add: wr2605_def write_reg)

lemma regs_modify [simp]: "regs (modify2605 io r f bus) = (regs bus)(r := f (regs bus r))"
proof -
  obtain bus' where "i2c_write_read io bus drv2605_addr [r] = (bus', Some (regs bus r))" "regs bus' = regs bus"
    using read_reg [of bus r] by blast
  then show ?thesis by (simp add: modify2605_def)
qed

lemma regs_read [simp]: "regs (fst (i2c_write_read io bus drv2605_addr [r])) = regs bus"
  using read_reg [of bus r] by auto

lemma regs_init:
  "regs (haptic_init io bus) = (regs bus)(reg_mode := 0, reg_library := 1,
     reg_feedback := regs bus reg_feedback AND 0x7F, reg_rated_voltage := 0xFF, reg_od_clamp := 0xFF,
     reg_control3 := regs bus reg_control3 OR 0x20)"
  by (simp add: haptic_init_def Let_def) (simp add: drv2605_regs)

lemma regs_play:
  "regs (haptic_play io e bus) = (regs bus)(reg_waveform := effect_id e, reg_waveform + 1 := 0, reg_go := 1)"
  by (simp add: haptic_play_def Let_def)

end

text \<open>A register file, with the log of the transactions, is such a chip.\<close>

record reg_file =
  rf_regs :: "u8 \<Rightarrow> u8"
  rf_log :: "(u8 \<times> u8 list) list"

definition reg_file_io :: "reg_file i2c_ops" where
  "reg_file_io =
     \<lparr>i2c_write = (\<lambda>b a bs. (case bs of [r, v] \<Rightarrow> b\<lparr>rf_regs := (rf_regs b)(r := v), rf_log := rf_log b @ [(a, bs)]\<rparr>
                                | _ \<Rightarrow> b, True)),
      i2c_write_read = (\<lambda>b a bs. (b, case bs of [r] \<Rightarrow> Some (rf_regs b r) | _ \<Rightarrow> None))\<rparr>"

interpretation drv2605: register_chip reg_file_io rf_regs
  by unfold_locales (simp_all add: reg_file_io_def)

section \<open>Properties\<close>

text \<open>
  On a responding chip the initialisation leaves standby, selects the ERM library, clears
  only the N_ERM_LRA bit of the feedback register, sets only the open-loop bit of the control
  register, maxes the two drive registers and touches no other register; playing an effect
  then loads it, ends the sequence and starts it without disturbing that configuration.
\<close>

theorem haptic_init_play_registers:
  assumes "register_chip io regs"
  shows "regs (haptic_play io e (haptic_init io bus)) = (regs bus)(reg_mode := 0, reg_library := 1,
     reg_feedback := regs bus reg_feedback AND 0x7F, reg_rated_voltage := 0xFF, reg_od_clamp := 0xFF,
     reg_control3 := regs bus reg_control3 OR 0x20,
     reg_waveform := effect_id e, reg_waveform + 1 := 0, reg_go := 1)"
  by (simp add: register_chip.regs_play [OF assms] register_chip.regs_init [OF assms])

theorem haptic_init_play_registers_witness:
  "rf_regs (haptic_play reg_file_io SharpClick (haptic_init reg_file_io \<lparr>rf_regs = (\<lambda>_. 0xC1), rf_log = []\<rparr>)) reg_feedback = 0x41"
  by (simp add: haptic_init_play_registers [OF drv2605.register_chip_axioms] drv2605_regs)

end
