(* ===== verification/Nvs.thy ===== *)
theory Nvs
  imports Prelude
begin

text \<open>
  The credential store (\<open>firmware/src/nvs_config.rs\<close>).  The flash driver is the crate
  \<open>esp-storage\<close> and the bounded strings are \<open>heapless\<close>, so both are parameters: a flash state
  with its three operations, and the function \<open>push\<close> that appends a character (given by its
  code point) to a string of bounded capacity.
\<close>

section \<open>The libraries\<close>

record 's flash_ops =
  fl_read :: "'s \<Rightarrow> nat \<Rightarrow> nat \<Rightarrow> u8 list option"        \<comment> \<open>offset and length\<close>
  fl_erase :: "'s \<Rightarrow> nat \<Rightarrow> nat \<Rightarrow> 's \<times> bool"             \<comment> \<open>from and to\<close>
  fl_write :: "'s \<Rightarrow> nat \<Rightarrow> u8 list \<Rightarrow> 's \<times> bool"

type_synonym char_push = "nat \<Rightarrow> str \<Rightarrow> nat \<Rightarrow> str option"

text \<open>\<open>heapless::String::push\<close> appends the UTF-8 encoding when it fits (here up to U+07FF).\<close>

definition utf8_latin :: "nat \<Rightarrow> u8 list" where
  "utf8_latin c = (if c < 0x80 then [of_nat c] else [of_nat (0xC0 + c div 64), of_nat (0x80 + c mod 64)])"

definition heapless_push :: "char_push \<Rightarrow> bool" where
  "heapless_push push \<longleftrightarrow> (\<forall>cap s c. c < 0x800 \<longrightarrow>
     push cap s c = (if length s + length (utf8_latin c) \<le> cap then Some (s @ utf8_latin c) else None))"

section \<open>The store\<close>

definition nvs_offset :: nat where "nvs_offset = 0x9000"
definition nvs_magic :: u16 where "nvs_magic = 0xBEEF"
definition ssid_len :: nat where "ssid_len = 32"
definition pass_len :: nat where "pass_len = 64"
definition record_len :: nat where "record_len = 100"

lemmas nvs_consts = nvs_offset_def nvs_magic_def ssid_len_def pass_len_def record_len_def

record wifi_credentials =
  cr_ssid :: str
  cr_password :: str

definition u16_from_le :: "u8 \<Rightarrow> u8 \<Rightarrow> u16" where
  "u16_from_le lo hi = ucast lo OR push_bit 8 (ucast hi)"

definition u16_to_le :: "u16 \<Rightarrow> u8 list" where
  "u16_to_le w = [ucast w, ucast (drop_bit 8 w)]"

text \<open>The loop \<open>for &b in raw { s.push(b as char).ok()?; }\<close>.\<close>

fun push_bytes :: "char_push \<Rightarrow> nat \<Rightarrow> str \<Rightarrow> u8 list \<Rightarrow> str option" where
  "push_bytes push cap s [] = Some s"
| "push_bytes push cap s (b # bs) =
     (case push cap s (unat b) of None \<Rightarrow> None | Some s' \<Rightarrow> push_bytes push cap s' bs)"

definition until_nul :: "u8 list \<Rightarrow> nat \<Rightarrow> u8 list" where
  "until_nul raw n = take (case position (\<lambda>b. b = 0) raw of Some i \<Rightarrow> i | None \<Rightarrow> n) raw"

definition nvs_load :: "char_push \<Rightarrow> 's flash_ops \<Rightarrow> 's \<Rightarrow> wifi_credentials option" where
  "nvs_load push fl s =
     (case fl_read fl s nvs_offset record_len of
        None \<Rightarrow> None
      | Some buf \<Rightarrow>
          if u16_from_le (buf ! 0) (buf ! 1) \<noteq> nvs_magic then None
          else let ssid_raw = take ssid_len (drop 2 buf);
                   pass_raw = take pass_len (drop (2 + ssid_len) buf)
               in case push_bytes push 32 [] (until_nul ssid_raw ssid_len) of
                    None \<Rightarrow> None
                  | Some ssid \<Rightarrow>
                      (case push_bytes push 64 [] (until_nul pass_raw pass_len) of
                         None \<Rightarrow> None
                       | Some password \<Rightarrow> Some \<lparr>cr_ssid = ssid, cr_password = password\<rparr>))"

definition nvs_record :: "wifi_credentials \<Rightarrow> u8 list" where
  "nvs_record creds =
     (let buf = replicate record_len 0;
          buf1 = overwrite 0 (u16_to_le nvs_magic) buf;
          buf2 = overwrite 2 (cr_ssid creds) buf1
      in overwrite (2 + ssid_len) (cr_password creds) buf2)"

definition nvs_save :: "'s flash_ops \<Rightarrow> 's \<Rightarrow> wifi_credentials \<Rightarrow> 's \<times> bool" where
  "nvs_save fl s creds =
     (case fl_erase fl s nvs_offset (nvs_offset + 4096) of
        (s1, False) \<Rightarrow> (s1, False)
      | (s1, True) \<Rightarrow> fl_write fl s1 nvs_offset (nvs_record creds))"

text \<open>The lengths the type \<open>heapless::String<N>\<close> guarantees.\<close>

definition creds_fit :: "wifi_credentials \<Rightarrow> bool" where
  "creds_fit c \<longleftrightarrow> length (cr_ssid c) \<le> 32 \<and> length (cr_password c) \<le> 64"

section \<open>The record\<close>

lemma until_nul_padded:
  assumes "0 \<notin> set s" and "length s \<le> n"
  shows "until_nul (s @ replicate (n - length s) 0) n = s"
proof (cases "length s = n")
  case True
  then have "position (\<lambda>b. b = 0) s = None" using assms(1) by (auto simp: position_None)
  with True show ?thesis by (simp add: until_nul_def)
next
  case False
  then obtain k where k: "n - length s = Suc k" using assms(2) by (metis Suc_diff_Suc le_neq_implies_less)
  have "position (\<lambda>b. b = 0) (s @ 0 # replicate k 0) = Some (length s)"
    using assms(1) by (intro position_append_hit) auto
  then show ?thesis by (simp add: until_nul_def k)
qed

lemma nvs_record_shape:
  assumes "creds_fit c"
  shows "nvs_record c = [0xEF, 0xBE] @ (cr_ssid c @ replicate (32 - length (cr_ssid c)) 0)
    @ (cr_password c @ replicate (64 - length (cr_password c)) 0) @ [0, 0]"
proof -
  have m: "u16_to_le nvs_magic = [0xEF, 0xBE]" by (simp add: u16_to_le_def nvs_consts)
  have b1: "overwrite 0 [0xEF, 0xBE] (replicate 100 0) = [0xEF, 0xBE] @ replicate 98 (0 :: u8)"
    by (simp add: overwrite_def)
  have b2: "overwrite 2 s ([0xEF, 0xBE] @ replicate 98 (0 :: u8)) =
      [0xEF, 0xBE] @ (s @ replicate (32 - length s) 0) @ replicate 66 0" if "length s \<le> 32" for s
  proof -
    have "replicate (98 - length s) (0 :: u8) = replicate (32 - length s) 0 @ replicate 66 0"
      using that by (simp flip: replicate_add)
    then show ?thesis by (simp add: overwrite_def)
  qed
  have b3: "overwrite 34 p (h @ replicate 66 0) = h @ (p @ replicate (64 - length p) 0) @ [0, 0 :: u8]"
    if "length p \<le> 64" "length h = 34" for p h
  proof -
    have "66 - length p = (64 - length p) + 2" using that by simp
    then have "replicate (66 - length p) (0 :: u8) = replicate (64 - length p) 0 @ replicate 2 0"
      by (simp only: replicate_add)
    then show ?thesis using that by (simp add: overwrite_def numeral_2_eq_2)
  qed
  let ?h = "[0xEF, 0xBE] @ (cr_ssid c @ replicate (32 - length (cr_ssid c)) 0)"
  have "nvs_record c = overwrite 34 (cr_password c) (overwrite 2 (cr_ssid c) (overwrite 0 [0xEF, 0xBE] (replicate 100 0)))"
    by (simp only: nvs_record_def m Let_def record_len_def ssid_len_def) simp
  also have "\<dots> = overwrite 34 (cr_password c) (?h @ replicate 66 0)"
    using assms by (simp only: b1 creds_fit_def b2 append_assoc)
  also have "\<dots> = ?h @ (cr_password c @ replicate (64 - length (cr_password c)) 0) @ [0, 0]"
    using assms by (intro b3) (simp_all add: creds_fit_def)
  finally show ?thesis by simp
qed

lemma nvs_record_length: "creds_fit c \<Longrightarrow> length (nvs_record c) = record_len"
  by (simp add: nvs_record_shape creds_fit_def record_len_def)

lemma push_bytes_spec:
  assumes "heapless_push push"
  shows "push_bytes push cap s bs =
    (if length (s @ concat (map (utf8_latin \<circ> unat) bs)) \<le> cap
     then Some (s @ concat (map (utf8_latin \<circ> unat) bs)) else if bs = [] then Some s else None)"
proof (induction bs arbitrary: s)
  case Nil
  then show ?case by simp
next
  case (Cons b bs)
  have "unat b < 2 ^ LENGTH(8)" by (rule unsigned_less)
  then have "unat b < 0x800" by simp
  then have "push cap s (unat b) =
      (if length s + length (utf8_latin (unat b)) \<le> cap then Some (s @ utf8_latin (unat b)) else None)"
    using assms by (simp add: heapless_push_def)
  then show ?case by (auto simp: Cons.IH comp_def)
qed

lemma utf8_latin_ascii: "unat b < 0x80 \<Longrightarrow> utf8_latin (unat (b :: u8)) = [b]"
  by (simp add: utf8_latin_def)

lemma concat_ascii: "\<forall>b\<in>set bs. unat b < 0x80 \<Longrightarrow> concat (map (utf8_latin \<circ> unat) bs) = bs"
  by (induction bs) (simp_all add: utf8_latin_ascii)

section \<open>The flash contract\<close>

text \<open>
  The documented behaviour of a NOR flash sector: reading an erased sector gives 0xFF bytes,
  reading what was written to an erased sector gives it back.
\<close>

locale nor_flash =
  fixes fl :: "'s flash_ops"
  assumes read_erased:
      "fl_erase fl s off (off + 4096) = (s1, True) \<Longrightarrow> n \<le> 4096 \<Longrightarrow>
       fl_read fl s1 off n = Some (replicate n 0xFF)"
    and read_written:
      "fl_erase fl s off (off + 4096) = (s1, True) \<Longrightarrow> fl_write fl s1 off bs = (s2, True) \<Longrightarrow>
       length bs \<le> 4096 \<Longrightarrow> fl_read fl s2 off (length bs) = Some bs"
begin

lemma load_saved:
  assumes "heapless_push push" and "creds_fit c" and "0 \<notin> set (cr_ssid c)" "0 \<notin> set (cr_password c)"
    and "nvs_save fl s c = (s2, True)"
  shows "nvs_load push fl s2 =
    (if length (concat (map (utf8_latin \<circ> unat) (cr_ssid c))) \<le> 32 \<and>
        length (concat (map (utf8_latin \<circ> unat) (cr_password c))) \<le> 64
     then Some \<lparr>cr_ssid = concat (map (utf8_latin \<circ> unat) (cr_ssid c)),
                cr_password = concat (map (utf8_latin \<circ> unat) (cr_password c))\<rparr> else None)"
proof -
  let ?b = "nvs_record c"
  let ?s = "cr_ssid c @ replicate (32 - length (cr_ssid c)) 0"
  let ?p = "cr_password c @ replicate (64 - length (cr_password c)) 0"
  have shape: "?b = [0xEF, 0xBE] @ ?s @ ?p @ [0, 0]" by (rule nvs_record_shape [OF assms(2)])
  have ls: "length ?s = 32" and lp: "length ?p = 64" using assms(2) by (simp_all add: creds_fit_def)
  have len: "length ?b = record_len" by (rule nvs_record_length [OF assms(2)])
  obtain s1 where "fl_erase fl s nvs_offset (nvs_offset + 4096) = (s1, True)"
      "fl_write fl s1 nvs_offset ?b = (s2, True)"
    using assms(5) by (auto simp: nvs_save_def split: prod.splits bool.splits)
  from read_written [OF this] have rd: "fl_read fl s2 nvs_offset record_len = Some ?b"
    by (simp add: len) (simp add: record_len_def)
  have magic: "u16_from_le (?b ! 0) (?b ! 1) = nvs_magic"
    by (simp add: shape u16_from_le_def nvs_magic_def)
  have ssid_raw: "take ssid_len (drop 2 ?b) = ?s"
    unfolding shape ssid_len_def using assms(2) by (simp add: creds_fit_def)
  have "drop (2 + ssid_len) ?b = drop 32 (drop 2 ?b)" by (simp add: ssid_len_def add.commute)
  also have "\<dots> = ?p @ [0, 0]" unfolding shape using ls by simp
  finally have pass_raw: "take pass_len (drop (2 + ssid_len) ?b) = ?p"
    using lp by (simp add: pass_len_def)
  have nul: "until_nul ?s ssid_len = cr_ssid c" "until_nul ?p pass_len = cr_password c"
    using assms(2,3,4) by (simp_all add: ssid_len_def pass_len_def until_nul_padded creds_fit_def)
  show ?thesis
    unfolding nvs_load_def rd option.case magic ssid_raw pass_raw Let_def nul push_bytes_spec [OF assms(1)]
    by (auto split: option.splits)
qed

lemma load_after_failed_write:
  assumes "fl_erase fl s nvs_offset (nvs_offset + 4096) = (s1, True)"
    and "nvs_save fl s c = (s1, False)"
  shows "nvs_load push fl s1 = None"
  using read_erased [OF assms(1), of record_len]
  by (simp add: nvs_load_def nvs_consts u16_from_le_def)

end

text \<open>A sector of bytes in which a write can only clear bits, as the contract's instance.\<close>

definition sector_ops :: "u8 list flash_ops" where
  "sector_ops =
     \<lparr>fl_read = (\<lambda>s off n. if n \<le> length s then Some (take n s) else None),
      fl_erase = (\<lambda>s from to. (replicate 4096 0xFF, True)),
      fl_write = (\<lambda>s off bs. if length bs \<le> length s
                            then (map2 (AND) bs s @ drop (length bs) s, True) else (s, False))\<rparr>"

lemma map2_and_ones: "length bs \<le> m \<Longrightarrow> map2 (AND) bs (replicate m 0xFF) = (bs :: u8 list)"
proof (induction bs arbitrary: m)
  case (Cons b bs)
  then obtain k where m: "m = Suc k" by (cases m) auto
  have ones: "(0xFF :: u8) = - 1" by simp
  have "b AND 0xFF = b" unfolding ones by (rule and.right_neutral)
  with Cons m show ?case by simp
qed simp

interpretation sector: nor_flash sector_ops
proof unfold_locales
  fix s s1 s2 :: "u8 list" and off n :: nat and bs :: "u8 list"
  assume e: "fl_erase sector_ops s off (off + 4096) = (s1, True)"
  then have s1: "s1 = replicate 4096 0xFF" by (simp add: sector_ops_def)
  show "n \<le> 4096 \<Longrightarrow> fl_read sector_ops s1 off n = Some (replicate n 0xFF)"
    by (simp add: sector_ops_def s1 min_def)
  assume w: "fl_write sector_ops s1 off bs = (s2, True)" and len: "length bs \<le> 4096"
  have "s2 = bs @ replicate (4096 - length bs) 0xFF"
    using w len map2_and_ones [OF len] by (simp add: sector_ops_def s1)
  then show "fl_read sector_ops s2 off (length bs) = Some bs"
    using len by (simp add: sector_ops_def)
qed

definition utf8_push :: char_push where
  "utf8_push cap s c = (if length s + length (utf8_latin c) \<le> cap then Some (s @ utf8_latin c) else None)"

lemma heapless_push_utf8: "heapless_push utf8_push"
  by (simp add: heapless_push_def utf8_push_def)

section \<open>Properties\<close>

lemma flash_save_load:
  assumes "nor_flash fl" "heapless_push push" "creds_fit c"
    and "\<forall>b\<in>set (cr_ssid c @ cr_password c). 0 < unat b \<and> unat b < 0x80"
    and "nvs_save fl s c = (s2, True)"
  shows "nvs_load push fl s2 = Some \<lparr>cr_ssid = cr_ssid c, cr_password = cr_password c\<rparr>"
proof -
  have "0 \<notin> set (cr_ssid c)" "0 \<notin> set (cr_password c)"
    using assms(4) by (metis UnCI less_irrefl set_append unsigned_0)+
  moreover have "concat (map (utf8_latin \<circ> unat) (cr_ssid c)) = cr_ssid c"
    "concat (map (utf8_latin \<circ> unat) (cr_password c)) = cr_password c"
    using assms(4) by (simp_all add: concat_ascii)
  ultimately show ?thesis
    using nor_flash.load_saved [OF assms(1-3) _ _ assms(5)] assms(3) by (simp add: creds_fit_def)
qed

text \<open>
  C26. Credentials of printable ASCII that \<open>save\<close> stored are what \<open>load\<close> returns at the next
  boot, for every flash driver that keeps the documented sector contract and every string type
  with the documented \<open>push\<close>.
\<close>

theorem nvs_save_load_roundtrip:
  assumes "nor_flash fl" "heapless_push push" "creds_fit c"
    and "\<forall>b\<in>set (cr_ssid c @ cr_password c). 0 < unat b \<and> unat b < 0x80"
    and "nvs_save fl s c = (s2, True)"
  shows "nvs_load push fl s2 = Some \<lparr>cr_ssid = cr_ssid c, cr_password = cr_password c\<rparr>"
  using assms by (rule flash_save_load)

definition home_creds :: wifi_credentials where
  "home_creds = \<lparr>cr_ssid = [104, 111, 109, 101], cr_password = [115, 51, 99, 114, 51, 116]\<rparr>"

theorem nvs_save_load_roundtrip_witness:
  "nvs_load utf8_push sector_ops (fst (nvs_save sector_ops [] home_creds)) =
     Some \<lparr>cr_ssid = [104, 111, 109, 101], cr_password = [115, 51, 99, 114, 51, 116]\<rparr>"
proof -
  have "length (nvs_record home_creds) = 100"
    using nvs_record_length [of home_creds] by (simp add: creds_fit_def home_creds_def record_len_def)
  then have "nvs_save sector_ops [] home_creds = (fst (nvs_save sector_ops [] home_creds), True)"
    by (simp add: nvs_save_def sector_ops_def)
  then show ?thesis
    using nvs_save_load_roundtrip [OF sector.nor_flash_axioms heapless_push_utf8, of home_creds]
    by (simp add: creds_fit_def home_creds_def)
qed

text \<open>
  A power loss between the erase and the write costs the credentials, never the boot: the
  erased sector has no magic number, so \<open>load\<close> reports that nothing is stored.
\<close>

theorem nvs_interrupted_save:
  assumes "nor_flash fl"
    and "fl_erase fl s nvs_offset (nvs_offset + 4096) = (s1, True)"
    and "nvs_save fl s c = (s1, False)"
  shows "nvs_load push fl s1 = None"
  using nor_flash.load_after_failed_write [OF assms] .

definition torn_ops :: "u8 list flash_ops" where
  "torn_ops = sector_ops\<lparr>fl_write := (\<lambda>s off bs. (s, False))\<rparr>"

interpretation torn: nor_flash torn_ops
  by unfold_locales (use sector.read_erased in \<open>auto simp: torn_ops_def sector_ops_def\<close>)

theorem nvs_interrupted_save_witness:
  "nvs_load utf8_push torn_ops (fst (nvs_save torn_ops [] home_creds)) = None"
proof -
  have "fl_erase torn_ops [] nvs_offset (nvs_offset + 4096) = (replicate 4096 0xFF, True)"
    "nvs_save torn_ops [] home_creds = (replicate 4096 0xFF, False)"
    by (simp_all add: nvs_save_def torn_ops_def sector_ops_def)
  from nvs_interrupted_save [OF torn.nor_flash_axioms this]
  show ?thesis by (simp add: nvs_save_def torn_ops_def sector_ops_def)
qed

text \<open>
  \<open>load\<close> pushes each stored byte as a character, so a name with a byte above 0x7F comes back
  re-encoded: the two bytes of the letter e with an acute accent become four, and a network name
  of 31 such bytes is not loaded at all.
\<close>

theorem nvs_load_reencodes:
  "nvs_load utf8_push sector_ops (fst (nvs_save sector_ops [] \<lparr>cr_ssid = [0xC3, 0xA9], cr_password = []\<rparr>)) =
     Some \<lparr>cr_ssid = [0xC3, 0x83, 0xC2, 0xA9], cr_password = []\<rparr> \<and>
   nvs_load utf8_push sector_ops
     (fst (nvs_save sector_ops [] \<lparr>cr_ssid = replicate 31 0xC3, cr_password = []\<rparr>)) = None"
proof
  have ok: "nvs_save sector_ops [] c = (fst (nvs_save sector_ops [] c), True)" if "creds_fit c" for c
    using nvs_record_length [OF that] by (simp add: nvs_save_def sector_ops_def record_len_def)
  let ?c = "\<lparr>cr_ssid = [0xC3, 0xA9], cr_password = []\<rparr>"
  show "nvs_load utf8_push sector_ops (fst (nvs_save sector_ops [] ?c)) =
     Some \<lparr>cr_ssid = [0xC3, 0x83, 0xC2, 0xA9], cr_password = []\<rparr>"
    using sector.load_saved [OF heapless_push_utf8 _ _ _ ok, of ?c] by (simp add: creds_fit_def utf8_latin_def)
  have len: "length (concat (map (utf8_latin \<circ> unat) (replicate n (0xC3 :: u8)))) = n * 2" for n
    by (induction n) (simp_all add: utf8_latin_def)
  define d where "d = \<lparr>cr_ssid = replicate 31 0xC3, cr_password = []\<rparr>"
  have "creds_fit d" "0 \<notin> set (cr_ssid d)" "0 \<notin> set (cr_password d)"
    by (simp_all add: d_def creds_fit_def)
  moreover have "length (concat (map (utf8_latin \<circ> unat) (cr_ssid d))) = 62"
    using len [of 31] by (simp only: d_def wifi_credentials.select_convs)
  ultimately have "nvs_load utf8_push sector_ops (fst (nvs_save sector_ops [] d)) = None"
    using sector.load_saved [OF heapless_push_utf8 _ _ _ ok, of d] by simp
  then show "nvs_load utf8_push sector_ops
     (fst (nvs_save sector_ops [] \<lparr>cr_ssid = replicate 31 0xC3, cr_password = []\<rparr>)) = None"
    unfolding d_def .
qed

end
