(* ===== verification/Firmware.thy ===== *)
theory Firmware
  imports Drawing Wifi_Tcp Backlight Encoder Touch Haptic Nvs
begin

text \<open>
  The firmware's main function (\<open>firmware/src/main.rs\<close>, lines 415 to 1003): boot, the handlers
  of the messages of both transports, and one iteration of the main loop, over the components of
  the other theories.  A panic (a failed \<open>expect\<close> or \<open>unwrap\<close>, an overflow of the development
  profile, an index out of range) and a loop that does not end are \<open>None\<close>.
\<close>

section \<open>Environment and state\<close>

text \<open>The libraries and the hardware the loop is linked with.\<close>

record ('b, 's) fw_env =
  en_gfx :: gfx
  en_host :: "host_to_device wire_lib"
  en_dev :: "device_to_host wire_lib"
  en_push :: char_push
  en_flash :: "'s flash_ops"
  en_i2c :: "'b i2c_ops"
  en_wifi_steps :: "bool list"           \<comment> \<open>the outcomes of \<open>init_wifi\<close>'s steps\<close>
  en_can_send :: "nat \<Rightarrow> bool"
  en_accepts :: "nat \<Rightarrow> nat"

record ('b, 's) fw =
  fw_display :: display
  fw_usb :: usb_serial
  fw_wifi :: "wifi_tcp option"
  fw_i2c :: 'b
  fw_flash :: 's
  fw_wifi_periph :: bool                 \<comment> \<open>\<open>wifi_timg1\<close> and \<open>wifi_periph\<close> not taken yet\<close>
  fw_backlight :: backlight
  fw_touch :: cst816
  fw_ready_sent :: bool
  fw_wifi_ready_sent :: bool
  fw_wifi_was_active :: bool
  fw_last_count :: int
  fw_needs_flush :: bool
  fw_apps :: "app_info list"
  fw_selected_app :: "u32 option"
  fw_selected_idx :: nat
  fw_icon :: "u8 list"
  fw_volume :: u8
  fw_muted :: bool
  fw_loop_tick :: u32
  fw_standalone :: u8
  fw_last_host_tick :: u32
  fw_debug_visible :: bool
  fw_touch_held :: u32
  fw_batt_pct :: u8
  fw_last_batt_tick :: u32

text \<open>What one iteration observes.\<close>

record fw_input =
  in_count :: int                        \<comment> \<open>\<open>encoder.get()\<close>, an \<open>i32\<close>\<close>
  in_irq :: bool                         \<comment> \<open>the touch interrupt pin is low\<close>
  in_touch :: "touch_regs option"
  in_wifi :: wifi_obs
  in_adc :: "u16 option"
  in_heap_free :: nat

section \<open>The calls the loop makes\<close>

definition fw_draw :: "(fb \<Rightarrow> fb option) \<Rightarrow> ('b, 's) fw \<Rightarrow> ('b, 's) fw option" where
  "fw_draw f s = do {
     fb \<leftarrow> f (framebuffer (fw_display s));
     Some (s\<lparr>fw_display := (fw_display s)\<lparr>framebuffer := fb\<rparr>\<rparr>)
   }"

text \<open>\<open>flush().expect(..)\<close> and \<open>flush_rows(..).expect(..)\<close>\<close>

definition fw_flush :: "('b, 's) fw \<Rightarrow> ('b, 's) fw option" where
  "fw_flush s = (case flush (fw_display s) of Some (d, Inr _) \<Rightarrow> Some (s\<lparr>fw_display := d\<rparr>) | _ \<Rightarrow> None)"

definition fw_flush_rows :: "nat \<Rightarrow> nat \<Rightarrow> ('b, 's) fw \<Rightarrow> ('b, 's) fw option" where
  "fw_flush_rows y0 y1 s =
     (case flush_rows (fw_display s) y0 y1 of Some (d, Inr _) \<Rightarrow> Some (s\<lparr>fw_display := d\<rparr>) | _ \<Rightarrow> None)"

definition fw_flush_if_needed :: "('b, 's) fw \<Rightarrow> ('b, 's) fw option" where
  "fw_flush_if_needed s =
     (if fw_needs_flush s then do { s \<leftarrow> fw_flush s; Some (s\<lparr>fw_needs_flush := False\<rparr>) } else Some s)"

text \<open>\<open>let _ = usb.send(&m);\<close> and \<open>if let Some(w) = wifi.as_mut() { w.send(&m) }\<close>\<close>

definition tell_usb :: "('b, 's) fw_env \<Rightarrow> device_to_host \<Rightarrow> ('b, 's) fw \<Rightarrow> ('b, 's) fw option" where
  "tell_usb e m s = do {
     (u, _) \<leftarrow> usb_send (en_dev e) (fw_usb s) m;
     Some (s\<lparr>fw_usb := u\<rparr>)
   }"

definition tell_wifi :: "('b, 's) fw_env \<Rightarrow> device_to_host \<Rightarrow> ('b, 's) fw \<Rightarrow> ('b, 's) fw option" where
  "tell_wifi e m s =
     (case fw_wifi s of
        None \<Rightarrow> Some s
      | Some w \<Rightarrow> do { w \<leftarrow> wifi_send (en_dev e) w m; Some (s\<lparr>fw_wifi := Some w\<rparr>) })"

text \<open>An event goes out on USB, and on WiFi when a client is connected.\<close>

definition tell_both :: "('b, 's) fw_env \<Rightarrow> device_to_host \<Rightarrow> ('b, 's) fw \<Rightarrow> ('b, 's) fw option" where
  "tell_both e m s = do {
     s \<leftarrow> tell_usb e m s;
     case fw_wifi s of
       None \<Rightarrow> Some s
     | Some w \<Rightarrow> if wifi_is_active w then tell_wifi e m s else Some s
   }"

definition fw_haptic :: "('b, 's) fw_env \<Rightarrow> effect \<Rightarrow> ('b, 's) fw \<Rightarrow> ('b, 's) fw" where
  "fw_haptic e ef s = s\<lparr>fw_i2c := haptic_play (en_i2c e) ef (fw_i2c s)\<rparr>"

definition fw_notify :: "('b, 's) fw \<Rightarrow> ('b, 's) fw" where
  "fw_notify s = s\<lparr>fw_backlight := notify_activity (fw_backlight s) (fw_loop_tick s)\<rparr>"

text \<open>\<open>redraw_app\<close> followed by the mute label, as every caller does.\<close>

definition redraw_app :: "gfx \<Rightarrow> app_info list \<Rightarrow> u32 option \<Rightarrow> u8 list \<Rightarrow> u8 \<Rightarrow> fb \<Rightarrow> fb option" where
  "redraw_app g apps selected icon volume fb = do {
     fb \<leftarrow> draw_app_icon g icon fb;
     let name = (case selected of
                   None \<Rightarrow> None | Some i \<Rightarrow> map_option ai_name (find (\<lambda>a. ai_id a = i) apps));
     fb \<leftarrow> draw_app_name g (case name of Some n \<Rightarrow> n | None \<Rightarrow> ascii ''(no app)'') fb;
     draw_volume g volume fb
   }"

definition fw_redraw :: "('b, 's) fw_env \<Rightarrow> u8 list \<Rightarrow> ('b, 's) fw \<Rightarrow> ('b, 's) fw option" where
  "fw_redraw e icon s = do {
     s \<leftarrow> fw_draw (redraw_app (en_gfx e) (fw_apps s) (fw_selected_app s) icon (fw_volume s)) s;
     fw_draw (draw_mute_indicator (en_gfx e) (fw_muted s)) s
   }"

definition fw_draw_idle :: "('b, 's) fw_env \<Rightarrow> ('b, 's) fw \<Rightarrow> ('b, 's) fw option" where
  "fw_draw_idle e s = do {
     s \<leftarrow> fw_draw (draw_not_connected (en_gfx e)) s;
     fw_draw (draw_volume (en_gfx e) (fw_standalone s)) s
   }"

section \<open>The arms both message handlers share\<close>

definition load_selected :: "('b, 's) fw \<Rightarrow> ('b, 's) fw" where
  "load_selected s =
     (case fw_selected_app s of
        None \<Rightarrow> s
      | Some i \<Rightarrow> (case find (\<lambda>a. ai_id a = i) (fw_apps s) of
            None \<Rightarrow> s
          | Some app \<Rightarrow> s\<lparr>fw_volume := ai_volume app, fw_muted := ai_muted app\<rparr>))"

definition on_set_backlight :: "u8 \<Rightarrow> u16 \<Rightarrow> u16 \<Rightarrow> ('b, 's) fw \<Rightarrow> ('b, 's) fw" where
  "on_set_backlight pct dim_after off_after s =
     s\<lparr>fw_backlight := set_timeouts (set_active_pct (fw_backlight s) pct) dim_after off_after\<rparr>"

definition on_set_app_list :: "('b, 's) fw_env \<Rightarrow> app_info list \<Rightarrow> ('b, 's) fw \<Rightarrow> ('b, 's) fw option" where
  "on_set_app_list e apps s = do {
     let s = (fw_notify s)\<lparr>fw_apps := apps\<rparr>;
     let s = (if fw_selected_app s = None
              then s\<lparr>fw_selected_app := (case apps of [] \<Rightarrow> None | a # _ \<Rightarrow> Some (ai_id a)), fw_selected_idx := 0\<rparr>
              else s\<lparr>fw_selected_idx := (case position (\<lambda>a. Some (ai_id a) = fw_selected_app s) apps of
                       Some i \<Rightarrow> i | None \<Rightarrow> 0)\<rparr>);
     let s = load_selected s;
     s \<leftarrow> fw_redraw e (fw_icon s) s;
     Some (s\<lparr>fw_needs_flush := True\<rparr>)
   }"

definition on_set_app_icon :: "('b, 's) fw_env \<Rightarrow> u32 \<Rightarrow> u8 list \<Rightarrow> ('b, 's) fw \<Rightarrow> ('b, 's) fw option" where
  "on_set_app_icon e app_id pixels s =
     (if fw_selected_app s = Some app_id then do {
        s \<leftarrow> fw_draw (draw_app_icon (en_gfx e) pixels) (s\<lparr>fw_icon := pixels\<rparr>);
        Some (s\<lparr>fw_needs_flush := True\<rparr>)
      } else Some s)"

definition on_set_selected_app :: "('b, 's) fw_env \<Rightarrow> u32 \<Rightarrow> ('b, 's) fw \<Rightarrow> ('b, 's) fw option" where
  "on_set_selected_app e i s = do {
     let s = (fw_notify s)\<lparr>fw_selected_app := Some i,
                fw_selected_idx := (case position (\<lambda>a. ai_id a = i) (fw_apps s) of Some k \<Rightarrow> k | None \<Rightarrow> 0),
                fw_icon := []\<rparr>;
     let s = load_selected s;
     s \<leftarrow> fw_redraw e (fw_icon s) s;
     Some (s\<lparr>fw_needs_flush := True\<rparr>)
   }"

definition on_set_volume :: "('b, 's) fw_env \<Rightarrow> u32 \<Rightarrow> u8 \<Rightarrow> ('b, 's) fw \<Rightarrow> ('b, 's) fw option" where
  "on_set_volume e app_id level s =
     (let s = fw_notify s;
          s = s\<lparr>fw_apps := update_first (\<lambda>a. ai_id a = app_id) (\<lambda>a. a\<lparr>ai_volume := level\<rparr>) (fw_apps s)\<rparr>
      in if fw_selected_app s = Some app_id then do {
           let prev_vol = fw_volume s;
           (fb, (dy0, dy1)) \<leftarrow> draw_volume_delta (en_gfx e) prev_vol level (framebuffer (fw_display s));
           s \<leftarrow> fw_flush_rows dy0 dy1
             (s\<lparr>fw_volume := level, fw_display := (fw_display s)\<lparr>framebuffer := fb\<rparr>\<rparr>);
           Some (s\<lparr>fw_needs_flush := False\<rparr>)
         } else Some s)"

definition on_set_mute :: "('b, 's) fw_env \<Rightarrow> u32 \<Rightarrow> bool \<Rightarrow> ('b, 's) fw \<Rightarrow> ('b, 's) fw option" where
  "on_set_mute e app_id muted s =
     (let s = fw_notify s;
          s = s\<lparr>fw_apps := update_first (\<lambda>a. ai_id a = app_id) (\<lambda>a. a\<lparr>ai_muted := muted\<rparr>) (fw_apps s)\<rparr>
      in if fw_selected_app s = Some app_id then do {
           s \<leftarrow> fw_draw (draw_mute_indicator (en_gfx e) muted) (fw_haptic e SharpClick (s\<lparr>fw_muted := muted\<rparr>));
           Some (s\<lparr>fw_needs_flush := True\<rparr>)
         } else Some s)"

definition fw_init_wifi :: "('b, 's) fw_env \<Rightarrow> ('b, 's) fw \<Rightarrow> ('b, 's) fw" where
  "fw_init_wifi e s =
     s\<lparr>fw_wifi_periph := False, fw_wifi := init_wifi (en_wifi_steps e) (en_can_send e) (en_accepts e)\<rparr>"

definition connected_ip_of :: "('b, 's) fw \<Rightarrow> str option" where
  "connected_ip_of s = (case fw_wifi s of None \<Rightarrow> None | Some w \<Rightarrow> wt_connected_ip w)"

definition wifi_status :: "('b, 's) fw \<Rightarrow> device_to_host" where
  "wifi_status s = WifiStatus (connected_ip_of s \<noteq> None) (case connected_ip_of s of Some ip \<Rightarrow> ip | None \<Rightarrow> [])"

section \<open>A message over USB\<close>

text \<open>The match: the new state and whether an \<open>Ack\<close> is due.\<close>

fun usb_match :: "('b, 's) fw_env \<Rightarrow> host_to_device \<Rightarrow> ('b, 's) fw \<Rightarrow> (('b, 's) fw \<times> bool) option" where
  "usb_match e Ping s = do { s \<leftarrow> tell_usb e Pong s; Some (s, False) }"
| "usb_match e (EchoReq bs) s = do { s \<leftarrow> tell_usb e (Echo bs) s; Some (s, False) }"
| "usb_match e (SetBacklight p d ofs) s = Some (on_set_backlight p d ofs s, True)"
| "usb_match e (SetAppList apps) s = do { s \<leftarrow> on_set_app_list e apps s; Some (s, True) }"
| "usb_match e (SetAppIcon i px) s = do { s \<leftarrow> on_set_app_icon e i px s; Some (s, True) }"
| "usb_match e (SetSelectedApp i) s = do { s \<leftarrow> on_set_selected_app e i s; Some (s, True) }"
| "usb_match e (SetVolume i v) s = do { s \<leftarrow> on_set_volume e i v s; Some (s, True) }"
| "usb_match e (SetMute i m) s = do { s \<leftarrow> on_set_mute e i m s; Some (s, True) }"
| "usb_match e (SetWifiConfig sid pw) s =
     (case nvs_save (en_flash e) (fw_flash s) \<lparr>cr_ssid = sid, cr_password = pw\<rparr> of
        (fl, False) \<Rightarrow> Some (s\<lparr>fw_flash := fl\<rparr>, True)
      | (fl, True) \<Rightarrow>
          if fw_wifi_periph s then Some (fw_init_wifi e (s\<lparr>fw_flash := fl\<rparr>), True)
          else do { s \<leftarrow> tell_usb e (WifiStatus False (ascii ''REBOOT'')) (s\<lparr>fw_flash := fl\<rparr>); Some (s, False) })"
| "usb_match e GetWifiStatus s = do { s \<leftarrow> tell_usb e (wifi_status s) s; Some (s, False) }"

definition handle_usb :: "('b, 's) fw_env \<Rightarrow> host_to_device \<Rightarrow> ('b, 's) fw \<Rightarrow> ('b, 's) fw option" where
  "handle_usb e msg s = do {
     let s = s\<lparr>fw_last_host_tick := fw_loop_tick s\<rparr>;
     s \<leftarrow> (if \<not> fw_ready_sent s then do {
             s \<leftarrow> tell_usb e (Ready protocol_version) s;
             Some (s\<lparr>fw_ready_sent := True\<rparr>)
           } else Some s);
     (s, ack) \<leftarrow> usb_match e msg s;
     s \<leftarrow> fw_flush_if_needed s;
     if ack then tell_usb e Ack s else Some s
   }"

text \<open>\<open>while let Some(msg) = usb.poll()\<close>\<close>

partial_function (option) usb_loop :: "('b, 's) fw_env \<Rightarrow> ('b, 's) fw \<Rightarrow> ('b, 's) fw option" where
  "usb_loop e s =
     (case usb_poll (en_host e) (fw_usb s) of
        (u, None) \<Rightarrow> Some (s\<lparr>fw_usb := u\<rparr>)
      | (u, Some msg) \<Rightarrow>
          (case handle_usb e msg (s\<lparr>fw_usb := u\<rparr>) of None \<Rightarrow> None | Some s \<Rightarrow> usb_loop e s))"

section \<open>A message over WiFi\<close>

text \<open>The match: the state, whether an \<open>Ack\<close> is due, and credentials to store after it.\<close>

fun wifi_match :: "('b, 's) fw_env \<Rightarrow> host_to_device \<Rightarrow> ('b, 's) fw \<Rightarrow>
    (('b, 's) fw \<times> bool \<times> wifi_credentials option) option" where
  "wifi_match e Ping s = do { s \<leftarrow> tell_wifi e Pong s; Some (s, False, None) }"
| "wifi_match e (EchoReq bs) s = do { s \<leftarrow> tell_wifi e (Echo bs) s; Some (s, False, None) }"
| "wifi_match e (SetBacklight p d ofs) s = Some (on_set_backlight p d ofs s, True, None)"
| "wifi_match e (SetAppList apps) s = do { s \<leftarrow> on_set_app_list e apps s; Some (s, True, None) }"
| "wifi_match e (SetAppIcon i px) s = do { s \<leftarrow> on_set_app_icon e i px s; Some (s, True, None) }"
| "wifi_match e (SetSelectedApp i) s = do { s \<leftarrow> on_set_selected_app e i s; Some (s, True, None) }"
| "wifi_match e (SetVolume i v) s = do { s \<leftarrow> on_set_volume e i v s; Some (s, True, None) }"
| "wifi_match e (SetMute i m) s = do { s \<leftarrow> on_set_mute e i m s; Some (s, True, None) }"
| "wifi_match e (SetWifiConfig sid pw) s = Some (s, True, Some \<lparr>cr_ssid = sid, cr_password = pw\<rparr>)"
| "wifi_match e GetWifiStatus s = do { s \<leftarrow> tell_wifi e (wifi_status s) s; Some (s, False, None) }"

definition wifi_store :: "('b, 's) fw_env \<Rightarrow> wifi_credentials \<Rightarrow> ('b, 's) fw \<Rightarrow> ('b, 's) fw option" where
  "wifi_store e creds s =
     (case nvs_save (en_flash e) (fw_flash s) creds of
        (fl, False) \<Rightarrow> Some (s\<lparr>fw_flash := fl\<rparr>)
      | (fl, True) \<Rightarrow>
          if fw_wifi_periph s then Some (fw_init_wifi e (s\<lparr>fw_flash := fl\<rparr>))
          else tell_wifi e (WifiStatus False (ascii ''REBOOT'')) (s\<lparr>fw_flash := fl\<rparr>))"

definition handle_wifi :: "('b, 's) fw_env \<Rightarrow> host_to_device \<Rightarrow> ('b, 's) fw \<Rightarrow> ('b, 's) fw option" where
  "handle_wifi e msg s = do {
     let s = s\<lparr>fw_last_host_tick := fw_loop_tick s\<rparr>;
     s \<leftarrow> (if \<not> fw_wifi_ready_sent s then do {
             s \<leftarrow> tell_wifi e (Ready protocol_version) s;
             Some (s\<lparr>fw_wifi_ready_sent := True\<rparr>)
           } else Some s);
     (s, ack, pending) \<leftarrow> wifi_match e msg s;
     s \<leftarrow> fw_flush_if_needed s;
     s \<leftarrow> (if ack then tell_wifi e Ack s else Some s);
     case pending of None \<Rightarrow> Some s | Some creds \<Rightarrow> wifi_store e creds s
   }"

section \<open>The steps of one iteration\<close>

definition step_encoder :: "('b, 's) fw_env \<Rightarrow> int \<Rightarrow> ('b, 's) fw \<Rightarrow> ('b, 's) fw option" where
  "step_encoder e count s =
     (if count = fw_last_count s then Some s
      else do {
        raw_delta \<leftarrow> checked_range 32 (count - fw_last_count s);
        let delta = clamp (- 32768) 32767 raw_delta;
        let s = fw_notify s;
        s \<leftarrow> (case fw_selected_app s of
               Some app_id \<Rightarrow> tell_both e (VolumeDelta app_id (of_int delta)) s
             | None \<Rightarrow> do {
                 let prev_vol = fw_standalone s;
                 sum \<leftarrow> checked_range 16 (uint prev_vol + delta);
                 let new_vol = of_int (clamp 0 100 sum);
                 (fb, (dy0, dy1)) \<leftarrow> draw_volume_delta (en_gfx e) prev_vol new_vol (framebuffer (fw_display s));
                 fw_flush_rows dy0 dy1
                   (s\<lparr>fw_standalone := new_vol, fw_display := (fw_display s)\<lparr>framebuffer := fb\<rparr>\<rparr>)
               });
        Some (s\<lparr>fw_last_count := count\<rparr>)
      })"

definition step_touch_read :: "fw_input \<Rightarrow> ('b, 's) fw \<Rightarrow> ('b, 's) fw \<times> touch_event option" where
  "step_touch_read inp s =
     (if in_irq inp \<or> finger_down (fw_touch s)
      then case touch_read (in_touch inp) (fw_touch s) of (t, ev) \<Rightarrow> (s\<lparr>fw_touch := t\<rparr>, ev)
      else (s, None))"

definition step_hold :: "('b, 's) fw_env \<Rightarrow> ('b, 's) fw \<Rightarrow> ('b, 's) fw option" where
  "step_hold e s =
     (if finger_down (fw_touch s) then
        let s = fw_notify s; s = s\<lparr>fw_touch_held := sat_add (fw_touch_held s) 1\<rparr>
        in if fw_touch_held s = 1334 then do {
             let s = s\<lparr>fw_debug_visible := \<not> fw_debug_visible s\<rparr>;
             s \<leftarrow> (if fw_apps s = [] then fw_draw_idle e s
                   else do {
                     s \<leftarrow> fw_draw (\<lambda>fb. Some (clear_fb (gx_rgb565 (en_gfx e) Black) fb)) s;
                     fw_redraw e (fw_icon s) s
                   });
             s \<leftarrow> fw_draw (draw_battery (en_gfx e) (fw_batt_pct s)) s;
             Some (s\<lparr>fw_needs_flush := True\<rparr>)
           } else Some s
      else Some (s\<lparr>fw_touch_held := 0\<rparr>))"

text \<open>The two swipes differ in the new index only; \<open>apps[selected_idx]\<close> panics out of range.\<close>

definition swipe_to :: "('b, 's) fw_env \<Rightarrow> nat \<Rightarrow> ('b, 's) fw \<Rightarrow> ('b, 's) fw option" where
  "swipe_to e idx s =
     (if \<not> idx < length (fw_apps s) then None
      else do {
        let app = fw_apps s ! idx;
        let s = s\<lparr>fw_selected_idx := idx, fw_selected_app := Some (ai_id app), fw_volume := ai_volume app,
                  fw_muted := ai_muted app, fw_icon := []\<rparr>;
        s \<leftarrow> fw_redraw e [] (fw_haptic e SharpClick s);
        s \<leftarrow> tell_both e (AppSelected (ai_id app)) s;
        Some (s\<lparr>fw_needs_flush := True\<rparr>)
      })"

definition swipe_left :: "('b, 's) fw_env \<Rightarrow> ('b, 's) fw \<Rightarrow> ('b, 's) fw option" where
  "swipe_left e s =
     (if fw_apps s = [] then Some s
      else swipe_to e ((fw_selected_idx s + length (fw_apps s) - 1) mod length (fw_apps s)) s)"

definition swipe_right :: "('b, 's) fw_env \<Rightarrow> ('b, 's) fw \<Rightarrow> ('b, 's) fw option" where
  "swipe_right e s =
     (if fw_apps s = [] then Some s
      else swipe_to e ((fw_selected_idx s + 1) mod length (fw_apps s)) s)"

definition fire_gesture :: "('b, 's) fw_env \<Rightarrow> touch_gesture \<Rightarrow> ('b, 's) fw \<Rightarrow> ('b, 's) fw option" where
  "fire_gesture e g s = do {
     s \<leftarrow> (case g of
             GSingleTap \<Rightarrow> (case fw_selected_app s of
                 None \<Rightarrow> Some s
               | Some i \<Rightarrow> tell_both e (MuteToggle i) (fw_haptic e SharpClick s))
           | GLongPress \<Rightarrow> Some (fw_haptic e StrongClick s)
           | GSwipeLeft \<Rightarrow> swipe_left e s
           | GSwipeRight \<Rightarrow> swipe_right e s
           | _ \<Rightarrow> Some s);
     case to_wire_gesture g of None \<Rightarrow> Some s | Some k \<Rightarrow> tell_both e (Gesture k) s
   }"

text \<open>The touch part of an iteration; the flag says that \<open>continue\<close> ended it.\<close>

definition step_touch :: "('b, 's) fw_env \<Rightarrow> fw_input \<Rightarrow> ('b, 's) fw \<Rightarrow> (('b, 's) fw \<times> bool) option" where
  "step_touch e inp s =
     (case step_touch_read inp s of (s, ev) \<Rightarrow> do {
        s \<leftarrow> step_hold e s;
        case ev of
          None \<Rightarrow> Some (s, False)
        | Some event \<Rightarrow>
            (case wake_from_off (fw_backlight s) (fw_loop_tick s) of (b, was_off) \<Rightarrow>
               let s = s\<lparr>fw_backlight := b\<rparr>
               in if was_off then Some (s, True)
                  else do { s \<leftarrow> fire_gesture e (te_gesture event) s; Some (s, False) })
      })"

text \<open>The line is a \<open>heapless::String<24>\<close>: an address that does not fit is left out.\<close>

definition wifi_line :: "str \<Rightarrow> str" where
  "wifi_line ip = (if length (ascii ''WiFi: '' @ ip) \<le> 24 then ascii ''WiFi: '' @ ip else ascii ''WiFi: '')"

definition step_wifi_event :: "('b, 's) fw_env \<Rightarrow> ('b, 's) fw \<Rightarrow> ('b, 's) fw option" where
  "step_wifi_event e s =
     (case fw_wifi s of
        None \<Rightarrow> Some s
      | Some w \<Rightarrow>
          (case wifi_take_event w of
             (w, None) \<Rightarrow> Some (s\<lparr>fw_wifi := Some w\<rparr>)
           | (w, Some event) \<Rightarrow> do {
               s \<leftarrow> tell_usb e event (s\<lparr>fw_wifi := Some w\<rparr>);
               if fw_apps s = [] then
                 (case event of
                    WifiStatus up ip \<Rightarrow> do {
                      s \<leftarrow> fw_draw (draw_wifi_line (en_gfx e)
                        (if up then wifi_line ip else ascii ''WiFi: disconnected'')) s;
                      Some (s\<lparr>fw_needs_flush := True\<rparr>)
                    }
                  | _ \<Rightarrow> Some s)
               else Some s
             }))"

definition step_wifi :: "('b, 's) fw_env \<Rightarrow> wifi_obs \<Rightarrow> ('b, 's) fw \<Rightarrow> ('b, 's) fw option" where
  "step_wifi e ob s = do {
     let timestamp_ms = ucast (fw_loop_tick s) * 3;
     let now_active = (case fw_wifi s of None \<Rightarrow> False | Some w \<Rightarrow> wifi_is_active w);
     let s = (if \<not> now_active \<and> fw_wifi_was_active s then s\<lparr>fw_wifi_ready_sent := False\<rparr> else s);
     let s = s\<lparr>fw_wifi_was_active := now_active\<rparr>;
     s \<leftarrow> step_wifi_event e s;
     case fw_wifi s of
       None \<Rightarrow> Some s
     | Some w \<Rightarrow>
         (case wifi_poll (en_host e) ob timestamp_ms w of
            (w, None) \<Rightarrow> Some (s\<lparr>fw_wifi := Some w\<rparr>)
          | (w, Some msg) \<Rightarrow> handle_wifi e msg (s\<lparr>fw_wifi := Some w\<rparr>))
   }"

definition step_disconnect :: "('b, 's) fw_env \<Rightarrow> ('b, 's) fw \<Rightarrow> ('b, 's) fw option" where
  "step_disconnect e s =
     (if fw_apps s \<noteq> [] \<and> fw_loop_tick s - fw_last_host_tick s > 10000 then do {
        let s = s\<lparr>fw_apps := [], fw_selected_app := None, fw_icon := []\<rparr>;
        s \<leftarrow> fw_draw_idle e s;
        s \<leftarrow> fw_draw (draw_battery (en_gfx e) (fw_batt_pct s)) s;
        Some (s\<lparr>fw_needs_flush := True\<rparr>)
      } else Some s)"

definition step_flush :: "('b, 's) fw_env \<Rightarrow> nat \<Rightarrow> ('b, 's) fw \<Rightarrow> ('b, 's) fw option" where
  "step_flush e heap_free s =
     (let s = (if fw_debug_visible s \<and> fw_loop_tick s mod 200 = 0 then s\<lparr>fw_needs_flush := True\<rparr> else s)
      in if fw_needs_flush s then do {
           let st = us_stats (fw_usb s);
           s \<leftarrow> (if fw_debug_visible s
                 then fw_draw (draw_rx_stats (en_gfx e) (st_bytes st) (st_ok st) (st_overflow st) (st_tx_drop st)
                        heap_free (fw_loop_tick s)) s
                 else Some s);
           s \<leftarrow> fw_flush s;
           Some (s\<lparr>fw_needs_flush := False\<rparr>)
         } else Some s)"

definition step_battery :: "('b, 's) fw_env \<Rightarrow> u16 option \<Rightarrow> ('b, 's) fw \<Rightarrow> ('b, 's) fw option" where
  "step_battery e adc s =
     (if fw_loop_tick s - fw_last_batt_tick s \<ge> 10000 then
        let s = s\<lparr>fw_last_batt_tick := fw_loop_tick s\<rparr>;
            new_pct = raw_to_batt_pct (case adc of Some raw \<Rightarrow> raw | None \<Rightarrow> 2000)
        in if new_pct \<noteq> fw_batt_pct s then do {
             s \<leftarrow> fw_draw (draw_battery (en_gfx e) new_pct) (s\<lparr>fw_batt_pct := new_pct\<rparr>);
             fw_flush_rows 305 330 s
           } else Some s
      else Some s)"

definition step_backlight :: "('b, 's) fw \<Rightarrow> ('b, 's) fw" where
  "step_backlight s = s\<lparr>fw_backlight := bl_tick (fw_backlight s) (fw_loop_tick s)\<rparr>"

definition fw_iteration :: "('b, 's) fw_env \<Rightarrow> fw_input \<Rightarrow> ('b, 's) fw \<Rightarrow> ('b, 's) fw option" where
  "fw_iteration e inp s = do {
     let s = s\<lparr>fw_loop_tick := fw_loop_tick s + 1\<rparr>;
     s \<leftarrow> step_encoder e (in_count inp) s;
     (s, continue) \<leftarrow> step_touch e inp s;
     if continue then Some s
     else do {
       s \<leftarrow> step_wifi e (in_wifi inp) s;
       s \<leftarrow> usb_loop e s;
       s \<leftarrow> step_disconnect e s;
       s \<leftarrow> step_flush e (in_heap_free inp) s;
       s \<leftarrow> step_battery e (in_adc inp) s;
       Some (step_backlight s)
     }
   }"

section \<open>Boot\<close>

text \<open>
  \<open>main\<close> up to the loop, on the peripherals as they are after reset: display bus, USB FIFO, I2C
  bus, flash, and the first battery reading.
\<close>

definition fw_boot ::
  "('b, 's) fw_env \<Rightarrow> spi_bus \<Rightarrow> jtag \<Rightarrow> 'b \<Rightarrow> 's \<Rightarrow> u16 option \<Rightarrow> ('b, 's) fw option" where
  "fw_boot e spi j i2c fl adc = do {
     bl \<leftarrow> backlight_new;
     d \<leftarrow> (case display_init (display_new spi) of (d, Inr _) \<Rightarrow> Some d | (d, Inl _) \<Rightarrow> None);
     let batt = raw_to_batt_pct (case adc of Some raw \<Rightarrow> raw | None \<Rightarrow> 2000);
     let s = \<lparr>fw_display = d, fw_usb = usb_new j, fw_wifi = None, fw_i2c = i2c, fw_flash = fl,
              fw_wifi_periph = True, fw_backlight = bl, fw_touch = cst816_new, fw_ready_sent = False,
              fw_wifi_ready_sent = False, fw_wifi_was_active = False, fw_last_count = 0,
              fw_needs_flush = False, fw_apps = [], fw_selected_app = None, fw_selected_idx = 0,
              fw_icon = [], fw_volume = 0, fw_muted = False, fw_loop_tick = 0, fw_standalone = 50,
              fw_last_host_tick = 0, fw_debug_visible = False, fw_touch_held = 0, fw_batt_pct = batt,
              fw_last_batt_tick = 0\<rparr>;
     s \<leftarrow> fw_draw_idle e s;
     s \<leftarrow> fw_draw (draw_battery (en_gfx e) batt) s;
     s \<leftarrow> fw_flush s;
     let s = s\<lparr>fw_i2c := haptic_init (en_i2c e) (fw_i2c s)\<rparr>;
     case nvs_load (en_push e) (en_flash e) (fw_flash s) of
       None \<Rightarrow> Some s
     | Some creds \<Rightarrow>
         let s = fw_init_wifi e s
         in if fw_wifi s \<noteq> None then do {
              s \<leftarrow> fw_draw (draw_wifi_line (en_gfx e) (ascii ''WiFi: connecting...'')) s;
              fw_flush s
            } else Some s
   }"

end
