(* ===== verification/Firmware_Safety.thy ===== *)
theory Firmware_Safety
  imports Firmware
begin

text \<open>
  Safety of the main loop: an invariant of the firmware's state (display, transports, the
  selection of the app carousel, backlight), and that under the documented behaviour of the
  libraries boot establishes it and every iteration returns and keeps it.
\<close>

section \<open>The invariant\<close>

text \<open>
  The selection: the carousel index is in range, and when the ids of the list are distinct and
  the selected app is in it, the index points at it and the volume and mute state shown are its
  own.
\<close>

definition sel_ok :: "app_info list \<Rightarrow> u32 option \<Rightarrow> nat \<Rightarrow> u8 \<Rightarrow> bool \<Rightarrow> bool" where
  "sel_ok apps sel idx vol muted \<longleftrightarrow> (apps \<noteq> [] \<longrightarrow> idx < length apps) \<and>
     (distinct (map ai_id apps) \<longrightarrow> (\<forall>i app. sel = Some i \<longrightarrow> find (\<lambda>a. ai_id a = i) apps = Some app \<longrightarrow>
        idx < length apps \<and> apps ! idx = app \<and> vol = ai_volume app \<and> muted = ai_muted app))"

definition wifi_ok :: "wifi_tcp option \<Rightarrow> bool" where
  "wifi_ok wo \<longleftrightarrow> (\<forall>w. wo = Some w \<longrightarrow> wifi_inv w \<and> (\<forall>ip. wt_connected_ip w = Some ip \<longrightarrow> printable ip))"

definition display_ok :: "display \<Rightarrow> bool" where
  "display_ok d \<longleftrightarrow> bus_ok d \<and> length (framebuffer d) = fb_size"

definition fw_ok :: "('b, 's) fw \<Rightarrow> bool" where
  "fw_ok s \<longleftrightarrow> display_ok (fw_display s) \<and> wifi_ok (fw_wifi s) \<and>
     sel_ok (fw_apps s) (fw_selected_app s) (fw_selected_idx s) (fw_volume s) (fw_muted s) \<and>
     fw_standalone s \<le> 100 \<and> bl_wf (fw_backlight s) \<and> bl_lit (fw_backlight s)"

definition env_ok :: "('b, 's) fw_env \<Rightarrow> bool" where
  "env_ok e \<longleftrightarrow> gfx_contract (en_gfx e) \<and> wire_format (en_host e) \<and> wire_format (en_dev e)"

lemma env_okD: "env_ok e \<Longrightarrow> gfx_contract (en_gfx e)" "env_ok e \<Longrightarrow> wire_format (en_host e)"
  "env_ok e \<Longrightarrow> wire_format (en_dev e)"
  by (simp_all add: env_ok_def)

text \<open>The receive side of the USB transport, which no handler touches.\<close>

definition rx_of :: "('b, 's) fw \<Rightarrow> u8 option list \<times> decoder" where
  "rx_of s = (rx_script (us_jtag (fw_usb s)), us_decoder (fw_usb s))"

text \<open>A step that returns, keeps the invariant and leaves the receive side alone.\<close>

definition fine :: "('b, 's) fw \<Rightarrow> ('b, 's) fw option \<Rightarrow> bool" where
  "fine s r \<longleftrightarrow> (\<exists>s'. r = Some s' \<and> fw_ok s' \<and> rx_of s' = rx_of s)"

lemma fineI: "r = Some s' \<Longrightarrow> fw_ok s' \<Longrightarrow> rx_of s' = rx_of s \<Longrightarrow> fine s r"
  by (simp add: fine_def)

lemma fineE:
  assumes "fine s r"
  obtains s' where "r = Some s'" "fw_ok s'" "rx_of s' = rx_of s"
  using assms by (auto simp: fine_def)

lemma fine_Some: "fw_ok s' \<Longrightarrow> rx_of s' = rx_of s \<Longrightarrow> fine s (Some s')"
  by (simp add: fine_def)

lemma fine_bind:
  "fine s r \<Longrightarrow> (\<And>s'. fw_ok s' \<Longrightarrow> rx_of s' = rx_of s \<Longrightarrow> fine s (h s')) \<Longrightarrow> fine s (Option.bind r h)"
  by (auto simp: fine_def)

lemma fine_from: "fine s r \<Longrightarrow> rx_of s = rx_of t \<Longrightarrow> fine t r"
  by (simp add: fine_def)

section \<open>The calls\<close>

lemma fine_draw:
  assumes "fw_ok s" "draws f" "rx_of s = rx_of t"
  shows "fine t (fw_draw f s)"
proof -
  obtain fb where "f (framebuffer (fw_display s)) = Some fb" "length fb = fb_size"
    using assms(1,2) by (auto simp: fw_ok_def display_ok_def elim: drawsE)
  then show ?thesis
    using assms by (auto simp: fine_def fw_draw_def fw_ok_def display_ok_def bus_ok_def rx_of_def)
qed

lemma fine_flush:
  assumes "fw_ok s" "rx_of s = rx_of t"
  shows "fine t (fw_flush s)" "fine t (fw_flush_rows y0 y1 s)"
  using assms
  by (auto simp: fine_def fw_flush_def fw_flush_rows_def flush_ok flush_rows_ok fw_ok_def display_ok_def rx_of_def)

lemma fine_flush_if_needed: "fw_ok s \<Longrightarrow> rx_of s = rx_of t \<Longrightarrow> fine t (fw_flush_if_needed s)"
  unfolding fw_flush_if_needed_def
  by (auto intro!: fine_bind fine_flush fine_Some simp: fw_ok_def rx_of_def)

lemma usb_send_rx:
  assumes "wire_format V"
  shows "\<exists>u' r. usb_send V u m = Some (u', r) \<and> rx_script (us_jtag u') = rx_script (us_jtag u) \<and> us_decoder u' = us_decoder u"
proof (cases "encode V m")
  case None
  then show ?thesis using cobs_contract.encode_never_panics [OF wire_format.axioms(1) [OF assms]] by blast
next
  case (Some r)
  show ?thesis
  proof (cases r)
    case (Inl e)
    with Some show ?thesis by (simp add: usb_send_def)
  next
    case (Inr bytes)
    obtain j ok where w: "write_frame (us_jtag u) bytes = (j, ok)" by fastforce
    then have "rx_script j = rx_script (us_jtag u)" using write_frame_spec [OF w] by blast
    with Some Inr w show ?thesis by (cases ok) (simp_all add: usb_send_def Let_def flush_tx_nb_def)
  qed
qed

lemma wifi_send_ok:
  assumes "wire_format V" "wifi_ok (Some w)"
  shows "\<exists>w'. wifi_send V w m = Some w' \<and> wifi_ok (Some w')"
proof -
  have "encode V m \<noteq> None" by (rule cobs_contract.encode_never_panics [OF wire_format.axioms(1) [OF assms(1)]])
  then have "wifi_send V w m \<noteq> None" by (auto simp: wifi_send_def Let_def split: sum.splits)
  then obtain w' where w': "wifi_send V w m = Some w'" by blast
  then have "wt_connected_ip w' = wt_connected_ip w"
    by (auto simp: wifi_send_def Let_def split: if_splits sum.splits option.splits)
  with w' assms(2) wifi_inv_send [OF _ w'] show ?thesis by (auto simp: wifi_ok_def)
qed

lemma show_dec_digits: "b \<in> set (show_dec n) \<Longrightarrow> 48 \<le> b \<and> b \<le> 57"
proof (induction n rule: show_dec.induct)
  case (1 n)
  have d: "48 \<le> (of_nat (48 + k) :: u8) \<and> of_nat (48 + k) \<le> (57 :: u8)" if "k < 10" for k
  proof -
    have "unat (of_nat (48 + k) :: u8) = 48 + k" by (rule unat_of_nat_eq) (use that in simp)
    with that show ?thesis by (simp add: word_le_nat_alt del: of_nat_add)
  qed
  show ?case
  proof (cases "n < 10")
    case True
    with 1 d [of n] show ?thesis by (auto simp: show_dec.simps [of n])
  next
    case False
    then have "b \<in> set (show_dec (n div 10)) \<or> b = of_nat (48 + n mod 10)"
      using 1 by (subst (asm) (2) show_dec.simps) auto
    then show ?thesis using "1.IH" [OF False] d [of "n mod 10"] by auto
  qed
qed

lemma of_int_u8_le: "0 \<le> i \<and> i \<le> 100 \<Longrightarrow> (of_int i :: u8) \<le> 100"
proof -
  assume i: "0 \<le> i \<and> i \<le> 100"
  define k where "k = nat i"
  then have k: "i = int k" "k \<le> 100" using i by auto
  have "unat (of_nat k :: u8) = k" by (rule unat_of_nat_eq) (use k in simp)
  with k show ?thesis by (simp add: word_le_nat_alt)
qed

lemma printable_append [simp]: "printable (s @ t) \<longleftrightarrow> printable s \<and> printable t"
  by (auto simp: printable_def)

lemma printable_show_dec: "printable (show_dec n)"
  unfolding printable_def
proof
  fix b assume "b \<in> set (show_dec n)"
  from show_dec_digits [OF this] show "32 \<le> b \<and> b < 127"
    by (simp add: word_le_nat_alt word_less_nat_alt)
qed

lemma printable_dot: "printable (ascii ''.'')"
  by (simp add: printable_def ascii_def)

lemma printable_show_ipv4: "printable (show_ipv4 a)"
  by (cases a rule: show_ipv4.cases) (simp add: printable_show_dec printable_dot)

lemma printable_wifi_line: "printable ip \<Longrightarrow> printable (wifi_line ip)"
  by (auto simp: wifi_line_def printable_def ascii_def)

lemma wifi_ok_poll: "wifi_ok (Some w) \<Longrightarrow> wifi_poll W ob t w = (w', res) \<Longrightarrow> wifi_ok (Some w')"
proof -
  assume ok: "wifi_ok (Some w)" and p: "wifi_poll W ob t w = (w', res)"
  then have "wifi_inv w'" by (auto simp: wifi_ok_def intro: wifi_inv_poll)
  moreover have "\<forall>ip. wt_connected_ip w' = Some ip \<longrightarrow> printable ip"
    using p ok by (cases "wt_state w")
      (auto simp: wifi_poll_defs wifi_ok_def printable_show_ipv4 simp del: show_ipv4.simps
        split: if_splits option.splits dhcp_event.splits prod.splits sum.splits)
  ultimately show ?thesis by (simp add: wifi_ok_def)
qed

text \<open>The firmware linked with libraries that behave as documented.\<close>

locale linked_firmware =
  fixes e :: "('b, 's) fw_env"
  assumes env: "env_ok e"
begin

lemma fine_tell_usb: "fw_ok s \<Longrightarrow> rx_of s = rx_of t \<Longrightarrow> fine t (tell_usb e m s)"
  using usb_send_rx [OF env_okD(3) [OF env], of "fw_usb s" m]
  by (auto simp: fine_def tell_usb_def fw_ok_def rx_of_def)

lemma fine_tell_wifi: "fw_ok s \<Longrightarrow> rx_of s = rx_of t \<Longrightarrow> fine t (tell_wifi e m s)"
proof (cases "fw_wifi s")
  case None
  then show "fw_ok s \<Longrightarrow> rx_of s = rx_of t \<Longrightarrow> fine t (tell_wifi e m s)"
    by (simp add: tell_wifi_def fine_Some)
next
  case (Some w)
  assume ok: "fw_ok s" and rx: "rx_of s = rx_of t"
  then have "wifi_ok (Some w)" using Some by (simp add: fw_ok_def)
  from wifi_send_ok [OF env_okD(3) [OF env] this] obtain w' where "wifi_send (en_dev e) w m = Some w'" "wifi_ok (Some w')"
    by blast
  then show ?thesis using ok rx Some by (simp add: tell_wifi_def fine_def fw_ok_def rx_of_def)
qed

lemma fine_tell_both: "fw_ok s \<Longrightarrow> rx_of s = rx_of t \<Longrightarrow> fine t (tell_both e m s)"
  unfolding tell_both_def
  by (rule fine_bind [OF fine_tell_usb]) (auto intro: fine_tell_wifi fine_Some split: option.splits)

lemma fine_redraw:
  assumes "fw_ok s" "rx_of s = rx_of t"
  shows "fine t (fw_redraw e icon s)"
proof -
  note g = env_okD(1) [OF env]
  have "draws (redraw_app (en_gfx e) apps sel icon vol)" for apps sel vol
    unfolding redraw_app_def [abs_def] Let_def by (intro draws_bind draw_intros g)
  then show ?thesis
    unfolding fw_redraw_def
    by (intro fine_bind fine_draw draws_mute g assms) simp_all
qed

lemma fine_draw_idle: "fw_ok s \<Longrightarrow> rx_of s = rx_of t \<Longrightarrow> fine t (fw_draw_idle e s)"
  unfolding fw_draw_idle_def
  by (intro fine_bind fine_draw draws_not_connected draws_volume env_okD(1) [OF env]) simp_all

end

section \<open>The selection\<close>

lemma sel_ok_load:
  assumes "idx < length apps \<or> apps = []"
    and "\<And>i. sel = Some i \<Longrightarrow> position (\<lambda>a. ai_id a = i) apps \<noteq> None \<Longrightarrow> position (\<lambda>a. ai_id a = i) apps = Some idx"
  shows "sel_ok apps sel idx
    (case sel of None \<Rightarrow> v | Some i \<Rightarrow> (case find (\<lambda>a. ai_id a = i) apps of None \<Rightarrow> v | Some a \<Rightarrow> ai_volume a))
    (case sel of None \<Rightarrow> m | Some i \<Rightarrow> (case find (\<lambda>a. ai_id a = i) apps of None \<Rightarrow> m | Some a \<Rightarrow> ai_muted a))"
  using assms by (auto simp: sel_ok_def position_eq_find dest: position_less)

lemma load_selected_fields:
  "fw_volume (load_selected s) = (case fw_selected_app s of None \<Rightarrow> fw_volume s
     | Some i \<Rightarrow> (case find (\<lambda>a. ai_id a = i) (fw_apps s) of None \<Rightarrow> fw_volume s | Some a \<Rightarrow> ai_volume a))"
  "fw_muted (load_selected s) = (case fw_selected_app s of None \<Rightarrow> fw_muted s
     | Some i \<Rightarrow> (case find (\<lambda>a. ai_id a = i) (fw_apps s) of None \<Rightarrow> fw_muted s | Some a \<Rightarrow> ai_muted a))"
  "fw_display (load_selected s) = fw_display s" "fw_wifi (load_selected s) = fw_wifi s"
  "fw_apps (load_selected s) = fw_apps s" "fw_selected_app (load_selected s) = fw_selected_app s"
  "fw_selected_idx (load_selected s) = fw_selected_idx s" "fw_standalone (load_selected s) = fw_standalone s"
  "fw_backlight (load_selected s) = fw_backlight s" "fw_usb (load_selected s) = fw_usb s"
  by (simp_all add: load_selected_def split: option.splits)

lemma fw_ok_load:
  assumes "fw_ok (s\<lparr>fw_apps := [], fw_selected_app := None\<rparr>)"
    and "fw_selected_idx s < length (fw_apps s) \<or> fw_apps s = []"
    and "\<And>i. fw_selected_app s = Some i \<Longrightarrow> position (\<lambda>a. ai_id a = i) (fw_apps s) \<noteq> None \<Longrightarrow>
      position (\<lambda>a. ai_id a = i) (fw_apps s) = Some (fw_selected_idx s)"
  shows "fw_ok (load_selected s)"
  using assms(1) sel_ok_load [OF assms(2,3)] by (simp add: fw_ok_def load_selected_fields)

text \<open>Updating the first app with an id: what the list shows at the carousel index.\<close>

lemma update_shown:
  assumes "sel_ok apps (Some i) idx vol muted" "\<And>a. ai_id (f a) = ai_id a" "distinct (map ai_id apps)"
    and "find (\<lambda>a. ai_id a = i) (update_first (\<lambda>a. ai_id a = k) f apps) = Some app"
  shows "idx < length apps \<and> update_first (\<lambda>a. ai_id a = k) f apps ! idx = app \<and>
    (\<exists>app0. app = (if i = k then f app0 else app0) \<and> vol = ai_volume app0 \<and> muted = ai_muted app0)"
proof -
  let ?p = "\<lambda>a. ai_id a = k"
  let ?u = "update_first ?p f apps"
  have shown: "idx < length apps" "apps ! idx = app0" "vol = ai_volume app0" "muted = ai_muted app0"
    if "find (\<lambda>a. ai_id a = i) apps = Some app0" for app0
    using assms(1,3) that by (auto simp: sel_ok_def)
  show ?thesis
  proof (cases "i = k")
    case True
    have "find ?p ?u = map_option f (find ?p apps)"
      by (rule find_update_first_same) (simp add: assms(2))
    then obtain app0 where 0: "find (\<lambda>a. ai_id a = i) apps = Some app0" "app = f app0"
      using assms(4) True by auto
    note at = shown [OF 0(1)]
    have "ai_id app0 = k" using 0(1) True by (auto simp: find_Some_iff)
    then have "position ?p apps = Some idx"
      using position_distinct [OF assms(3) at(1)] at(2) by simp
    then have "?u ! idx = app" using at 0(2) by (simp add: update_first_position)
    with at 0 True show ?thesis by auto
  next
    case False
    have "find (\<lambda>a. ai_id a = i) ?u = find (\<lambda>a. ai_id a = i) apps"
      by (rule find_update_first_other) (use False assms(2) in auto)
    then have 0: "find (\<lambda>a. ai_id a = i) apps = Some app" using assms(4) by simp
    note at = shown [OF 0]
    have "ai_id app = i" using 0 by (auto simp: find_Some_iff)
    then have "position ?p apps \<noteq> Some idx" using False at(2) by (auto simp: position_Some)
    then have "?u ! idx = app" using at by (auto simp: update_first_position split: option.splits)
    with at False show ?thesis by auto
  qed
qed

lemma distinct_update: "(\<And>a. ai_id (f a) = ai_id a) \<Longrightarrow> map ai_id (update_first p f apps) = map ai_id apps"
  by (rule update_first_map)

lemma sel_ok_update:
  assumes "sel_ok apps sel idx vol muted" "\<And>a. ai_id (f a) = ai_id a"
    and "\<And>a. vol' = (if sel = Some k then ai_volume (f a) else vol) \<or> ai_volume a \<noteq> vol"
    and "\<And>a. muted' = (if sel = Some k then ai_muted (f a) else muted) \<or> ai_muted a \<noteq> muted"
  shows "sel_ok (update_first (\<lambda>a. ai_id a = k) f apps) sel idx vol' muted'"
  unfolding sel_ok_def
proof (intro conjI impI allI)
  let ?u = "update_first (\<lambda>a. ai_id a = k) f apps"
  show "?u \<noteq> [] \<Longrightarrow> idx < length ?u" using assms(1) by (simp add: sel_ok_def)
  fix i app
  assume d: "distinct (map ai_id ?u)" and s: "sel = Some i" and fnd: "find (\<lambda>a. ai_id a = i) ?u = Some app"
  have "distinct (map ai_id apps)" using d by (simp only: distinct_update [OF assms(2)])
  from update_shown [OF _ assms(2) this fnd, of idx vol muted] assms(1) s
  obtain app0 where "idx < length apps" "?u ! idx = app" "app = (if i = k then f app0 else app0)"
    "vol = ai_volume app0" "muted = ai_muted app0" by auto
  with s assms(3) [of app0] assms(4) [of app0]
  show "idx < length ?u" "?u ! idx = app" "vol' = ai_volume app" "muted' = ai_muted app"
    by (auto split: if_splits)
qed

lemma sel_ok_volume:
  "sel_ok apps sel idx vol muted \<Longrightarrow>
   sel_ok (update_first (\<lambda>a. ai_id a = k) (\<lambda>a. a\<lparr>ai_volume := v\<rparr>) apps) sel idx (if sel = Some k then v else vol) muted"
  by (rule sel_ok_update) auto

lemma sel_ok_muted:
  "sel_ok apps sel idx vol muted \<Longrightarrow>
   sel_ok (update_first (\<lambda>a. ai_id a = k) (\<lambda>a. a\<lparr>ai_muted := m\<rparr>) apps) sel idx vol (if sel = Some k then m else muted)"
  by (rule sel_ok_update) auto

lemma sel_ok_at:
  assumes "idx < length apps"
  shows "sel_ok apps (Some (ai_id (apps ! idx))) idx (ai_volume (apps ! idx)) (ai_muted (apps ! idx))"
  using assms find_distinct [where g = ai_id and xs = apps and i = idx] by (auto simp: sel_ok_def)

section \<open>The handlers\<close>

lemma fw_ok_notify: "fw_ok s \<Longrightarrow> fw_ok (fw_notify s)"
  by (simp add: fw_ok_def fw_notify_def notify_activity_wf)

lemma rx_notify [simp]: "rx_of (fw_notify s) = rx_of s"
  by (simp add: rx_of_def fw_notify_def)

lemma fw_ok_haptic [simp]: "fw_ok (fw_haptic e f s) = fw_ok s" "rx_of (fw_haptic e f s) = rx_of s"
  by (simp_all add: fw_ok_def fw_haptic_def rx_of_def)

lemma fw_ok_backlight: "fw_ok s \<Longrightarrow> fw_ok (on_set_backlight p d ofs s)" "rx_of (on_set_backlight p d ofs s) = rx_of s"
  by (simp_all add: fw_ok_def on_set_backlight_def rx_of_def set_active_pct_wf set_timeouts_wf)

text \<open>Fields the invariant does not look at.\<close>

lemma fw_ok_other [simp]:
  "fw_ok (s\<lparr>fw_needs_flush := x1\<rparr>) = fw_ok s" "fw_ok (s\<lparr>fw_icon := x2\<rparr>) = fw_ok s"
  "fw_ok (s\<lparr>fw_ready_sent := x3\<rparr>) = fw_ok s" "fw_ok (s\<lparr>fw_wifi_ready_sent := x3\<rparr>) = fw_ok s"
  "fw_ok (s\<lparr>fw_wifi_was_active := x3\<rparr>) = fw_ok s" "fw_ok (s\<lparr>fw_last_host_tick := x4\<rparr>) = fw_ok s"
  "fw_ok (s\<lparr>fw_last_count := x5\<rparr>) = fw_ok s" "fw_ok (s\<lparr>fw_flash := x6\<rparr>) = fw_ok s"
  "fw_ok (s\<lparr>fw_usb := x7\<rparr>) = fw_ok s" "fw_ok (s\<lparr>fw_touch := x8\<rparr>) = fw_ok s"
  "fw_ok (s\<lparr>fw_touch_held := x4\<rparr>) = fw_ok s" "fw_ok (s\<lparr>fw_debug_visible := x3\<rparr>) = fw_ok s"
  "fw_ok (s\<lparr>fw_batt_pct := x9\<rparr>) = fw_ok s" "fw_ok (s\<lparr>fw_last_batt_tick := x4\<rparr>) = fw_ok s"
  "fw_ok (s\<lparr>fw_loop_tick := x4\<rparr>) = fw_ok s"
  by (simp_all add: fw_ok_def)

lemma rx_other [simp]:
  "rx_of (s\<lparr>fw_needs_flush := x1\<rparr>) = rx_of s" "rx_of (s\<lparr>fw_icon := x2\<rparr>) = rx_of s"
  "rx_of (s\<lparr>fw_ready_sent := x3\<rparr>) = rx_of s" "rx_of (s\<lparr>fw_wifi_ready_sent := x3\<rparr>) = rx_of s"
  "rx_of (s\<lparr>fw_wifi_was_active := x3\<rparr>) = rx_of s" "rx_of (s\<lparr>fw_last_host_tick := x4\<rparr>) = rx_of s"
  "rx_of (s\<lparr>fw_last_count := x5\<rparr>) = rx_of s" "rx_of (s\<lparr>fw_flash := x6\<rparr>) = rx_of s"
  "rx_of (s\<lparr>fw_touch := x8\<rparr>) = rx_of s"
  "rx_of (s\<lparr>fw_touch_held := x4\<rparr>) = rx_of s" "rx_of (s\<lparr>fw_debug_visible := x3\<rparr>) = rx_of s"
  "rx_of (s\<lparr>fw_batt_pct := x9\<rparr>) = rx_of s" "rx_of (s\<lparr>fw_last_batt_tick := x4\<rparr>) = rx_of s"
  "rx_of (s\<lparr>fw_loop_tick := x4\<rparr>) = rx_of s" "rx_of (s\<lparr>fw_apps := y1\<rparr>) = rx_of s"
  "rx_of (s\<lparr>fw_selected_app := y2\<rparr>) = rx_of s" "rx_of (s\<lparr>fw_selected_idx := y3\<rparr>) = rx_of s"
  "rx_of (s\<lparr>fw_volume := y4\<rparr>) = rx_of s" "rx_of (s\<lparr>fw_muted := y5\<rparr>) = rx_of s"
  "rx_of (s\<lparr>fw_display := y6\<rparr>) = rx_of s" "rx_of (s\<lparr>fw_backlight := y7\<rparr>) = rx_of s"
  "rx_of (s\<lparr>fw_standalone := y8\<rparr>) = rx_of s" "rx_of (s\<lparr>fw_wifi := y9\<rparr>) = rx_of s"
  "rx_of (load_selected s) = rx_of s"
  by (simp_all add: rx_of_def load_selected_fields)

context linked_firmware
begin

lemma fine_set_app_list: "fw_ok s \<Longrightarrow> fine s (on_set_app_list e apps s)"
proof -
  assume ok: "fw_ok s"
  define s1 where "s1 = (fw_notify s)\<lparr>fw_apps := apps\<rparr>"
  define s2 where "s2 = (if fw_selected_app s1 = None
      then s1\<lparr>fw_selected_app := (case apps of [] \<Rightarrow> None | a # _ \<Rightarrow> Some (ai_id a)), fw_selected_idx := 0\<rparr>
      else s1\<lparr>fw_selected_idx := (case position (\<lambda>a. Some (ai_id a) = fw_selected_app s1) apps of
                       Some i \<Rightarrow> i | None \<Rightarrow> 0)\<rparr>)"
  have a2: "fw_apps s2 = apps" by (simp add: s2_def s1_def)
  have "fw_ok (load_selected s2)"
  proof (rule fw_ok_load)
    show "fw_ok (s2\<lparr>fw_apps := [], fw_selected_app := None\<rparr>)"
      using fw_ok_notify [OF ok] by (auto simp: s2_def s1_def fw_ok_def sel_ok_def)
    show "fw_selected_idx s2 < length (fw_apps s2) \<or> fw_apps s2 = []"
      by (auto simp: s2_def s1_def dest: position_less split: option.splits)
    show "position (\<lambda>a. ai_id a = i) (fw_apps s2) = Some (fw_selected_idx s2)"
      if "fw_selected_app s2 = Some i" "position (\<lambda>a. ai_id a = i) (fw_apps s2) \<noteq> None" for i
      using that unfolding a2 by (cases apps) (auto simp: s2_def s1_def split: if_splits option.splits)
  qed
  moreover have "rx_of (load_selected s2) = rx_of s" by (simp add: s2_def s1_def)
  ultimately show ?thesis
    unfolding on_set_app_list_def Let_def s1_def [symmetric] s2_def [symmetric]
    by (intro fine_bind [OF fine_redraw]) (auto intro: fine_Some)
qed

lemma fine_set_app_icon: "fw_ok s \<Longrightarrow> fine s (on_set_app_icon e i px s)"
  unfolding on_set_app_icon_def
  by (auto intro!: fine_bind fine_draw fine_Some draws_app_icon env_okD(1) [OF env])

lemma fine_set_selected_app: "fw_ok s \<Longrightarrow> fine s (on_set_selected_app e i s)"
proof -
  assume ok: "fw_ok s"
  define s2 where "s2 = (fw_notify s)\<lparr>fw_selected_app := Some i,
     fw_selected_idx := (case position (\<lambda>a. ai_id a = i) (fw_apps s) of Some k \<Rightarrow> k | None \<Rightarrow> 0), fw_icon := []\<rparr>"
  have a2: "fw_apps s2 = fw_apps s" by (simp add: s2_def fw_notify_def)
  have "fw_ok (load_selected s2)"
  proof (rule fw_ok_load)
    show "fw_ok (s2\<lparr>fw_apps := [], fw_selected_app := None\<rparr>)"
      using fw_ok_notify [OF ok] by (auto simp: s2_def fw_ok_def sel_ok_def)
    show "fw_selected_idx s2 < length (fw_apps s2) \<or> fw_apps s2 = []"
      unfolding a2 by (auto simp: s2_def dest: position_less split: option.splits)
    show "position (\<lambda>a. ai_id a = j) (fw_apps s2) = Some (fw_selected_idx s2)"
      if "fw_selected_app s2 = Some j" "position (\<lambda>a. ai_id a = j) (fw_apps s2) \<noteq> None" for j
      using that unfolding a2 by (auto simp: s2_def split: option.splits)
  qed
  moreover have "rx_of (load_selected s2) = rx_of s" by (simp add: s2_def)
  ultimately show ?thesis
    unfolding on_set_selected_app_def Let_def s2_def [symmetric]
    by (intro fine_bind [OF fine_redraw]) (auto intro: fine_Some)
qed

text \<open>The partial redraw of a volume change.\<close>

lemma fine_volume_delta:
  assumes "fw_ok (upd s (fw_display s))" "rx_of (upd s (fw_display s)) = rx_of t"
    and "\<And>d. fw_display (upd s d) = d"
    and "\<And>d d'. (upd s d)\<lparr>fw_display := d'\<rparr> = upd s d'"
  shows "fine t (do { (fb, (dy0, dy1)) \<leftarrow> draw_volume_delta (en_gfx e) a b (framebuffer (fw_display s));
     fw_flush_rows dy0 dy1 (upd s ((fw_display s)\<lparr>framebuffer := fb\<rparr>)) })"
proof -
  have len: "length (framebuffer (fw_display s)) = fb_size" "bus_ok (fw_display s)"
    using assms(1,3) by (auto simp: fw_ok_def display_ok_def)
  obtain fb y0 y1 where d: "draw_volume_delta (en_gfx e) a b (framebuffer (fw_display s)) = Some (fb, (y0, y1))"
      "length fb = fb_size"
  proof (cases "a = b")
    case True
    then show thesis using that [of "framebuffer (fw_display s)" 0 0] len(1) by (simp add: draw_volume_delta_def)
  next
    case False
    obtain fb where "draw_volume (en_gfx e) b (framebuffer (fw_display s)) = Some fb" "length fb = fb_size"
      by (rule drawsE [OF draws_volume [OF env_okD(1) [OF env]] len(1)])
    with False show thesis using that by (cases "dirty_rows (en_gfx e) a b") (simp add: draw_volume_delta_def)
  qed
  let ?s = "upd s ((fw_display s)\<lparr>framebuffer := fb\<rparr>)"
  have "?s = (upd s (fw_display s))\<lparr>fw_display := (fw_display s)\<lparr>framebuffer := fb\<rparr>\<rparr>" by (simp add: assms(4))
  then have "fw_ok ?s" "rx_of ?s = rx_of t"
    using assms(1,2) d(2) len(2) by (simp_all add: fw_ok_def display_ok_def bus_ok_def)
  then show ?thesis using d(1) by (simp add: fine_flush)
qed

lemma fine_set_volume: "fw_ok s \<Longrightarrow> fine s (on_set_volume e i v s)"
proof -
  assume ok: "fw_ok s"
  define s2 where "s2 = (fw_notify s)\<lparr>fw_apps := update_first (\<lambda>a. ai_id a = i) (\<lambda>a. a\<lparr>ai_volume := v\<rparr>) (fw_apps (fw_notify s))\<rparr>"
  have n: "fw_ok (fw_notify s)" by (rule fw_ok_notify [OF ok])
  show ?thesis
  proof (cases "fw_selected_app s2 = Some i")
    case False
    then have "fw_ok s2"
      using n sel_ok_volume [of "fw_apps (fw_notify s)" "fw_selected_app (fw_notify s)" _ _ _ i v]
      by (auto simp: s2_def fw_ok_def)
    with False show ?thesis
      unfolding on_set_volume_def Let_def s2_def [symmetric] by (simp add: fine_Some s2_def)
  next
    case True
    let ?upd = "\<lambda>s d. s\<lparr>fw_volume := v, fw_display := d\<rparr>"
    have "fw_ok (?upd s2 (fw_display s2))"
      using n True sel_ok_volume [of "fw_apps (fw_notify s)" "fw_selected_app (fw_notify s)" _ _ _ i v]
      by (auto simp: s2_def fw_ok_def)
    from fine_volume_delta [of ?upd s2 s, OF this, of "fw_volume s2" v]
    have "fine s (do { (fb, (dy0, dy1)) \<leftarrow> draw_volume_delta (en_gfx e) (fw_volume s2) v (framebuffer (fw_display s2));
       fw_flush_rows dy0 dy1 (?upd s2 ((fw_display s2)\<lparr>framebuffer := fb\<rparr>)) })"
      by (simp add: s2_def)
    then have "fine s (do { s \<leftarrow> (do { (fb, (dy0, dy1)) \<leftarrow> draw_volume_delta (en_gfx e) (fw_volume s2) v (framebuffer (fw_display s2));
       fw_flush_rows dy0 dy1 (?upd s2 ((fw_display s2)\<lparr>framebuffer := fb\<rparr>)) }); Some (s\<lparr>fw_needs_flush := False\<rparr>) })"
      by (rule fine_bind) (simp add: fine_Some)
    then show ?thesis
      using True unfolding on_set_volume_def Let_def s2_def [symmetric]
      by (simp add: bind_assoc case_prod_unfold)
  qed
qed

lemma fine_set_mute: "fw_ok s \<Longrightarrow> fine s (on_set_mute e i m s)"
proof -
  assume ok: "fw_ok s"
  define s2 where "s2 = (fw_notify s)\<lparr>fw_apps := update_first (\<lambda>a. ai_id a = i) (\<lambda>a. a\<lparr>ai_muted := m\<rparr>) (fw_apps (fw_notify s))\<rparr>"
  have n: "fw_ok (fw_notify s)" by (rule fw_ok_notify [OF ok])
  have "fw_ok (if fw_selected_app s2 = Some i then s2\<lparr>fw_muted := m\<rparr> else s2)"
    using n sel_ok_muted [of "fw_apps (fw_notify s)" "fw_selected_app (fw_notify s)" _ _ _ i m]
    by (auto simp: s2_def fw_ok_def)
  then show ?thesis
    unfolding on_set_mute_def Let_def s2_def [symmetric]
    by (auto intro!: fine_bind fine_draw fine_Some draws_mute env_okD(1) [OF env] simp: s2_def split: if_splits)
qed

lemma fine_init_wifi: "fw_ok s \<Longrightarrow> fw_ok (fw_init_wifi e s)" "rx_of (fw_init_wifi e s) = rx_of s"
proof -
  have "wifi_ok (init_wifi (en_wifi_steps e) (en_can_send e) (en_accepts e))"
    by (auto simp: wifi_ok_def init_wifi_def wifi_inv_def decoder_new_def split: if_splits)
  then show "fw_ok s \<Longrightarrow> fw_ok (fw_init_wifi e s)" "rx_of (fw_init_wifi e s) = rx_of s"
    by (simp_all add: fw_init_wifi_def fw_ok_def rx_of_def)
qed

lemma fine_ack:
  "fine s r \<Longrightarrow> \<exists>s' ack. (do { s \<leftarrow> r; Some (s, b) }) = Some (s', ack) \<and> fw_ok s' \<and> rx_of s' = rx_of s"
  "fine s r \<Longrightarrow> \<exists>s' ack p. (do { s \<leftarrow> r; Some (s, b, q) }) = Some (s', ack, p) \<and> fw_ok s' \<and> rx_of s' = rx_of s"
  by (auto simp: fine_def)

lemma fine_usb_match:
  assumes "fw_ok s"
  shows "\<exists>s' ack. usb_match e m s = Some (s', ack) \<and> fw_ok s' \<and> rx_of s' = rx_of s"
proof (cases m)
  case (SetWifiConfig sid pw)
  obtain fl ok where n: "nvs_save (en_flash e) (fw_flash s) \<lparr>cr_ssid = sid, cr_password = pw\<rparr> = (fl, ok)"
    by fastforce
  have fl: "fw_ok (s\<lparr>fw_flash := fl\<rparr>)" "rx_of (s\<lparr>fw_flash := fl\<rparr>) = rx_of s" using assms by simp_all
  note w = fine_init_wifi(1) [OF fl(1)] fine_init_wifi(2) [of "s\<lparr>fw_flash := fl\<rparr>"]
  note t = fine_ack(1) [OF fine_tell_usb [OF fl]]
  consider "\<not> ok" | "ok" "fw_wifi_periph s" | "ok" "\<not> fw_wifi_periph s" by blast
  then show ?thesis
  proof cases
    case 1
    then have "usb_match e m s = Some (s\<lparr>fw_flash := fl\<rparr>, True)" using SetWifiConfig n by simp
    with fl show ?thesis by blast
  next
    case 2
    then have "usb_match e m s = Some (fw_init_wifi e (s\<lparr>fw_flash := fl\<rparr>), True)" using SetWifiConfig n by simp
    with w fl(2) show ?thesis by auto
  next
    case 3
    then have "usb_match e m s = (do { s \<leftarrow> tell_usb e (WifiStatus False (ascii ''REBOOT'')) (s\<lparr>fw_flash := fl\<rparr>); Some (s, False) })"
      using SetWifiConfig n by simp
    with t show ?thesis by simp
  qed
next
  case (SetBacklight p d ofs)
  then show ?thesis using assms by (simp add: fw_ok_backlight) (rule exI, rule TrueI)
qed (simp_all only: usb_match.simps fine_ack(1) [OF fine_tell_usb [OF assms refl]]
    fine_ack(1) [OF fine_set_app_list [OF assms]] fine_ack(1) [OF fine_set_app_icon [OF assms]]
    fine_ack(1) [OF fine_set_selected_app [OF assms]] fine_ack(1) [OF fine_set_volume [OF assms]]
    fine_ack(1) [OF fine_set_mute [OF assms]])

lemma fine_handle_usb: "fw_ok s \<Longrightarrow> fine s (handle_usb e m s)"
proof -
  assume ok: "fw_ok s"
  show ?thesis
    unfolding handle_usb_def Let_def
  proof (rule fine_bind)
    show "fine s (if \<not> fw_ready_sent (s\<lparr>fw_last_host_tick := fw_loop_tick s\<rparr>) then do {
             s \<leftarrow> tell_usb e (Ready protocol_version) (s\<lparr>fw_last_host_tick := fw_loop_tick s\<rparr>);
             Some (s\<lparr>fw_ready_sent := True\<rparr>)
           } else Some (s\<lparr>fw_last_host_tick := fw_loop_tick s\<rparr>))"
      using ok by (auto intro!: fine_bind [OF fine_tell_usb] fine_Some)
    fix s1 :: "('b, 's) fw" assume s1: "fw_ok s1" "rx_of s1 = rx_of s"
    from fine_usb_match [OF s1(1), of m] obtain s2 ack where
      m: "usb_match e m s1 = Some (s2, ack)" and s2: "fw_ok s2" "rx_of s2 = rx_of s" using s1(2) by auto
    have "fine s (do { s \<leftarrow> fw_flush_if_needed s2; if ack then tell_usb e Ack s else Some s })"
      by (rule fine_bind [OF fine_flush_if_needed [OF s2]]) (auto intro: fine_tell_usb fine_Some)
    then show "fine s (do { (s, ack) \<leftarrow> usb_match e m s1; s \<leftarrow> fw_flush_if_needed s;
        if ack then tell_usb e Ack s else Some s })"
      by (simp add: m)
  qed
qed

lemma fine_wifi_match:
  assumes "fw_ok s"
  shows "\<exists>s' ack p. wifi_match e m s = Some (s', ack, p) \<and> fw_ok s' \<and> rx_of s' = rx_of s"
proof (cases m)
  case (SetWifiConfig sid pw)
  then show ?thesis using assms by simp (rule exI, rule TrueI)
next
  case (SetBacklight p d ofs)
  then show ?thesis using assms by (simp add: fw_ok_backlight) (rule exI, rule TrueI)
qed (simp_all only: wifi_match.simps fine_ack(2) [OF fine_tell_wifi [OF assms refl]]
    fine_ack(2) [OF fine_set_app_list [OF assms]] fine_ack(2) [OF fine_set_app_icon [OF assms]]
    fine_ack(2) [OF fine_set_selected_app [OF assms]] fine_ack(2) [OF fine_set_volume [OF assms]]
    fine_ack(2) [OF fine_set_mute [OF assms]])

lemma fine_wifi_store: "fw_ok s \<Longrightarrow> rx_of s = rx_of t \<Longrightarrow> fine t (wifi_store e creds s)"
  unfolding wifi_store_def
  by (auto intro!: fine_Some fine_tell_wifi fine_init_wifi simp: fine_init_wifi(2) split: prod.splits bool.splits)

lemma fine_handle_wifi: "fw_ok s \<Longrightarrow> fine s (handle_wifi e m s)"
proof -
  assume ok: "fw_ok s"
  show ?thesis
    unfolding handle_wifi_def Let_def
  proof (rule fine_bind)
    show "fine s (if \<not> fw_wifi_ready_sent (s\<lparr>fw_last_host_tick := fw_loop_tick s\<rparr>) then do {
             s \<leftarrow> tell_wifi e (Ready protocol_version) (s\<lparr>fw_last_host_tick := fw_loop_tick s\<rparr>);
             Some (s\<lparr>fw_wifi_ready_sent := True\<rparr>)
           } else Some (s\<lparr>fw_last_host_tick := fw_loop_tick s\<rparr>))"
      using ok by (auto intro!: fine_bind [OF fine_tell_wifi] fine_Some)
    fix s1 :: "('b, 's) fw" assume s1: "fw_ok s1" "rx_of s1 = rx_of s"
    from fine_wifi_match [OF s1(1), of m] obtain s2 ack p where
      m: "wifi_match e m s1 = Some (s2, ack, p)" and s2: "fw_ok s2" "rx_of s2 = rx_of s" using s1(2) by auto
    have "fine s (do { s \<leftarrow> fw_flush_if_needed s2; s \<leftarrow> (if ack then tell_wifi e Ack s else Some s);
        case p of None \<Rightarrow> Some s | Some creds \<Rightarrow> wifi_store e creds s })"
      by (intro fine_bind [OF fine_flush_if_needed [OF s2]] fine_bind)
        (auto intro: fine_tell_wifi fine_Some fine_wifi_store split: option.splits)
    then show "fine s (do { (s, ack, p) \<leftarrow> wifi_match e m s1; s \<leftarrow> fw_flush_if_needed s;
        s \<leftarrow> (if ack then tell_wifi e Ack s else Some s);
        case p of None \<Rightarrow> Some s | Some creds \<Rightarrow> wifi_store e creds s })"
      by (simp add: m)
  qed
qed

section \<open>The iteration\<close>

lemma usb_loop_fine:
  assumes "fw_ok s"
  shows "\<exists>s'. usb_loop e s = Some s' \<and> fw_ok s'"
  using assms
proof (induction "usb_pending (fw_usb s)" arbitrary: s rule: less_induct)
  case less
  obtain u res where p: "usb_poll (en_host e) (fw_usb s) = (u, res)" by fastforce
  show ?case
  proof (cases res)
    case None
    then show ?thesis using p less.prems by (subst usb_loop.simps) simp
  next
    case (Some msg)
    have "fine (s\<lparr>fw_usb := u\<rparr>) (handle_usb e msg (s\<lparr>fw_usb := u\<rparr>))"
      using less.prems by (intro fine_handle_usb) simp
    then obtain s1 where s1: "handle_usb e msg (s\<lparr>fw_usb := u\<rparr>) = Some s1" "fw_ok s1"
      "rx_of s1 = rx_of (s\<lparr>fw_usb := u\<rparr>)" by (rule fineE)
    have "usb_pending (fw_usb s1) = usb_pending u"
      using s1(3) by (simp add: rx_of_def usb_pending_def)
    also have "\<dots> < usb_pending (fw_usb s)" using usb_poll_progress [OF p] Some by simp
    finally have "\<exists>s'. usb_loop e s1 = Some s' \<and> fw_ok s'" using less.hyps s1(2) by blast
    then show ?thesis using p Some s1(1) by (subst usb_loop.simps) simp
  qed
qed

lemma fine_encoder:
  assumes "fw_ok s" "\<bar>count - fw_last_count s\<bar> \<le> 32000"
  shows "fine s (step_encoder e count s)"
proof (cases "count = fw_last_count s")
  case True
  then show ?thesis using assms by (simp add: step_encoder_def fine_Some)
next
  case False
  define delta where "delta = clamp (- 32768) 32767 (count - fw_last_count s)"
  have delta: "delta = count - fw_last_count s" using assms(2) by (auto simp: delta_def clamp_def)
  have raw: "checked_range 32 (count - fw_last_count s) = Some (count - fw_last_count s)"
    using assms(2) by (auto simp: checked_range_def)
  define s1 where "s1 = fw_notify s"
  have s1: "fw_ok s1" "rx_of s1 = rx_of s" using fw_ok_notify [OF assms(1)] by (simp_all add: s1_def)
  define body where "body = (case fw_selected_app s1 of
               Some app_id \<Rightarrow> tell_both e (VolumeDelta app_id (of_int delta)) s1
             | None \<Rightarrow> do {
                 let prev_vol = fw_standalone s1;
                 sum \<leftarrow> checked_range 16 (uint prev_vol + delta);
                 let new_vol = of_int (clamp 0 100 sum);
                 (fb, (dy0, dy1)) \<leftarrow> draw_volume_delta (en_gfx e) prev_vol new_vol (framebuffer (fw_display s1));
                 fw_flush_rows dy0 dy1
                   (s1\<lparr>fw_standalone := new_vol, fw_display := (fw_display s1)\<lparr>framebuffer := fb\<rparr>\<rparr>)
               })"
  have "fine s body"
  proof (cases "fw_selected_app s1")
    case (Some i)
    then show ?thesis using s1 by (simp add: body_def fine_tell_both)
  next
    case None
    define v where "v = fw_standalone s1"
    have v: "0 \<le> uint v" "uint v \<le> 100" using s1(1) by (auto simp: v_def fw_ok_def word_le_def)
    have sum: "checked_range 16 (uint v + delta) = Some (uint v + delta)"
    proof -
      have "- 32768 \<le> uint v + delta" "uint v + delta < 32768" using v assms(2) unfolding delta by linarith+
      then show ?thesis by (simp add: checked_range_def)
    qed
    define n where "n = (of_int (clamp 0 100 (uint v + delta)) :: u8)"
    have "0 \<le> clamp 0 100 (uint v + delta) \<and> clamp 0 100 (uint v + delta) \<le> 100" by (rule clamp_bounds) simp
    then have n: "n \<le> 100" unfolding n_def by (rule of_int_u8_le)
    let ?upd = "\<lambda>s d. s\<lparr>fw_standalone := n, fw_display := d\<rparr>"
    have "fw_ok (?upd s1 (fw_display s1))" using s1(1) n by (simp add: fw_ok_def)
    from fine_volume_delta [of ?upd s1 s, OF this, of v n] s1(2)
    have "fine s (do { (fb, (dy0, dy1)) \<leftarrow> draw_volume_delta (en_gfx e) v n (framebuffer (fw_display s1));
       fw_flush_rows dy0 dy1 (?upd s1 ((fw_display s1)\<lparr>framebuffer := fb\<rparr>)) })" by simp
    then show ?thesis using None by (simp add: body_def v_def [symmetric] sum n_def [symmetric] Let_def)
  qed
  then have "fine s (do { s \<leftarrow> body; Some (s\<lparr>fw_last_count := count\<rparr>) })"
    by (rule fine_bind) (simp add: fine_Some)
  moreover have "step_encoder e count s = (do { s \<leftarrow> body; Some (s\<lparr>fw_last_count := count\<rparr>) })"
    unfolding step_encoder_def body_def delta_def s1_def Let_def raw bind.bind_lunit using False by (rule if_not_P)
  ultimately show ?thesis by simp
qed

lemma fine_hold: "fw_ok s \<Longrightarrow> fine s (step_hold e s)"
  unfolding step_hold_def Let_def
  by (auto intro!: fine_bind fine_draw_idle fine_redraw fine_draw fine_Some draws_battery draws_clear draws_Some
      env_okD(1) [OF env] fw_ok_notify)

lemma fine_swipe: "fw_ok s \<Longrightarrow> idx < length (fw_apps s) \<Longrightarrow> fine s (swipe_to e idx s)"
proof -
  assume ok: "fw_ok s" and idx: "idx < length (fw_apps s)"
  define s1 where "s1 = s\<lparr>fw_selected_idx := idx, fw_selected_app := Some (ai_id (fw_apps s ! idx)),
     fw_volume := ai_volume (fw_apps s ! idx), fw_muted := ai_muted (fw_apps s ! idx), fw_icon := []\<rparr>"
  have s1: "fw_ok s1" "rx_of s1 = rx_of s" using ok sel_ok_at [OF idx] by (simp_all add: s1_def fw_ok_def)
  show ?thesis
    unfolding swipe_to_def Let_def s1_def [symmetric]
    using idx s1 by (auto intro!: fine_bind fine_redraw fine_tell_both fine_Some)
qed

lemma fine_fire: "fw_ok s \<Longrightarrow> rx_of s = rx_of t \<Longrightarrow> fine t (fire_gesture e g s)"
proof -
  assume ok: "fw_ok s" and rx: "rx_of s = rx_of t"
  have "fine t (swipe_to e idx s)" if "idx < length (fw_apps s)" for idx
    by (rule fine_from [OF fine_swipe [OF ok that] rx])
  then have swipes: "fine t (swipe_left e s)" "fine t (swipe_right e s)"
    using ok rx by (auto simp: swipe_left_def swipe_right_def fine_Some)
  show ?thesis
    unfolding fire_gesture_def
  proof (rule fine_bind)
    show "fine t (case g of
             GSingleTap \<Rightarrow> (case fw_selected_app s of
                 None \<Rightarrow> Some s
               | Some i \<Rightarrow> tell_both e (MuteToggle i) (fw_haptic e SharpClick s))
           | GLongPress \<Rightarrow> Some (fw_haptic e StrongClick s)
           | GSwipeLeft \<Rightarrow> swipe_left e s
           | GSwipeRight \<Rightarrow> swipe_right e s
           | _ \<Rightarrow> Some s)"
      using swipes ok rx by (cases g) (auto intro: fine_Some fine_tell_both split: option.splits)
  qed (auto intro: fine_Some fine_tell_both split: option.splits)
qed

lemma fine_touch:
  assumes "fw_ok s"
  shows "\<exists>s' c. step_touch e inp s = Some (s', c) \<and> fw_ok s' \<and> rx_of s' = rx_of s"
proof -
  obtain s0 ev where r: "step_touch_read inp s = (s0, ev)" by fastforce
  then have s0: "fw_ok s0" "rx_of s0 = rx_of s" using assms by (auto simp: step_touch_read_def split: if_splits prod.splits)
  obtain s1 where s1: "step_hold e s0 = Some s1" "fw_ok s1" "rx_of s1 = rx_of s"
    using fine_hold [OF s0(1)] s0(2) by (auto simp: fine_def)
  show ?thesis
  proof (cases ev)
    case None
    then have "step_touch e inp s = Some (s1, False)" using r s1 by (simp add: step_touch_def)
    with s1 show ?thesis by blast
  next
    case (Some event)
    let ?s = "s1\<lparr>fw_backlight := notify_activity (fw_backlight s1) (fw_loop_tick s1)\<rparr>"
    have ok: "fw_ok ?s" "rx_of ?s = rx_of s" using fw_ok_notify [OF s1(2)] s1(3) by (simp_all add: fw_notify_def)
    from fine_fire [OF ok, of "te_gesture event"] obtain s2 where
      "fire_gesture e (te_gesture event) ?s = Some s2" "fw_ok s2" "rx_of s2 = rx_of s" by (rule fineE)
    with r s1 Some ok show ?thesis by (cases "bl_state (fw_backlight s1) = Off") (auto simp: step_touch_def wake_from_off_def Let_def)
  qed
qed

lemma fine_wifi_event: "fw_ok s \<Longrightarrow> fine s (step_wifi_event e s)"
proof (cases "fw_wifi s")
  case None
  assume "fw_ok s"
  with None show ?thesis by (simp add: step_wifi_event_def fine_Some)
next
  case (Some w)
  assume ok: "fw_ok s"
  obtain w1 ev where t: "wifi_take_event w = (w1, ev)" by fastforce
  have w: "wifi_ok (Some w)" using ok Some by (simp add: fw_ok_def)
  then have "wifi_ok (Some w1)" using t by (auto simp: wifi_ok_def wifi_take_event_def wifi_inv_def)
  then have s1: "fw_ok (s\<lparr>fw_wifi := Some w1\<rparr>)" "rx_of (s\<lparr>fw_wifi := Some w1\<rparr>) = rx_of s"
    using ok by (simp_all add: fw_ok_def)
  show ?thesis
  proof (cases ev)
    case None
    with t Some s1 show ?thesis by (simp add: step_wifi_event_def fine_Some)
  next
    case ev: (Some event)
    then obtain ip where ip: "event = WifiStatus True ip" "printable ip"
      using w t by (auto simp: wifi_ok_def wifi_inv_def wifi_take_event_def)
    have "fine s (do { s \<leftarrow> fw_draw (draw_wifi_line (en_gfx e) (wifi_line ip)) s1; Some (s\<lparr>fw_needs_flush := True\<rparr>) })"
      if "fw_ok s1" "rx_of s1 = rx_of s" for s1 :: "('b, 's) fw"
      using that ip(2)
      by (auto intro!: fine_bind fine_draw fine_Some draws_wifi_line printable_wifi_line env_okD(1) [OF env])
    then have "fine s (do { s1 \<leftarrow> tell_usb e event (s\<lparr>fw_wifi := Some w1\<rparr>);
        if fw_apps s1 = [] then
          do { s \<leftarrow> fw_draw (draw_wifi_line (en_gfx e) (wifi_line ip)) s1; Some (s\<lparr>fw_needs_flush := True\<rparr>) }
        else Some s1 })"
      using s1 by (auto intro!: fine_bind [OF fine_tell_usb] fine_Some)
    then show ?thesis using t Some ev ip(1) by (simp add: step_wifi_event_def cong: if_cong)
  qed
qed

lemma fine_wifi:
  assumes "fw_ok s"
  shows "fine s (step_wifi e ob s)"
proof -
  define active where "active = (case fw_wifi s of None \<Rightarrow> False | Some w \<Rightarrow> wifi_is_active w)"
  define s0 where "s0 = (if \<not> active \<and> fw_wifi_was_active s then s\<lparr>fw_wifi_ready_sent := False\<rparr> else s)"
  define s1 where "s1 = s0\<lparr>fw_wifi_was_active := active\<rparr>"
  have s1: "fw_ok s1" "rx_of s1 = rx_of s" using assms by (simp_all add: s1_def s0_def)
  have rest: "fine s (case fw_wifi s2 of
       None \<Rightarrow> Some s2
     | Some w \<Rightarrow>
         (case wifi_poll (en_host e) ob t w of
            (w, None) \<Rightarrow> Some (s2\<lparr>fw_wifi := Some w\<rparr>)
          | (w, Some msg) \<Rightarrow> handle_wifi e msg (s2\<lparr>fw_wifi := Some w\<rparr>)))"
    if s2: "fw_ok s2" "rx_of s2 = rx_of s" for s2 t
  proof (cases "fw_wifi s2")
    case None
    with s2 show ?thesis by (simp add: fine_Some)
  next
    case (Some w)
    obtain w1 res where p: "wifi_poll (en_host e) ob t w = (w1, res)" by fastforce
    have "wifi_ok (Some w)" using s2(1) Some by (simp add: fw_ok_def)
    then have "wifi_ok (Some w1)" by (rule wifi_ok_poll [OF _ p])
    then have s3: "fw_ok (s2\<lparr>fw_wifi := Some w1\<rparr>)" "rx_of (s2\<lparr>fw_wifi := Some w1\<rparr>) = rx_of s"
      using s2 by (simp_all add: fw_ok_def)
    show ?thesis
      using Some p s3 fine_from [OF fine_handle_wifi [OF s3(1)] s3(2)] by (cases res) (simp_all add: fine_Some)
  qed
  show ?thesis
    unfolding step_wifi_def Let_def active_def [symmetric] s0_def [symmetric] s1_def [symmetric]
    by (rule fine_bind [OF fine_from [OF fine_wifi_event [OF s1(1)] s1(2)]], rule rest)
qed

lemma fine_disconnect: "fw_ok s \<Longrightarrow> fine s (step_disconnect e s)"
  unfolding step_disconnect_def Let_def
  by (auto intro!: fine_bind fine_draw_idle fine_draw fine_Some draws_battery env_okD(1) [OF env]
      simp: fw_ok_def sel_ok_def)

lemma fine_step_flush: "fw_ok s \<Longrightarrow> fine s (step_flush e n s)"
  unfolding step_flush_def Let_def
  by (auto intro!: fine_bind fine_draw fine_flush fine_Some draws_rx_stats env_okD(1) [OF env])

lemma fine_battery: "fw_ok s \<Longrightarrow> fine s (step_battery e adc s)"
  unfolding step_battery_def Let_def
  by (auto intro!: fine_bind fine_draw fine_flush fine_Some draws_battery env_okD(1) [OF env])

lemma fine_backlight: "fw_ok s \<Longrightarrow> fw_ok (step_backlight s)"
  by (simp add: fw_ok_def step_backlight_def bl_tick_wf)

lemma iteration_ok:
  assumes "fw_ok s" "\<bar>in_count inp - fw_last_count s\<bar> \<le> 32000"
  shows "\<exists>s'. fw_iteration e inp s = Some s' \<and> fw_ok s'"
proof -
  define s0 where "s0 = s\<lparr>fw_loop_tick := fw_loop_tick s + 1\<rparr>"
  have "fw_ok s0" "\<bar>in_count inp - fw_last_count s0\<bar> \<le> 32000" using assms by (simp_all add: s0_def)
  then obtain s1 where s1: "step_encoder e (in_count inp) s0 = Some s1" "fw_ok s1"
    using fine_encoder by (meson fineE)
  obtain s2 c where s2: "step_touch e inp s1 = Some (s2, c)" "fw_ok s2" using fine_touch [OF s1(2)] by blast
  show ?thesis
  proof (cases c)
    case True
    with s1 s2 show ?thesis by (simp add: fw_iteration_def s0_def [symmetric])
  next
    case False
    obtain s3 where s3: "step_wifi e (in_wifi inp) s2 = Some s3" "fw_ok s3" using fine_wifi [OF s2(2)] by (meson fineE)
    obtain s4 where s4: "usb_loop e s3 = Some s4" "fw_ok s4" using usb_loop_fine [OF s3(2)] by blast
    obtain s5 where s5: "step_disconnect e s4 = Some s5" "fw_ok s5" using fine_disconnect [OF s4(2)] by (meson fineE)
    obtain s6 where s6: "step_flush e (in_heap_free inp) s5 = Some s6" "fw_ok s6" using fine_step_flush [OF s5(2)] by (meson fineE)
    obtain s7 where s7: "step_battery e (in_adc inp) s6 = Some s7" "fw_ok s7" using fine_battery [OF s6(2)] by (meson fineE)
    have "fw_iteration e inp s = Some (step_backlight s7)"
      by (simp add: fw_iteration_def s0_def [symmetric] s1 s2 False s3 s4 s5 s6 s7)
    with fine_backlight [OF s7(2)] show ?thesis by blast
  qed
qed

text \<open>A boot on a healthy display bus.\<close>

lemma walk_init_ok:
  "bus_ok d \<Longrightarrow> list_all (\<lambda>(r, bs, ms). length bs \<le> 29520) cmds \<Longrightarrow>
   \<exists>d'. walk_init cmds d = (d', Inr ()) \<and> bus_ok d' \<and> framebuffer d' = framebuffer d"
proof (induction cmds d rule: walk_init.induct)
  case (2 reg bs ms cmds d)
  let ?d1 = "d_sent [reg_txn reg bs] d"
  let ?d2 = "if ms > 0 then d_emit (DelayMs ms) ?d1 else ?d1"
  have w: "write_register d reg bs = (?d1, Inr ())" using 2 by (intro write_register_ok) auto
  have "bus_ok ?d2" "framebuffer ?d2 = framebuffer d" using 2 by (auto simp: bus_ok_def d_emit_def d_sent_def)
  with "2.IH" [of ?d1] 2(3) show ?case by (auto simp: w)
qed auto

lemma display_init_ok:
  assumes "bus_ok d"
  shows "\<exists>d'. display_init d = (d', Inr ()) \<and> bus_ok d' \<and> framebuffer d' = framebuffer d"
proof -
  define d3 where "d3 = d_emit (DelayMs 150) (d_emit (PinRst True) (d_emit (DelayMs 10) (d_emit (PinRst False)
    (d_emit (DelayMs 10) (d_emit (PinRst True) d)))))"
  have d3: "bus_ok d3" "framebuffer d3 = framebuffer d" using assms by (simp_all add: d3_def bus_ok_def d_emit_def)
  let ?d4 = "d_sent [reg_txn colmod [colmod_rgb565]] d3"
  have w: "write_register d3 colmod [colmod_rgb565] = (?d4, Inr ())" using d3 by (intro write_register_ok) auto
  have "list_all (\<lambda>(r, bs, ms). length bs \<le> 29520) init_sequence" by (simp add: init_sequence_def)
  from walk_init_ok [OF _ this, of ?d4] d3 obtain d' where
    "walk_init init_sequence ?d4 = (d', Inr ())" "bus_ok d'" "framebuffer d' = framebuffer d" by auto
  then show ?thesis by (simp add: display_init_def Let_def d3_def [symmetric] w)
qed

lemma boot_ok:
  assumes "bus_ok (display_new spi)"
  shows "\<exists>s. fw_boot e spi j i2c fl adc = Some s \<and> fw_ok s \<and> fw_last_count s = 0"
proof -
  obtain bl where bl: "backlight_new = Some bl" "bl_wf bl" "bl_lit bl" using backlight_new_wf by blast
  obtain d where d: "display_init (display_new spi) = (d, Inr ())" "bus_ok d" "framebuffer d = replicate fb_size 0"
    using display_init_ok [OF assms] by (auto simp: display_new_def)
  define batt where "batt = raw_to_batt_pct (case adc of Some raw \<Rightarrow> raw | None \<Rightarrow> 2000)"
  define s0 where "s0 = \<lparr>fw_display = d, fw_usb = usb_new j, fw_wifi = None, fw_i2c = i2c, fw_flash = fl,
              fw_wifi_periph = True, fw_backlight = bl, fw_touch = cst816_new, fw_ready_sent = False,
              fw_wifi_ready_sent = False, fw_wifi_was_active = False, fw_last_count = 0,
              fw_needs_flush = False, fw_apps = [], fw_selected_app = None, fw_selected_idx = 0,
              fw_icon = [], fw_volume = 0, fw_muted = False, fw_loop_tick = 0, fw_standalone = 50,
              fw_last_host_tick = 0, fw_debug_visible = False, fw_touch_held = 0, fw_batt_pct = batt,
              fw_last_batt_tick = 0\<rparr>"
  have s0: "fw_ok s0"
    using d bl by (simp add: s0_def fw_ok_def display_ok_def wifi_ok_def sel_ok_def)
  have count: "fw_last_count s' = fw_last_count s" if "fw_draw f s = Some s' \<or> fw_flush s = Some s'" for f s s'
    using that by (auto simp: fw_draw_def fw_flush_def split: option.splits prod.splits sum.splits bind_splits)
  note g = env_okD(1) [OF env]
  obtain s1 where s1: "fw_draw (draw_not_connected (en_gfx e)) s0 = Some s1" "fw_ok s1"
    using fine_draw [OF s0 draws_not_connected [OF g] refl] by (meson fineE)
  obtain s2 where s2: "fw_draw (draw_volume (en_gfx e) (fw_standalone s1)) s1 = Some s2" "fw_ok s2"
    using fine_draw [OF s1(2) draws_volume [OF g] refl] by (meson fineE)
  obtain s3 where s3: "fw_draw (draw_battery (en_gfx e) batt) s2 = Some s3" "fw_ok s3"
    using fine_draw [OF s2(2) draws_battery [OF g] refl] by (meson fineE)
  obtain s4 where s4: "fw_flush s3 = Some s4" "fw_ok s4" using fine_flush(1) [OF s3(2) refl] by (meson fineE)
  have c4: "fw_last_count s4 = 0"
    using count [OF disjI1 [OF s1(1)]] count [OF disjI1 [OF s2(1)]] count [OF disjI1 [OF s3(1)]] count [OF disjI2 [OF s4(1)]]
    by (simp add: s0_def)
  define s5 where "s5 = s4\<lparr>fw_i2c := haptic_init (en_i2c e) (fw_i2c s4)\<rparr>"
  have s5: "fw_ok s5" "fw_last_count s5 = 0" using s4(2) c4 by (simp_all add: s5_def fw_ok_def)
  have boot: "fw_boot e spi j i2c fl adc =
     (case nvs_load (en_push e) (en_flash e) (fw_flash s5) of
       None \<Rightarrow> Some s5
     | Some creds \<Rightarrow>
         let s = fw_init_wifi e s5
         in if fw_wifi s \<noteq> None then do {
              s \<leftarrow> fw_draw (draw_wifi_line (en_gfx e) (ascii ''WiFi: connecting...'')) s;
              fw_flush s
            } else Some s)"
    unfolding s5_def
    by (simp add: fw_boot_def bl d(1) Let_def batt_def [symmetric] s0_def [symmetric] fw_draw_idle_def s1(1) s2(1) s3(1) s4(1))
  show ?thesis
  proof (cases "nvs_load (en_push e) (en_flash e) (fw_flash s5)")
    case None
    with boot s5 show ?thesis by simp
  next
    case (Some creds)
    define s6 where "s6 = fw_init_wifi e s5"
    have s6: "fw_ok s6" "fw_last_count s6 = 0" using fine_init_wifi(1) [OF s5(1)] s5(2) by (simp_all add: s6_def fw_init_wifi_def)
    have "printable (ascii ''WiFi: connecting...'')" by (simp add: printable_def ascii_def)
    then obtain s7 where s7: "fw_draw (draw_wifi_line (en_gfx e) (ascii ''WiFi: connecting...'')) s6 = Some s7" "fw_ok s7"
      using fine_draw [OF s6(1) draws_wifi_line [OF g] refl] by (meson fineE)
    obtain s8 where s8: "fw_flush s7 = Some s8" "fw_ok s8" using fine_flush(1) [OF s7(2) refl] by (meson fineE)
    have "fw_last_count s8 = 0" using count [OF disjI1 [OF s7(1)]] count [OF disjI2 [OF s8(1)]] s6(2) by simp
    with boot Some s6 s7(1) s8 show ?thesis by (simp add: Let_def s6_def [symmetric])
  qed
qed

end

section \<open>A linked firmware\<close>

definition lab_env :: "(reg_file, u8 list) fw_env" where
  "lab_env = \<lparr>en_gfx = ref_gfx, en_host = host_wire, en_dev = dev_wire, en_push = utf8_push,
     en_flash = sector_ops, en_i2c = reg_file_io, en_wifi_steps = [], en_can_send = (\<lambda>_. True),
     en_accepts = (\<lambda>_. 2048)\<rparr>"

lemma lab_env_ok: "env_ok lab_env"
  by (simp add: env_ok_def lab_env_def ref_gfx_contract host_link.wire_format_axioms dev_link.wire_format_axioms)

interpretation lab: linked_firmware lab_env
  by unfold_locales (rule lab_env_ok)

section \<open>Properties\<close>

text \<open>
  The states of the main loop: after a boot on a healthy display bus, and after every iteration
  before which the encoder moved by at most 32000 counts.
\<close>

inductive fw_reach :: "('b, 's) fw_env \<Rightarrow> ('b, 's) fw \<Rightarrow> bool" for e where
  boot: "bus_ok (display_new spi) \<Longrightarrow> fw_boot e spi j i2c fl adc = Some s \<Longrightarrow> fw_reach e s"
| iteration: "fw_reach e s \<Longrightarrow> \<bar>in_count inp - fw_last_count s\<bar> \<le> 32000 \<Longrightarrow> fw_iteration e inp s = Some s' \<Longrightarrow>
    fw_reach e s'"

lemma fw_reach_ok:
  assumes "env_ok e"
  shows "fw_reach e s \<Longrightarrow> fw_ok s"
proof (induction rule: fw_reach.induct)
  case (boot spi j i2c fl adc s)
  then show ?case using linked_firmware.boot_ok [OF linked_firmware.intro [OF assms], of spi j i2c fl adc] by auto
next
  case (iteration s inp s')
  then show ?case using linked_firmware.iteration_ok [OF linked_firmware.intro [OF assms], of s inp] by auto
qed


definition lab_input :: fw_input where
  "lab_input = \<lparr>in_count = 3, in_irq = True, in_touch = Some (5, 1, 0, 10, 0, 20), in_wifi = quiet_obs,
     in_adc = Some 2400, in_heap_free = 20000\<rparr>"

definition lab_i2c :: reg_file where
  "lab_i2c = \<lparr>rf_regs = (\<lambda>_. 0), rf_log = []\<rparr>"

lemma lab_boot:
  obtains s where "fw_boot lab_env lab_bus (lab_jtag [] (\<lambda>_. True)) lab_i2c [] None = Some s"
    "fw_reach lab_env s" "fw_last_count s = 0"
proof -
  obtain s where s: "fw_boot lab_env lab_bus (lab_jtag [] (\<lambda>_. True)) lab_i2c [] None = Some s"
    "fw_last_count s = 0"
    using lab.boot_ok [OF lab_display(1), of "lab_jtag [] (\<lambda>_. True)" lab_i2c "[]" None] by blast
  from that [OF s(1) fw_reach.boot [OF lab_display(1) s(1)] s(2)] show thesis .
qed


end
