(* ===== verification/App_State.thy ===== *)
theory App_State
  imports Firmware_Safety
begin

text \<open>
  What the user sees of the companion's apps: an abstract carousel (list, selection, icon, volume
  and mute of the selected app) with one transition per host message, per swipe and for the loss
  of the companion.  The handlers of both transports, the gestures and the disconnect step of
  \<open>firmware/src/main.rs\<close> refine it, whatever the display, the transports and the other
  peripherals do.
\<close>

section \<open>The carousel\<close>

record carousel =
  ca_apps :: "app_info list"
  ca_selected :: "u32 option"
  ca_idx :: nat
  ca_icon :: "u8 list"
  ca_volume :: u8
  ca_muted :: bool

definition index_of :: "u32 option \<Rightarrow> app_info list \<Rightarrow> nat" where
  "index_of sel apps =
     (case sel of None \<Rightarrow> 0 | Some i \<Rightarrow> (case position (\<lambda>a. ai_id a = i) apps of Some k \<Rightarrow> k | None \<Rightarrow> 0))"

definition first_id :: "app_info list \<Rightarrow> u32 option" where
  "first_id apps = (case apps of [] \<Rightarrow> None | a # _ \<Rightarrow> Some (ai_id a))"

text \<open>Select an app: the index follows, and its volume and mute state are shown if it is listed.\<close>

definition ca_select :: "u32 option \<Rightarrow> carousel \<Rightarrow> carousel" where
  "ca_select sel c =
     (let c = c\<lparr>ca_selected := sel, ca_idx := index_of sel (ca_apps c)\<rparr>
      in case find (\<lambda>a. Some (ai_id a) = sel) (ca_apps c) of
           None \<Rightarrow> c
         | Some a \<Rightarrow> c\<lparr>ca_volume := ai_volume a, ca_muted := ai_muted a\<rparr>)"

definition ca_update :: "u32 \<Rightarrow> (app_info \<Rightarrow> app_info) \<Rightarrow> carousel \<Rightarrow> carousel" where
  "ca_update i f c = c\<lparr>ca_apps := update_first (\<lambda>a. ai_id a = i) f (ca_apps c)\<rparr>"

fun ca_host :: "host_to_device \<Rightarrow> carousel \<Rightarrow> carousel" where
  "ca_host (SetAppList apps) c =
     ca_select (if ca_selected c = None then first_id apps else ca_selected c) (c\<lparr>ca_apps := apps\<rparr>)"
| "ca_host (SetSelectedApp i) c = (ca_select (Some i) c)\<lparr>ca_icon := []\<rparr>"
| "ca_host (SetAppIcon i px) c = (if ca_selected c = Some i then c\<lparr>ca_icon := px\<rparr> else c)"
| "ca_host (SetVolume i v) c =
     (let c = ca_update i (\<lambda>a. a\<lparr>ai_volume := v\<rparr>) c
      in if ca_selected c = Some i then c\<lparr>ca_volume := v\<rparr> else c)"
| "ca_host (SetMute i m) c =
     (let c = ca_update i (\<lambda>a. a\<lparr>ai_muted := m\<rparr>) c
      in if ca_selected c = Some i then c\<lparr>ca_muted := m\<rparr> else c)"
| "ca_host _ c = c"

text \<open>Turn the carousel by \<open>d\<close> places.\<close>

definition ca_turn :: "int \<Rightarrow> carousel \<Rightarrow> carousel" where
  "ca_turn d c =
     (if ca_apps c = [] then c
      else let idx = nat ((int (ca_idx c) + d) mod int (length (ca_apps c))); a = ca_apps c ! idx
           in c\<lparr>ca_idx := idx, ca_selected := Some (ai_id a), ca_volume := ai_volume a,
                ca_muted := ai_muted a, ca_icon := []\<rparr>)"

definition ca_forget :: "carousel \<Rightarrow> carousel" where
  "ca_forget c = c\<lparr>ca_apps := [], ca_selected := None, ca_icon := []\<rparr>"

definition abs_fw :: "('b, 's) fw \<Rightarrow> carousel" where
  "abs_fw s = \<lparr>ca_apps = fw_apps s, ca_selected = fw_selected_app s, ca_idx = fw_selected_idx s,
     ca_icon = fw_icon s, ca_volume = fw_volume s, ca_muted = fw_muted s\<rparr>"

section \<open>What the calls leave alone\<close>

named_theorems call_frames \<open>a call that returns changes one component only\<close>

lemma tell_usb_frame [call_frames]: "tell_usb e m s = Some s' \<Longrightarrow> \<exists>u. s' = s\<lparr>fw_usb := u\<rparr>"
  by (auto simp: tell_usb_def split: Option.bind_splits)

lemma tell_wifi_frame [call_frames]: "tell_wifi e m s = Some s' \<Longrightarrow> \<exists>w. s' = s\<lparr>fw_wifi := w\<rparr>"
  by (auto simp: tell_wifi_def split: Option.bind_splits option.splits) (metis fw.surjective fw.update_convs(3))

lemma fw_draw_frame [call_frames]: "fw_draw f s = Some s' \<Longrightarrow> \<exists>d. s' = s\<lparr>fw_display := d\<rparr>"
  by (auto simp: fw_draw_def split: Option.bind_splits)

lemma fw_flush_frame [call_frames]: "fw_flush s = Some s' \<Longrightarrow> \<exists>d. s' = s\<lparr>fw_display := d\<rparr>"
  by (auto simp: fw_flush_def split: option.splits sum.splits prod.splits)

lemma fw_flush_rows_frame [call_frames]: "fw_flush_rows a b s = Some s' \<Longrightarrow> \<exists>d. s' = s\<lparr>fw_display := d\<rparr>"
  by (auto simp: fw_flush_rows_def split: option.splits sum.splits prod.splits)

lemma abs_fw_update [simp]:
  "abs_fw (s\<lparr>fw_usb := u\<rparr>) = abs_fw s" "abs_fw (s\<lparr>fw_wifi := w\<rparr>) = abs_fw s"
  "abs_fw (s\<lparr>fw_display := d\<rparr>) = abs_fw s" "abs_fw (s\<lparr>fw_needs_flush := n\<rparr>) = abs_fw s"
  "abs_fw (s\<lparr>fw_i2c := i\<rparr>) = abs_fw s" "abs_fw (s\<lparr>fw_backlight := b\<rparr>) = abs_fw s"
  "abs_fw (s\<lparr>fw_ready_sent := r\<rparr>) = abs_fw s" "abs_fw (s\<lparr>fw_wifi_ready_sent := r\<rparr>) = abs_fw s"
  "abs_fw (s\<lparr>fw_last_host_tick := t\<rparr>) = abs_fw s" "abs_fw (s\<lparr>fw_flash := fl\<rparr>) = abs_fw s"
  "abs_fw (s\<lparr>fw_wifi_periph := p\<rparr>) = abs_fw s"
  by (simp_all add: abs_fw_def)

lemma abs_fw_calls [simp]:
  "abs_fw (fw_notify s) = abs_fw s" "abs_fw (fw_haptic e ef s) = abs_fw s" "abs_fw (fw_init_wifi e s) = abs_fw s"
  by (simp_all add: fw_notify_def fw_haptic_def fw_init_wifi_def)

text \<open>A computation that returns states with the given carousel only.\<close>

definition refines :: "carousel \<Rightarrow> ('b, 's) fw option \<Rightarrow> bool" where
  "refines c r \<longleftrightarrow> (\<forall>s'. r = Some s' \<longrightarrow> abs_fw s' = c)"

lemma refines_Some [simp]: "refines c (Some s) \<longleftrightarrow> abs_fw s = c"
  by (auto simp: refines_def)

lemma refines_None [simp]: "refines c None"
  by (simp add: refines_def)

lemma refines_bind: "refines c r \<Longrightarrow> (\<And>s. abs_fw s = c \<Longrightarrow> refines c' (h s)) \<Longrightarrow> refines c' (Option.bind r h)"
  by (cases r) (auto simp: refines_def)

lemma refines_calls:
  assumes "abs_fw s = c"
  shows "refines c (tell_usb e m s)" "refines c (tell_wifi e m s)" "refines c (fw_draw f s)"
    "refines c (fw_flush s)" "refines c (fw_flush_rows y0 y1 s)" "refines c (tell_both e m s)"
    "refines c (fw_redraw e icon s)" "refines c (fw_flush_if_needed s)" "refines c (fw_draw_idle e s)"
proof -
  show usb: "refines c (tell_usb e m s)" and wifi: "refines c (tell_wifi e m s)" and draw: "refines c (fw_draw f s)"
    and flush: "refines c (fw_flush s)" and "refines c (fw_flush_rows y0 y1 s)"
    using assms by (auto simp: refines_def dest!: call_frames)
  have wifi': "refines c (tell_wifi e m s)" if "abs_fw s = c" for s
    using that by (auto simp: refines_def dest!: call_frames)
  have "refines c (case fw_wifi s of None \<Rightarrow> Some s | Some w \<Rightarrow> if wifi_is_active w then tell_wifi e m s else Some s)"
    if "abs_fw s = c" for s
    using wifi' [OF that] that by (simp split: option.splits)
  note both = this
  have draw': "refines c (fw_draw f s)" if "abs_fw s = c" for f and s
    using that by (auto simp: refines_def dest!: call_frames)
  show "refines c (tell_both e m s)"
    unfolding tell_both_def by (rule refines_bind [OF usb both])
  show "refines c (fw_redraw e icon s)"
    unfolding fw_redraw_def by (rule refines_bind [OF draw'[OF assms]]) (rule draw')
  show "refines c (fw_draw_idle e s)"
    unfolding fw_draw_idle_def by (rule refines_bind [OF draw'[OF assms]]) (rule draw')
  show "refines c (fw_flush_if_needed s)"
    unfolding fw_flush_if_needed_def using assms by (auto intro: refines_bind [OF flush])
qed

section \<open>The handlers refine the carousel\<close>

lemma index_of_first: "index_of (first_id apps) apps = 0"
  by (simp add: index_of_def first_id_def split: list.splits)

lemma find_False [simp]: "find (\<lambda>a. False) xs = None"
  by (induction xs) simp_all

lemma abs_load_selected:
  "abs_fw (load_selected s) = ca_select (fw_selected_app s) (abs_fw s)"
  if "fw_selected_idx s = index_of (fw_selected_app s) (fw_apps s)"
  using that by (auto simp: load_selected_def ca_select_def abs_fw_def Let_def split: option.splits)

lemma refines_app_list:
  "refines (ca_host (SetAppList apps) (abs_fw s)) (on_set_app_list e apps s)"
proof -
  define s1 where "s1 = (fw_notify s)\<lparr>fw_apps := apps\<rparr>"
  define s2 where "s2 = (if fw_selected_app s1 = None
     then s1\<lparr>fw_selected_app := first_id apps, fw_selected_idx := 0\<rparr>
     else s1\<lparr>fw_selected_idx := (case position (\<lambda>a. Some (ai_id a) = fw_selected_app s1) apps of
                       Some i \<Rightarrow> i | None \<Rightarrow> 0)\<rparr>)"
  have idx: "fw_selected_idx s2 = index_of (fw_selected_app s2) (fw_apps s2)"
    by (auto simp: s2_def s1_def index_of_first) (auto simp: index_of_def)
  have a: "abs_fw (load_selected s2) = ca_host (SetAppList apps) (abs_fw s)"
    unfolding abs_load_selected [OF idx]
    by (auto simp: s2_def s1_def abs_fw_def fw_notify_def ca_select_def Let_def split: option.splits)
  show ?thesis
    unfolding on_set_app_list_def Let_def s1_def [symmetric] first_id_def [symmetric] s2_def [symmetric]
    by (rule refines_bind [OF refines_calls(7) [OF a]]) simp
qed

lemma refines_selected_app:
  "refines (ca_host (SetSelectedApp i) (abs_fw s)) (on_set_selected_app e i s)"
proof -
  define s1 where "s1 = (fw_notify s)\<lparr>fw_selected_app := Some i,
     fw_selected_idx := (case position (\<lambda>a. ai_id a = i) (fw_apps s) of Some k \<Rightarrow> k | None \<Rightarrow> 0), fw_icon := []\<rparr>"
  have idx: "fw_selected_idx s1 = index_of (fw_selected_app s1) (fw_apps s1)"
    by (simp add: s1_def index_of_def fw_notify_def)
  have a: "abs_fw (load_selected s1) = ca_host (SetSelectedApp i) (abs_fw s)"
    unfolding abs_load_selected [OF idx]
    by (auto simp: s1_def abs_fw_def fw_notify_def ca_select_def Let_def index_of_def split: option.splits)
  show ?thesis
    unfolding on_set_selected_app_def Let_def s1_def [symmetric]
    by (rule refines_bind [OF refines_calls(7) [OF a]]) simp
qed

lemma refines_app_icon: "refines (ca_host (SetAppIcon i px) (abs_fw s)) (on_set_app_icon e i px s)"
  unfolding on_set_app_icon_def by (auto intro!: refines_bind [OF refines_calls(3)] simp: abs_fw_def)

lemma refines_volume: "refines (ca_host (SetVolume i v) (abs_fw s)) (on_set_volume e i v s)"
  unfolding on_set_volume_def Let_def refines_def
  by (auto simp: abs_fw_def fw_notify_def ca_update_def dest!: fw_flush_rows_frame split: Option.bind_splits if_splits)

lemma refines_mute: "refines (ca_host (SetMute i m) (abs_fw s)) (on_set_mute e i m s)"
  unfolding on_set_mute_def Let_def
  by (auto intro!: refines_bind [OF refines_calls(3)] simp: abs_fw_def fw_notify_def fw_haptic_def ca_update_def)

lemmas refines_arms = refines_app_list refines_selected_app refines_app_icon refines_volume refines_mute

lemma refinesD: "refines c r \<Longrightarrow> r = Some s' \<Longrightarrow> abs_fw s' = c"
  by (simp add: refines_def)

lemmas arms_abs = refines_arms [THEN refinesD]

lemma usb_match_abs: "usb_match e msg s = Some (s', ack) \<Longrightarrow> abs_fw s' = ca_host msg (abs_fw s)"
  by (cases msg) (auto simp: on_set_backlight_def dest: arms_abs dest!: call_frames
      split: Option.bind_splits prod.splits bool.splits if_splits)

lemma wifi_match_abs: "wifi_match e msg s = Some (s', ack, pending) \<Longrightarrow> abs_fw s' = ca_host msg (abs_fw s)"
  by (cases msg) (auto simp: on_set_backlight_def dest: arms_abs dest!: call_frames
      split: Option.bind_splits prod.splits bool.splits if_splits)

lemma handle_usb_abs: "handle_usb e msg s = Some s' \<Longrightarrow> abs_fw s' = ca_host msg (abs_fw s)"
  unfolding handle_usb_def Let_def
  by (auto dest!: usb_match_abs call_frames refines_calls(8) [OF refl, THEN refinesD]
      split: Option.bind_splits prod.splits if_splits)

lemma wifi_store_abs: "wifi_store e creds s = Some s' \<Longrightarrow> abs_fw s' = abs_fw s"
  unfolding wifi_store_def by (auto dest!: call_frames split: prod.splits bool.splits if_splits)

lemma handle_wifi_abs: "handle_wifi e msg s = Some s' \<Longrightarrow> abs_fw s' = ca_host msg (abs_fw s)"
  unfolding handle_wifi_def Let_def
  by (auto dest!: wifi_match_abs wifi_store_abs call_frames refines_calls(8) [OF refl, THEN refinesD]
      split: Option.bind_splits prod.splits if_splits option.splits)

lemma swipe_to_abs:
  assumes "idx < length (fw_apps s)"
  shows "swipe_to e idx s = Some s' \<Longrightarrow> abs_fw s' = (let a = fw_apps s ! idx in
    (abs_fw s)\<lparr>ca_idx := idx, ca_selected := Some (ai_id a), ca_volume := ai_volume a, ca_muted := ai_muted a, ca_icon := []\<rparr>)"
  unfolding swipe_to_def Let_def using assms
  by (auto dest!: refines_calls(6,7) [OF refl, THEN refinesD] split: Option.bind_splits)
    (auto simp: abs_fw_def fw_haptic_def)

lemma turn_right: "i < n \<Longrightarrow> nat ((int i + 1) mod int n) = (i + 1) mod n"
  by (simp add: nat_mod_distrib nat_add_distrib)

lemma turn_left: "i < n \<Longrightarrow> nat ((int i - 1) mod int n) = (i + n - Suc 0) mod n"
proof -
  assume "i < n"
  have "(int i - 1) mod int n = (int i - 1 + int n) mod int n" by simp
  also have "int i - 1 + int n = int (i + n - Suc 0)" using \<open>i < n\<close> by linarith
  finally show ?thesis by (simp flip: zmod_int)
qed

lemma swipe_abs:
  assumes "fw_apps s = [] \<or> fw_selected_idx s < length (fw_apps s)"
  shows "swipe_right e s = Some s' \<Longrightarrow> abs_fw s' = ca_turn 1 (abs_fw s)"
    "swipe_left e s = Some s' \<Longrightarrow> abs_fw s' = ca_turn (- 1) (abs_fw s)"
  using assms
  by (auto simp: swipe_right_def swipe_left_def ca_turn_def turn_right turn_left abs_fw_def Let_def
      split: if_splits dest!: swipe_to_abs [rotated])

lemma step_disconnect_abs:
  "step_disconnect e s = Some s' \<Longrightarrow> abs_fw s' = abs_fw s \<or> abs_fw s' = ca_forget (abs_fw s)"
  unfolding step_disconnect_def Let_def
  by (auto dest!: refines_calls(3,9) [OF refl, THEN refinesD] split: Option.bind_splits if_splits)
    (auto simp: abs_fw_def ca_forget_def)

section \<open>Both transports\<close>

text \<open>The state with the two links and the flags that greet a host replaced.\<close>

type_synonym link_part = "usb_serial \<times> wifi_tcp option \<times> bool \<times> bool"

fun relink :: "link_part \<Rightarrow> ('b, 's) fw \<Rightarrow> ('b, 's) fw" where
  "relink (u, w, r, r') s = s\<lparr>fw_usb := u, fw_wifi := w, fw_ready_sent := r, fw_wifi_ready_sent := r'\<rparr>"

lemma relink_fields [simp]:
  "fw_display (relink l s) = fw_display s" "fw_apps (relink l s) = fw_apps s"
  "fw_selected_app (relink l s) = fw_selected_app s" "fw_icon (relink l s) = fw_icon s"
  "fw_volume (relink l s) = fw_volume s" "fw_muted (relink l s) = fw_muted s"
  "fw_needs_flush (relink l s) = fw_needs_flush s" "fw_flash (relink l s) = fw_flash s"
  "fw_wifi_periph (relink l s) = fw_wifi_periph s" "fw_loop_tick (relink l s) = fw_loop_tick s"
  "fw_backlight (relink l s) = fw_backlight s" "fw_i2c (relink l s) = fw_i2c s"
  by (cases l rule: prod_cases4; simp)+

lemma relink_update [simp]:
  "(relink l s)\<lparr>fw_display := d\<rparr> = relink l (s\<lparr>fw_display := d\<rparr>)"
  "(relink l s)\<lparr>fw_apps := as\<rparr> = relink l (s\<lparr>fw_apps := as\<rparr>)"
  "(relink l s)\<lparr>fw_selected_app := sel\<rparr> = relink l (s\<lparr>fw_selected_app := sel\<rparr>)"
  "(relink l s)\<lparr>fw_selected_idx := i\<rparr> = relink l (s\<lparr>fw_selected_idx := i\<rparr>)"
  "(relink l s)\<lparr>fw_icon := px\<rparr> = relink l (s\<lparr>fw_icon := px\<rparr>)"
  "(relink l s)\<lparr>fw_volume := v\<rparr> = relink l (s\<lparr>fw_volume := v\<rparr>)"
  "(relink l s)\<lparr>fw_muted := m\<rparr> = relink l (s\<lparr>fw_muted := m\<rparr>)"
  "(relink l s)\<lparr>fw_needs_flush := n\<rparr> = relink l (s\<lparr>fw_needs_flush := n\<rparr>)"
  "(relink l s)\<lparr>fw_backlight := b\<rparr> = relink l (s\<lparr>fw_backlight := b\<rparr>)"
  "(relink l s)\<lparr>fw_i2c := i2c\<rparr> = relink l (s\<lparr>fw_i2c := i2c\<rparr>)"
  "(relink l s)\<lparr>fw_flash := fl\<rparr> = relink l (s\<lparr>fw_flash := fl\<rparr>)"
  "(relink l s)\<lparr>fw_wifi_periph := pp\<rparr> = relink l (s\<lparr>fw_wifi_periph := pp\<rparr>)"
  "(relink l s)\<lparr>fw_last_host_tick := lt\<rparr> = relink l (s\<lparr>fw_last_host_tick := lt\<rparr>)"
  by (cases l rule: prod_cases4; simp)+

lemma relink_links [simp]:
  "relink l (s\<lparr>fw_usb := u\<rparr>) = relink l s" "relink l (s\<lparr>fw_wifi := w\<rparr>) = relink l s"
  "relink l (s\<lparr>fw_ready_sent := r\<rparr>) = relink l s" "relink l (s\<lparr>fw_wifi_ready_sent := r\<rparr>) = relink l s"
  by (cases l rule: prod_cases4; simp)+

declare relink.simps [simp del]

lemma relink_draw: "fw_draw f (relink l s) = map_option (relink l) (fw_draw f s)"
  by (simp add: fw_draw_def split: Option.bind_splits)

lemma relink_flush:
  "fw_flush (relink l s) = map_option (relink l) (fw_flush s)"
  "fw_flush_rows y0 y1 (relink l s) = map_option (relink l) (fw_flush_rows y0 y1 s)"
  by (simp_all add: fw_flush_def fw_flush_rows_def split: option.splits prod.splits sum.splits)

lemma map_option_bind: "map_option f (Option.bind r h) = Option.bind r (\<lambda>x. map_option f (h x))"
  by (cases r) simp_all

lemma bind_map_option: "Option.bind (map_option f r) h = Option.bind r (\<lambda>x. h (f x))"
  by (cases r) simp_all

lemma relink_load: "load_selected (relink l s) = relink l (load_selected s)"
  by (simp add: load_selected_def split: option.splits)

lemma relink_notify: "fw_notify (relink l s) = relink l (fw_notify s)"
  by (simp add: fw_notify_def)

lemma relink_haptic: "fw_haptic e ef (relink l s) = relink l (fw_haptic e ef s)"
  by (simp add: fw_haptic_def)

lemma relink_redraw: "fw_redraw e icon (relink l s) = map_option (relink l) (fw_redraw e icon s)"
  by (simp add: fw_redraw_def relink_draw map_option_bind bind_map_option)

lemma relink_flush_if: "fw_flush_if_needed (relink l s) = map_option (relink l) (fw_flush_if_needed s)"
  by (simp add: fw_flush_if_needed_def relink_flush map_option_bind bind_map_option)

lemmas relink_simps = relink_draw relink_flush relink_load relink_notify relink_haptic relink_redraw
  relink_flush_if map_option_bind bind_map_option

lemma relink_volume: "on_set_volume e i v (relink l s) = map_option (relink l) (on_set_volume e i v s)"
  unfolding on_set_volume_def Let_def
  by (cases "draw_volume_delta (en_gfx e) (fw_volume (fw_notify s)) v (framebuffer (fw_display (fw_notify s)))")
    (auto simp: relink_simps)

lemma relink_arms:
  "on_set_backlight p d ofs (relink l s) = relink l (on_set_backlight p d ofs s)"
  "on_set_app_list e apps (relink l s) = map_option (relink l) (on_set_app_list e apps s)"
  "on_set_app_icon e i px (relink l s) = map_option (relink l) (on_set_app_icon e i px s)"
  "on_set_selected_app e i (relink l s) = map_option (relink l) (on_set_selected_app e i s)"
  "on_set_mute e i m (relink l s) = map_option (relink l) (on_set_mute e i m s)"
  by (simp_all add: on_set_backlight_def on_set_app_list_def on_set_app_icon_def on_set_selected_app_def
      on_set_mute_def Let_def relink_simps)

text \<open>The effect of a message outside the links.\<close>

fun core_match :: "('b, 's) fw_env \<Rightarrow> host_to_device \<Rightarrow> ('b, 's) fw \<Rightarrow> ('b, 's) fw option" where
  "core_match e (SetBacklight p d ofs) s = Some (on_set_backlight p d ofs s)"
| "core_match e (SetAppList apps) s = on_set_app_list e apps s"
| "core_match e (SetAppIcon i px) s = on_set_app_icon e i px s"
| "core_match e (SetSelectedApp i) s = on_set_selected_app e i s"
| "core_match e (SetVolume i v) s = on_set_volume e i v s"
| "core_match e (SetMute i m) s = on_set_mute e i m s"
| "core_match e _ s = Some s"

fun core_store :: "('b, 's) fw_env \<Rightarrow> host_to_device \<Rightarrow> ('b, 's) fw \<Rightarrow> ('b, 's) fw" where
  "core_store e (SetWifiConfig sid pw) s =
     (case nvs_save (en_flash e) (fw_flash s) \<lparr>cr_ssid = sid, cr_password = pw\<rparr> of
        (fl, saved) \<Rightarrow> if saved \<and> fw_wifi_periph s then s\<lparr>fw_flash := fl, fw_wifi_periph := False\<rparr>
                        else s\<lparr>fw_flash := fl\<rparr>)"
| "core_store e _ s = s"

definition core_handle :: "('b, 's) fw_env \<Rightarrow> host_to_device \<Rightarrow> ('b, 's) fw \<Rightarrow> ('b, 's) fw option" where
  "core_handle e msg s = do {
     s \<leftarrow> core_match e msg (s\<lparr>fw_last_host_tick := fw_loop_tick s\<rparr>);
     s \<leftarrow> fw_flush_if_needed s;
     Some (core_store e msg s)
   }"

lemma relink_core: "core_match e msg (relink l s) = map_option (relink l) (core_match e msg s)"
  by (cases msg) (simp_all add: relink_arms relink_volume)

lemma relink_tell:
  "tell_usb e m s = Some s' \<Longrightarrow> relink l s' = relink l s"
  "tell_wifi e m s = Some s' \<Longrightarrow> relink l s' = relink l s"
  by (auto dest!: call_frames)

lemma relink_store: "relink l (core_store e msg s) = core_store e msg (relink l s)"
  by (cases msg) (simp_all split: prod.splits)

lemma flush_store: "fw_flush_if_needed (core_store e msg s) = map_option (core_store e msg) (fw_flush_if_needed s)"
  by (cases msg) (simp_all add: fw_flush_if_needed_def fw_flush_def map_option_bind split: prod.splits option.splits sum.splits)

lemma usb_match_core:
  assumes "usb_match e msg s = Some (s', ack)"
  shows "\<exists>t. core_match e msg s = Some t \<and> relink l s' = relink l (core_store e msg t)"
  using assms
  by (cases msg) (auto simp: fw_init_wifi_def dest!: relink_tell [of _ _ _ _ l]
      split: Option.bind_splits prod.splits bool.splits if_splits)

lemma wifi_match_core:
  assumes "wifi_match e msg s = Some (s', ack, pending)"
  shows "\<exists>t. core_match e msg s = Some t \<and> relink l s' = relink l t"
  using assms
  by (cases msg) (auto dest!: relink_tell [of _ _ _ _ l] split: Option.bind_splits prod.splits)

lemma wifi_match_pending:
  "wifi_match e msg s = Some (s', ack, pending) \<Longrightarrow>
   pending = (case msg of SetWifiConfig sid pw \<Rightarrow> Some \<lparr>cr_ssid = sid, cr_password = pw\<rparr> | _ \<Rightarrow> None)"
  by (cases msg) (auto split: Option.bind_splits)

lemma wifi_store_core:
  "wifi_store e \<lparr>cr_ssid = sid, cr_password = pw\<rparr> s = Some s' \<Longrightarrow>
   relink l s' = relink l (core_store e (SetWifiConfig sid pw) s)"
  unfolding wifi_store_def
  by (auto simp: fw_init_wifi_def dest!: relink_tell [of _ _ _ _ l] split: prod.splits bool.splits if_splits)

lemma core_handleI:
  assumes "relink l s1 = relink l (s\<lparr>fw_last_host_tick := fw_loop_tick s\<rparr>)"
    and "core_match e msg s1 = Some t" "fw_flush_if_needed (relink l t) = Some t'"
  shows "core_handle e msg (relink l s) = Some (core_store e msg t')"
proof -
  have "core_match e msg (relink l (s\<lparr>fw_last_host_tick := fw_loop_tick s\<rparr>)) = Some (relink l t)"
    unfolding assms(1) [symmetric] relink_core assms(2) by simp
  then show ?thesis using assms(3) by (simp add: core_handle_def)
qed

lemma ready_core:
  "(if \<not> fw_ready_sent s then do { s \<leftarrow> tell_usb e m s; Some (s\<lparr>fw_ready_sent := True\<rparr>) } else Some s) = Some s1 \<Longrightarrow>
   relink l s1 = relink l s"
  "(if \<not> fw_wifi_ready_sent s then do { s \<leftarrow> tell_wifi e m s; Some (s\<lparr>fw_wifi_ready_sent := True\<rparr>) } else Some s) = Some s1 \<Longrightarrow>
   relink l s1 = relink l s"
  by (auto dest!: relink_tell [of _ _ _ _ l] split: if_splits Option.bind_splits)

lemma handle_usb_core:
  assumes "handle_usb e msg s = Some s'"
  shows "core_handle e msg (relink l s) = Some (relink l s')"
proof -
  let ?s0 = "s\<lparr>fw_last_host_tick := fw_loop_tick s\<rparr>"
  obtain s1 s2 ack s3 where s1: "(if \<not> fw_ready_sent ?s0 then do {
             s \<leftarrow> tell_usb e (Ready protocol_version) ?s0; Some (s\<lparr>fw_ready_sent := True\<rparr>) } else Some ?s0) = Some s1"
    and s2: "usb_match e msg s1 = Some (s2, ack)" and s3: "fw_flush_if_needed s2 = Some s3"
    and s': "(if ack then tell_usb e Ack s3 else Some s3) = Some s'"
    using assms unfolding handle_usb_def Let_def by (auto split: Option.bind_splits prod.splits)
  obtain t where t: "core_match e msg s1 = Some t" "relink l s2 = relink l (core_store e msg t)"
    using usb_match_core [OF s2] by blast
  have "fw_flush_if_needed (relink l (core_store e msg t)) = Some (relink l s3)"
    unfolding t(2) [symmetric] relink_flush_if s3 by simp
  then obtain t' where t': "fw_flush_if_needed (relink l t) = Some t'" "core_store e msg t' = relink l s3"
    by (auto simp: relink_store flush_store)
  moreover have "relink l s' = relink l s3" using s' by (auto dest: relink_tell split: if_splits)
  ultimately show ?thesis using core_handleI [OF ready_core(1) [OF s1] t(1) t'(1)] by simp
qed

lemma handle_wifi_core:
  assumes "handle_wifi e msg s = Some s'"
  shows "core_handle e msg (relink l s) = Some (relink l s')"
proof -
  let ?s0 = "s\<lparr>fw_last_host_tick := fw_loop_tick s\<rparr>"
  obtain s1 s2 ack p s3 s4 where s1: "(if \<not> fw_wifi_ready_sent ?s0 then do {
             s \<leftarrow> tell_wifi e (Ready protocol_version) ?s0; Some (s\<lparr>fw_wifi_ready_sent := True\<rparr>) } else Some ?s0) = Some s1"
    and s2: "wifi_match e msg s1 = Some (s2, ack, p)" and s3: "fw_flush_if_needed s2 = Some s3"
    and s4: "(if ack then tell_wifi e Ack s3 else Some s3) = Some s4"
    and s': "(case p of None \<Rightarrow> Some s4 | Some creds \<Rightarrow> wifi_store e creds s4) = Some s'"
    using assms unfolding handle_wifi_def Let_def by (auto split: Option.bind_splits prod.splits)
  obtain t where t: "core_match e msg s1 = Some t" "relink l s2 = relink l t"
    using wifi_match_core [OF s2] by blast
  have "fw_flush_if_needed (relink l t) = Some (relink l s3)"
    unfolding t(2) [symmetric] relink_flush_if s3 by simp
  moreover have "relink l s4 = relink l s3" using s4 by (auto dest: relink_tell split: if_splits)
  moreover have "relink l s' = relink l (core_store e msg s4)"
    using s' wifi_match_pending [OF s2] by (cases msg) (auto simp del: core_store.simps(1) intro: wifi_store_core)
  ultimately show ?thesis using core_handleI [OF ready_core(2) [OF s1] t(1)] by (simp add: relink_store)
qed

section \<open>Turning the carousel\<close>

fun swipe :: "('b, 's) fw_env \<Rightarrow> bool \<Rightarrow> ('b, 's) fw \<Rightarrow> ('b, 's) fw option" where
  "swipe e True s = swipe_right e s"
| "swipe e False s = swipe_left e s"

definition net_turn :: "bool list \<Rightarrow> int" where
  "net_turn ds = (\<Sum>right\<leftarrow>ds. if right then 1 else - 1)"

lemma ca_turn_turn: "ca_turn d (ca_turn d' c) = ca_turn (d' + d) c"
proof (cases "ca_apps c = []")
  case False
  then have n: "0 < int (length (ca_apps c))" by simp
  have "int (nat ((int (ca_idx c) + d') mod int (length (ca_apps c)))) = (int (ca_idx c) + d') mod int (length (ca_apps c))"
    using n by simp
  then show ?thesis using False by (simp add: ca_turn_def Let_def mod_simps add.assoc)
qed (simp add: ca_turn_def)

context linked_firmware
begin

lemma fine_swipes: "fw_ok s \<Longrightarrow> fine s (swipe e d s)"
  for s :: "('b, 's) fw"
proof -
  assume ok: "fw_ok s"
  then have "fw_apps s \<noteq> [] \<Longrightarrow> fine s (swipe_to e (k mod length (fw_apps s)) s)" for k
    by (intro fine_swipe) simp_all
  with ok show ?thesis by (cases d) (auto simp: swipe_right_def swipe_left_def intro: fine_Some)
qed

lemma swipes_abs:
  assumes "fw_ok s" "ds \<noteq> []"
  shows "\<exists>s'. fold_opt (swipe e) ds s = Some s' \<and> fw_ok s' \<and> abs_fw s' = ca_turn (net_turn ds) (abs_fw s)"
  using assms(2)
proof (induction ds rule: rev_nonempty_induct)
  case (single d)
  obtain s' where "swipe e d s = Some s'" "fw_ok s'" using fine_swipes [OF assms(1), of d] by (rule fineE)
  moreover have "fw_apps s = [] \<or> fw_selected_idx s < length (fw_apps s)" using assms(1) by (auto simp: fw_ok_def sel_ok_def)
  ultimately show ?case using swipe_abs [of s e s'] by (cases d) (auto simp: net_turn_def)
next
  case (snoc d ds)
  then obtain s1 where s1: "fold_opt (swipe e) ds s = Some s1" "fw_ok s1" "abs_fw s1 = ca_turn (net_turn ds) (abs_fw s)"
    by blast
  obtain s' where "swipe e d s1 = Some s'" "fw_ok s'" using fine_swipes [OF s1(2), of d] by (rule fineE)
  moreover have "fw_apps s1 = [] \<or> fw_selected_idx s1 < length (fw_apps s1)" using s1(2) by (auto simp: fw_ok_def sel_ok_def)
  ultimately show ?case
    using swipe_abs [of s1 e s'] s1 by (cases d) (auto simp: net_turn_def fold_opt_append ca_turn_turn)
qed

end

section \<open>Properties\<close>

text \<open>
  C2. Both message handlers and both swipes refine the abstract carousel: from every state the
  main loop reaches, handling any message returns and changes list, selection, index, icon,
  volume and mute exactly as the specification says, over USB and over WiFi; a swipe turns the
  carousel by one place.
\<close>

theorem handlers_refine_carousel:
  assumes "env_ok e" "fw_reach e s"
  shows "(\<exists>s'. handle_usb e msg s = Some s' \<and> abs_fw s' = ca_host msg (abs_fw s)) \<and>
    (\<exists>s'. handle_wifi e msg s = Some s' \<and> abs_fw s' = ca_host msg (abs_fw s)) \<and>
    (\<exists>s'. swipe_right e s = Some s' \<and> abs_fw s' = ca_turn 1 (abs_fw s)) \<and>
    (\<exists>s'. swipe_left e s = Some s' \<and> abs_fw s' = ca_turn (- 1) (abs_fw s))"
proof -
  note linked = linked_firmware.intro [OF assms(1)]
  have ok: "fw_ok s" by (rule fw_reach_ok [OF assms])
  then have idx: "fw_apps s = [] \<or> fw_selected_idx s < length (fw_apps s)" by (auto simp: fw_ok_def sel_ok_def)
  show ?thesis
    using linked_firmware.fine_handle_usb [OF linked ok, of msg] linked_firmware.fine_handle_wifi [OF linked ok, of msg]
      linked_firmware.fine_swipes [OF linked ok, of True] linked_firmware.fine_swipes [OF linked ok, of False]
    by (auto elim!: fineE dest: handle_usb_abs handle_wifi_abs swipe_abs [OF idx])
qed

theorem handlers_refine_carousel_witness:
  "\<exists>s s'. fw_boot lab_env lab_bus (lab_jtag [] (\<lambda>_. True)) lab_i2c [] None = Some s \<and>
     handle_usb lab_env (SetVolume 7 55) s = Some s' \<and> abs_fw s' = ca_host (SetVolume 7 55) (abs_fw s)"
proof -
  obtain s where s: "fw_boot lab_env lab_bus (lab_jtag [] (\<lambda>_. True)) lab_i2c [] None = Some s" "fw_reach lab_env s"
    by (rule lab_boot)
  with handlers_refine_carousel [OF lab_env_ok s(2), of "SetVolume 7 55"] show ?thesis by blast
qed

text \<open>
  C18. The two transports are interchangeable: handled over USB or over WiFi, a message leaves the
  same state behind (apps, screen, panel, backlight, haptics, flash, pending flush), the links
  and their greeting flags apart.
\<close>

theorem handlers_agree:
  assumes "handle_usb e msg s = Some s1" "handle_wifi e msg s = Some s2"
  shows "s1\<lparr>fw_usb := fw_usb s2, fw_wifi := fw_wifi s2, fw_ready_sent := fw_ready_sent s2,
    fw_wifi_ready_sent := fw_wifi_ready_sent s2\<rparr> = s2"
proof -
  let ?l = "(fw_usb s2, fw_wifi s2, fw_ready_sent s2, fw_wifi_ready_sent s2)"
  have "relink ?l s1 = relink ?l s2"
    using handle_usb_core [OF assms(1), of ?l] handle_wifi_core [OF assms(2), of ?l] by simp
  then show ?thesis by (simp add: relink.simps)
qed

theorem handlers_agree_witness:
  "\<exists>s s1 s2. fw_boot lab_env lab_bus (lab_jtag [] (\<lambda>_. True)) lab_i2c [] None = Some s \<and>
     handle_usb lab_env (SetWifiConfig [104] [112]) s = Some s1 \<and>
     handle_wifi lab_env (SetWifiConfig [104] [112]) s = Some s2 \<and> fw_flash s1 = fw_flash s2"
proof -
  obtain s where s: "fw_boot lab_env lab_bus (lab_jtag [] (\<lambda>_. True)) lab_i2c [] None = Some s" "fw_reach lab_env s"
    by (rule lab_boot)
  have ok: "fw_ok s" by (rule fw_reach_ok [OF lab_env_ok s(2)])
  obtain s1 s2 where h: "handle_usb lab_env (SetWifiConfig [104] [112]) s = Some s1"
    "handle_wifi lab_env (SetWifiConfig [104] [112]) s = Some s2"
    using lab.fine_handle_usb [OF ok] lab.fine_handle_wifi [OF ok] unfolding fine_def by blast
  have "fw_flash s1 = fw_flash s2" using arg_cong [OF handlers_agree [OF h], of fw_flash] by simp
  with s(1) h show ?thesis by blast
qed

text \<open>
  The carousel closes: from every state in the invariant of the main loop, after any series of swipes over a list of \<open>n\<close> apps the index is the
  old one plus right minus left swipes, modulo \<open>n\<close> (so \<open>n\<close> swipes one way, or a swipe and its
  opposite, return), the list is untouched, and the app there is the one selected, with its own
  volume and mute state shown and no icon left over.
\<close>

theorem carousel_walk:
  assumes "env_ok e" "fw_ok s" "fw_apps s \<noteq> []" "ds \<noteq> []"
  shows "\<exists>s' app. fold_opt (swipe e) ds s = Some s' \<and> fw_apps s' = fw_apps s \<and>
    fw_selected_idx s' = nat ((int (fw_selected_idx s) + net_turn ds) mod int (length (fw_apps s))) \<and>
    app = fw_apps s ! fw_selected_idx s' \<and> fw_selected_app s' = Some (ai_id app) \<and>
    fw_volume s' = ai_volume app \<and> fw_muted s' = ai_muted app \<and> fw_icon s' = []"
proof -
  obtain s' where "fold_opt (swipe e) ds s = Some s'" "abs_fw s' = ca_turn (net_turn ds) (abs_fw s)"
    using linked_firmware.swipes_abs [OF linked_firmware.intro [OF assms(1)] assms(2,4)] by blast
  with assms(3) show ?thesis by (auto simp: abs_fw_def ca_turn_def Let_def)
qed

definition lab_apps :: "app_info list" where
  "lab_apps = [\<lparr>ai_id = 7, ai_name = [], ai_volume = 10, ai_muted = False\<rparr>,
     \<lparr>ai_id = 9, ai_name = [], ai_volume = 20, ai_muted = True\<rparr>, \<lparr>ai_id = 8, ai_name = [], ai_volume = 30, ai_muted = True\<rparr>]"

lemma lab_with_apps:
  obtains s :: "(reg_file, u8 list) fw" where "fw_ok s" "fw_apps s = lab_apps" "fw_selected_idx s = 0" "fw_selected_app s = Some 7"
proof -
  obtain s0 where s0: "fw_boot lab_env lab_bus (lab_jtag [] (\<lambda>_. True)) lab_i2c [] None = Some s0" "fw_reach lab_env s0"
    by (rule lab_boot)
  obtain s1 where s1: "handle_usb lab_env (SetAppList lab_apps) s0 = Some s1" "fw_ok s1"
    using lab.fine_handle_usb [OF fw_reach_ok [OF lab_env_ok s0(2)]] by (rule fineE)
  obtain s2 where s2: "handle_usb lab_env (SetSelectedApp 7) s1 = Some s2" "fw_ok s2"
    using lab.fine_handle_usb [OF s1(2)] by (rule fineE)
  have "ca_apps (abs_fw s1) = lab_apps"
    unfolding handle_usb_abs [OF s1(1)] by (simp add: ca_select_def Let_def split: option.splits)
  then have "ca_apps (abs_fw s2) = lab_apps \<and> ca_idx (abs_fw s2) = 0 \<and> ca_selected (abs_fw s2) = Some 7"
    unfolding handle_usb_abs [OF s2(1)]
    by (simp add: ca_select_def Let_def index_of_def lab_apps_def split: option.splits)
  with s2(2) that show thesis by (simp add: abs_fw_def)
qed

theorem carousel_walk_witness:
  "\<exists>(s :: (reg_file, u8 list) fw) s'. fw_ok s \<and> fold_opt (swipe lab_env) [True, False, False] s = Some s' \<and>
     fw_selected_idx s' = 2 \<and> fw_selected_app s' = Some 8 \<and> fw_volume s' = 30"
proof -
  obtain s :: "(reg_file, u8 list) fw" where s: "fw_ok s" "fw_apps s = lab_apps" "fw_selected_idx s = 0"
    "fw_selected_app s = Some 7" by (rule lab_with_apps)
  have "fw_apps s \<noteq> []" by (simp add: s(2) lab_apps_def)
  from carousel_walk [OF lab_env_ok s(1) this, of "[True, False, False]"] s show ?thesis
    by (auto simp: lab_apps_def net_turn_def)
qed

end
