(* ===== verification/Firmware_Protocol.thy ===== *)
theory Firmware_Protocol
  imports App_State
begin

text \<open>
  What a host message does at the borders of the firmware (\<open>firmware/src/main.rs\<close>, lines 690 to
  959): the frames that answer it on the link it came in on, and what is on the panel by the time
  the answer goes out.
\<close>

section \<open>Replies\<close>

definition usb_says :: "device_to_host wire_lib \<Rightarrow> device_to_host list \<Rightarrow> usb_serial \<Rightarrow> usb_serial option" where
  "usb_says W ms u = fold_opt (\<lambda>m u. map_option fst (usb_send W u m)) ms u"

definition wifi_says :: "device_to_host wire_lib \<Rightarrow> device_to_host list \<Rightarrow> wifi_tcp option \<Rightarrow> wifi_tcp option option" where
  "wifi_says W ms w = (case w of None \<Rightarrow> Some None
     | Some w \<Rightarrow> map_option Some (fold_opt (\<lambda>m w. wifi_send W w m) ms w))"

text \<open>\<open>save\<close> succeeded but the radio is running already: the credentials wait for a reboot.\<close>

definition reboot_due :: "('b, 's) fw_env \<Rightarrow> str \<Rightarrow> str \<Rightarrow> ('b, 's) fw \<Rightarrow> bool" where
  "reboot_due e sid pw s \<longleftrightarrow>
     snd (nvs_save (en_flash e) (fw_flash s) \<lparr>cr_ssid = sid, cr_password = pw\<rparr>) \<and> \<not> fw_wifi_periph s"

definition reboot_notice :: device_to_host where
  "reboot_notice = WifiStatus False (ascii ''REBOOT'')"

fun usb_reply :: "('b, 's) fw_env \<Rightarrow> host_to_device \<Rightarrow> ('b, 's) fw \<Rightarrow> device_to_host" where
  "usb_reply e Ping s = Pong"
| "usb_reply e (EchoReq bs) s = Echo bs"
| "usb_reply e GetWifiStatus s = wifi_status s"
| "usb_reply e (SetWifiConfig sid pw) s = (if reboot_due e sid pw s then reboot_notice else Ack)"
| "usb_reply e _ s = Ack"

fun wifi_replies :: "('b, 's) fw_env \<Rightarrow> host_to_device \<Rightarrow> ('b, 's) fw \<Rightarrow> device_to_host list" where
  "wifi_replies e (SetWifiConfig sid pw) s = (if reboot_due e sid pw s then [Ack, reboot_notice] else [Ack])"
| "wifi_replies e msg s = [usb_reply e msg s]"

definition greeting :: "bool \<Rightarrow> device_to_host list" where
  "greeting sent = (if sent then [] else [Ready protocol_version])"

lemma usb_says_simps [simp]:
  "usb_says W [] u = Some u"
  "usb_says W (m # ms) u = Option.bind (map_option fst (usb_send W u m)) (usb_says W ms)"
  by (simp_all add: usb_says_def split: option.splits Option.bind_splits)

lemma usb_says_append: "usb_says W (ms @ ns) u = Option.bind (usb_says W ms u) (usb_says W ns)"
  by (simp add: usb_says_def fold_opt_append split: option.splits Option.bind_splits)

lemma tell_usb_sends:
  "tell_usb e m s = Some s' \<Longrightarrow> \<exists>u r. usb_send (en_dev e) (fw_usb s) m = Some (u, r) \<and> s' = s\<lparr>fw_usb := u\<rparr>"
  by (auto simp: tell_usb_def split: Option.bind_splits)

lemma tell_usb_says: "tell_usb e m s = Some s' \<Longrightarrow> usb_says (en_dev e) [m] (fw_usb s) = Some (fw_usb s')"
  by (auto simp: tell_usb_def split: Option.bind_splits)

lemma wifi_says_append: "wifi_says W (ms @ ns) w = Option.bind (wifi_says W ms w) (wifi_says W ns)"
  by (auto simp: wifi_says_def fold_opt_append map_option_bind bind_map_option split: option.splits Option.bind_splits)

lemma wifi_says_Nil [simp]: "wifi_says W [] w = Some w"
  by (simp add: wifi_says_def split: option.splits)

lemma tell_wifi_says: "tell_wifi e m s = Some s' \<Longrightarrow> wifi_says (en_dev e) [m] (fw_wifi s) = Some (fw_wifi s')"
  by (auto simp: tell_wifi_def wifi_says_def split: Option.bind_splits option.splits)

text \<open>The handlers' arms leave the links alone.\<close>

definition links_of :: "('b, 's) fw \<Rightarrow> link_part" where
  "links_of s = (fw_usb s, fw_wifi s, fw_ready_sent s, fw_wifi_ready_sent s)"

lemma relink_self [simp]: "relink (links_of s) s = s"
  by (simp add: links_of_def relink.simps)

lemma links_relink [simp]: "links_of (relink l s) = l"
  by (cases l rule: prod_cases4) (simp add: links_of_def relink.simps)

lemma links_arms:
  "on_set_app_list e apps s = Some s' \<Longrightarrow> links_of s' = links_of s"
  "on_set_app_icon e i px s = Some s' \<Longrightarrow> links_of s' = links_of s"
  "on_set_selected_app e i s = Some s' \<Longrightarrow> links_of s' = links_of s"
  "on_set_volume e i v s = Some s' \<Longrightarrow> links_of s' = links_of s"
  "on_set_mute e i m s = Some s' \<Longrightarrow> links_of s' = links_of s"
  "fw_flush_if_needed s = Some s' \<Longrightarrow> links_of s' = links_of s"
  using relink_arms(2) [of e apps "links_of s" s] relink_arms(3) [of e i px "links_of s" s]
    relink_arms(4) [of e i "links_of s" s] relink_arms(5) [of e i m "links_of s" s]
    relink_volume [of e i v "links_of s" s] relink_flush_if [of "links_of s" s]
  by (metis relink_self links_relink option.map(2) option.inject)+

lemma links_backlight [simp]: "links_of (on_set_backlight p d ofs s) = links_of s"
  by (simp add: links_of_def on_set_backlight_def)

lemma links_ofD:
  "links_of s' = links_of s \<Longrightarrow> fw_usb s' = fw_usb s \<and> fw_wifi s' = fw_wifi s \<and>
   fw_ready_sent s' = fw_ready_sent s \<and> fw_wifi_ready_sent s' = fw_wifi_ready_sent s"
  by (simp add: links_of_def)

lemmas arms_links = links_arms [THEN links_ofD]

lemma usb_match_says:
  assumes "usb_match e msg s = Some (s', ack)"
  shows "usb_says (en_dev e) (if ack then [] else [usb_reply e msg s]) (fw_usb s) = Some (fw_usb s') \<and>
    (ack \<longrightarrow> usb_reply e msg s = Ack) \<and> fw_ready_sent s' = fw_ready_sent s"
  using assms
  by (cases msg) (auto simp: reboot_due_def reboot_notice_def fw_init_wifi_def on_set_backlight_def dest: arms_links
      dest!: tell_usb_sends split: Option.bind_splits prod.splits bool.splits if_splits)

lemma usb_reply_update [simp]:
  "usb_reply e msg (s\<lparr>fw_usb := u\<rparr>) = usb_reply e msg s"
  "usb_reply e msg (s\<lparr>fw_ready_sent := r\<rparr>) = usb_reply e msg s"
  "usb_reply e msg (s\<lparr>fw_wifi_ready_sent := r\<rparr>) = usb_reply e msg s"
  "usb_reply e msg (s\<lparr>fw_last_host_tick := lt\<rparr>) = usb_reply e msg s"
  by (cases msg; simp add: reboot_due_def wifi_status_def connected_ip_of_def)+

lemma handle_usb_says:
  assumes "handle_usb e msg s = Some s'"
  shows "usb_says (en_dev e) (greeting (fw_ready_sent s) @ [usb_reply e msg s]) (fw_usb s) = Some (fw_usb s') \<and>
    fw_ready_sent s'"
proof -
  let ?s0 = "s\<lparr>fw_last_host_tick := fw_loop_tick s\<rparr>"
  obtain s1 s2 ack s3 where s1: "(if \<not> fw_ready_sent ?s0 then do {
             s \<leftarrow> tell_usb e (Ready protocol_version) ?s0; Some (s\<lparr>fw_ready_sent := True\<rparr>) } else Some ?s0) = Some s1"
    and s2: "usb_match e msg s1 = Some (s2, ack)" and s3: "fw_flush_if_needed s2 = Some s3"
    and s': "(if ack then tell_usb e Ack s3 else Some s3) = Some s'"
    using assms unfolding handle_usb_def Let_def by (auto split: Option.bind_splits prod.splits)
  have "usb_says (en_dev e) (greeting (fw_ready_sent s)) (fw_usb s) = Some (fw_usb s1) \<and> fw_ready_sent s1 \<and>
      usb_reply e msg s1 = usb_reply e msg s"
    using s1 by (auto simp: greeting_def dest!: tell_usb_sends split: if_splits Option.bind_splits)
  moreover have "usb_says (en_dev e) [usb_reply e msg s1] (fw_usb s1) = Some (fw_usb s') \<and> fw_ready_sent s' = fw_ready_sent s1"
    using usb_match_says [OF s2] arms_links(6) [OF s3] s'
    by (auto dest!: tell_usb_sends split: if_splits)
  ultimately show ?thesis by (auto simp: usb_says_append)
qed

lemma tell_wifi_sends:
  "tell_wifi e m s = Some s' \<Longrightarrow> wifi_says (en_dev e) [m] (fw_wifi s) = Some (fw_wifi s') \<and>
   (\<exists>w. s' = s\<lparr>fw_wifi := w\<rparr>)"
  by (simp add: tell_wifi_says tell_wifi_frame)

lemma wifi_match_says:
  assumes "wifi_match e msg s = Some (s', ack, p)"
  shows "wifi_says (en_dev e) (if ack then [] else [usb_reply e msg s]) (fw_wifi s) = Some (fw_wifi s') \<and>
    (ack \<longrightarrow> hd (wifi_replies e msg s) = Ack) \<and> fw_wifi_ready_sent s' = fw_wifi_ready_sent s \<and>
    (\<not> ack \<longrightarrow> wifi_replies e msg s = [usb_reply e msg s]) \<and>
    (case p of None \<Rightarrow> tl (wifi_replies e msg s) = []
     | Some c \<Rightarrow> s' = s \<and> ack \<and> msg = SetWifiConfig (cr_ssid c) (cr_password c))"
  using assms
  by (cases msg) (auto simp: on_set_backlight_def dest: arms_links
      dest!: tell_wifi_sends split: Option.bind_splits)

lemma wifi_store_says:
  assumes "wifi_store e c s = Some s'" "\<not> fw_wifi_periph s"
  shows "wifi_says (en_dev e) (if reboot_due e (cr_ssid c) (cr_password c) s then [reboot_notice] else []) (fw_wifi s) =
    Some (fw_wifi s') \<and> fw_wifi_ready_sent s' = fw_wifi_ready_sent s"
  using assms unfolding wifi_store_def
  by (cases c) (auto simp: reboot_due_def reboot_notice_def dest!: tell_wifi_sends split: prod.splits bool.splits if_splits)

lemma flush_if_needed_frame:
  "fw_flush_if_needed s = Some s' \<Longrightarrow> s' = s \<or> (\<exists>d. s' = s\<lparr>fw_display := d, fw_needs_flush := False\<rparr>)"
  unfolding fw_flush_if_needed_def
  by (auto dest!: fw_flush_frame split: if_splits Option.bind_splits)

lemma tell_wifi_status: "tell_wifi e m s = Some s' \<Longrightarrow> wifi_status s' = wifi_status s"
  by (auto simp: tell_wifi_def wifi_send_def wifi_status_def connected_ip_of_def Let_def
      split: Option.bind_splits option.splits if_splits sum.splits)

lemma wifi_replies_cong:
  "wifi_status s' = wifi_status s \<Longrightarrow> fw_flash s' = fw_flash s \<Longrightarrow> fw_wifi_periph s' = fw_wifi_periph s \<Longrightarrow>
   wifi_replies e msg s' = wifi_replies e msg s"
  by (cases msg) (simp_all add: reboot_due_def)

lemma wifi_replies_nonempty: "wifi_replies e msg s \<noteq> []"
  by (cases msg) simp_all

lemma wifi_status_update [simp]:
  "wifi_status (s\<lparr>fw_wifi_ready_sent := r\<rparr>) = wifi_status s" "wifi_status (s\<lparr>fw_last_host_tick := lt\<rparr>) = wifi_status s"
  by (simp_all add: wifi_status_def connected_ip_of_def)

lemma handle_wifi_says:
  assumes "handle_wifi e msg s = Some s'" "\<not> fw_wifi_periph s"
  shows "wifi_says (en_dev e) (greeting (fw_wifi_ready_sent s) @ wifi_replies e msg s) (fw_wifi s) = Some (fw_wifi s') \<and>
    fw_wifi_ready_sent s'"
proof -
  let ?s0 = "s\<lparr>fw_last_host_tick := fw_loop_tick s\<rparr>"
  obtain s1 s2 ack p s3 s4 where s1: "(if \<not> fw_wifi_ready_sent ?s0 then do {
             s \<leftarrow> tell_wifi e (Ready protocol_version) ?s0; Some (s\<lparr>fw_wifi_ready_sent := True\<rparr>) } else Some ?s0) = Some s1"
    and s2: "wifi_match e msg s1 = Some (s2, ack, p)" and s3: "fw_flush_if_needed s2 = Some s3"
    and s4: "(if ack then tell_wifi e Ack s3 else Some s3) = Some s4"
    and s': "(case p of None \<Rightarrow> Some s4 | Some creds \<Rightarrow> wifi_store e creds s4) = Some s'"
    using assms unfolding handle_wifi_def Let_def by (auto split: Option.bind_splits prod.splits)
  have "wifi_status s1 = wifi_status s"
    using s1 by (auto dest!: tell_wifi_status split: if_splits Option.bind_splits)
  moreover have hello: "wifi_says (en_dev e) (greeting (fw_wifi_ready_sent s)) (fw_wifi s) = Some (fw_wifi s1)"
      "fw_wifi_ready_sent s1" "fw_wifi_periph s1 = fw_wifi_periph s" "fw_flash s1 = fw_flash s"
    using s1 by (auto simp: greeting_def dest!: tell_wifi_sends split: if_splits Option.bind_splits)
  ultimately have replies: "wifi_replies e msg s1 = wifi_replies e msg s" by (intro wifi_replies_cong)
  note says2 = wifi_match_says [OF s2]
  have s3': "fw_wifi s3 = fw_wifi s2" "fw_wifi_ready_sent s3 = fw_wifi_ready_sent s2"
    "fw_flash s3 = fw_flash s2" "fw_wifi_periph s3 = fw_wifi_periph s2"
    using flush_if_needed_frame [OF s3] by auto
  have "wifi_says (en_dev e) (wifi_replies e msg s1) (fw_wifi s1) = Some (fw_wifi s') \<and>
      fw_wifi_ready_sent s' = fw_wifi_ready_sent s1"
  proof (cases p)
    case None
    show ?thesis
    proof (cases ack)
      case True
      then have "wifi_replies e msg s1 = [Ack]"
        using says2 None wifi_replies_nonempty [of e msg s1] by (cases "wifi_replies e msg s1") auto
      then show ?thesis using says2 s3' s4 s' None True by (auto dest!: tell_wifi_sends)
    next
      case False
      then show ?thesis using says2 s3' s4 s' None by auto
    qed
  next
    case (Some c)
    then have c: "s2 = s1" "ack" "msg = SetWifiConfig (cr_ssid c) (cr_password c)" using says2 by auto
    have s4': "wifi_says (en_dev e) [Ack] (fw_wifi s1) = Some (fw_wifi s4)" "fw_wifi_ready_sent s4 = fw_wifi_ready_sent s1"
      "fw_flash s4 = fw_flash s1" "fw_wifi_periph s4 = fw_wifi_periph s1"
      using s4 s3' c by (auto dest!: tell_wifi_sends)
    then have "\<not> fw_wifi_periph s4" using hello(3) assms(2) by simp
    moreover have "wifi_store e c s4 = Some s'" using s' Some by simp
    moreover have "reboot_due e (cr_ssid c) (cr_password c) s4 = reboot_due e (cr_ssid c) (cr_password c) s1"
      by (simp add: reboot_due_def s4')
    ultimately show ?thesis
      using wifi_store_says [of e c s4 s'] s4' wifi_says_append [of "en_dev e" "[Ack]" "[reboot_notice]"] c(3)
      by (auto split: if_splits)
  qed
  then show ?thesis using hello replies by (simp add: wifi_says_append)
qed

text \<open>A handler leaves the other link alone, unless it starts the radio.\<close>

lemma handle_usb_wifi:
  assumes "handle_usb e msg s = Some s'" "\<not> fw_wifi_periph s"
  shows "fw_wifi s' = fw_wifi s"
proof -
  have m: "fw_wifi t' = fw_wifi t" if "usb_match e msg t = Some (t', ack)" "\<not> fw_wifi_periph t" for t t' ack
    using that by (cases msg) (auto simp: on_set_backlight_def dest: arms_links
      dest!: tell_usb_sends split: Option.bind_splits prod.splits bool.splits if_splits)
  show ?thesis
    using assms unfolding handle_usb_def Let_def
    by (auto dest!: tell_usb_sends m flush_if_needed_frame split: Option.bind_splits prod.splits if_splits)
qed

lemma handle_wifi_usb:
  assumes "handle_wifi e msg s = Some s'"
  shows "fw_usb s' = fw_usb s"
proof -
  have m: "fw_usb t' = fw_usb t" if "wifi_match e msg t = Some (t', ack, p)" for t t' ack p
    using that by (cases msg) (auto simp: on_set_backlight_def dest: arms_links
      dest!: tell_wifi_frame split: Option.bind_splits)
  have st: "fw_usb t' = fw_usb t" if "wifi_store e c t = Some t'" for t t' c
    using that by (auto simp: wifi_store_def fw_init_wifi_def dest!: tell_wifi_frame split: prod.splits bool.splits if_splits)
  show ?thesis
    using assms unfolding handle_wifi_def Let_def
    by (auto dest!: tell_wifi_frame m st flush_if_needed_frame split: Option.bind_splits prod.splits if_splits option.splits)
qed

section \<open>The panel\<close>

text \<open>The panel, fed everything the bus has carried so far, shows the framebuffer.\<close>

definition panel_shows :: "panel \<Rightarrow> display \<Rightarrow> bool" where
  "panel_shows P d \<longleftrightarrow> (\<forall>r c. r < display_height \<longrightarrow> c < display_width \<longrightarrow>
     gram (panel_sees P d) r c = fb_pixel (framebuffer d) r c)"

lemma flush_shows: "bus_ok d \<Longrightarrow> length (framebuffer d) = fb_size \<Longrightarrow> flush d = Some (d', Inr ()) \<Longrightarrow> panel_shows P d'"
  using panel_bands [of 359 "framebuffer d"]
  by (auto simp: panel_shows_def flush_ok panel_sees_sent panel_run_append display_sizes)

text \<open>The messages that redraw part of the screen, and the one that brings the panel up to date itself.\<close>

fun redraws :: "host_to_device \<Rightarrow> ('b, 's) fw \<Rightarrow> bool" where
  "redraws (SetAppList apps) s = True"
| "redraws (SetSelectedApp i) s = True"
| "redraws (SetAppIcon i px) s = (fw_selected_app s = Some i)"
| "redraws (SetMute i m) s = (fw_selected_app s = Some i)"
| "redraws _ s = False"

fun volume_shown :: "host_to_device \<Rightarrow> ('b, 's) fw \<Rightarrow> bool" where
  "volume_shown (SetVolume i v) s = (fw_selected_app s = Some i)"
| "volume_shown _ s = False"

lemma core_match_pending:
  assumes "core_match e msg s = Some t"
  shows "fw_needs_flush t = (\<not> volume_shown msg s \<and> (redraws msg s \<or> fw_needs_flush s))"
    "redraws msg s \<or> volume_shown msg s \<or> fw_display t = fw_display s"
  using assms
  by (cases msg; auto simp: on_set_app_list_def on_set_selected_app_def on_set_app_icon_def on_set_volume_def
      on_set_mute_def on_set_backlight_def Let_def fw_notify_def dest!: call_frames
      split: Option.bind_splits if_splits)+

context linked_firmware
begin

lemma core_match_ok:
  assumes "fw_ok s" "core_match e msg s = Some t"
  shows "display_ok (fw_display t)"
proof -
  have ok: "fine s r \<Longrightarrow> r = Some t \<Longrightarrow> display_ok (fw_display t)" for r
    by (auto simp: fine_def fw_ok_def)
  have "display_ok (fw_display s)" using assms(1) by (simp add: fw_ok_def)
  then show ?thesis
    using assms(2) ok [OF fine_set_app_list [OF assms(1)]] ok [OF fine_set_selected_app [OF assms(1)]]
      ok [OF fine_set_app_icon [OF assms(1)]] ok [OF fine_set_volume [OF assms(1)]] ok [OF fine_set_mute [OF assms(1)]]
    by (cases msg) (auto simp: on_set_backlight_def)
qed

lemma core_handle_display:
  assumes "fw_ok s" "core_handle e msg s = Some s'"
  shows "\<not> fw_needs_flush s' \<and>
    (\<not> volume_shown msg s \<and> (redraws msg s \<or> fw_needs_flush s) \<longrightarrow> panel_shows P (fw_display s')) \<and>
    (\<not> volume_shown msg s \<and> \<not> redraws msg s \<and> \<not> fw_needs_flush s \<longrightarrow> fw_display s' = fw_display s)"
proof -
  let ?s0 = "s\<lparr>fw_last_host_tick := fw_loop_tick s\<rparr>"
  obtain t u where t: "core_match e msg ?s0 = Some t" and u: "fw_flush_if_needed t = Some u" and s': "s' = core_store e msg u"
    using assms(2) unfolding core_handle_def by (auto split: Option.bind_splits)
  have "fw_ok ?s0" using assms(1) by (simp add: fw_ok_def)
  from core_match_ok [OF this t] have d: "display_ok (fw_display t)" .
  have same: "volume_shown msg ?s0 = volume_shown msg s" "redraws msg ?s0 = redraws msg s" by (cases msg; simp)+
  note p = core_match_pending [OF t, unfolded same]
  have s'u: "fw_display s' = fw_display u" "fw_needs_flush s' = fw_needs_flush u"
    unfolding s' by (cases msg; simp split: prod.splits)+
  show ?thesis
  proof (cases "fw_needs_flush t")
    case True
    then obtain d' where "flush (fw_display t) = Some (d', Inr ())" "u = t\<lparr>fw_display := d', fw_needs_flush := False\<rparr>"
      using u unfolding fw_flush_if_needed_def fw_flush_def
      by (auto split: option.splits prod.splits sum.splits Option.bind_splits)
    then show ?thesis using flush_shows [of "fw_display t" d' P] d p True s'u by (auto simp: display_ok_def)
  next
    case False
    then have "u = t" using u by (simp add: fw_flush_if_needed_def)
    then show ?thesis using p False s'u by auto
  qed
qed

end

lemma ack_last:
  assumes "handle_usb e msg s = Some s'" "usb_reply e msg s = Ack"
  shows "\<exists>t. tell_usb e Ack t = Some s' \<and> fw_display t = fw_display s' \<and> \<not> fw_needs_flush t"
proof -
  let ?s0 = "s\<lparr>fw_last_host_tick := fw_loop_tick s\<rparr>"
  obtain s1 s2 ack s3 where s1: "(if \<not> fw_ready_sent ?s0 then do {
             s \<leftarrow> tell_usb e (Ready protocol_version) ?s0; Some (s\<lparr>fw_ready_sent := True\<rparr>) } else Some ?s0) = Some s1"
    and s2: "usb_match e msg s1 = Some (s2, ack)" and s3: "fw_flush_if_needed s2 = Some s3"
    and s': "(if ack then tell_usb e Ack s3 else Some s3) = Some s'"
    using assms(1) unfolding handle_usb_def Let_def by (auto split: Option.bind_splits prod.splits)
  have "usb_reply e msg s1 = Ack"
    using s1 assms(2) by (auto dest!: tell_usb_sends split: if_splits Option.bind_splits)
  then have "ack"
    using s2 by (cases msg) (auto simp: wifi_status_def reboot_due_def reboot_notice_def
        split: Option.bind_splits prod.splits bool.splits if_splits)
  moreover have "\<not> fw_needs_flush s3"
    using s3 by (auto simp: fw_flush_if_needed_def split: if_splits Option.bind_splits)
  ultimately show ?thesis using s' tell_usb_frame [of e Ack s3 s'] by fastforce
qed

text \<open>Storing the credentials leaves the display alone.\<close>

lemma wifi_store_display: "wifi_store e c s = Some s' \<Longrightarrow> fw_display s' = fw_display s"
  by (auto simp: wifi_store_def fw_init_wifi_def dest!: tell_wifi_frame split: prod.splits bool.splits if_splits)

lemma ack_last_wifi:
  assumes "handle_wifi e msg s = Some s'" "hd (wifi_replies e msg s) = Ack"
  shows "\<exists>t u. tell_wifi e Ack t = Some u \<and> fw_display t = fw_display s' \<and> \<not> fw_needs_flush t \<and>
    (case msg of SetWifiConfig sid pw \<Rightarrow> wifi_store e \<lparr>cr_ssid = sid, cr_password = pw\<rparr> u = Some s' | _ \<Rightarrow> s' = u)"
proof -
  let ?s0 = "s\<lparr>fw_last_host_tick := fw_loop_tick s\<rparr>"
  obtain s1 s2 ack p s3 s4 where s2: "wifi_match e msg s1 = Some (s2, ack, p)" and s3: "fw_flush_if_needed s2 = Some s3"
    and s4: "(if ack then tell_wifi e Ack s3 else Some s3) = Some s4"
    and s': "(case p of None \<Rightarrow> Some s4 | Some creds \<Rightarrow> wifi_store e creds s4) = Some s'"
    using assms(1) unfolding handle_wifi_def Let_def by (auto split: Option.bind_splits prod.splits)
  have ack: "ack" using s2 assms(2)
    by (cases msg) (auto simp: wifi_status_def split: Option.bind_splits if_splits)
  have p: "case msg of SetWifiConfig sid pw \<Rightarrow> p = Some \<lparr>cr_ssid = sid, cr_password = pw\<rparr> | _ \<Rightarrow> p = None"
    using s2 by (cases msg) (auto split: Option.bind_splits)
  have f: "\<not> fw_needs_flush s3"
    using s3 by (auto simp: fw_flush_if_needed_def split: if_splits Option.bind_splits)
  have t: "tell_wifi e Ack s3 = Some s4" using s4 ack by simp
  have "fw_display s4 = fw_display s3" using tell_wifi_frame [OF t] by auto
  moreover have "fw_display s' = fw_display s4" using s' wifi_store_display by (auto split: option.splits)
  ultimately show ?thesis using t f s' p
    by (intro exI [of _ s3] exI [of _ s4]) (cases msg; simp)
qed

lemma panel_sees_framebuffer [simp]: "panel_sees P (d\<lparr>framebuffer := fb\<rparr>) = panel_sees P d"
  by (simp add: panel_sees_def)

lemma flush_rows_shows:
  assumes "bus_ok d" "length (framebuffer d) = fb_size" "flush_rows d y0 y1 = Some (d', r)"
  shows "framebuffer d' = framebuffer d" "c < 360 \<Longrightarrow> gram (panel_sees P d') k c =
    (if y0 \<le> k \<and> k \<le> y1 \<and> k < 360 then fb_pixel (framebuffer d) k c else gram (panel_sees P d) k c)"
  using assms panel_bands [of "min y1 359" "framebuffer d" c]
  by (auto simp: flush_rows_ok panel_sees_sent display_sizes)

context linked_firmware
begin

lemma volume_band:
  assumes "fw_ok s" "fw_selected_app s = Some i" "on_set_volume e i v s = Some t"
  shows "\<exists>fb y0 y1. draw_volume_delta (en_gfx e) (fw_volume s) v (framebuffer (fw_display s)) = Some (fb, y0, y1) \<and>
    framebuffer (fw_display t) = fb \<and> \<not> fw_needs_flush t \<and>
    (\<forall>k c. c < display_width \<longrightarrow> gram (panel_sees P (fw_display t)) k c =
       (if y0 \<le> k \<and> k \<le> y1 \<and> k < display_height then fb_pixel fb k c else gram (panel_sees P (fw_display s)) k c))"
proof -
  obtain fb y0 y1 s3 where d: "draw_volume_delta (en_gfx e) (fw_volume s) v (framebuffer (fw_display s)) = Some (fb, y0, y1)"
    and f: "fw_flush_rows y0 y1 ((fw_notify s)\<lparr>fw_apps := update_first (\<lambda>a. ai_id a = i) (\<lambda>a. a\<lparr>ai_volume := v\<rparr>) (fw_apps s),
        fw_volume := v, fw_display := (fw_display s)\<lparr>framebuffer := fb\<rparr>\<rparr>) = Some s3"
    and t: "t = s3\<lparr>fw_needs_flush := False\<rparr>"
    using assms(2,3) unfolding on_set_volume_def Let_def by (auto simp: fw_notify_def split: Option.bind_splits prod.splits)
  let ?d = "(fw_display s)\<lparr>framebuffer := fb\<rparr>"
  have bus: "bus_ok ?d" using assms(1) by (simp add: fw_ok_def display_ok_def bus_ok_def)
  obtain d' where r: "flush_rows ?d y0 y1 = Some (d', Inr ())" "fw_display t = d'"
    using f t by (auto simp: fw_flush_rows_def split: option.splits prod.splits sum.splits)
  have len: "length (framebuffer (fw_display s)) = fb_size" using assms(1) by (simp add: fw_ok_def display_ok_def)
  have "length fb = fb_size"
    using d len drawsE [OF draws_volume [OF env_okD(1) [OF env], of v] len]
    by (auto simp: draw_volume_delta_def split: if_splits Option.bind_splits)
  with flush_rows_shows [OF bus _ r(1)] d r(2) t show ?thesis
    by (auto simp: display_sizes)
qed

end

section \<open>Properties\<close>

text \<open>
  C6. Every message is answered, in order and once, on the link it came in on.  Over USB, whether the
  radio runs or not: the greeting if the host has not been greeted, then one reply (\<open>Pong\<close>, the echo,
  the WiFi status, the request to reboot, or \<open>Ack\<close>), and nothing else; the WiFi link is left alone
  unless the message starts the radio.  Over WiFi, with the radio running (its peripheral has been
  taken): the same, except that the request to reboot follows an \<open>Ack\<close>; the USB link is left alone.
\<close>

theorem messages_answered:
  assumes "env_ok e" "fw_ok s"
  shows "(\<exists>s'. handle_usb e msg s = Some s' \<and> fw_ready_sent s' \<and>
      usb_says (en_dev e) (greeting (fw_ready_sent s) @ [usb_reply e msg s]) (fw_usb s) = Some (fw_usb s') \<and>
      (\<not> fw_wifi_periph s \<longrightarrow> fw_wifi s' = fw_wifi s)) \<and>
    (\<exists>s'. handle_wifi e msg s = Some s' \<and> fw_usb s' = fw_usb s \<and>
      (\<not> fw_wifi_periph s \<longrightarrow> fw_wifi_ready_sent s' \<and>
         wifi_says (en_dev e) (greeting (fw_wifi_ready_sent s) @ wifi_replies e msg s) (fw_wifi s) = Some (fw_wifi s')))"
proof -
  note linked = linked_firmware.intro [OF assms(1)]
  obtain s1 where s1: "handle_usb e msg s = Some s1" using linked_firmware.fine_handle_usb [OF linked assms(2)] by (rule fineE)
  obtain s2 where s2: "handle_wifi e msg s = Some s2" using linked_firmware.fine_handle_wifi [OF linked assms(2)] by (rule fineE)
  show ?thesis
    using s1 s2 handle_usb_says [OF s1] handle_wifi_says [OF s2] handle_usb_wifi [OF s1] handle_wifi_usb [OF s2] by blast
qed

text \<open>
  The state of the laboratory firmware after its companion sent three apps.
\<close>

lemma lab_with_radio:
  obtains s :: "(reg_file, u8 list) fw" where "fw_ok s" "\<not> fw_wifi_periph s" "fw_selected_app s = Some 7"
    "\<not> fw_needs_flush s"
proof -
  obtain s0 :: "(reg_file, u8 list) fw" where s0: "fw_ok s0" "fw_selected_app s0 = Some 7" by (rule lab_with_apps)
  have "fw_ok (s0\<lparr>fw_wifi := None, fw_wifi_periph := False, fw_needs_flush := False\<rparr>)"
    using s0(1) by (simp add: fw_ok_def wifi_ok_def)
  then show thesis by (rule that) (simp_all add: s0(2))
qed

text \<open>The same with the radio running and a client in service.\<close>

lemma lab_with_client:
  obtains s :: "(reg_file, u8 list) fw" where "fw_ok s" "\<not> fw_wifi_periph s" "fw_wifi s = Some serving" "\<not> fw_wifi_ready_sent s"
proof -
  obtain s0 :: "(reg_file, u8 list) fw" where s0: "fw_ok s0" by (rule lab_with_apps)
  have "wifi_inv serving" "wt_connected_ip serving = Some (show_ipv4 (10, 0, 0, 7))" "wt_pending_event serving = None"
    by (simp_all add: serving_def wifi_inv_def wifi_boot_def init_wifi_def decoder_new_def wifi_max_frame_len_def)
  then have "fw_ok (s0\<lparr>fw_wifi := Some serving, fw_wifi_periph := False, fw_wifi_ready_sent := False\<rparr>)"
    using s0 by (simp add: fw_ok_def wifi_ok_def printable_show_dec printable_dot)
  then show thesis by (rule that) simp_all
qed

theorem messages_answered_witness:
  "\<exists>(s :: (reg_file, u8 list) fw) s1 s2. handle_usb lab_env Ping s = Some s1 \<and>
     usb_says dev_wire (greeting (fw_ready_sent s) @ [Pong]) (fw_usb s) = Some (fw_usb s1) \<and>
     fw_wifi s = Some serving \<and> handle_wifi lab_env (SetVolume 9 10) s = Some s2 \<and>
     wifi_says dev_wire [Ready protocol_version, Ack] (Some serving) = Some (fw_wifi s2)"
proof -
  obtain s :: "(reg_file, u8 list) fw" where s: "fw_ok s" "\<not> fw_wifi_periph s" "fw_wifi s = Some serving" "\<not> fw_wifi_ready_sent s"
    by (rule lab_with_client)
  have dev: "en_dev lab_env = dev_wire" by (simp add: lab_env_def)
  obtain s1 where s1: "handle_usb lab_env Ping s = Some s1"
    "usb_says dev_wire (greeting (fw_ready_sent s) @ [Pong]) (fw_usb s) = Some (fw_usb s1)"
    using messages_answered [OF lab_env_ok s(1), of Ping] by (auto simp: dev)
  obtain s2 where s2: "handle_wifi lab_env (SetVolume 9 10) s = Some s2"
    "wifi_says dev_wire [Ready protocol_version, Ack] (Some serving) = Some (fw_wifi s2)"
    using messages_answered [OF lab_env_ok s(1), of "SetVolume 9 10"] s(2-4) by (auto simp: dev greeting_def)
  show ?thesis using s(3) s1 s2 by blast
qed

text \<open>
  C12. The host sees the effect before the reply: handling a message over either transport returns
  with no flush pending; a message that redraws the screen, or finds a redraw pending, leaves
  every pixel of the panel equal to the framebuffer (the volume of the selected app apart, which
  flushes its own rows), any other leaves the display untouched.  When the reply is an \<open>Ack\<close>, it is
  sent with the panel already in that state: over USB nothing is done after it; over WiFi nothing but
  storing the credentials of a \<open>SetWifiConfig\<close>.
\<close>

theorem messages_reach_panel:
  assumes "env_ok e" "fw_ok s"
  shows "\<exists>s1 s2. handle_usb e msg s = Some s1 \<and> handle_wifi e msg s = Some s2 \<and>
    fw_display s1 = fw_display s2 \<and> \<not> fw_needs_flush s1 \<and> \<not> fw_needs_flush s2 \<and>
    (\<not> volume_shown msg s \<and> (redraws msg s \<or> fw_needs_flush s) \<longrightarrow> panel_shows P (fw_display s1)) \<and>
    (\<not> volume_shown msg s \<and> \<not> redraws msg s \<and> \<not> fw_needs_flush s \<longrightarrow> fw_display s1 = fw_display s) \<and>
    (usb_reply e msg s = Ack \<longrightarrow>
      (\<exists>t. tell_usb e Ack t = Some s1 \<and> fw_display t = fw_display s1 \<and> \<not> fw_needs_flush t)) \<and>
    (hd (wifi_replies e msg s) = Ack \<longrightarrow>
      (\<exists>t u. tell_wifi e Ack t = Some u \<and> fw_display t = fw_display s2 \<and> \<not> fw_needs_flush t \<and>
         (case msg of SetWifiConfig sid pw \<Rightarrow> wifi_store e \<lparr>cr_ssid = sid, cr_password = pw\<rparr> u = Some s2 | _ \<Rightarrow> s2 = u)))"
proof -
  note linked = linked_firmware.intro [OF assms(1)]
  obtain s1 where s1: "handle_usb e msg s = Some s1" using linked_firmware.fine_handle_usb [OF linked assms(2)] by (rule fineE)
  obtain s2 where s2: "handle_wifi e msg s = Some s2" using linked_firmware.fine_handle_wifi [OF linked assms(2)] by (rule fineE)
  let ?l = "links_of s"
  have c: "core_handle e msg s = Some (relink ?l s1)" "core_handle e msg s = Some (relink ?l s2)"
    using handle_usb_core [OF s1, of ?l] handle_wifi_core [OF s2, of ?l] by simp_all
  have d: "fw_display s1 = fw_display s2" using c by (auto dest!: arg_cong [where f = fw_display])
  show ?thesis
    using linked_firmware.core_handle_display [OF linked assms(2) c(1), of P]
      linked_firmware.core_handle_display [OF linked assms(2) c(2), of P] d s1 s2 ack_last [OF s1] ack_last_wifi [OF s2]
    by auto
qed

theorem messages_reach_panel_witness:
  "\<exists>(s :: (reg_file, u8 list) fw) s1. fw_selected_app s = Some 7 \<and> handle_usb lab_env (SetMute 7 True) s = Some s1 \<and>
     panel_shows dark_panel (fw_display s1)"
proof -
  obtain s :: "(reg_file, u8 list) fw" where s: "fw_ok s" "fw_selected_app s = Some 7" by (rule lab_with_radio)
  from messages_reach_panel [OF lab_env_ok s(1), of "SetMute 7 True" dark_panel] s(2) show ?thesis by auto
qed

text \<open>
  C38. A volume message for the selected app redraws the arc and brings exactly the rows that
  \<open>draw_volume_delta\<close> reports up to date on the panel: it clears a pending full flush without
  performing it, so whatever an earlier redraw left outside these rows stays off the panel.
\<close>

theorem volume_message_band:
  assumes "env_ok e" "fw_ok s" "fw_selected_app s = Some i"
  shows "\<exists>s' fb y0 y1. handle_usb e (SetVolume i v) s = Some s' \<and>
    draw_volume_delta (en_gfx e) (fw_volume s) v (framebuffer (fw_display s)) = Some (fb, y0, y1) \<and>
    framebuffer (fw_display s') = fb \<and> \<not> fw_needs_flush s' \<and>
    (\<forall>k c. c < display_width \<longrightarrow> gram (panel_sees P (fw_display s')) k c =
       (if y0 \<le> k \<and> k \<le> y1 \<and> k < display_height then fb_pixel fb k c else gram (panel_sees P (fw_display s)) k c))"
proof -
  note linked = linked_firmware.intro [OF assms(1)]
  obtain s' where s': "handle_usb e (SetVolume i v) s = Some s'"
    using linked_firmware.fine_handle_usb [OF linked assms(2)] by (rule fineE)
  let ?s0 = "s\<lparr>fw_last_host_tick := fw_loop_tick s\<rparr>"
  have ok: "fw_ok ?s0" using assms(2) by (simp add: fw_ok_def)
  obtain t where t: "on_set_volume e i v ?s0 = Some t" "fw_flush_if_needed t = Some (relink (links_of s) s')"
    using handle_usb_core [OF s', of "links_of s"] unfolding core_handle_def by (auto split: Option.bind_splits)
  from linked_firmware.volume_band [OF linked ok _ t(1), of P] assms(3) t(2) s'
  show ?thesis by (auto simp: fw_flush_if_needed_def dest!: arg_cong [where f = fw_display])
qed

theorem volume_message_band_witness:
  "\<exists>(s :: (reg_file, u8 list) fw) s'. fw_ok s \<and> fw_needs_flush s \<and>
     handle_usb lab_env (SetVolume 7 (fw_volume s)) s = Some s' \<and> \<not> fw_needs_flush s' \<and>
     gram (panel_sees dark_panel (fw_display s')) 5 0 = (0, 0) \<and> fb_pixel (framebuffer (fw_display s')) 5 0 = (255, 255)"
proof -
  obtain s0 :: "(reg_file, u8 list) fw" where s0: "fw_ok s0" "fw_selected_app s0 = Some 7" by (rule lab_with_radio)
  let ?d = "(display_new lab_bus)\<lparr>framebuffer := replicate fb_size 255\<rparr>"
  let ?s = "s0\<lparr>fw_display := ?d, fw_needs_flush := True\<rparr>"
  have "bus_ok ?d" using lab_display(1) by (simp add: bus_ok_def)
  then have ok: "fw_ok ?s" using s0(1) by (simp add: fw_ok_def display_ok_def)
  have dark: "panel_sees dark_panel ?d = dark_panel"
    by (simp add: panel_sees_def display_new_def lab_bus_def writes_def panel_run_def map_filter_simps)
  obtain s' where s': "handle_usb lab_env (SetVolume 7 (fw_volume s0)) ?s = Some s'" "framebuffer (fw_display s') = framebuffer ?d"
    "\<not> fw_needs_flush s'" "gram (panel_sees dark_panel (fw_display s')) 5 0 = gram dark_panel 5 0"
    using volume_message_band [OF lab_env_ok ok, of 7 "fw_volume s0" dark_panel] s0(2) dark
    by (auto simp: draw_volume_delta_def display_sizes)
  moreover have "fb_pixel (framebuffer ?d) 5 0 = (255, 255)"
    by (simp add: fb_pixel_def display_sizes)
  ultimately show ?thesis using ok by (intro exI [of _ ?s] exI [of _ s']) (simp add: dark_panel_def)
qed

end
