(* ===== verification/Firmware_Watch.thy ===== *)
theory Firmware_Watch
  imports Firmware_Protocol
begin

text \<open>
  What the main loop watches on its own (\<open>firmware/src/main.rs\<close>, lines 561 to 627 and 961 to
  1002): the knob, the first touch on a dark screen, and the silence of the companion.
\<close>

section \<open>The clock\<close>

text \<open>The app list with the loop tick and the tick of the last host message.\<close>

definition clock_of :: "('b, 's) fw \<Rightarrow> app_info list \<times> u32 \<times> u32" where
  "clock_of s = (fw_apps s, fw_loop_tick s, fw_last_host_tick s)"

definition lit :: "('b, 's) fw \<Rightarrow> bool" where
  "lit s \<longleftrightarrow> bl_state (fw_backlight s) = Active"

lemma clock_update [simp]:
  "clock_of (s\<lparr>fw_usb := u\<rparr>) = clock_of s" "clock_of (s\<lparr>fw_wifi := w\<rparr>) = clock_of s"
  "clock_of (s\<lparr>fw_display := d\<rparr>) = clock_of s" "clock_of (s\<lparr>fw_needs_flush := n\<rparr>) = clock_of s"
  "clock_of (s\<lparr>fw_backlight := b\<rparr>) = clock_of s" "clock_of (s\<lparr>fw_touch := t\<rparr>) = clock_of s"
  "clock_of (s\<lparr>fw_last_count := c\<rparr>) = clock_of s" "clock_of (s\<lparr>fw_standalone := v\<rparr>) = clock_of s"
  "clock_of (s\<lparr>fw_i2c := i\<rparr>) = clock_of s" "clock_of (s\<lparr>fw_touch_held := th\<rparr>) = clock_of s"
  "clock_of (s\<lparr>fw_debug_visible := dv\<rparr>) = clock_of s" "clock_of (s\<lparr>fw_batt_pct := bp\<rparr>) = clock_of s"
  "clock_of (s\<lparr>fw_last_batt_tick := bt\<rparr>) = clock_of s" "clock_of (s\<lparr>fw_wifi_ready_sent := wr\<rparr>) = clock_of s"
  "clock_of (s\<lparr>fw_wifi_was_active := wa\<rparr>) = clock_of s"
  by (simp_all add: clock_of_def)

lemma lit_update [simp]:
  "lit (s\<lparr>fw_usb := u\<rparr>) = lit s" "lit (s\<lparr>fw_wifi := w\<rparr>) = lit s" "lit (s\<lparr>fw_display := d\<rparr>) = lit s"
  "lit (s\<lparr>fw_last_count := c\<rparr>) = lit s" "lit (s\<lparr>fw_standalone := v\<rparr>) = lit s" "lit (s\<lparr>fw_touch := t\<rparr>) = lit s"
  by (simp_all add: lit_def)

lemma clock_calls [simp]:
  "clock_of (fw_notify s) = clock_of s" "clock_of (fw_haptic e ef s) = clock_of s" "lit (fw_notify s)"
  by (simp_all add: fw_notify_def fw_haptic_def lit_def notify_activity_Active)

lemma clock_swipe_to: "swipe_to e i s = Some s' \<Longrightarrow> clock_of s' = clock_of s"
  unfolding swipe_to_def Let_def fw_redraw_def tell_both_def
  by (auto dest!: call_frames split: if_splits Option.bind_splits option.splits) (simp_all add: clock_of_def fw_haptic_def)

lemma tell_both_frame:
  "tell_both e m s = Some s' \<Longrightarrow> (\<exists>u. s' = s\<lparr>fw_usb := u\<rparr>) \<or> (\<exists>u w. s' = s\<lparr>fw_usb := u, fw_wifi := w\<rparr>)"
  unfolding tell_both_def
  by (auto dest!: call_frames split: Option.bind_splits option.splits if_splits)

lemma clock_encoder: "step_encoder e c s = Some s' \<Longrightarrow> clock_of s' = clock_of s \<and> (lit s \<longrightarrow> lit s')"
  unfolding step_encoder_def Let_def
  by (auto dest!: call_frames tell_both_frame split: if_splits Option.bind_splits option.splits prod.splits)

lemma clock_redraw: "fw_redraw e icon s = Some s' \<Longrightarrow> \<exists>d. s' = s\<lparr>fw_display := d\<rparr>"
  unfolding fw_redraw_def by (auto dest!: call_frames split: Option.bind_splits)

lemma clock_idle: "fw_draw_idle e s = Some s' \<Longrightarrow> \<exists>d. s' = s\<lparr>fw_display := d\<rparr>"
  unfolding fw_draw_idle_def by (auto dest!: call_frames split: Option.bind_splits)

lemma clock_read: "step_touch_read inp s = (s', ev) \<Longrightarrow> \<exists>t. s' = s\<lparr>fw_touch := t\<rparr>"
  unfolding step_touch_read_def by (auto split: if_splits prod.splits) (metis fw.surjective fw.update_convs(8))

lemma hold_frame:
  "step_hold e s = Some s' \<Longrightarrow> clock_of s' = clock_of s \<and> fw_touch s' = fw_touch s \<and>
     (if finger_down (fw_touch s) then lit s' else fw_backlight s' = fw_backlight s)"
  unfolding step_hold_def Let_def
  by (auto simp: lit_def fw_notify_def dest!: call_frames clock_redraw clock_idle split: if_splits Option.bind_splits)

lemma clock_fire: "fire_gesture e g s = Some s' \<Longrightarrow> clock_of s' = clock_of s"
  unfolding fire_gesture_def
  by (auto simp: swipe_left_def swipe_right_def dest!: tell_both_frame clock_swipe_to
      split: Option.bind_splits option.splits touch_gesture.splits if_splits)

text \<open>The touch step is cut short by a wake-up, and by nothing else.\<close>

lemma touch_frame:
  assumes "step_touch e inp s = Some (s', quit)"
  shows "clock_of s' = clock_of s" "quit \<Longrightarrow> \<not> lit s \<and> lit s'"
    "quit = (snd (step_touch_read inp s) \<noteq> None \<and> bl_state (fw_backlight s) = Off \<and>
       \<not> finger_down (fw_touch (fst (step_touch_read inp s))))"
proof -
  obtain s1 ev where r: "step_touch_read inp s = (s1, ev)" by fastforce
  then obtain t where t: "s1 = s\<lparr>fw_touch := t\<rparr>" by (auto dest: clock_read)
  obtain s2 where s2: "step_hold e s1 = Some s2" using assms r unfolding step_touch_def by (auto split: Option.bind_splits)
  note h = hold_frame [OF s2]
  have h': "clock_of s2 = clock_of s" "finger_down t \<Longrightarrow> lit s2" "\<not> finger_down t \<Longrightarrow> fw_backlight s2 = fw_backlight s"
    using h t by (auto split: if_splits)
  have "clock_of s' = clock_of s \<and> (quit \<longrightarrow> \<not> lit s \<and> lit s') \<and>
      quit = (ev \<noteq> None \<and> bl_state (fw_backlight s) = Off \<and> \<not> finger_down t)"
  proof (cases ev)
    case None
    then show ?thesis using assms r s2 h' unfolding step_touch_def by auto
  next
    case (Some event)
    obtain b off where w: "wake_from_off (fw_backlight s2) (fw_loop_tick s2) = (b, off)" by fastforce
    then have b: "bl_state b = Active" "off = (bl_state (fw_backlight s2) = Off)"
      by (auto simp: wake_from_off_def)
    show ?thesis
    proof (cases off)
      case True
      then have "\<not> finger_down t" using h'(2) b(2) by (auto simp: lit_def)
      then show ?thesis using assms r s2 w Some True h' b unfolding step_touch_def by (auto simp: lit_def)
    next
      case False
      then have "\<not> quit" "clock_of s' = clock_of s2"
        using assms r s2 w Some unfolding step_touch_def by (auto split: Option.bind_splits dest: clock_fire)
      then show ?thesis using h' b False Some by (cases "finger_down t") (auto simp: lit_def)
    qed
  qed
  then show "clock_of s' = clock_of s" "quit \<Longrightarrow> \<not> lit s \<and> lit s'"
    "quit = (snd (step_touch_read inp s) \<noteq> None \<and> bl_state (fw_backlight s) = Off \<and>
       \<not> finger_down (fw_touch (fst (step_touch_read inp s))))"
    by (auto simp: r t)
qed

text \<open>Either the app list and the clock stand, or a message was heard at this tick.\<close>

definition heard_or_same :: "('b, 's) fw \<Rightarrow> ('b, 's) fw \<Rightarrow> bool" where
  "heard_or_same s s' \<longleftrightarrow> fw_loop_tick s' = fw_loop_tick s \<and>
     (fw_last_host_tick s' = fw_loop_tick s' \<or> clock_of s' = clock_of s)"

lemma heard_refl: "heard_or_same s s"
  by (simp add: heard_or_same_def)

lemma heard_trans: "heard_or_same s t \<Longrightarrow> heard_or_same t u \<Longrightarrow> heard_or_same s u"
  by (auto simp: heard_or_same_def clock_of_def)

lemma heard_same: "clock_of t = clock_of s \<Longrightarrow> heard_or_same s t"
  by (simp add: heard_or_same_def clock_of_def)

definition ticks_of :: "('b, 's) fw \<Rightarrow> u32 \<times> u32" where
  "ticks_of s = (fw_loop_tick s, fw_last_host_tick s)"

lemma ticks_update [simp]:
  "ticks_of (s\<lparr>fw_usb := u\<rparr>) = ticks_of s" "ticks_of (s\<lparr>fw_wifi := w\<rparr>) = ticks_of s"
  "ticks_of (s\<lparr>fw_display := d\<rparr>) = ticks_of s" "ticks_of (s\<lparr>fw_needs_flush := n\<rparr>) = ticks_of s"
  "ticks_of (s\<lparr>fw_apps := as\<rparr>) = ticks_of s" "ticks_of (s\<lparr>fw_icon := px\<rparr>) = ticks_of s"
  "ticks_of (s\<lparr>fw_volume := v\<rparr>) = ticks_of s" "ticks_of (s\<lparr>fw_muted := m\<rparr>) = ticks_of s"
  "ticks_of (s\<lparr>fw_selected_app := sel\<rparr>) = ticks_of s" "ticks_of (s\<lparr>fw_selected_idx := i\<rparr>) = ticks_of s"
  "ticks_of (s\<lparr>fw_flash := fl\<rparr>) = ticks_of s" "ticks_of (s\<lparr>fw_ready_sent := r\<rparr>) = ticks_of s"
  "ticks_of (s\<lparr>fw_wifi_ready_sent := r\<rparr>) = ticks_of s" "ticks_of (s\<lparr>fw_backlight := b\<rparr>) = ticks_of s"
  "ticks_of (load_selected s) = ticks_of s" "ticks_of (fw_notify s) = ticks_of s"
  "ticks_of (fw_haptic e ef s) = ticks_of s" "ticks_of (fw_init_wifi e s) = ticks_of s"
  by (simp_all add: ticks_of_def load_selected_def fw_notify_def fw_haptic_def fw_init_wifi_def split: option.splits)

lemma ticks_arms:
  "on_set_app_list e apps s = Some s' \<Longrightarrow> ticks_of s' = ticks_of s"
  "on_set_app_icon e i px s = Some s' \<Longrightarrow> ticks_of s' = ticks_of s"
  "on_set_selected_app e i s = Some s' \<Longrightarrow> ticks_of s' = ticks_of s"
  "on_set_volume e i v s = Some s' \<Longrightarrow> ticks_of s' = ticks_of s"
  "on_set_mute e i m s = Some s' \<Longrightarrow> ticks_of s' = ticks_of s"
  unfolding on_set_app_list_def on_set_app_icon_def on_set_selected_app_def on_set_volume_def on_set_mute_def Let_def
  by (auto dest!: call_frames clock_redraw split: Option.bind_splits if_splits)

lemma ticks_core: "core_match e msg s = Some t \<Longrightarrow> ticks_of t = ticks_of s"
  by (cases msg) (auto simp: on_set_backlight_def dest: ticks_arms)

lemma ticks_store: "ticks_of (core_store e msg s) = ticks_of s"
  by (cases msg) (simp_all add: ticks_of_def split: prod.splits)

lemma ticks_handle:
  assumes "core_handle e msg s = Some t"
  shows "ticks_of t = (fw_loop_tick s, fw_loop_tick s)"
proof -
  obtain s1 s2 where "core_match e msg (s\<lparr>fw_last_host_tick := fw_loop_tick s\<rparr>) = Some s1" "fw_flush_if_needed s1 = Some s2"
    "t = core_store e msg s2"
    using assms unfolding core_handle_def by (auto split: Option.bind_splits)
  then show ?thesis
    using ticks_core [of e msg "s\<lparr>fw_last_host_tick := fw_loop_tick s\<rparr>" s1] flush_if_needed_frame [of s1 s2]
    by (auto simp: ticks_store) (simp_all add: ticks_of_def)
qed

lemma ticks_relink [simp]: "ticks_of (relink l s) = ticks_of s"
  by (cases l rule: prod_cases4) (simp add: ticks_of_def relink.simps)

lemma ticks_usb: "handle_usb e msg s = Some s' \<Longrightarrow> ticks_of s' = (fw_loop_tick s, fw_loop_tick s)"
  using ticks_handle [OF handle_usb_core [of e msg s s' "links_of s"]] by simp

lemma heard_handlers:
  "handle_usb e msg s = Some s' \<Longrightarrow> heard_or_same s s'" "handle_wifi e msg s = Some s' \<Longrightarrow> heard_or_same s s'"
  using ticks_handle [OF handle_usb_core [of e msg s s' "links_of s"]] ticks_handle [OF handle_wifi_core [of e msg s s' "links_of s"]]
  by (simp_all add: heard_or_same_def) (simp_all add: ticks_of_def)

lemma heard_usb_loop:
  fixes e :: "('b, 's) fw_env"
  assumes "usb_loop e s = Some s'"
  shows "heard_or_same s s'"
proof (rule usb_loop.raw_induct [of "\<lambda>e s s'. heard_or_same s s'", OF _ assms])
  fix loop :: "('b, 's) fw_env \<Rightarrow> ('b, 's) fw \<Rightarrow> ('b, 's) fw option" and e s s'
  assume IH: "\<And>e s s'. loop e s = Some s' \<Longrightarrow> heard_or_same s s'"
    and body: "(case usb_poll (en_host e) (fw_usb s) of (u, None) \<Rightarrow> Some (s\<lparr>fw_usb := u\<rparr>)
      | (u, Some msg) \<Rightarrow> (case handle_usb e msg (s\<lparr>fw_usb := u\<rparr>) of None \<Rightarrow> None | Some s \<Rightarrow> loop e s)) = Some s'"
  obtain u res where p: "usb_poll (en_host e) (fw_usb s) = (u, res)" by fastforce
  show "heard_or_same s s'"
  proof (cases res)
    case None
    then show ?thesis using body p by (auto intro: heard_same)
  next
    case (Some msg)
    then obtain s1 where "handle_usb e msg (s\<lparr>fw_usb := u\<rparr>) = Some s1" "loop e s1 = Some s'"
      using body p by (auto split: option.splits)
    then have "heard_or_same (s\<lparr>fw_usb := u\<rparr>) s'" by (rule heard_trans [OF heard_handlers(1) IH])
    then show ?thesis by (auto simp: heard_or_same_def)
  qed
qed

lemma heard_event: "step_wifi_event e s = Some s' \<Longrightarrow> clock_of s' = clock_of s"
  unfolding step_wifi_event_def
  by (auto dest!: call_frames split: Option.bind_splits option.splits if_splits prod.splits device_to_host.splits)

lemma heard_wifi: "step_wifi e ob s = Some s' \<Longrightarrow> heard_or_same s s'"
proof -
  assume h: "step_wifi e ob s = Some s'"
  let ?now = "case fw_wifi s of None \<Rightarrow> False | Some w \<Rightarrow> wifi_is_active w"
  let ?s1 = "(if \<not> ?now \<and> fw_wifi_was_active s then s\<lparr>fw_wifi_ready_sent := False\<rparr> else s)\<lparr>fw_wifi_was_active := ?now\<rparr>"
  have s1: "clock_of ?s1 = clock_of s" by simp
  obtain s2 where s2: "step_wifi_event e ?s1 = Some s2"
    and s': "(case fw_wifi s2 of None \<Rightarrow> Some s2
     | Some w \<Rightarrow> (case wifi_poll (en_host e) ob (ucast (fw_loop_tick s) * 3) w of
            (w, None) \<Rightarrow> Some (s2\<lparr>fw_wifi := Some w\<rparr>)
          | (w, Some msg) \<Rightarrow> handle_wifi e msg (s2\<lparr>fw_wifi := Some w\<rparr>))) = Some s'"
    using h unfolding step_wifi_def Let_def by (auto simp only: bind_eq_Some_conv)
  have c: "clock_of s2 = clock_of s" using heard_event [OF s2] s1 by simp
  show ?thesis
  proof (cases "fw_wifi s2")
    case None
    then show ?thesis using s' c by (auto intro: heard_same)
  next
    case (Some w)
    obtain w' res where p: "wifi_poll (en_host e) ob (ucast (fw_loop_tick s) * 3) w = (w', res)" by fastforce
    show ?thesis
    proof (cases res)
      case None
      then show ?thesis using s' c Some p by (auto intro: heard_same)
    next
      case (Some msg)
      then have "handle_wifi e msg (s2\<lparr>fw_wifi := Some w'\<rparr>) = Some s'" using s' p \<open>fw_wifi s2 = Some w\<close> by simp
      from heard_handlers(2) [OF this] c show ?thesis by (auto simp: heard_or_same_def clock_of_def)
    qed
  qed
qed

lemma clock_disconnect:
  "step_disconnect e s = Some s' \<Longrightarrow> ticks_of s' = ticks_of s \<and>
     (fw_apps s' = [] \<or> fw_loop_tick s' - fw_last_host_tick s' \<le> 10000)"
  unfolding step_disconnect_def Let_def
  by (auto simp: ticks_of_def dest!: call_frames clock_idle split: if_splits Option.bind_splits)

lemma clock_rest:
  "step_flush e n s = Some s' \<Longrightarrow> clock_of s' = clock_of s" "step_battery e adc s = Some s' \<Longrightarrow> clock_of s' = clock_of s"
  "clock_of (step_backlight s) = clock_of s"
  unfolding step_flush_def step_battery_def step_backlight_def Let_def
  by (auto dest!: call_frames split: if_splits Option.bind_splits)

text \<open>The iteration was cut short: its touch step found the screen off, lit it and ended in \<open>continue\<close>.\<close>

definition cut_by_wake :: "('b, 's) fw_env \<Rightarrow> fw_input \<Rightarrow> ('b, 's) fw \<Rightarrow> bool" where
  "cut_by_wake e inp s \<longleftrightarrow>
     (\<exists>s1 s2. step_encoder e (in_count inp) (s\<lparr>fw_loop_tick := fw_loop_tick s + 1\<rparr>) = Some s1 \<and>
        bl_state (fw_backlight s1) = Off \<and> step_touch e inp s1 = Some (s2, True))"

text \<open>The silence never lasts longer than 10000 ticks, or 10001 right after a wake-up.\<close>

definition fresh :: "('b, 's) fw \<Rightarrow> bool" where
  "fresh s \<longleftrightarrow> fw_apps s = [] \<or> fw_loop_tick s - fw_last_host_tick s \<le> 10000 \<or>
     fw_loop_tick s - fw_last_host_tick s = 10001 \<and> lit s"

lemma one_more: "x \<le> 10000 \<Longrightarrow> x + 1 \<le> 10000 \<or> x + 1 = 10001" for x :: u32
  by (simp add: word_le_nat_alt word_unat_eq_iff unat_word_ariths) arith

lemma fresh_iteration:
  assumes "fresh s" "fw_iteration e inp s = Some s'"
  shows "fresh s'" "fw_apps s' = [] \<or> fw_loop_tick s' - fw_last_host_tick s' \<le> 10000 \<or> cut_by_wake e inp s"
proof -
  define s0 where "s0 = s\<lparr>fw_loop_tick := fw_loop_tick s + 1\<rparr>"
  obtain s1 s2 quit where s1: "step_encoder e (in_count inp) s0 = Some s1" and s2: "step_touch e inp s1 = Some (s2, quit)"
    using assms(2) unfolding fw_iteration_def Let_def s0_def [symmetric] by (auto split: Option.bind_splits)
  have c: "clock_of s2 = clock_of s0" using clock_encoder [OF s1] touch_frame(1) [OF s2] by simp
  have "fresh s' \<and> (fw_apps s' = [] \<or> fw_loop_tick s' - fw_last_host_tick s' \<le> 10000 \<or> cut_by_wake e inp s)"
  proof (cases quit)
    case True
    have "cut_by_wake e inp s"
      using s1 s2 True touch_frame(3) [OF s2] unfolding cut_by_wake_def s0_def by simp
    moreover have "s' = s2" using True assms(2) s1 s2 unfolding fw_iteration_def Let_def s0_def [symmetric] by simp
    moreover have "\<not> lit s" "lit s2"
      using touch_frame(2) [OF s2 True] clock_encoder [OF s1] by (auto simp: s0_def lit_def)
    moreover have "fw_apps s = [] \<or> fw_loop_tick s - fw_last_host_tick s + 1 \<le> 10000 \<or>
        fw_loop_tick s - fw_last_host_tick s + 1 = 10001"
      using assms(1) \<open>\<not> lit s\<close> one_more [of "fw_loop_tick s - fw_last_host_tick s"] by (auto simp: fresh_def)
    ultimately show ?thesis
      using c by (auto simp: fresh_def clock_of_def s0_def algebra_simps)
  next
    case False
    then obtain s3 s4 s5 s6 s7 where "step_wifi e (in_wifi inp) s2 = Some s3" "usb_loop e s3 = Some s4"
      and s5: "step_disconnect e s4 = Some s5" and s6: "step_flush e (in_heap_free inp) s5 = Some s6"
      and s7: "step_battery e (in_adc inp) s6 = Some s7" and s': "s' = step_backlight s7"
      using assms(2) s1 s2 unfolding fw_iteration_def Let_def s0_def [symmetric] by (auto split: Option.bind_splits)
    have "clock_of s' = clock_of s5" using clock_rest s6 s7 s' by metis
    with clock_disconnect [OF s5] show ?thesis by (auto simp: fresh_def clock_of_def)
  qed
  then show "fresh s'" "fw_apps s' = [] \<or> fw_loop_tick s' - fw_last_host_tick s' \<le> 10000 \<or> cut_by_wake e inp s" by simp_all
qed

lemma fresh_boot: "fw_boot e spi j i2c fl adc = Some s \<Longrightarrow> fw_apps s = []"
  unfolding fw_boot_def Let_def
  by (auto simp: fw_init_wifi_def dest!: call_frames clock_idle split: Option.bind_splits option.splits if_splits prod.splits sum.splits)

lemma fresh_reach: "fw_reach e s \<Longrightarrow> fresh s"
proof (induction rule: fw_reach.induct)
  case (boot spi j i2c fl adc s)
  then show ?case using fresh_boot [OF boot(2)] by (simp add: fresh_def)
next
  case (iteration s inp s')
  then show ?case by (blast intro: fresh_iteration(1))
qed

text \<open>The USB loop applies a prefix of what the transport owes, in order.\<close>

lemma owes_rx:
  "rx_of s = (rx_script (us_jtag u), us_decoder u) \<Longrightarrow> usb_owes W (fw_usb s) ms = usb_owes W u ms"
  by (simp add: rx_of_def usb_owes_def)

context linked_firmware
begin

lemma usb_loop_owes:
  assumes "fw_ok s" "usb_owes (en_host e) (fw_usb s) ms"
  shows "\<exists>s' past rest. usb_loop e s = Some s' \<and> fw_ok s' \<and> ms = past @ rest \<and>
    abs_fw s' = fold ca_host past (abs_fw s) \<and> usb_owes (en_host e) (fw_usb s') rest \<and>
    (if rx_script (us_jtag (fw_usb s)) = [] then rest = [] \<and> rx_script (us_jtag (fw_usb s')) = []
     else length (rx_script (us_jtag (fw_usb s'))) < length (rx_script (us_jtag (fw_usb s))))"
  using assms
proof (induction "usb_pending (fw_usb s)" arbitrary: s ms rule: less_induct)
  case less
  obtain u res where p: "usb_poll (en_host e) (fw_usb s) = (u, res)" by fastforce
  note owes = wire_format.usb_poll_owes [OF env_okD(2) [OF env] less.prems(2) p]
  show ?case
  proof (cases res)
    case None
    then have "usb_loop e s = Some (s\<lparr>fw_usb := u\<rparr>)" using p by (subst usb_loop.simps) simp
    moreover have "usb_owes (en_host e) u ms" "rx_script (us_jtag (fw_usb s)) = [] \<longrightarrow> ms = []"
      using owes(1) None by simp_all
    ultimately show ?thesis using less.prems(1) owes(3,4)
      by (intro exI [of _ "s\<lparr>fw_usb := u\<rparr>"] exI [of _ "[]"] exI [of _ ms]) auto
  next
    case (Some msg)
    then obtain ms' where ms': "ms = msg # ms'" "usb_owes (en_host e) u ms'" using owes(1) by auto
    have "fine (s\<lparr>fw_usb := u\<rparr>) (handle_usb e msg (s\<lparr>fw_usb := u\<rparr>))"
      using less.prems(1) by (intro fine_handle_usb) simp
    then obtain s1 where s1: "handle_usb e msg (s\<lparr>fw_usb := u\<rparr>) = Some s1" "fw_ok s1"
      "rx_of s1 = rx_of (s\<lparr>fw_usb := u\<rparr>)" by (rule fineE)
    have rx: "rx_script (us_jtag (fw_usb s1)) = rx_script (us_jtag u)" and pend: "usb_pending (fw_usb s1) = usb_pending u"
      using s1(3) by (simp_all add: rx_of_def usb_pending_def)
    have "usb_pending (fw_usb s1) < usb_pending (fw_usb s)" using usb_poll_progress [OF p] Some pend by simp
    moreover have "usb_owes (en_host e) (fw_usb s1) ms'" using owes_rx [of s1 u "en_host e" ms'] s1(3) ms'(2) by (simp add: rx_of_def)
    ultimately obtain s' past rest where IH: "usb_loop e s1 = Some s'" "fw_ok s'" "ms' = past @ rest"
      "abs_fw s' = fold ca_host past (abs_fw s1)" "usb_owes (en_host e) (fw_usb s') rest"
      "if rx_script (us_jtag (fw_usb s1)) = [] then rest = [] \<and> rx_script (us_jtag (fw_usb s')) = []
       else length (rx_script (us_jtag (fw_usb s'))) < length (rx_script (us_jtag (fw_usb s1)))"
      using less.hyps s1(2) by blast
    have "usb_loop e s = Some s'" using p Some s1(1) IH(1) by (subst usb_loop.simps) simp
    moreover have "abs_fw s' = fold ca_host (msg # past) (abs_fw s)" using IH(4) handle_usb_abs [OF s1(1)] by simp
    moreover have "if rx_script (us_jtag (fw_usb s)) = [] then rest = [] \<and> rx_script (us_jtag (fw_usb s')) = []
        else length (rx_script (us_jtag (fw_usb s'))) < length (rx_script (us_jtag (fw_usb s)))"
      using IH(5,6) rx owes(3,4) by (auto split: if_splits)
    ultimately show ?thesis using IH(2,3,5) ms'(1)
      by (intro exI [of _ s'] exI [of _ "msg # past"] exI [of _ rest]) simp
  qed
qed

end

section \<open>Properties\<close>

text \<open>
  C8. A list of apps is never kept longer than the companion is there: in every state the main loop
  reaches (over a display bus that does not fail, and with the encoder moving at most 32000 counts
  between two iterations), if the list is not empty the last host message was handled at most 10000
  iterations ago, or 10001, and then the last iteration was cut short by a touch that found the
  screen off and lit it.
\<close>

theorem app_list_fresh:
  assumes "fw_reach e s" "fw_apps s \<noteq> []"
  shows "fw_loop_tick s - fw_last_host_tick s \<le> 10000 \<or>
    fw_loop_tick s - fw_last_host_tick s = 10001 \<and> bl_state (fw_backlight s) = Active \<and>
    (\<exists>s0 inp. fw_reach e s0 \<and> fw_iteration e inp s0 = Some s \<and> cut_by_wake e inp s0)"
  using assms(1)
proof cases
  case (boot spi j i2c fl adc)
  then show ?thesis using fresh_boot [OF boot(2)] assms(2) by simp
next
  case (iteration s0 inp)
  then show ?thesis
    using fresh_iteration(2) [OF fresh_reach [OF iteration(1)] iteration(3)] fresh_reach [OF assms(1)] assms(2)
    unfolding fresh_def lit_def by blast
qed

text \<open>
  C37. When the touch that wakes the screen is swallowed: the touch step returns, and it cuts the
  iteration short (no gesture, no message handling) exactly when an event was reported, the
  screen is off and the read did not see a finger.  A read that sees the finger has already
  counted as activity, so the gesture of a finger still on the glass always fires, screen off or
  not.
\<close>

theorem wake_tap_suppression:
  assumes "env_ok e" "fw_ok s"
  shows "\<exists>s' quit. step_touch e inp s = Some (s', quit) \<and>
    quit = (snd (step_touch_read inp s) \<noteq> None \<and> bl_state (fw_backlight s) = Off \<and>
      \<not> finger_down (fw_touch (fst (step_touch_read inp s))))"
proof -
  obtain s' quit where "step_touch e inp s = Some (s', quit)"
    using linked_firmware.fine_touch [OF linked_firmware.intro [OF assms(1)] assms(2)] by blast
  with touch_frame(3) [OF this] show ?thesis by blast
qed

text \<open>A first touch on a dark screen, seen with the finger on the glass and as it lifts.\<close>

definition dark :: "('b, 's) fw \<Rightarrow> ('b, 's) fw" where
  "dark s = s\<lparr>fw_backlight := bl_set_state (fw_backlight s) Off, fw_touch := cst816_new\<rparr>"

theorem wake_tap_suppression_witness:
  "\<exists>(s :: (reg_file, u8 list) fw) s1 s2.
     step_touch lab_env lab_input (dark s) = Some (s1, False) \<and>
     step_touch lab_env (lab_input\<lparr>in_touch := Some (5, 0, 0, 10, 0, 20)\<rparr>) (dark s) = Some (s2, True)"
proof -
  obtain s :: "(reg_file, u8 list) fw" where s: "fw_ok s" by (rule lab_with_radio)
  have "bl_wf (bl_set_state b Off)" "bl_lit (bl_set_state b Off)" "bl_state (bl_set_state b Off) = Off" if "bl_wf b" for b
    using that bl_set_state_wf [of b Off] by (auto simp: bl_set_state_fields)
  then have ok: "fw_ok (dark s)" and off: "bl_state (fw_backlight (dark s)) = Off"
    using s by (auto simp: fw_ok_def dark_def)
  have "snd (step_touch_read lab_input (dark s)) \<noteq> None"
    "finger_down (fw_touch (fst (step_touch_read lab_input (dark s))))"
    "snd (step_touch_read (lab_input\<lparr>in_touch := Some (5, 0, 0, 10, 0, 20)\<rparr>) (dark s)) \<noteq> None"
    "\<not> finger_down (fw_touch (fst (step_touch_read (lab_input\<lparr>in_touch := Some (5, 0, 0, 10, 0, 20)\<rparr>) (dark s))))"
    by (simp_all add: step_touch_read_def lab_input_def dark_def cst816_new_def gesture_from_id_def)
  with wake_tap_suppression [OF lab_env_ok ok, of lab_input] off
    wake_tap_suppression [OF lab_env_ok ok, of "lab_input\<lparr>in_touch := Some (5, 0, 0, 10, 0, 20)\<rparr>"]
  show ?thesis by - (rule exI [of _ s], auto)
qed

text \<open>
  The knob: a step that moved the count by at most 32000 returns and remembers the count.
  With an app selected it sends exactly one \<open>VolumeDelta\<close> for that app holding the exact movement
  (so the deltas of a run add up to the whole movement), and nothing when the knob rested; with
  none it sends nothing and moves the standalone value by as much, saturating at 0 and 100.
\<close>

theorem encoder_step:
  assumes "env_ok e" "fw_ok s" "\<bar>count - fw_last_count s\<bar> \<le> 32000"
  shows "\<exists>s'. step_encoder e count s = Some s' \<and> fw_last_count s' = count \<and>
    (case fw_selected_app s of
       Some i \<Rightarrow> fw_standalone s' = fw_standalone s \<and> sint (of_int (count - fw_last_count s) :: u16) = count - fw_last_count s \<and>
         usb_says (en_dev e) (if count = fw_last_count s then [] else [VolumeDelta i (of_int (count - fw_last_count s))])
           (fw_usb s) = Some (fw_usb s')
     | None \<Rightarrow> fw_usb s' = fw_usb s \<and>
         uint (fw_standalone s') = clamp 0 100 (uint (fw_standalone s) + (count - fw_last_count s)))"
proof -
  obtain s' where s': "step_encoder e count s = Some s'"
    using linked_firmware.fine_encoder [OF linked_firmware.intro [OF assms(1)] assms(2,3)] by (rule fineE)
  define d where "d = count - fw_last_count s"
  have d: "\<bar>d\<bar> \<le> 32000" using assms(3) by (simp add: d_def)
  have le: "uint (fw_standalone s) \<le> 100" using assms(2) by (simp add: fw_ok_def word_le_def)
  have sint: "sint (of_int d :: u16) = d"
    using d by (simp add: signed_of_int signed_take_bit_int_eq_self)
  have cl: "clamp (- 32768) 32767 d = d" using d by (intro clamp_id) simp_all
  show ?thesis
  proof (cases "fw_selected_app s")
    case (Some i)
    have "fw_last_count s' = count \<and> fw_standalone s' = fw_standalone s \<and>
        usb_says (en_dev e) (if count = fw_last_count s then [] else [VolumeDelta i (of_int d)]) (fw_usb s) = Some (fw_usb s')"
      using s' Some cl unfolding step_encoder_def Let_def d_def [symmetric]
      by (auto simp: checked_range_Some fw_notify_def tell_both_def dest!: tell_usb_sends tell_wifi_frame
          split: if_splits Option.bind_splits option.splits)
    with s' Some sint show ?thesis unfolding d_def [symmetric] by auto
  next
    case None
    have "uint (of_int (clamp 0 100 (uint (fw_standalone s) + d)) :: u8) = clamp 0 100 (uint (fw_standalone s) + d)"
      using clamp_bounds [of 0 100 "uint (fw_standalone s) + d"] by (simp add: unsigned_of_int take_bit_int_eq_self)
    moreover have "clamp 0 100 (uint (fw_standalone s)) = uint (fw_standalone s)" using le by (intro clamp_id) simp_all
    ultimately have "fw_last_count s' = count \<and> fw_usb s' = fw_usb s \<and>
        uint (fw_standalone s') = clamp 0 100 (uint (fw_standalone s) + d)"
      using s' None cl unfolding step_encoder_def Let_def d_def [symmetric]
      by (auto simp: checked_range_Some fw_notify_def d_def dest!: fw_flush_rows_frame
          split: if_splits Option.bind_splits)
    with s' None show ?thesis by (simp add: d_def)
  qed
qed

theorem encoder_step_witness:
  "\<exists>(s :: (reg_file, u8 list) fw) s'. step_encoder lab_env (fw_last_count s - 3) s = Some s' \<and>
     usb_says dev_wire [VolumeDelta 7 (- 3)] (fw_usb s) = Some (fw_usb s')"
proof -
  obtain s :: "(reg_file, u8 list) fw" where s: "fw_ok s" "fw_selected_app s = Some 7" by (rule lab_with_radio)
  from encoder_step [OF lab_env_ok s(1), of "fw_last_count s - 3"] s(2) show ?thesis
    by - (rule exI [of _ s], auto simp: lab_env_def)
qed

text \<open>
  C7. The companion's commands over USB take effect in the order they were sent: when the
  transport owes the messages \<open>ms\<close> (their frames, at any pace and with any gaps, are what the
  FIFO will still deliver, and together no longer than the decoder's 12 KiB), one run of the receive loop returns, applies a prefix of them to the
  carousel of apps, one after the other and nothing else, and owes the rest.  Nothing is left
  when the FIFO was empty; otherwise fewer FIFO reads remain, so after finitely many
  iterations every message has been applied.
\<close>

theorem usb_commands_in_order:
  assumes "env_ok e" "fw_ok s" "usb_owes (en_host e) (fw_usb s) ms"
  shows "\<exists>s' past rest. usb_loop e s = Some s' \<and> fw_ok s' \<and> ms = past @ rest \<and>
    abs_fw s' = fold ca_host past (abs_fw s) \<and> usb_owes (en_host e) (fw_usb s') rest \<and>
    (if rx_script (us_jtag (fw_usb s)) = [] then rest = [] \<and> rx_script (us_jtag (fw_usb s')) = []
     else length (rx_script (us_jtag (fw_usb s'))) < length (rx_script (us_jtag (fw_usb s))))"
  by (rule linked_firmware.usb_loop_owes [OF linked_firmware.intro [OF assms(1)] assms(2,3)])

lemma owes_script:
  assumes "list_all2 (\<lambda>m f. encode W m = Some (Inr f)) ms fs" "length (concat fs) \<le> usb_max_frame_len"
  shows "usb_owes W (usb_new (lab_jtag (map Some (concat fs)) room)) ms"
proof -
  have "script_bytes (map Some bs) = bs" for bs by (induction bs) simp_all
  with assms show ?thesis by (auto simp: usb_owes_def usb_new_def decoder_new_def lab_jtag_def)
qed

text \<open>The frame of a list of one app.\<close>

definition one_app :: host_to_device where
  "one_app = SetAppList [\<lparr>ai_id = 7, ai_name = [72], ai_volume = 10, ai_muted = False\<rparr>]"

lemma read_all: "length bs < n \<Longrightarrow> rx_script j = map Some bs \<Longrightarrow> read_bytes n j = (j\<lparr>rx_script := []\<rparr>, bs)"
proof (induction n arbitrary: j bs)
  case (Suc n)
  show ?case
  proof (cases bs)
    case Nil
    with Suc.prems(2) show ?thesis by (simp add: read_byte_def)
  next
    case (Cons b bs')
    with Suc.IH [of bs' "j\<lparr>rx_script := map Some bs'\<rparr>"] Suc.prems show ?thesis by (simp add: read_byte_def)
  qed
qed simp

lemma one_frame_poll:
  assumes "encode host_wire m = Some (Inr f)" "0 < length f" "length f < 512"
  shows "snd (usb_poll host_wire (usb_new (lab_jtag (map Some f) room))) = Some m"
proof -
  have "read_bytes scratch_len (lab_jtag (map Some f) room) = (lab_jtag [] room, f)"
    using read_all [of f scratch_len "lab_jtag (map Some f) room"] assms(3) by (simp add: scratch_len_def lab_jtag_def)
  moreover have "usb_receive f ((usb_new (lab_jtag (map Some f) room))\<lparr>us_jtag := lab_jtag [] room\<rparr>) =
      (usb_new (lab_jtag [] room))\<lparr>us_decoder := (decoder_new usb_max_frame_len)\<lparr>dec_buf := f\<rparr>,
         us_stats := (us_stats (usb_new (lab_jtag [] room)))\<lparr>st_bytes := sat_add 0 (of_nat (length f))\<rparr>\<rparr>"
    using assms(2,3) by (simp add: usb_receive_def usb_new_def decoder_push_def decoder_new_def usb_max_frame_len_def Let_def)
  ultimately show ?thesis
    using host_link.next_frame_hit [OF assms(1), of "(decoder_new usb_max_frame_len)\<lparr>dec_buf := f\<rparr>" "[]"]
    by (simp add: usb_poll_def usb_new_def Let_def)
qed

lemma one_app_frame: "\<exists>f. encode host_wire one_app = Some (Inr f) \<and> 0 < length f \<and> length f \<le> 12"
  by (rule exI [of _ "case encode host_wire one_app of Some (Inr f) \<Rightarrow> f | _ \<Rightarrow> []"]) code_simp

theorem usb_commands_in_order_witness:
  "\<exists>(s :: (reg_file, u8 list) fw) s'. usb_loop lab_env s = Some s' \<and> fw_apps s = [] \<and> map ai_id (fw_apps s') = [7]"
proof -
  obtain s0 where s0: "fw_boot lab_env lab_bus (lab_jtag [] (\<lambda>_. True)) lab_i2c [] None = Some s0" "fw_reach lab_env s0"
    by (rule lab_boot)
  obtain f where f: "encode host_wire one_app = Some (Inr f)" "0 < length f" "length f \<le> 12" using one_app_frame by blast
  define s where "s = s0\<lparr>fw_usb := (usb_new (lab_jtag [] (\<lambda>_. True)))\<lparr>us_decoder := (decoder_new usb_max_frame_len)\<lparr>dec_buf := f\<rparr>\<rparr>\<rparr>"
  have ok: "fw_ok s" using fw_reach_ok [OF lab_env_ok s0(2)] by (simp add: s_def)
  have rx: "rx_script (us_jtag (fw_usb s)) = []" by (simp add: s_def usb_new_def lab_jtag_def)
  have apps: "fw_apps s = []" using fresh_boot [OF s0(1)] by (simp add: s_def)
  have "usb_owes (en_host lab_env) (fw_usb s) [one_app]"
    using f by (auto simp: usb_owes_def s_def usb_new_def decoder_new_def lab_jtag_def lab_env_def usb_max_frame_len_def
        intro!: exI [of _ "[f]"])
  from usb_commands_in_order [OF lab_env_ok ok this] rx obtain s' where
    s': "usb_loop lab_env s = Some s'" "abs_fw s' = ca_host one_app (abs_fw s)" by auto
  have "map ai_id (ca_apps (ca_host one_app c)) = [7]" for c
    by (simp add: one_app_def ca_select_def Let_def split: option.splits)
  then have "map ai_id (fw_apps s') = [7]" using s'(2) by (metis abs_fw_def carousel.select_convs(1))
  with s'(1) apps show ?thesis by - (rule exI [of _ s], auto)
qed

text \<open>A companion that sends its list, and the first iteration after the boot.\<close>

lemma boot_links:
  assumes "fw_boot e spi j i2c fl adc = Some s" "nvs_load (en_push e) (en_flash e) fl = None"
  shows "fw_usb s = usb_new j \<and> fw_wifi s = None \<and> fw_touch s = cst816_new \<and> fw_last_count s = 0"
  using assms unfolding fw_boot_def Let_def
  by (auto dest!: call_frames clock_idle split: Option.bind_splits option.splits prod.splits sum.splits)

definition quiet_input :: fw_input where
  "quiet_input = \<lparr>in_count = 0, in_irq = False, in_touch = None, in_wifi = quiet_obs, in_adc = None, in_heap_free = 20000\<rparr>"

lemma quiet_iteration:
  assumes "fw_iteration e quiet_input s = Some s'" "fw_wifi s = None" "fw_last_count s = 0" "\<not> finger_down (fw_touch s)"
  shows "\<exists>t t'. usb_loop e t = Some t' \<and> t = s\<lparr>fw_loop_tick := fw_loop_tick s + 1, fw_touch_held := 0,
      fw_wifi_ready_sent := fw_wifi_ready_sent t, fw_wifi_was_active := False\<rparr> \<and>
    (fw_apps s' = fw_apps t' \<or> fw_loop_tick t' - fw_last_host_tick t' > 10000)"
proof -
  define s0 where "s0 = s\<lparr>fw_loop_tick := fw_loop_tick s + 1\<rparr>"
  define s2 where "s2 = s0\<lparr>fw_touch_held := 0\<rparr>"
  define t where "t = (if fw_wifi_was_active s then s2\<lparr>fw_wifi_ready_sent := False\<rparr> else s2)\<lparr>fw_wifi_was_active := False\<rparr>"
  have "step_encoder e (in_count quiet_input) s0 = Some s0" "step_touch e quiet_input s0 = Some (s2, False)"
    "step_wifi e (in_wifi quiet_input) s2 = Some t"
    using assms(2-4)
    by (simp_all add: step_encoder_def step_touch_def step_touch_read_def step_hold_def step_wifi_def step_wifi_event_def
        quiet_input_def s0_def s2_def t_def Let_def)
  with assms(1) obtain t' s5 s6 s7 where l: "usb_loop e t = Some t'" and s5: "step_disconnect e t' = Some s5"
    and s6: "step_flush e (in_heap_free quiet_input) s5 = Some s6"
    and s7: "step_battery e (in_adc quiet_input) s6 = Some s7" and s': "s' = step_backlight s7"
    unfolding fw_iteration_def Let_def s0_def [symmetric] by (auto split: Option.bind_splits)
  have "fw_apps s' = fw_apps s5" using clock_rest s6 s7 s' by (metis clock_of_def prod.inject)
  moreover have "fw_apps s5 = fw_apps t' \<or> fw_loop_tick t' - fw_last_host_tick t' > 10000"
    using s5 unfolding step_disconnect_def Let_def by (auto split: if_splits)
  ultimately show ?thesis using l by (intro exI [of _ t] exI [of _ t']) (auto simp: t_def s2_def s0_def)
qed

theorem app_list_fresh_witness:
  "\<exists>s :: (reg_file, u8 list) fw. fw_reach lab_env s \<and> fw_apps s \<noteq> [] \<and> fw_loop_tick s - fw_last_host_tick s \<le> 10001"
proof -
  obtain f where f: "encode host_wire one_app = Some (Inr f)" "0 < length f" "length f \<le> 12" using one_app_frame by blast
  define j where "j = lab_jtag (map Some (concat [f])) (\<lambda>_. True)"
  have owes: "usb_owes (en_host lab_env) (usb_new j) [one_app]"
    unfolding j_def using f by (intro owes_script) (simp_all add: lab_env_def usb_max_frame_len_def)
  have poll: "snd (usb_poll host_wire (usb_new j)) = Some one_app" using one_frame_poll [OF f(1,2)] f(3) by (simp add: j_def)
  obtain s :: "(reg_file, u8 list) fw" where s: "fw_boot lab_env lab_bus j lab_i2c [] None = Some s" "fw_ok s"
    using lab.boot_ok [OF lab_display(1), of j lab_i2c "[]" None] by blast
  have "nvs_load (en_push lab_env) (en_flash lab_env) [] = None"
    by (simp add: nvs_load_def lab_env_def sector_ops_def record_len_def)
  note links = boot_links [OF s(1) this]
  have reach: "fw_reach lab_env s" by (rule fw_reach.boot [OF lab_display(1) s(1)])
  obtain s' where s': "fw_iteration lab_env quiet_input s = Some s'"
    using lab.iteration_ok [OF s(2), of quiet_input] links by (auto simp: quiet_input_def)
  have reach': "fw_reach lab_env s'" using links by (intro fw_reach.iteration [OF reach _ s']) (simp add: quiet_input_def)
  obtain t t' where q: "usb_loop lab_env t = Some t'"
    "t = s\<lparr>fw_loop_tick := fw_loop_tick s + 1, fw_touch_held := 0,
       fw_wifi_ready_sent := fw_wifi_ready_sent t, fw_wifi_was_active := False\<rparr>"
    "fw_apps s' = fw_apps t' \<or> fw_loop_tick t' - fw_last_host_tick t' > 10000"
    using quiet_iteration [OF s'] links by (auto simp: cst816_new_def)
  have "fw_ok t" "fw_usb t = usb_new j" using s(2) links by (subst q(2), simp add: fw_ok_def)+
  note t = q(1) this(2) this(1) q(3)
  obtain u where u: "usb_poll (en_host lab_env) (fw_usb t) = (u, Some one_app)"
    using poll t(2) by (cases "usb_poll host_wire (usb_new j)") (simp add: lab_env_def)
  then have u': "usb_owes (en_host lab_env) u []"
    using wire_format.usb_poll_owes(1) [OF env_okD(2) [OF lab_env_ok], of "fw_usb t"] owes t(2) by fastforce
  have "fine (t\<lparr>fw_usb := u\<rparr>) (handle_usb lab_env one_app (t\<lparr>fw_usb := u\<rparr>))"
    using t(3) by (intro lab.fine_handle_usb) simp
  then obtain t1 where t1: "handle_usb lab_env one_app (t\<lparr>fw_usb := u\<rparr>) = Some t1" "fw_ok t1" "rx_of t1 = rx_of (t\<lparr>fw_usb := u\<rparr>)"
    by (rule fineE)
  have "usb_owes (en_host lab_env) (fw_usb t1) []"
    using owes_rx [of t1 u "en_host lab_env" "[]"] t1(3) u' by (simp add: rx_of_def)
  from lab.usb_loop_owes [OF t1(2) this] obtain t2 where t2: "usb_loop lab_env t1 = Some t2" "abs_fw t2 = abs_fw t1" by auto
  have "t' = t2" using t(1) t2(1) t1(1) u by (subst (asm) usb_loop.simps) simp
  have "map ai_id (ca_apps (ca_host one_app c)) = [7]" for c
    by (simp add: one_app_def ca_select_def Let_def split: option.splits)
  then have "fw_apps t' \<noteq> []" 
    using t2(2) handle_usb_abs [OF t1(1)] \<open>t' = t2\<close> by (metis abs_fw_def carousel.select_convs(1) list.simps(8) not_Cons_self)
  moreover have "fw_last_host_tick t' = fw_loop_tick t'"
    using heard_usb_loop [OF t2(1)] ticks_usb [OF t1(1)] \<open>t' = t2\<close>
    by (auto simp: heard_or_same_def clock_of_def ticks_of_def)
  ultimately have "fw_apps s' \<noteq> []" using t(4) by auto
  with app_list_fresh [OF reach' this] reach' show ?thesis by - (rule exI [of _ s'], auto simp: word_le_nat_alt)
qed

end
