(* ===== verification/Ledc.thy ===== *)
theory Ledc
  imports Backlight
begin

text \<open>
  The LEDC driver the backlight runs on (\<open>esp-hal-patched/src/ledc/\<close>: \<open>mod.rs\<close>,
  \<open>timer.rs\<close>, \<open>channel.rs\<close>) for the ESP32-S3, down to the peripheral's registers: the
  configuration of the timer with its divisor, the configuration of the channel, the duty cycle and
  the fades.  The lines under \<open>cfg(esp32)\<close>, \<open>cfg(esp32c6)\<close> and \<open>cfg(esp32h2)\<close> are other chips'.
  \<open>Backlight\<close> abstracts from this driver: its channel is the configured timer's
  resolution and the duty register, and the lemmas at the end relate the two.

  A register is a record of its fields; \<open>modify\<close> updates the fields it names and
  \<open>write\<close> sets every field.  Whether the chip has a reference tick
  (\<open>cfg!(soc_ref_tick_hz_is_set)\<close>, set by a generated table) is an argument.  Arithmetic that the
  development profile checks is checked here: \<open>None\<close> is the panic.
\<close>

section \<open>Registers\<close>

datatype timer_number = Timer0 | Timer1 | Timer2 | Timer3

fun timer_index :: "timer_number \<Rightarrow> u8" where
  "timer_index Timer0 = 0"
| "timer_index Timer1 = 1"
| "timer_index Timer2 = 2"
| "timer_index Timer3 = 3"

datatype channel_number = Channel0 | Channel1 | Channel2 | Channel3 | Channel4 | Channel5 | Channel6 | Channel7

record timer_conf =
  tc_tick_sel :: bool
  tc_rst :: bool
  tc_pause :: bool
  tc_clk_div :: u32
  tc_duty_res :: u8
  tc_para_up :: bool

record chan_conf0 =
  c0_sig_out_en :: bool
  c0_timer_sel :: u8
  c0_para_up :: bool

text \<open>
  \<open>conf1\<close> is one 32-bit register: two flags and three fields of ten bits.  The writers of the register
  crate take 16-bit numbers for the three and keep their low ten bits.
\<close>

type_synonym u10 = "10 word"

record chan_conf1 =
  c1_duty_start :: bool
  c1_duty_inc :: bool
  c1_duty_num :: u10
  c1_duty_cycle :: u10
  c1_duty_scale :: u10

record chan_regs =
  cr_hpoint :: u32
  cr_conf0 :: chan_conf0
  cr_conf1 :: chan_conf1
  cr_duty :: u32

text \<open>The register block: \<open>conf.apb_clk_sel\<close>, the timers, the channels, and the end-of-fade interrupts.\<close>

record ledc_regs =
  lr_apb_clk_sel :: u8
  lr_timer :: "timer_number \<Rightarrow> timer_conf"
  lr_chan :: "channel_number \<Rightarrow> chan_regs"
  lr_chng_end :: "channel_number \<Rightarrow> bool"

definition modify_timer :: "timer_number \<Rightarrow> (timer_conf \<Rightarrow> timer_conf) \<Rightarrow> ledc_regs \<Rightarrow> ledc_regs" where
  "modify_timer n f r = r\<lparr>lr_timer := (lr_timer r)(n := f (lr_timer r n))\<rparr>"

definition modify_chan :: "channel_number \<Rightarrow> (chan_regs \<Rightarrow> chan_regs) \<Rightarrow> ledc_regs \<Rightarrow> ledc_regs" where
  "modify_chan n f r = r\<lparr>lr_chan := (lr_chan r)(n := f (lr_chan r n))\<rparr>"

section \<open>Timers\<close>

datatype pwm_duty = Duty1Bit | Duty2Bit | Duty3Bit | Duty4Bit | Duty5Bit | Duty6Bit | Duty7Bit
  | Duty8Bit | Duty9Bit | Duty10Bit | Duty11Bit | Duty12Bit | Duty13Bit | Duty14Bit

fun duty_bits :: "pwm_duty \<Rightarrow> u32" where
  "duty_bits Duty1Bit = 1" | "duty_bits Duty2Bit = 2" | "duty_bits Duty3Bit = 3" | "duty_bits Duty4Bit = 4"
| "duty_bits Duty5Bit = 5" | "duty_bits Duty6Bit = 6" | "duty_bits Duty7Bit = 7" | "duty_bits Duty8Bit = 8"
| "duty_bits Duty9Bit = 9" | "duty_bits Duty10Bit = 10" | "duty_bits Duty11Bit = 11" | "duty_bits Duty12Bit = 12"
| "duty_bits Duty13Bit = 13" | "duty_bits Duty14Bit = 14"

definition duty_try_from :: "u32 \<Rightarrow> unit + pwm_duty" where
  "duty_try_from v =
     (if v = 1 then Inr Duty1Bit else if v = 2 then Inr Duty2Bit else if v = 3 then Inr Duty3Bit
      else if v = 4 then Inr Duty4Bit else if v = 5 then Inr Duty5Bit else if v = 6 then Inr Duty6Bit
      else if v = 7 then Inr Duty7Bit else if v = 8 then Inr Duty8Bit else if v = 9 then Inr Duty9Bit
      else if v = 10 then Inr Duty10Bit else if v = 11 then Inr Duty11Bit else if v = 12 then Inr Duty12Bit
      else if v = 13 then Inr Duty13Bit else if v = 14 then Inr Duty14Bit else Inl ())"

datatype ls_clock = APBClk

datatype timer_error = Divisor | FrequencyUnset

text \<open>\<open>timer::config::Config\<close>, with the frequency in hertz.\<close>

record timer_config =
  cfg_duty :: pwm_duty
  cfg_clock :: ls_clock
  cfg_frequency :: u32

record pwm_timer =
  tm_number :: timer_number
  tm_duty :: "pwm_duty option"
  tm_frequency :: u32
  tm_configured :: bool
  tm_use_ref_tick :: bool
  tm_clock :: "ls_clock option"

definition timer_new :: "timer_number \<Rightarrow> pwm_timer" where
  "timer_new n = \<lparr>tm_number = n, tm_duty = None, tm_frequency = 0, tm_configured = False,
     tm_use_ref_tick = False, tm_clock = None\<rparr>"

definition apb_clock :: u32 where "apb_clock = 80000000"

definition freq_hw :: "pwm_timer \<Rightarrow> u32 option" where
  "freq_hw t = map_option (\<lambda>source. case source of APBClk \<Rightarrow> apb_clock) (tm_clock t)"

definition div_num_max :: u64 where "div_num_max = 0x3FFFF"

text \<open>\<open>configure_hw\<close> unwraps the resolution; \<open>None\<close> is the panic of \<open>unwrap!\<close>.\<close>

definition timer_configure_hw :: "pwm_timer \<Rightarrow> u32 \<Rightarrow> ledc_regs \<Rightarrow> ledc_regs option" where
  "timer_configure_hw t divisor r =
     (case tm_duty t of
        None \<Rightarrow> None
      | Some d \<Rightarrow> Some (modify_timer (tm_number t)
          (\<lambda>c. c\<lparr>tc_tick_sel := tm_use_ref_tick t, tc_rst := False, tc_pause := False,
             tc_clk_div := divisor, tc_duty_res := ucast (duty_bits d)\<rparr>) r))"

definition timer_update_hw :: "pwm_timer \<Rightarrow> ledc_regs \<Rightarrow> ledc_regs" where
  "timer_update_hw t r = modify_timer (tm_number t) (\<lambda>c. c\<lparr>tc_para_up := True\<rparr>) r"

text \<open>\<open>configure\<close>: the outer \<open>None\<close> is the division by a zero frequency.\<close>

definition pwm_divisor :: "u32 \<Rightarrow> u32 \<Rightarrow> pwm_duty \<Rightarrow> u64" where
  "pwm_divisor src_freq frequency d = push_bit 8 (ucast src_freq) div ucast frequency div push_bit (unat (duty_bits d)) 1"

definition timer_configure ::
  "bool \<Rightarrow> timer_config \<Rightarrow> pwm_timer \<Rightarrow> ledc_regs \<Rightarrow> (pwm_timer \<times> ledc_regs \<times> (timer_error + unit)) option" where
  "timer_configure ref_tick cfg t r =
     (let t1 = t\<lparr>tm_duty := Some (cfg_duty cfg), tm_clock := Some (cfg_clock cfg)\<rparr> in
      case freq_hw t1 of
        None \<Rightarrow> Some (t1, r, Inl FrequencyUnset)
      | Some src_freq \<Rightarrow>
          let t2 = t1\<lparr>tm_frequency := cfg_frequency cfg\<rparr> in
          if cfg_frequency cfg = 0 then None else
          let divisor = pwm_divisor src_freq (cfg_frequency cfg) (cfg_duty cfg);
              use_ref = (div_num_max < divisor \<and> ref_tick);
              t3 = (if use_ref then t2\<lparr>tm_use_ref_tick := True\<rparr> else t2);
              divisor = (if use_ref then pwm_divisor 1000000 (cfg_frequency cfg) (cfg_duty cfg) else divisor)
          in if \<not> (256 \<le> divisor \<and> divisor < div_num_max) then Some (t3, r, Inl Divisor)
             else map_option (\<lambda>r1. (t3\<lparr>tm_configured := True\<rparr>, timer_update_hw t3 r1, Inr ()))
                    (timer_configure_hw t3 (ucast divisor) r))"

section \<open>Channels\<close>

datatype fade_error = StartDuty | EndDuty | DutyRange | FadeDuration

datatype chan_error = ErrDuty | ErrTimer | ErrChannel | ErrFade fade_error

datatype drive_mode = PushPull | OpenDrain

text \<open>What the driver asks of its output pin, in order; \<open>LedcSignal n\<close> is \<open>LEDC_LS_SIGn\<close>.\<close>

datatype pin_call = PinConfig drive_mode | PinOutput bool | PinSignal channel_number

text \<open>A channel refers to its timer, which nobody changes after the channel has it.\<close>

record pwm_channel =
  pc_timer :: "pwm_timer option"
  pc_number :: channel_number
  pc_pin :: "pin_call list"

definition pwm_channel_new :: "channel_number \<Rightarrow> pwm_channel" where
  "pwm_channel_new n = \<lparr>pc_timer = None, pc_number = n, pc_pin = []\<rparr>"

definition start_duty_without_fading :: "pwm_channel \<Rightarrow> ledc_regs \<Rightarrow> ledc_regs" where
  "start_duty_without_fading c = modify_chan (pc_number c)
     (\<lambda>g. g\<lparr>cr_conf1 := \<lparr>c1_duty_start = True, c1_duty_inc = True, c1_duty_num = 1, c1_duty_cycle = 1, c1_duty_scale = 0\<rparr>\<rparr>)"

definition start_duty_fade_inner :: "pwm_channel \<Rightarrow> bool \<Rightarrow> u16 \<Rightarrow> u16 \<Rightarrow> u16 \<Rightarrow> ledc_regs \<Rightarrow> ledc_regs" where
  "start_duty_fade_inner c duty_inc duty_steps cycles_per_step duty_per_cycle = modify_chan (pc_number c)
     (\<lambda>g. g\<lparr>cr_conf1 := \<lparr>c1_duty_start = True, c1_duty_inc = duty_inc, c1_duty_num = ucast duty_steps,
        c1_duty_cycle = ucast cycles_per_step, c1_duty_scale = ucast duty_per_cycle\<rparr>\<rparr>)"

definition update_channel :: "pwm_channel \<Rightarrow> ledc_regs \<Rightarrow> ledc_regs" where
  "update_channel c = modify_chan (pc_number c) (\<lambda>g. g\<lparr>cr_conf0 := (cr_conf0 g)\<lparr>c0_para_up := True\<rparr>\<rparr>)"

definition set_channel :: "pwm_channel \<Rightarrow> u8 \<Rightarrow> ledc_regs \<Rightarrow> ledc_regs" where
  "set_channel c timer_num r =
     start_duty_without_fading c
       (modify_chan (pc_number c)
          (\<lambda>g. g\<lparr>cr_hpoint := 0, cr_conf0 := (cr_conf0 g)\<lparr>c0_sig_out_en := True, c0_timer_sel := timer_num\<rparr>\<rparr>) r)"

definition pwm_set_duty_hw :: "pwm_channel \<Rightarrow> u32 \<Rightarrow> ledc_regs \<Rightarrow> ledc_regs" where
  "pwm_set_duty_hw c duty r =
     update_channel c (start_duty_without_fading c (modify_chan (pc_number c) (\<lambda>g. g\<lparr>cr_duty := push_bit 4 duty\<rparr>) r))"

definition pwm_set_duty :: "pwm_channel \<Rightarrow> u8 \<Rightarrow> ledc_regs \<Rightarrow> ledc_regs \<times> (chan_error + unit)" where
  "pwm_set_duty c duty_pct r =
     (case pc_timer c of
        None \<Rightarrow> (r, Inl ErrChannel)
      | Some t \<Rightarrow>
          (case tm_duty t of
             None \<Rightarrow> (r, Inl ErrTimer)
           | Some d \<Rightarrow>
               let duty_range = 2 ^ unat (duty_bits d);
                   duty_value = (duty_range * ucast duty_pct) div 100
               in if 100 < duty_pct then (r, Inl ErrDuty) else (pwm_set_duty_hw c duty_value r, Inr ())))"

definition configure_hw_with_drive_mode ::
  "pwm_channel \<Rightarrow> drive_mode \<Rightarrow> ledc_regs \<Rightarrow> pwm_channel \<times> ledc_regs \<times> (chan_error + unit)" where
  "configure_hw_with_drive_mode c mode r =
     (case pc_timer c of
        None \<Rightarrow> (c, r, Inl ErrTimer)
      | Some t \<Rightarrow>
          if \<not> tm_configured t then (c, r, Inl ErrTimer)
          else (c\<lparr>pc_pin := pc_pin c @ [PinConfig mode, PinOutput True, PinSignal (pc_number c)]\<rparr>,
                update_channel c (set_channel c (timer_index (tm_number t)) r), Inr ()))"

definition pwm_configure ::
  "pwm_channel \<Rightarrow> pwm_timer \<Rightarrow> u8 \<Rightarrow> drive_mode \<Rightarrow> ledc_regs \<Rightarrow> pwm_channel \<times> ledc_regs \<times> (chan_error + unit)" where
  "pwm_configure c timer duty_pct mode r =
     (let c1 = c\<lparr>pc_timer := Some timer\<rparr> in
      case pwm_set_duty c1 duty_pct r of
        (r1, Inl e) \<Rightarrow> (c1, r1, Inl e)
      | (r1, Inr _) \<Rightarrow> configure_hw_with_drive_mode c1 mode r1)"

section \<open>Fades\<close>

definition start_duty_fade_hw :: "pwm_channel \<Rightarrow> u32 \<Rightarrow> bool \<Rightarrow> u16 \<Rightarrow> u16 \<Rightarrow> u16 \<Rightarrow> ledc_regs \<Rightarrow> ledc_regs" where
  "start_duty_fade_hw c start_duty duty_inc duty_steps cycles_per_step duty_per_cycle r =
     (let r1 = modify_chan (pc_number c) (\<lambda>g. g\<lparr>cr_duty := push_bit 4 start_duty\<rparr>) r;
          r2 = r1\<lparr>lr_chng_end := (lr_chng_end r1)(pc_number c := False)\<rparr>
      in update_channel c (start_duty_fade_inner c duty_inc duty_steps cycles_per_step duty_per_cycle r2))"

definition abs_diff :: "u32 \<Rightarrow> u32 \<Rightarrow> u32" where
  "abs_diff a b = (if a < b then b - a else a - b)"

text \<open>\<open>u16::try_from\<close>.\<close>

definition try_u16 :: "u32 \<Rightarrow> u16 option" where
  "try_u16 x = (if x \<le> 65535 then Some (ucast x) else None)"

text \<open>
  \<open>start_duty_fade\<close>: the outer \<open>None\<close> is a panic, of \<open>duration_ms * frequency\<close> past 32 bits
  or of the division by zero steps.
\<close>

definition start_duty_fade :: "pwm_channel \<Rightarrow> u8 \<Rightarrow> u8 \<Rightarrow> u16 \<Rightarrow> ledc_regs \<Rightarrow> (ledc_regs \<times> (chan_error + unit)) option" where
  "start_duty_fade c start_pct end_pct duration_ms r =
     (if 100 < start_pct then Some (r, Inl (ErrFade StartDuty))
      else if 100 < end_pct then Some (r, Inl (ErrFade EndDuty))
      else case pc_timer c of None \<Rightarrow> Some (r, Inl ErrChannel) | Some t \<Rightarrow>
        (case tm_duty t of None \<Rightarrow> Some (r, Inl ErrTimer) | Some d \<Rightarrow>
           if \<not> 0 < tm_frequency t then Some (r, Inl ErrTimer)
           else let duty_range = push_bit (unat (duty_bits d)) 1 - 1;
                    start_value = (duty_range * ucast start_pct) div 100;
                    end_value = (duty_range * ucast end_pct) div 100
                in if 2 ^ 32 \<le> unat duration_ms * unat (tm_frequency t) then None
                else let pwm_cycles = (ucast duration_ms * tm_frequency t) div 1000;
                         diff = abs_diff end_value start_value;
                         duty_steps = (case try_u16 diff of Some x \<Rightarrow> ucast x | None \<Rightarrow> 65535)
                     in if duty_steps = 0 then None
                     else case try_u16 (pwm_cycles div duty_steps) of
                         None \<Rightarrow> Some (r, Inl (ErrFade FadeDuration))
                       | Some cycles_per_step \<Rightarrow>
                           if 1023 < cycles_per_step then Some (r, Inl (ErrFade FadeDuration))
                           else (case try_u16 (diff div duty_steps) of
                               None \<Rightarrow> Some (r, Inl (ErrFade DutyRange))
                             | Some duty_per_cycle \<Rightarrow>
                                 (case try_u16 duty_steps of
                                    None \<Rightarrow> None
                                  | Some steps \<Rightarrow> Some (start_duty_fade_hw c start_value (start_value < end_value)
                                      steps cycles_per_step duty_per_cycle r, Inr ())))))"

definition is_duty_fade_running :: "pwm_channel \<Rightarrow> ledc_regs \<Rightarrow> bool" where
  "is_duty_fade_running c r = (\<not> lr_chng_end r (pc_number c))"

text \<open>The \<open>embedded_hal\<close> interface: the maximum is the range as a 16-bit number.\<close>

definition max_duty_cycle :: "pwm_channel \<Rightarrow> u16" where
  "max_duty_cycle c =
     (case Option.bind (pc_timer c) tm_duty of None \<Rightarrow> 0 | Some d \<Rightarrow> ucast (2 ^ unat (duty_bits d) :: u32))"

definition set_duty_cycle :: "pwm_channel \<Rightarrow> u16 \<Rightarrow> ledc_regs \<Rightarrow> ledc_regs" where
  "set_duty_cycle c duty r =
     (let mx = max_duty_cycle c; duty = (if mx < duty then mx else duty) in pwm_set_duty_hw c (ucast duty) r)"

section \<open>The peripheral and the start of the backlight\<close>

text \<open>\<open>Ledc::new\<close> enables the clock and resets the peripheral; \<open>reset_regs\<close> is its reset state.\<close>

definition set_global_slow_clock :: "ledc_regs \<Rightarrow> ledc_regs" where
  "set_global_slow_clock r = modify_timer Timer0 (\<lambda>c. c\<lparr>tc_para_up := True\<rparr>) (r\<lparr>lr_apb_clk_sel := 1\<rparr>)"

text \<open>The driver part of \<open>Backlight::new\<close>; \<open>None\<close> is a failed expectation.\<close>

definition backlight_start :: "bool \<Rightarrow> ledc_regs \<Rightarrow> (pwm_channel \<times> ledc_regs) option" where
  "backlight_start ref_tick r0 =
     (let r1 = set_global_slow_clock r0 in
      case timer_configure ref_tick \<lparr>cfg_duty = Duty8Bit, cfg_clock = APBClk, cfg_frequency = 50000\<rparr> (timer_new Timer0) r1 of
        Some (t, r2, Inr _) \<Rightarrow>
          (case pwm_configure (pwm_channel_new Channel0) t default_active_pct PushPull r2 of
             (c, r3, Inr _) \<Rightarrow> Some (c, r3)
           | _ \<Rightarrow> None)
      | _ \<Rightarrow> None)"

section \<open>The channel the backlight sees\<close>

definition abs_channel :: "pwm_channel \<Rightarrow> ledc_regs \<Rightarrow> ledc_channel" where
  "abs_channel c r = \<lparr>ch_timer = map_option (\<lambda>t. map_option duty_bits (tm_duty t)) (pc_timer c),
     ch_duty_reg = cr_duty (lr_chan r (pc_number c))\<rparr>"

fun abs_error :: "chan_error \<Rightarrow> ledc_error" where
  "abs_error ErrDuty = LedcDuty"
| "abs_error ErrTimer = LedcTimer"
| "abs_error ErrChannel = LedcChannel"
| "abs_error (ErrFade _) = LedcDuty"

named_theorems ledc_regs_simps \<open>what an operation leaves in the registers\<close>

lemmas [ledc_regs_simps] = modify_timer_def modify_chan_def start_duty_without_fading_def
  update_channel_def set_channel_def start_duty_fade_inner_def pwm_set_duty_hw_def
  timer_update_hw_def set_global_slow_clock_def

lemma set_duty_refines:
  "set_duty (abs_channel c r) p =
     (abs_channel c (fst (pwm_set_duty c p r)), map_sum abs_error id (snd (pwm_set_duty c p r)))"
  by (auto simp: set_duty_def pwm_set_duty_def abs_channel_def set_duty_hw_def ledc_regs_simps Let_def
      split: option.splits)

lemma set_duties_refine:
  "fold (\<lambda>p ch. fst (set_duty ch p)) ps (abs_channel c r) = abs_channel c (fold (\<lambda>p r. fst (pwm_set_duty c p r)) ps r)"
  by (induction ps arbitrary: r) (simp_all add: set_duty_refines)

text \<open>
  The output is on: the channel is driven by timer 0, started, without a step, and the timer runs
  at its divisor with eight bits.
\<close>

definition pwm_on :: "ledc_regs \<Rightarrow> bool" where
  "pwm_on r \<longleftrightarrow> lr_apb_clk_sel r = 1 \<and>
     lr_timer r Timer0 = \<lparr>tc_tick_sel = False, tc_rst = False, tc_pause = False, tc_clk_div = 1600, tc_duty_res = 8, tc_para_up = True\<rparr> \<and>
     cr_hpoint (lr_chan r Channel0) = 0 \<and>
     cr_conf0 (lr_chan r Channel0) = \<lparr>c0_sig_out_en = True, c0_timer_sel = 0, c0_para_up = True\<rparr> \<and>
     cr_conf1 (lr_chan r Channel0) = \<lparr>c1_duty_start = True, c1_duty_inc = True, c1_duty_num = 1, c1_duty_cycle = 1, c1_duty_scale = 0\<rparr>"

lemma pwm_on_set_duty: "pwm_on r \<Longrightarrow> pc_number c = Channel0 \<Longrightarrow> pwm_on (fst (pwm_set_duty c p r))"
  by (auto simp: pwm_on_def pwm_set_duty_def ledc_regs_simps Let_def split: option.splits)

lemma pwm_on_set_duties: "pwm_on r \<Longrightarrow> pc_number c = Channel0 \<Longrightarrow> pwm_on (fold (\<lambda>p r. fst (pwm_set_duty c p r)) ps r)"
  by (induction ps arbitrary: r) (simp_all add: pwm_on_set_duty)

definition backlight_timer :: pwm_timer where
  "backlight_timer = \<lparr>tm_number = Timer0, tm_duty = Some Duty8Bit, tm_frequency = 50000, tm_configured = True,
     tm_use_ref_tick = False, tm_clock = Some APBClk\<rparr>"

definition backlight_pwm :: pwm_channel where
  "backlight_pwm = \<lparr>pc_timer = Some backlight_timer, pc_number = Channel0,
     pc_pin = [PinConfig PushPull, PinOutput True, PinSignal Channel0]\<rparr>"

lemma backlight_divisor: "pwm_divisor apb_clock 50000 Duty8Bit = 1600"
  by (simp add: pwm_divisor_def apb_clock_def)

lemma backlight_timer_configure:
  "timer_configure ref_tick \<lparr>cfg_duty = Duty8Bit, cfg_clock = APBClk, cfg_frequency = 50000\<rparr> (timer_new Timer0) r =
     Some (backlight_timer, modify_timer Timer0 (\<lambda>c. c\<lparr>tc_tick_sel := False, tc_rst := False, tc_pause := False,
       tc_clk_div := 1600, tc_duty_res := 8, tc_para_up := True\<rparr>) r, Inr ())"
  by (simp add: timer_configure_def timer_new_def freq_hw_def backlight_divisor div_num_max_def
      timer_configure_hw_def timer_update_hw_def modify_timer_def backlight_timer_def Let_def)

lemma backlight_start_ok:
  "\<exists>r. backlight_start ref_tick r0 = Some (backlight_pwm, r) \<and> pwm_on r \<and>
     abs_channel backlight_pwm r = \<lparr>ch_timer = Some (Some 8), ch_duty_reg = duty_of 100\<rparr>"
  by (simp add: backlight_start_def backlight_timer_configure pwm_configure_def pwm_channel_new_def
      pwm_set_duty_def default_active_pct_def configure_hw_with_drive_mode_def backlight_pwm_def
      ledc_regs_simps pwm_on_def abs_channel_def duty_of_def backlight_timer_def Let_def)

section \<open>The controller on the driver\<close>

text \<open>Every operation of the controller changes its channel by duty settings of at most 100 per cent only.\<close>

definition duty_settings :: "ledc_channel \<Rightarrow> ledc_channel \<Rightarrow> bool" where
  "duty_settings ch ch' \<longleftrightarrow> (\<exists>ps. list_all (\<lambda>p. p \<le> 100) ps \<and> ch' = fold (\<lambda>p ch. fst (set_duty ch p)) ps ch)"

lemma duty_settings_refl [simp]: "duty_settings ch ch"
  unfolding duty_settings_def by (rule exI [where x = "[]"]) simp

lemma duty_settings_one: "p \<le> 100 \<Longrightarrow> duty_settings ch (fst (set_duty ch p))"
  unfolding duty_settings_def by (rule exI [where x = "[p]"]) simp

lemma duty_settings_trans: "duty_settings a b \<Longrightarrow> duty_settings b d \<Longrightarrow> duty_settings a d"
  unfolding duty_settings_def by clarify (rule_tac x = "ps @ psa" in exI, simp)

lemma bl_set_state_settings: "bl_wf b \<Longrightarrow> duty_settings (bl_channel b) (bl_channel (bl_set_state b st))"
  by (auto simp: bl_set_state_def bl_wf_def Let_def intro!: duty_settings_one level_pct_bound)

lemma controller_settings:
  assumes "bl_wf b"
  shows "duty_settings (bl_channel b) (bl_channel (notify_activity b t))"
    "duty_settings (bl_channel b) (bl_channel (bl_tick b t))"
    "duty_settings (bl_channel b) (bl_channel (set_active_pct b p))"
    "duty_settings (bl_channel b) (bl_channel (set_timeouts b d f))"
  using bl_set_state_settings [of "b\<lparr>last_activity_tick := t\<rparr>"] bl_set_state_settings [OF assms] assms
    clamp_bounds [of 1 "100 :: u8" p]
  by (auto simp: bl_defs intro!: duty_settings_one)

lemma reach_settings:
  assumes "bl_reach b"
  shows "duty_settings \<lparr>ch_timer = Some (Some 8), ch_duty_reg = duty_of 100\<rparr> (bl_channel b)"
  using assms
proof (induction rule: bl_reach.induct)
  case (bl_start b)
  then show ?case
    by (simp add: backlight_new_def channel_configure_def default_active_pct_def set_duty_ok) (auto split: prod.splits)
qed (blast intro: duty_settings_trans controller_settings dest: bl_reach_wf)+

section \<open>Divisors and fades in natural numbers\<close>

lemma duty_bits_bound: "1 \<le> unat (duty_bits d)" "unat (duty_bits d) \<le> 14"
  by (cases d; simp)+

lemma unat_pwm_divisor:
  "unat (pwm_divisor s f d) = unat s * 256 div unat f div 2 ^ unat (duty_bits d)"
proof -
  have "unat s < 2 ^ 32" by (rule order_less_le_trans [OF unsigned_less]) simp
  then have s: "unat (push_bit 8 (ucast s) :: u64) = unat s * 256"
    by (simp add: push_bit_eq_mult unat_word_ariths unat_ucast_up)
  have "unat (push_bit (unat (duty_bits d)) 1 :: u64) = 2 ^ unat (duty_bits d)"
    by (cases d) (simp_all add: push_bit_eq_mult)
  then show ?thesis by (simp add: pwm_divisor_def unat_div s unat_ucast_up)
qed

lemma duty_range:
  fixes p :: u8
  assumes "p \<le> 100"
  shows "unat (((push_bit (unat (duty_bits d)) 1 - 1) * ucast p :: u32) div 100) = (2 ^ unat (duty_bits d) - 1) * unat p div 100"
proof -
  have p: "unat p \<le> 100" using assms by (simp add: word_le_nat_alt)
  have r: "unat (2 ^ unat (duty_bits d) - 1 :: u32) = 2 ^ unat (duty_bits d) - 1"
    by (cases d) simp_all
  have "(2 :: nat) ^ unat (duty_bits d) \<le> 2 ^ 14" using duty_bits_bound(2) [of d] by (intro power_increasing) auto
  then have "(2 ^ unat (duty_bits d) - 1) * unat p \<le> 16383 * 100" using p by (intro mult_le_mono) simp_all
  then show ?thesis by (simp add: unat_div unat_word_ariths r unat_ucast_up)
qed

lemma unat_abs_diff: "unat (abs_diff a b) = (if unat a < unat b then unat b - unat a else unat a - unat b)"
  by (simp add: abs_diff_def unat_sub word_less_nat_alt word_le_nat_alt)

lemma try_u16_Some: "unat x \<le> 65535 \<Longrightarrow> try_u16 x = Some (of_nat (unat x))"
  by (simp add: try_u16_def word_le_nat_alt)

lemma try_u16_None: "65535 < unat x \<Longrightarrow> try_u16 x = None"
  by (simp add: try_u16_def word_le_nat_alt)

text \<open>A fade in natural numbers: the duty value of a percentage and the number of steps between two.\<close>

definition fade_value :: "pwm_duty \<Rightarrow> u8 \<Rightarrow> nat" where
  "fade_value d p = (2 ^ unat (duty_bits d) - 1) * unat p div 100"

definition fade_steps :: "pwm_duty \<Rightarrow> u8 \<Rightarrow> u8 \<Rightarrow> nat" where
  "fade_steps d sp ep =
     (if fade_value d sp < fade_value d ep then fade_value d ep - fade_value d sp else fade_value d sp - fade_value d ep)"

lemma fade_value_bound:
  assumes "p \<le> 100"
  shows "fade_value d p < 2 ^ 14"
proof -
  have m: "(2 :: nat) ^ unat (duty_bits d) \<le> 2 ^ 14" using duty_bits_bound(2) [of d] by (intro power_increasing) auto
  have "fade_value d p \<le> (2 ^ unat (duty_bits d) - 1) * 100 div 100"
    unfolding fade_value_def using assms by (intro div_le_mono mult_le_mono2) (simp add: word_le_nat_alt)
  then show ?thesis using m by simp
qed

lemma fade_steps_bound:
  assumes "sp \<le> 100" "ep \<le> 100"
  shows "fade_steps d sp ep < 2 ^ 14"
  using fade_value_bound [OF assms(1), of d] fade_value_bound [OF assms(2), of d] by (auto simp: fade_steps_def)

lemma start_duty_fade_nat:
  assumes "pc_timer c = Some t" "tm_duty t = Some d" "0 < tm_frequency t" "sp \<le> 100" "ep \<le> 100"
    and "unat ms * unat (tm_frequency t) < 2 ^ 32"
  defines "n \<equiv> fade_steps d sp ep" and "k \<equiv> unat ms * unat (tm_frequency t) div 1000 div fade_steps d sp ep"
  shows "start_duty_fade c sp ep ms r =
      (if n = 0 then None else if 1023 < k then Some (r, Inl (ErrFade FadeDuration))
       else Some (start_duty_fade_hw c (of_nat (fade_value d sp)) (fade_value d sp < fade_value d ep) (of_nat n) (of_nat k) 1 r, Inr ()))"
proof -
  define S where "S = ((push_bit (unat (duty_bits d)) 1 - 1) * ucast sp :: u32) div 100"
  define E where "E = ((push_bit (unat (duty_bits d)) 1 - 1) * ucast ep :: u32) div 100"
  have SE: "unat S = fade_value d sp" "unat E = fade_value d ep"
    unfolding S_def E_def fade_value_def using duty_range assms(4,5) by blast+
  have n: "n < 2 ^ 14" unfolding n_def by (rule fade_steps_bound [OF assms(4,5)])
  have diff: "unat (abs_diff E S) = n" using SE by (auto simp: unat_abs_diff n_def fade_steps_def)
  define steps where "steps = (of_nat n :: u32)"
  have steps: "unat steps = n" using n by (simp add: steps_def unat_of_nat_eq)
  have tr: "try_u16 (abs_diff E S) = Some (of_nat n)" "try_u16 steps = Some (of_nat n)"
    using n diff steps by (simp_all add: try_u16_Some)
  have uc: "(ucast (of_nat n :: u16) :: u32) = steps"
    using n by (intro word_unat_eq_iff [THEN iffD2]) (simp add: unat_ucast_up unat_of_nat_eq steps)
  have g: "(100 < sp) = False" "(100 < ep) = False" "(\<not> 0 < tm_frequency t) = False"
    "(2 ^ 32 \<le> unat ms * unat (tm_frequency t)) = False" using assms(3-6) by (simp_all add: not_less)
  have fade: "start_duty_fade c sp ep ms r =
      (if steps = 0 then None
       else case try_u16 ((ucast ms * tm_frequency t) div 1000 div steps) of
           None \<Rightarrow> Some (r, Inl (ErrFade FadeDuration))
         | Some cs \<Rightarrow> if 1023 < cs then Some (r, Inl (ErrFade FadeDuration))
             else (case try_u16 (abs_diff E S div steps) of
                 None \<Rightarrow> Some (r, Inl (ErrFade DutyRange))
               | Some pc \<Rightarrow> Some (start_duty_fade_hw c S (S < E) (of_nat n) cs pc r, Inr ())))"
    unfolding start_duty_fade_def Let_def assms(1,2) option.case g if_False S_def [symmetric] E_def [symmetric] tr uc ..
  have steps0: "steps = 0 \<longleftrightarrow> n = 0" using steps by (simp add: word_unat_eq_iff)
  have cyc: "unat ((ucast ms * tm_frequency t :: u32) div 1000 div steps) = k"
    using assms(6) by (simp add: unat_div unat_word_ariths unat_ucast_up k_def n_def steps)
  have per: "try_u16 (abs_diff E S div steps) = Some 1" if "n \<noteq> 0"
    using that by (simp add: try_u16_Some unat_div diff steps)
  have st: "S = of_nat (fade_value d sp)" "(S < E) = (fade_value d sp < fade_value d ep)"
    using SE by (metis of_nat_unat ucast_id, simp add: word_less_nat_alt)
  show ?thesis
  proof (cases "k \<le> 65535")
    case True
    then have "try_u16 ((ucast ms * tm_frequency t) div 1000 div steps) = Some (of_nat k)"
      and "(1023 < (of_nat k :: u16)) = (1023 < k)"
      using cyc by (simp_all add: try_u16_Some word_less_nat_alt unat_of_nat_eq)
    then show ?thesis unfolding fade steps0 st(2) unfolding st(1) by (simp add: per [unfolded st(1)])
  next
    case False
    then have "try_u16 ((ucast ms * tm_frequency t) div 1000 div steps) = None"
      using cyc by (simp add: try_u16_None)
    then show ?thesis unfolding fade steps0 using False by simp
  qed
qed

section \<open>Properties\<close>

text \<open>
  C23. The backlight on its hardware: the start of the controller succeeds, and for every state the
  controller can reach there are duty settings of at most 100 per cent, each accepted, that leave
  the driver's channel as the controller's one is, the output started, undivided by a fade, on
  timer 0 with eight bits and the divisor of 50 kHz, the pin a push-pull output of the channel.
\<close>

theorem backlight_on_driver:
  assumes "bl_reach b"
  shows "\<exists>c r ps. backlight_start ref_tick r0 = Some (c, r) \<and> list_all (\<lambda>p. p \<le> 100 \<and> (\<exists>s. pwm_set_duty c p r = (s, Inr ()))) ps \<and>
    pc_pin c = [PinConfig PushPull, PinOutput True, PinSignal Channel0] \<and>
    abs_channel c (fold (\<lambda>p r. fst (pwm_set_duty c p r)) ps r) = bl_channel b \<and>
    pwm_on (fold (\<lambda>p r. fst (pwm_set_duty c p r)) ps r)"
proof -
  obtain r where r: "backlight_start ref_tick r0 = Some (backlight_pwm, r)" "pwm_on r"
      "abs_channel backlight_pwm r = \<lparr>ch_timer = Some (Some 8), ch_duty_reg = duty_of 100\<rparr>"
    using backlight_start_ok by blast
  obtain ps where ps: "list_all (\<lambda>p. p \<le> 100) ps"
      "bl_channel b = fold (\<lambda>p ch. fst (set_duty ch p)) ps (abs_channel backlight_pwm r)"
    using reach_settings [OF assms] unfolding duty_settings_def r(3) by blast
  have acc: "\<exists>s. pwm_set_duty backlight_pwm p r = (s, Inr ())" if "p \<le> 100" for p
    using that by (simp add: pwm_set_duty_def backlight_pwm_def backlight_timer_def Let_def not_less [symmetric])
  have ch: "pc_number backlight_pwm = Channel0" "pc_pin backlight_pwm = [PinConfig PushPull, PinOutput True, PinSignal Channel0]"
    by (simp_all add: backlight_pwm_def)
  have "list_all (\<lambda>p. p \<le> 100 \<and> (\<exists>s. pwm_set_duty backlight_pwm p r = (s, Inr ()))) ps"
    using ps(1) acc by (simp add: list_all_iff)
  then show ?thesis
    using r(1) ch(2) ps(2) [unfolded set_duties_refine, symmetric] pwm_on_set_duties [OF r(2) ch(1), of ps] by blast
qed

definition demo_regs :: ledc_regs where
  "demo_regs = \<lparr>lr_apb_clk_sel = 0,
      lr_timer = (\<lambda>_. \<lparr>tc_tick_sel = False, tc_rst = True, tc_pause = True, tc_clk_div = 0, tc_duty_res = 0, tc_para_up = False\<rparr>),
      lr_chan = (\<lambda>_. \<lparr>cr_hpoint = 9, cr_conf0 = \<lparr>c0_sig_out_en = False, c0_timer_sel = 3, c0_para_up = False\<rparr>,
        cr_conf1 = \<lparr>c1_duty_start = False, c1_duty_inc = False, c1_duty_num = 0, c1_duty_cycle = 0, c1_duty_scale = 0\<rparr>, cr_duty = 0\<rparr>),
      lr_chng_end = (\<lambda>_. False)\<rparr>"

theorem backlight_on_driver_witness:
  "\<exists>b c r ps. backlight_new = Some b \<and> backlight_start False demo_regs = Some (c, r) \<and>
    bl_channel (bl_tick b 9990) = abs_channel c (fold (\<lambda>p r. fst (pwm_set_duty c p r)) ps r)"
proof -
  obtain b where b: "backlight_new = Some b" using backlight_new_wf by blast
  have "bl_reach (bl_tick b 9990)" by (rule bl_ticks [OF bl_start [OF b]])
  from backlight_on_driver [OF this, of False demo_regs] obtain c r ps where "backlight_start False demo_regs = Some (c, r)"
      "abs_channel c (fold (\<lambda>p r. fst (pwm_set_duty c p r)) ps r) = bl_channel (bl_tick b 9990)"
    by blast
  then show ?thesis using b by (intro exI conjI) (assumption | rule sym)+
qed

text \<open>
  The divisor: the timer is configured exactly when the quotient of the scaled source clock by
  the frequency and the resolution lies from 256 below 0x3FFFF (the reference tick is tried when
  the chip has one and the quotient is above that); the frequency the divisor gives is then
  never below the requested one and above it by less than one divisor step.  A refused
  configuration touches no register and leaves the timer as configured or not as it was, but has
  the new resolution and frequency in it already.  Once a timer has taken the reference tick it keeps
  it, whatever source the divisor of a later configuration is for.
\<close>

theorem timer_configure_effect:
  fixes cfg :: timer_config and ref_tick :: bool
  assumes "cfg_frequency cfg \<noteq> 0"
  defines "q s \<equiv> s * 256 div unat (cfg_frequency cfg) div 2 ^ unat (duty_bits (cfg_duty cfg))"
  defines "use_ref \<equiv> ref_tick \<and> 0x3FFFF < q 80000000"
  defines "src \<equiv> if use_ref then 1000000 else 80000000"
  shows "\<exists>t'. tm_number t' = tm_number t \<and> tm_duty t' = Some (cfg_duty cfg) \<and> tm_frequency t' = cfg_frequency cfg \<and>
    timer_configure ref_tick cfg t r =
      Some (if 256 \<le> q src \<and> q src < 0x3FFFF
        then (t'\<lparr>tm_configured := True\<rparr>, modify_timer (tm_number t) (\<lambda>c. c\<lparr>tc_tick_sel := use_ref \<or> tm_use_ref_tick t, tc_rst := False,
          tc_pause := False, tc_clk_div := of_nat (q src), tc_duty_res := ucast (duty_bits (cfg_duty cfg)), tc_para_up := True\<rparr>) r, Inr ())
        else (t'\<lparr>tm_configured := tm_configured t\<rparr>, r, Inl Divisor)) \<and>
    q src * 2 ^ unat (duty_bits (cfg_duty cfg)) * unat (cfg_frequency cfg) \<le> src * 256 \<and>
    src * 256 < (q src + 1) * 2 ^ unat (duty_bits (cfg_duty cfg)) * unat (cfg_frequency cfg)"
proof -
  let ?f = "unat (cfg_frequency cfg)" and ?m = "2 ^ unat (duty_bits (cfg_duty cfg)) :: nat"
  have f: "0 < ?f" using assms(1) by (simp add: unat_gt_0)
  have q: "unat (pwm_divisor s (cfg_frequency cfg) (cfg_duty cfg)) = q (unat s)" for s
    by (simp add: unat_pwm_divisor q_def)
  have le: "q s * ?m * ?f \<le> s * 256" "s * 256 < (q s + 1) * ?m * ?f" for s
  proof -
    have e: "q s = s * 256 div (?m * ?f)" by (simp add: q_def div_mult2_eq [symmetric] mult.commute)
    show "q s * ?m * ?f \<le> s * 256" unfolding e mult.assoc by (rule div_times_less_eq_dividend)
    show "s * 256 < (q s + 1) * ?m * ?f"
      unfolding e mult.assoc using dividend_less_div_times [of "?m * ?f" "s * 256"] f by (simp add: algebra_simps)
  qed
  define t' where "t' = t\<lparr>tm_duty := Some (cfg_duty cfg), tm_clock := Some (cfg_clock cfg), tm_frequency := cfg_frequency cfg,
    tm_use_ref_tick := use_ref \<or> tm_use_ref_tick t\<rparr>"
  define dv where "dv = pwm_divisor (if use_ref then 1000000 else apb_clock) (cfg_frequency cfg) (cfg_duty cfg)"
  have dv: "unat dv = q src" by (simp add: dv_def q src_def apb_clock_def)
  have ref: "(div_num_max < pwm_divisor apb_clock (cfg_frequency cfg) (cfg_duty cfg) \<and> ref_tick) = use_ref"
    by (auto simp: word_less_nat_alt q use_ref_def div_num_max_def apb_clock_def)
  have ok: "(256 \<le> dv \<and> dv < div_num_max) = (256 \<le> q src \<and> q src < 0x3FFFF)"
    by (simp add: word_le_nat_alt word_less_nat_alt dv div_num_max_def)
  have uc: "ucast dv = (of_nat (q src) :: u32)" by (simp add: dv [symmetric])
  have clk: "freq_hw (t\<lparr>tm_duty := d, tm_clock := Some (cfg_clock cfg)\<rparr>) = Some apb_clock" for d
    by (cases "cfg_clock cfg") (simp add: freq_hw_def)
  have "timer_configure ref_tick cfg t r = Some (if 256 \<le> dv \<and> dv < div_num_max
      then (t'\<lparr>tm_configured := True\<rparr>, modify_timer (tm_number t) (\<lambda>c. c\<lparr>tc_tick_sel := use_ref \<or> tm_use_ref_tick t, tc_rst := False,
          tc_pause := False, tc_clk_div := ucast dv, tc_duty_res := ucast (duty_bits (cfg_duty cfg)), tc_para_up := True\<rparr>) r, Inr ())
      else (t'\<lparr>tm_configured := tm_configured t\<rparr>, r, Inl Divisor))"
    unfolding timer_configure_def Let_def clk option.case ref
    by (cases use_ref) (simp_all add: assms(1) dv_def t'_def timer_configure_hw_def timer_update_hw_def modify_timer_def)
  then show ?thesis unfolding ok uc
    using le [of src] by (intro exI [where x = t']) (simp add: t'_def)
qed

theorem timer_configure_effect_witness:
  "\<exists>t'. timer_configure False \<lparr>cfg_duty = Duty14Bit, cfg_clock = APBClk, cfg_frequency = 5000\<rparr> (timer_new Timer1) demo_regs =
      Some (t', demo_regs, Inl Divisor) \<and> tm_duty t' = Some Duty14Bit \<and> \<not> tm_configured t'"
  using timer_configure_effect [of "\<lparr>cfg_duty = Duty14Bit, cfg_clock = APBClk, cfg_frequency = 5000\<rparr>" "timer_new Timer1" False demo_regs]
  by (auto simp: timer_new_def)

text \<open>
  What the controller does with a fade, as documented: from the duty register (four bits of it are a
  fraction) it changes the duty \<open>duty_num\<close> times by \<open>duty_scale\<close>, up or down.
\<close>

definition fade_end :: "chan_regs \<Rightarrow> int" where
  "fade_end g =
     (let way = uint (c1_duty_num (cr_conf1 g)) * uint (c1_duty_scale (cr_conf1 g)); start = uint (drop_bit 4 (cr_duty g))
      in if c1_duty_inc (cr_conf1 g) then start + way else start - way)"

lemma unat_ten_bits: "unat (ucast (of_nat n :: u16) :: u10) = n mod 1024"
proof -
  have "unat (ucast (of_nat n :: u16) :: u10) = unat (of_nat n :: u16) mod 2 ^ 10" by (simp add: unsigned_ucast_eq take_bit_eq_mod)
  also have "\<dots> = n mod 2 ^ 16 mod 2 ^ 10" by (simp add: unat_of_nat)
  also have "\<dots> = n mod 2 ^ 10" by (rule mod_mod_cancel) simp
  finally show ?thesis by simp
qed

lemma fade_registers:
  fixes c :: pwm_channel and up :: bool and r :: ledc_regs
  assumes "a < 2 ^ 14" "n < 2 ^ 14" "k \<le> 1023"
  defines "g \<equiv> lr_chan (start_duty_fade_hw c (of_nat a) up (of_nat n) (of_nat k) 1 r) (pc_number c)"
  shows "unat (c1_duty_num (cr_conf1 g)) = n mod 1024" "unat (c1_duty_cycle (cr_conf1 g)) = k"
    "fade_end g = (if up then int a + int (n mod 1024) else int a - int (n mod 1024))"
proof -
  have g: "cr_conf1 g = \<lparr>c1_duty_start = True, c1_duty_inc = up, c1_duty_num = ucast (of_nat n :: u16),
      c1_duty_cycle = ucast (of_nat k :: u16), c1_duty_scale = 1\<rparr>" "cr_duty g = push_bit 4 (of_nat a)"
    by (simp_all add: g_def start_duty_fade_hw_def ledc_regs_simps Let_def)
  show num: "unat (c1_duty_num (cr_conf1 g)) = n mod 1024" by (simp add: g unat_ten_bits)
  show "unat (c1_duty_cycle (cr_conf1 g)) = k" using assms(3) by (simp add: g unat_ten_bits)
  have "unat (push_bit 4 (of_nat a :: u32)) = a * 16"
    using assms(1) by (simp add: push_bit_eq_mult unat_word_ariths unat_of_nat)
  then have "unat (drop_bit 4 (push_bit 4 (of_nat a :: u32))) = a" by (simp only: unat_drop_bit_eq) (simp add: drop_bit_eq_div)
  then have "uint (drop_bit 4 (cr_duty g)) = int a" by (metis g(2) of_nat_unat uint_nat)
  moreover have "uint (c1_duty_num (cr_conf1 g)) = int (n mod 1024)" using num by (metis uint_nat)
  ultimately show "fade_end g = (if up then int a + int (n mod 1024) else int a - int (n mod 1024))"
    by (simp add: fade_end_def Let_def) (simp add: g)
qed

text \<open>
  C31. Fades: on a configured timer, with percentages in range and a duration whose cycles fit in 32 bits,
  a fade between two equal duty values panics (a division by zero steps); any other is
  refused, with the registers untouched, exactly when a step would take more than 1023 cycles, and
  otherwise programmed from the start value, in the right direction, with steps of one of the computed
  length, the end-of-fade interrupt cleared so that the fade is seen running, in no more cycles than
  asked for.  It ends at the end value exactly when it has at most 1023 steps, as every fade of a timer
  of at most ten bits has; of more steps the register keeps the low ten bits, and the fade stops short.
\<close>

theorem fade_effect:
  fixes c :: pwm_channel and r :: ledc_regs
  assumes "pc_timer c = Some t" "tm_duty t = Some d" "0 < tm_frequency t" "sp \<le> 100" "ep \<le> 100"
    and "unat ms * unat (tm_frequency t) < 2 ^ 32"
  defines "v \<equiv> fade_value d" and "n \<equiv> fade_steps d sp ep"
  defines "k \<equiv> unat ms * unat (tm_frequency t) div 1000 div n"
  defines "r' \<equiv> start_duty_fade_hw c (of_nat (v sp)) (v sp < v ep) (of_nat n) (of_nat k) 1 r"
  defines "g \<equiv> lr_chan r' (pc_number c)"
  shows "start_duty_fade c sp ep ms r =
      (if v sp = v ep then None else if 1023 < k then Some (r, Inl (ErrFade FadeDuration)) else Some (r', Inr ())) \<and>
    is_duty_fade_running c r' \<and> k * n \<le> unat ms * unat (tm_frequency t) div 1000 \<and>
    (k \<le> 1023 \<longrightarrow> unat (c1_duty_num (cr_conf1 g)) = n mod 1024 \<and> unat (c1_duty_cycle (cr_conf1 g)) = k \<and>
       (fade_end g = int (v ep) \<longleftrightarrow> n \<le> 1023)) \<and>
    (unat (duty_bits d) \<le> 10 \<longrightarrow> n \<le> 1023)"
proof -
  have zero: "(n = 0) = (v sp = v ep)" by (auto simp: n_def v_def fade_steps_def)
  have run: "is_duty_fade_running c r'"
    by (simp add: r'_def is_duty_fade_running_def start_duty_fade_hw_def ledc_regs_simps Let_def)
  have n: "n < 2 ^ 14" "v sp < 2 ^ 14"
    using fade_steps_bound [OF assms(4,5), of d] fade_value_bound [OF assms(4), of d] by (simp_all add: n_def v_def)
  have way: "int (v ep) = (if v sp < v ep then int (v sp) + int n else int (v sp) - int n)" by (auto simp: n_def v_def fade_steps_def)
  have "fade_end g = int (v ep) \<longleftrightarrow> n \<le> 1023" if "k \<le> 1023"
  proof -
    have "fade_end g = int (v ep) \<longleftrightarrow> n mod 1024 = n"
      unfolding g_def r'_def fade_registers(3) [OF n(2,1) that] way by auto
    also have "\<dots> \<longleftrightarrow> n \<le> 1023" using mod_less_divisor [of 1024 n] by (cases "n \<le> 1023") auto
    finally show ?thesis .
  qed
  moreover have "n \<le> 1023" if "unat (duty_bits d) \<le> 10"
  proof -
    have "(2 :: nat) ^ unat (duty_bits d) \<le> 2 ^ 10" using that by (intro power_increasing) auto
    then have "fade_value d p \<le> 1023" if "p \<le> 100" for p
    proof -
      have "(2 ^ unat (duty_bits d) - 1) * unat p div 100 \<le> 1023 * 100 div 100"
        using \<open>2 ^ unat (duty_bits d) \<le> 2 ^ 10\<close> that by (intro div_le_mono mult_le_mono) (auto simp: word_le_nat_alt)
      then show ?thesis by (simp add: fade_value_def)
    qed
    from this [OF assms(4)] this [OF assms(5)] show ?thesis by (auto simp: n_def fade_steps_def)
  qed
  moreover have "k * n \<le> unat ms * unat (tm_frequency t) div 1000" by (simp add: k_def)
  moreover have "start_duty_fade c sp ep ms r =
      (if v sp = v ep then None else if 1023 < k then Some (r, Inl (ErrFade FadeDuration)) else Some (r', Inr ()))"
    using start_duty_fade_nat [OF assms(1-6), of r] zero unfolding v_def n_def k_def r'_def by auto
  ultimately show ?thesis
    using run fade_registers(1,2) [OF n(2,1), of k c "v sp < v ep" r] unfolding g_def r'_def by blast
qed

theorem fade_effect_witness:
  "start_duty_fade backlight_pwm 100 0 1000 demo_regs = Some (start_duty_fade_hw backlight_pwm 255 False 255 196 1 demo_regs, Inr ()) \<and>
   fade_end (lr_chan (start_duty_fade_hw backlight_pwm 255 False 255 196 1 demo_regs) (pc_number backlight_pwm)) = 0 \<and>
   start_duty_fade backlight_pwm 40 40 1000 demo_regs = None"
proof -
  have a: "pc_timer backlight_pwm = Some backlight_timer" "tm_duty backlight_timer = Some Duty8Bit" "0 < tm_frequency backlight_timer"
    "unat (1000 :: u16) * unat (tm_frequency backlight_timer) < 2 ^ 32"
    by (simp_all add: backlight_pwm_def backlight_timer_def)
  have f: "tm_frequency backlight_timer = 50000" by (simp add: backlight_timer_def)
  have p: "(100 :: u8) \<le> 100" "(0 :: u8) \<le> 100" "(40 :: u8) \<le> 100" by simp_all
  show ?thesis
    using fade_effect [OF a(1-3) p(1,2) a(4), of demo_regs] fade_effect [OF a(1-3) p(3,3) a(4), of demo_regs] by (simp add: f fade_value_def fade_steps_def)
qed

text \<open>The same fade on a timer of eleven bits, to 60 percent: 1228 steps are asked for and 204 are done.\<close>

lemma fade_stops_short:
  "let c = backlight_pwm\<lparr>pc_timer := Some (backlight_timer\<lparr>tm_duty := Some Duty11Bit\<rparr>)\<rparr> in
   \<exists>r'. start_duty_fade c 0 60 1000 demo_regs = Some (r', Inr ()) \<and> fade_value Duty11Bit 60 = 1228 \<and>
     fade_end (lr_chan r' (pc_number c)) = 204"
proof -
  let ?c = "backlight_pwm\<lparr>pc_timer := Some (backlight_timer\<lparr>tm_duty := Some Duty11Bit\<rparr>)\<rparr>"
  have v: "fade_value Duty11Bit 0 = 0" "fade_value Duty11Bit 60 = 1228" "fade_steps Duty11Bit 0 60 = 1228"
    by (simp_all add: fade_value_def fade_steps_def)
  let ?r = "start_duty_fade_hw ?c (of_nat 0) True (of_nat 1228) (of_nat 40) 1 demo_regs"
  have "start_duty_fade ?c 0 60 1000 demo_regs = Some (?r, Inr ())"
    using start_duty_fade_nat [of ?c "backlight_timer\<lparr>tm_duty := Some Duty11Bit\<rparr>" Duty11Bit 0 60 1000 demo_regs]
    by (simp add: v backlight_pwm_def backlight_timer_def)
  moreover have "fade_end (lr_chan ?r (pc_number ?c)) = 204"
    using fade_registers(3) [of 0 1228 40 ?c True demo_regs] by simp
  ultimately show ?thesis using v(2) by (auto simp: Let_def)
qed

end
