(* ===== verification/I2c_Master.thy ===== *)
theory I2c_Master
  imports Haptic "HOL-Library.Monad_Syntax"
begin

text \<open>
  The blocking I2C master of the firmware (\<open>esp-hal-patched/src/i2c/master/mod.rs\<close>, the parts
  for the ESP32-S3): a transaction is cut into chunks that fit the controller's FIFO, each
  chunk becomes a program of controller commands and a FIFO filling, and the driver waits for each
  program before the next.

  The controller itself is a parameter, \<open>'h i2c_hw\<close>: what the driver's register accesses do and
  return.  Resetting the command list, the FIFOs and the interrupts (\<open>reset_before_transmission\<close>),
  the FSM reset and the clearing of a stuck bus are one access each.  The chip's properties that a
  generated table holds (\<open>property!\<close>) are the record \<open>i2c_chip\<close>.  A function that loops until the
  controller answers returns an option: \<open>None\<close> is not returning, or a failed \<open>debug_assert!\<close>.
  Times are counted in microseconds.
\<close>

section \<open>Commands, errors and operations\<close>

datatype i2c_ack = AckBit | NackBit

datatype i2c_cmd = CmdStart | CmdStop | CmdEnd
  | CmdWrite (ack_exp: i2c_ack) (ack_check_en: bool) (cmd_length: u8)
  | CmdRead (ack_value: i2c_ack) (cmd_length: u8)

datatype nack_reason = NackAddress | NackData | NackUnknown

datatype i2c_error = FifoExceeded | AcknowledgeCheckFailed nack_reason | I2cTimeout | ArbitrationLost
  | ExecutionIncomplete | CommandNumberExceeded | ZeroLengthInvalid | AddressInvalid u8

text \<open>A read carries its buffer, which the driver fills.\<close>

datatype i2c_operation = OpWrite "u8 list" | OpRead "u8 list"

fun op_is_write :: "i2c_operation \<Rightarrow> bool" where
  "op_is_write (OpWrite _) = True"
| "op_is_write (OpRead _) = False"

fun op_is_empty :: "i2c_operation \<Rightarrow> bool" where
  "op_is_empty (OpWrite b) = (b = [])"
| "op_is_empty (OpRead b) = (b = [])"

datatype op_kind = KindWrite | KindRead

fun op_kind_of :: "i2c_operation \<Rightarrow> op_kind" where
  "op_kind_of (OpWrite _) = KindWrite"
| "op_kind_of (OpRead _) = KindRead"

section \<open>The controller\<close>

record i2c_chip =
  fifo_size :: nat
  comd_count :: nat
  has_fsm_timeouts :: bool
  can_estimate_nack :: bool

definition i2c_chunk_size :: "i2c_chip \<Rightarrow> nat" where
  "i2c_chunk_size chip = fifo_size chip - 1"

text \<open>What \<open>int_raw\<close>, and with it \<open>sr\<close> and \<open>fifo_st\<close>, say at one look.\<close>

record i2c_ints =
  in_nack :: bool
  in_arbitration_lost :: bool
  in_trans_complete :: bool
  in_end_detect :: bool
  in_time_out :: bool
  in_scl_st_to :: bool
  in_scl_main_st_to :: bool
  sr_resp_rec :: bool
  fifo_raddr :: u8

record 'h i2c_hw =
  hw_bus_busy :: "'h \<Rightarrow> bool"
  hw_clear_bus :: "'h \<Rightarrow> bool \<Rightarrow> 'h"
  hw_fsm_reset :: "'h \<Rightarrow> 'h"
  hw_reset :: "'h \<Rightarrow> 'h"
  hw_start :: "'h \<Rightarrow> i2c_cmd list \<Rightarrow> u8 list \<Rightarrow> 'h"
  hw_ints :: "'h \<Rightarrow> 'h \<times> i2c_ints"
  hw_cmd_done :: "'h \<Rightarrow> nat \<Rightarrow> 'h \<times> bool"
  hw_rx_count :: "'h \<Rightarrow> nat"
  hw_rx_byte :: "'h \<Rightarrow> 'h \<times> u8"
  hw_now :: "'h \<Rightarrow> 'h \<times> nat"

section \<open>Chunks\<close>

definition calculate_chunk_size :: "nat \<Rightarrow> nat \<Rightarrow> nat" where
  "calculate_chunk_size cs remaining =
     (if remaining \<le> cs then remaining else if cs + 2 < remaining then cs else cs - 2)"

text \<open>\<open>VariableChunkIter\<close>, run to its end; it never ends if a chunk comes out empty.\<close>

partial_function (option) variable_chunks :: "nat \<Rightarrow> u8 list \<Rightarrow> u8 list list option" where
  "variable_chunks cs buffer =
     (if buffer = [] then Some []
      else let s = calculate_chunk_size cs (length buffer) in
        do { rest \<leftarrow> variable_chunks cs (drop s buffer); Some (take s buffer # rest) })"

section \<open>Programs\<close>

definition add_cmd :: "i2c_chip \<Rightarrow> i2c_cmd \<Rightarrow> i2c_cmd list \<Rightarrow> i2c_error + i2c_cmd list" where
  "add_cmd chip c cmds = (if length cmds < comd_count chip then Inr (cmds @ [c]) else Inl CommandNumberExceeded)"

text \<open>The commands of a setup, added one after another as long as there are registers.\<close>

fun add_cmds :: "i2c_chip \<Rightarrow> i2c_cmd list \<Rightarrow> i2c_cmd list \<Rightarrow> i2c_error + i2c_cmd list" where
  "add_cmds chip [] cmds = Inr cmds"
| "add_cmds chip (c # cs) cmds = (case add_cmd chip c cmds of Inl e \<Rightarrow> Inl e | Inr cmds \<Rightarrow> add_cmds chip cs cmds)"

definition address_byte :: "u8 \<Rightarrow> op_kind \<Rightarrow> u8" where
  "address_byte addr k = push_bit 1 addr OR (case k of KindWrite \<Rightarrow> 0 | KindRead \<Rightarrow> 1)"

text \<open>\<open>setup_write\<close> and \<open>setup_read\<close>: the commands, and the bytes put into the FIFO.\<close>

definition setup_write :: "i2c_chip \<Rightarrow> u8 \<Rightarrow> u8 list \<Rightarrow> bool \<Rightarrow> i2c_error + (i2c_cmd list \<times> u8 list)" where
  "setup_write chip addr bytes start =
     (let max_len = (if start then i2c_chunk_size chip else i2c_chunk_size chip + 1) in
      if max_len < length bytes then Inl FifoExceeded
      else
        let write_len = (if start then length bytes + 1 else length bytes);
            cmds = (if start then [CmdStart] else []) @
                   (if 0 < write_len then [CmdWrite AckBit True (of_nat write_len)] else [])
        in case add_cmds chip cmds [] of
             Inl e \<Rightarrow> Inl e
           | Inr cmds \<Rightarrow> Inr (cmds, (if start then [address_byte addr KindWrite] else []) @ bytes))"

definition setup_read :: "i2c_chip \<Rightarrow> u8 \<Rightarrow> nat \<Rightarrow> bool \<Rightarrow> bool \<Rightarrow> i2c_error + (i2c_cmd list \<times> u8 list)" where
  "setup_read chip addr len start will_continue =
     (if len = 0 then Inl ZeroLengthInvalid
      else
        let max_len = (if will_continue then i2c_chunk_size chip + 1 else i2c_chunk_size chip);
            initial_len = (if will_continue then len else len - 1)
        in if max_len < len then Inl FifoExceeded
           else
             let cmds = (if start then [CmdStart, CmdWrite AckBit True 1] else []) @
                        (if 0 < initial_len then [CmdRead AckBit (of_nat initial_len)] else []) @
                        (if \<not> will_continue then [CmdRead NackBit 1] else [])
             in case add_cmds chip cmds [] of
                  Inl e \<Rightarrow> Inl e
                | Inr cmds \<Rightarrow> Inr (cmds, if start then [address_byte addr KindRead] else []))"

text \<open>The end of a program, as \<open>start_write_operation\<close> and \<open>start_read_operation\<close> have it.\<close>

definition finish_program :: "i2c_chip \<Rightarrow> bool \<Rightarrow> bool \<Rightarrow> i2c_error + (i2c_cmd list \<times> u8 list) \<Rightarrow> i2c_error + (i2c_cmd list \<times> u8 list)" where
  "finish_program chip start stop p =
     (case p of
        Inl e \<Rightarrow> Inl e
      | Inr (cmds, fifo) \<Rightarrow>
          (case add_cmds chip ((if stop then [CmdStop] else []) @ (if \<not> (start \<and> stop) then [CmdEnd] else [])) cmds of
             Inl e \<Rightarrow> Inl e
           | Inr cmds \<Rightarrow> Inr (cmds, fifo)))"

section \<open>Waiting\<close>

datatype deadline = NoDeadline | FixedDeadline nat | PerByte nat

text \<open>\<open>Deadline::start\<close>: the instant, if any, after which a wait gives up.\<close>

definition deadline_start :: "'h i2c_hw \<Rightarrow> deadline \<Rightarrow> nat \<Rightarrow> 'h \<Rightarrow> 'h \<times> nat option" where
  "deadline_start hw d data_len h =
     (case d of
        NoDeadline \<Rightarrow> (h, None)
      | FixedDeadline t \<Rightarrow> (h, Some t)
      | PerByte dur \<Rightarrow> (case hw_now hw h of (h, now) \<Rightarrow> (h, Some (now + dur * data_len))))"

definition look_at_clock :: "'h i2c_hw \<Rightarrow> nat option \<Rightarrow> 'h \<Rightarrow> 'h \<times> nat" where
  "look_at_clock hw deadline h = (if deadline \<noteq> None then hw_now hw h else (h, 0))"

definition estimate_ack_failed_reason :: "i2c_chip \<Rightarrow> i2c_ints \<Rightarrow> nack_reason" where
  "estimate_ack_failed_reason chip r =
     (if can_estimate_nack chip then (if fifo_raddr r \<le> 1 then NackAddress else NackData) else NackUnknown)"

definition check_errors :: "i2c_chip \<Rightarrow> i2c_ints \<Rightarrow> i2c_error + unit" where
  "check_errors chip r =
     (if in_nack r then Inl (AcknowledgeCheckFailed (estimate_ack_failed_reason chip r))
      else if in_arbitration_lost r then Inl ArbitrationLost
      else if in_trans_complete r \<and> \<not> sr_resp_rec r then Inl (AcknowledgeCheckFailed NackData)
      else if has_fsm_timeouts chip \<and> in_scl_st_to r then Inl I2cTimeout
      else if has_fsm_timeouts chip \<and> in_scl_main_st_to r then Inl I2cTimeout
      else if in_time_out r then Inl I2cTimeout
      else Inr ())"

text \<open>One poll of the completion future: the answer, or \<open>None\<close> while it is pending.\<close>

definition poll_completion :: "'h i2c_hw \<Rightarrow> i2c_chip \<Rightarrow> nat option \<Rightarrow> 'h \<Rightarrow> 'h \<times> (i2c_error + unit) option" where
  "poll_completion hw chip deadline h =
     (case look_at_clock hw deadline h of (h, now) \<Rightarrow>
      case hw_ints hw h of (h, r) \<Rightarrow>
      let err = check_errors chip r in
      case hw_ints hw h of (h, r') \<Rightarrow>
        if in_trans_complete r' \<or> in_end_detect r'
        then (h, Some (if err = Inl I2cTimeout then Inr () else err))
        else if err \<noteq> Inr () then (h, Some err)
        else if (case deadline of None \<Rightarrow> False | Some d \<Rightarrow> d < now) then (h, Some (Inl I2cTimeout))
        else (h, None))"

partial_function (option) wait_poll ::
  "'h i2c_hw \<Rightarrow> i2c_chip \<Rightarrow> nat option \<Rightarrow> 'h \<Rightarrow> ('h \<times> (i2c_error + unit)) option" where
  "wait_poll hw chip deadline h =
     (case poll_completion hw chip deadline h of
        (h, Some r) \<Rightarrow> Some (h, r)
      | (h, None) \<Rightarrow> wait_poll hw chip deadline h)"

text \<open>
  \<open>all_commands_done\<close>: the registers of the program in order, from register \<open>i\<close>, up to its END or
  STOP; the registers behind the program are reset and pass.
\<close>

fun scan_commands :: "'h i2c_hw \<Rightarrow> nat option \<Rightarrow> nat \<Rightarrow> nat \<Rightarrow> i2c_cmd list \<Rightarrow> 'h \<Rightarrow> 'h \<times> (i2c_error + bool)" where
  "scan_commands hw deadline now i [] h = (h, Inr True)"
| "scan_commands hw deadline now i (c # cs) h =
     (case hw_cmd_done hw h i of (h, dn) \<Rightarrow>
        if c \<noteq> CmdEnd \<and> \<not> dn
        then (h, if (case deadline of None \<Rightarrow> False | Some d \<Rightarrow> d < now) then Inl ExecutionIncomplete else Inr False)
        else if c = CmdEnd \<or> c = CmdStop then (h, Inr True)
        else scan_commands hw deadline now (Suc i) cs h)"

definition all_commands_done :: "'h i2c_hw \<Rightarrow> nat option \<Rightarrow> i2c_cmd list \<Rightarrow> 'h \<Rightarrow> 'h \<times> (i2c_error + bool)" where
  "all_commands_done hw deadline cmds h =
     (case look_at_clock hw deadline h of (h, now) \<Rightarrow> scan_commands hw deadline now 0 cmds h)"

partial_function (option) check_all_commands_done ::
  "'h i2c_hw \<Rightarrow> i2c_chip \<Rightarrow> nat option \<Rightarrow> i2c_cmd list \<Rightarrow> 'h \<Rightarrow> ('h \<times> (i2c_error + unit)) option" where
  "check_all_commands_done hw chip deadline cmds h =
     (case all_commands_done hw deadline cmds h of
        (h, Inl e) \<Rightarrow> Some (h, Inl e)
      | (h, Inr finished) \<Rightarrow>
          if finished then (case hw_ints hw h of (h, r) \<Rightarrow> Some (h, check_errors chip r))
          else check_all_commands_done hw chip deadline cmds h)"

definition wait_for_completion ::
  "'h i2c_hw \<Rightarrow> i2c_chip \<Rightarrow> nat option \<Rightarrow> i2c_cmd list \<Rightarrow> 'h \<Rightarrow> ('h \<times> (i2c_error + unit)) option" where
  "wait_for_completion hw chip deadline cmds h =
     do { (h, r) \<leftarrow> wait_poll hw chip deadline h;
          case r of Inl e \<Rightarrow> Some (h, Inl e) | Inr _ \<Rightarrow> check_all_commands_done hw chip deadline cmds h }"

section \<open>Operations\<close>

text \<open>\<open>read_all_from_fifo\<close>, with its debug assertion that nothing is left.\<close>

fun read_fifo_bytes :: "'h i2c_hw \<Rightarrow> nat \<Rightarrow> 'h \<Rightarrow> 'h \<times> u8 list" where
  "read_fifo_bytes hw 0 h = (h, [])"
| "read_fifo_bytes hw (Suc n) h =
     (case hw_rx_byte hw h of (h, b) \<Rightarrow> case read_fifo_bytes hw n h of (h, bs) \<Rightarrow> (h, b # bs))"

definition read_all_from_fifo :: "'h i2c_hw \<Rightarrow> nat \<Rightarrow> 'h \<Rightarrow> ('h \<times> (i2c_error + u8 list)) option" where
  "read_all_from_fifo hw len h =
     (if hw_rx_count hw h < len then Some (h, Inl ExecutionIncomplete)
      else case read_fifo_bytes hw len h of (h, bs) \<Rightarrow> if hw_rx_count hw h = 0 then Some (h, Inr bs) else None)"

definition validate :: "u8 \<Rightarrow> i2c_error + unit" where
  "validate addr = (if 0x7F < addr then Inl (AddressInvalid addr) else Inr ())"

definition write_operation ::
  "'h i2c_hw \<Rightarrow> i2c_chip \<Rightarrow> u8 \<Rightarrow> u8 list \<Rightarrow> bool \<Rightarrow> bool \<Rightarrow> deadline \<Rightarrow> 'h \<Rightarrow> ('h \<times> (i2c_error + unit)) option" where
  "write_operation hw chip addr bytes start stop dl h =
     (case validate addr of Inl e \<Rightarrow> Some (h, Inl e) | Inr _ \<Rightarrow>
        let h = hw_reset hw h in
        if bytes = [] \<and> \<not> start \<and> \<not> stop then Some (h, Inr ())
        else case finish_program chip start stop (setup_write chip addr bytes start) of
            Inl e \<Rightarrow> Some (h, Inl e)
          | Inr (cmds, fifo) \<Rightarrow>
              (case deadline_start hw dl (length bytes + 1) (hw_start hw h cmds fifo) of
                 (h, deadline) \<Rightarrow> wait_for_completion hw chip deadline cmds h))"

text \<open>A read returns the bytes for its chunk of the buffer.\<close>

definition read_operation ::
  "'h i2c_hw \<Rightarrow> i2c_chip \<Rightarrow> u8 \<Rightarrow> nat \<Rightarrow> bool \<Rightarrow> bool \<Rightarrow> bool \<Rightarrow> deadline \<Rightarrow> 'h \<Rightarrow> ('h \<times> (i2c_error + u8 list)) option" where
  "read_operation hw chip addr len start stop will_continue dl h =
     (case validate addr of Inl e \<Rightarrow> Some (h, Inl e) | Inr _ \<Rightarrow>
        let h = hw_reset hw h in
        if len = 0 then Some (h, Inr [])
        else if fifo_size chip < len then None
        else case finish_program chip start stop (setup_read chip addr len start will_continue) of
            Inl e \<Rightarrow> Some (h, Inl e)
          | Inr (cmds, fifo) \<Rightarrow>
              (case deadline_start hw dl (len + 1) (hw_start hw h cmds fifo) of
                 (h, deadline) \<Rightarrow> do {
                   (h, r) \<leftarrow> wait_for_completion hw chip deadline cmds h;
                   case r of Inl e \<Rightarrow> Some (h, Inl e) | Inr _ \<Rightarrow> read_all_from_fifo hw len h }))"

text \<open>
  The loops of \<open>write_blocking\<close> and \<open>read_blocking\<close> over the chunks, from chunk \<open>idx\<close> of
  \<open>count\<close>.  The read returns the buffer: what the chunks read, and after an error the old rest.
\<close>

fun write_chunks ::
  "'h i2c_hw \<Rightarrow> i2c_chip \<Rightarrow> u8 \<Rightarrow> bool \<Rightarrow> bool \<Rightarrow> deadline \<Rightarrow> nat \<Rightarrow> nat \<Rightarrow> u8 list list \<Rightarrow> 'h \<Rightarrow> ('h \<times> (i2c_error + unit)) option" where
  "write_chunks hw chip addr start stop dl count idx [] h = Some (h, Inr ())"
| "write_chunks hw chip addr start stop dl count idx (chunk # chunks) h =
     do { (h, r) \<leftarrow> write_operation hw chip addr chunk (start \<and> idx = 0) (stop \<and> idx = count - 1) dl h;
          case r of Inl e \<Rightarrow> Some (h, Inl e) | Inr _ \<Rightarrow> write_chunks hw chip addr start stop dl count (Suc idx) chunks h }"

definition write_blocking ::
  "'h i2c_hw \<Rightarrow> i2c_chip \<Rightarrow> u8 \<Rightarrow> u8 list \<Rightarrow> bool \<Rightarrow> bool \<Rightarrow> deadline \<Rightarrow> 'h \<Rightarrow> ('h \<times> (i2c_error + unit)) option" where
  "write_blocking hw chip addr buffer start stop dl h =
     (if buffer = [] then write_operation hw chip addr [] start stop dl h
      else do { chunks \<leftarrow> variable_chunks (i2c_chunk_size chip) buffer;
                write_chunks hw chip addr start stop dl (length chunks) 0 chunks h })"

fun read_chunks ::
  "'h i2c_hw \<Rightarrow> i2c_chip \<Rightarrow> u8 \<Rightarrow> bool \<Rightarrow> bool \<Rightarrow> bool \<Rightarrow> deadline \<Rightarrow> nat \<Rightarrow> nat \<Rightarrow> u8 list list \<Rightarrow> 'h
     \<Rightarrow> ('h \<times> u8 list \<times> (i2c_error + unit)) option" where
  "read_chunks hw chip addr start stop will_continue dl count idx [] h = Some (h, [], Inr ())"
| "read_chunks hw chip addr start stop will_continue dl count idx (chunk # chunks) h =
     do { (h, r) \<leftarrow> read_operation hw chip addr (length chunk) (start \<and> idx = 0) (stop \<and> idx = count - 1)
                     (will_continue \<or> idx < count - 1) dl h;
          case r of
            Inl e \<Rightarrow> Some (h, concat (chunk # chunks), Inl e)
          | Inr bs \<Rightarrow> do { (h, rest, r) \<leftarrow> read_chunks hw chip addr start stop will_continue dl count (Suc idx) chunks h;
                         Some (h, bs @ rest, r) } }"

definition read_blocking ::
  "'h i2c_hw \<Rightarrow> i2c_chip \<Rightarrow> u8 \<Rightarrow> u8 list \<Rightarrow> bool \<Rightarrow> bool \<Rightarrow> bool \<Rightarrow> deadline \<Rightarrow> 'h \<Rightarrow> ('h \<times> u8 list \<times> (i2c_error + unit)) option" where
  "read_blocking hw chip addr buffer start stop will_continue dl h =
     do { chunks \<leftarrow> variable_chunks (i2c_chunk_size chip) buffer;
          read_chunks hw chip addr start stop will_continue dl (length chunks) 0 chunks h }"

section \<open>Transactions\<close>

datatype software_timeout = NoTimeout | TransactionTimeout nat | PerByteTimeout nat

definition op_deadline :: "software_timeout \<Rightarrow> deadline \<Rightarrow> deadline" where
  "op_deadline st dl = (case st of PerByteTimeout t \<Rightarrow> PerByte t | _ \<Rightarrow> dl)"

text \<open>The loop over the operations, which returns them with their buffers.\<close>

fun run_operations ::
  "'h i2c_hw \<Rightarrow> i2c_chip \<Rightarrow> software_timeout \<Rightarrow> u8 \<Rightarrow> deadline \<Rightarrow> op_kind option \<Rightarrow> i2c_operation list \<Rightarrow> 'h
     \<Rightarrow> ('h \<times> i2c_operation list \<times> (i2c_error + unit)) option" where
  "run_operations hw chip st addr dl last_op [] h = Some (h, [], Inr ())"
| "run_operations hw chip st addr dl last_op (op # ops) h =
     (let next_op = (case ops of [] \<Rightarrow> None | op' # _ \<Rightarrow> Some (op_kind_of op'));
          kind = op_kind_of op; dl = op_deadline st dl
      in do {
        (h, op', r) \<leftarrow>
          (case op of
             OpWrite buffer \<Rightarrow> do { (h, r) \<leftarrow> write_blocking hw chip addr buffer (last_op \<noteq> Some KindWrite) (next_op = None) dl h;
                                   Some (h, op, r) }
           | OpRead buffer \<Rightarrow> do { (h, buffer', r) \<leftarrow> read_blocking hw chip addr buffer (last_op \<noteq> Some KindRead) (next_op = None)
                                     (next_op = Some KindRead) dl h;
                                  Some (h, OpRead buffer', r) });
        case r of
          Inl e \<Rightarrow> Some (h, op' # ops, Inl e)
        | Inr _ \<Rightarrow> do { (h, ops', r) \<leftarrow> run_operations hw chip st addr dl (Some kind) ops h; Some (h, op' # ops', r) } })"

definition ensure_idle :: "'h i2c_hw \<Rightarrow> 'h \<Rightarrow> 'h" where
  "ensure_idle hw h = (if hw_bus_busy hw h then hw_clear_bus hw h False else h)"

definition transaction_impl ::
  "'h i2c_hw \<Rightarrow> i2c_chip \<Rightarrow> software_timeout \<Rightarrow> u8 \<Rightarrow> i2c_operation list \<Rightarrow> 'h
     \<Rightarrow> ('h \<times> i2c_operation list \<times> (i2c_error + unit)) option" where
  "transaction_impl hw chip st addr ops h =
     (case validate addr of
        Inl e \<Rightarrow> Some (h, filter (\<lambda>op. op_is_write op \<or> \<not> op_is_empty op) ops, Inl e)
      | Inr _ \<Rightarrow>
          (case (case st of TransactionTimeout t \<Rightarrow> (case hw_now hw (ensure_idle hw h) of (h, now) \<Rightarrow> (h, FixedDeadline (now + t)))
                          | _ \<Rightarrow> (ensure_idle hw h, NoDeadline)) of
             (h, dl) \<Rightarrow> run_operations hw chip st addr dl None (filter (\<lambda>op. op_is_write op \<or> \<not> op_is_empty op) ops) h))"

text \<open>\<open>transaction\<close> recovers from an error; the operations it returns are those it did not filter out.\<close>

definition internal_recover :: "'h i2c_hw \<Rightarrow> i2c_error \<Rightarrow> 'h \<Rightarrow> 'h" where
  "internal_recover hw e h = (if e = I2cTimeout then hw_clear_bus hw h True else hw_fsm_reset hw h)"

definition transaction ::
  "'h i2c_hw \<Rightarrow> i2c_chip \<Rightarrow> software_timeout \<Rightarrow> u8 \<Rightarrow> i2c_operation list \<Rightarrow> 'h
     \<Rightarrow> ('h \<times> i2c_operation list \<times> (i2c_error + unit)) option" where
  "transaction hw chip st addr ops h =
     do { (h, ops, r) \<leftarrow> transaction_impl hw chip st addr ops h;
          case r of Inl e \<Rightarrow> Some (internal_recover hw e h, ops, Inl e) | Inr _ \<Rightarrow> Some (h, ops, Inr ()) }"

text \<open>The entries the drivers call: \<open>write\<close>, \<open>read\<close> and \<open>write_read\<close>.\<close>

definition i2c_master_write ::
  "'h i2c_hw \<Rightarrow> i2c_chip \<Rightarrow> software_timeout \<Rightarrow> u8 \<Rightarrow> u8 list \<Rightarrow> 'h \<Rightarrow> ('h \<times> (i2c_error + unit)) option" where
  "i2c_master_write hw chip st addr buffer h =
     do { (h, _, r) \<leftarrow> transaction hw chip st addr [OpWrite buffer] h; Some (h, r) }"

fun read_buffer :: "u8 list \<Rightarrow> i2c_operation list \<Rightarrow> u8 list" where
  "read_buffer old (OpRead b # _) = b"
| "read_buffer old (OpWrite _ # ops) = read_buffer old ops"
| "read_buffer old [] = old"

definition i2c_master_read ::
  "'h i2c_hw \<Rightarrow> i2c_chip \<Rightarrow> software_timeout \<Rightarrow> u8 \<Rightarrow> u8 list \<Rightarrow> 'h \<Rightarrow> ('h \<times> u8 list \<times> (i2c_error + unit)) option" where
  "i2c_master_read hw chip st addr buffer h =
     do { (h, ops, r) \<leftarrow> transaction hw chip st addr [OpRead buffer] h; Some (h, read_buffer buffer ops, r) }"

definition i2c_master_write_read ::
  "'h i2c_hw \<Rightarrow> i2c_chip \<Rightarrow> software_timeout \<Rightarrow> u8 \<Rightarrow> u8 list \<Rightarrow> u8 list \<Rightarrow> 'h \<Rightarrow> ('h \<times> u8 list \<times> (i2c_error + unit)) option" where
  "i2c_master_write_read hw chip st addr write_buffer read_buf h =
     do { (h, ops, r) \<leftarrow> transaction hw chip st addr [OpWrite write_buffer, OpRead read_buf] h; Some (h, read_buffer read_buf ops, r) }"

end
