(* ===== verification/I2c_Clock.thy ===== *)
theory I2c_Clock
  imports I2c_Master
begin

text \<open>
  The configuration of the I2C controller (\<open>esp-hal-patched/src/i2c/master/mod.rs\<close>, the parts for the
  ESP32-S3): the timeouts, the clock divider and the timings of the bus, and the setup and reset that write
  them.  The values are those of a \<open>u32\<close>, held as natural numbers: \<open>None\<close> is an overflow or a division
  by zero.  What the chip's metadata and the width of a register field decide is the record \<open>clock_chip\<close>.
\<close>

section \<open>Configuration\<close>

datatype config_error = FrequencyOutOfRange | TimeoutTooLong

datatype bus_timeout = TimeoutMaximum | TimeoutDisabled | TimeoutBusCycles u32

datatype fsm_timeout = FsmTimeout (fsm_value: u8)

definition fsm_timeout_max :: u8 where "fsm_timeout_max = 23"

definition fsm_timeout_new :: "u8 \<Rightarrow> config_error + fsm_timeout" where
  "fsm_timeout_new v = (if fsm_timeout_max < v then Inl TimeoutTooLong else Inr (FsmTimeout v))"

record i2c_config =
  ic_frequency :: u32
  ic_timeout :: bus_timeout
  ic_software_timeout :: software_timeout
  ic_scl_st_timeout :: fsm_timeout
  ic_scl_main_st_timeout :: fsm_timeout

definition default_i2c_config :: i2c_config where
  "default_i2c_config = \<lparr>ic_frequency = 100000, ic_timeout = TimeoutDisabled, ic_software_timeout = NoTimeout,
     ic_scl_st_timeout = FsmTimeout fsm_timeout_max, ic_scl_main_st_timeout = FsmTimeout fsm_timeout_max\<rparr>"

record clock_chip =
  max_bus_timeout :: nat
  exponential_timeout :: bool
  wait_high_limit :: nat

section \<open>Arithmetic on \<open>u32\<close>\<close>

definition chk_add :: "nat \<Rightarrow> nat \<Rightarrow> nat option" where
  "chk_add a b = (if a + b < 2 ^ 32 then Some (a + b) else None)"

definition chk_sub :: "nat \<Rightarrow> nat \<Rightarrow> nat option" where
  "chk_sub a b = (if b \<le> a then Some (a - b) else None)"

definition chk_mul :: "nat \<Rightarrow> nat \<Rightarrow> nat option" where
  "chk_mul a b = (if a * b < 2 ^ 32 then Some (a * b) else None)"

definition chk_div :: "nat \<Rightarrow> nat \<Rightarrow> nat option" where
  "chk_div a b = (if b = 0 then None else Some (a div b))"

lemma chk_Some:
  "a + b < 2 ^ 32 \<Longrightarrow> chk_add a b = Some (a + b)"
  "b \<le> a \<Longrightarrow> chk_sub a b = Some (a - b)"
  "a * b < 2 ^ 32 \<Longrightarrow> chk_mul a b = Some (a * b)"
  "0 < b \<Longrightarrow> chk_div a b = Some (a div b)"
  by (simp_all add: chk_add_def chk_sub_def chk_mul_def chk_div_def)

fun ilog2 :: "nat \<Rightarrow> nat" where
  "ilog2 n = (if n < 2 then 0 else Suc (ilog2 (n div 2)))"

declare ilog2.simps [simp del]

lemma ilog2_bounds: "0 < n \<Longrightarrow> 2 ^ ilog2 n \<le> n \<and> n < 2 * 2 ^ ilog2 n"
proof (induction n rule: ilog2.induct)
  case (1 n)
  show ?case
  proof (cases "n < 2")
    case False
    then show ?thesis using 1 by (subst (1 2) ilog2.simps) (auto simp: div_greater_zero_iff)
  qed (use 1(2) in \<open>simp add: ilog2.simps\<close>)
qed

section \<open>Timeouts of the bus\<close>

definition apb_cycles :: "clock_chip \<Rightarrow> bus_timeout \<Rightarrow> nat \<Rightarrow> (config_error + nat option) option" where
  "apb_cycles chip t half_bus_cycle =
     (case t of
        TimeoutMaximum \<Rightarrow> Some (Inr (Some (max_bus_timeout chip)))
      | TimeoutDisabled \<Rightarrow> Some (Inr None)
      | TimeoutBusCycles cycles \<Rightarrow>
          do { both \<leftarrow> chk_mul (unat cycles) 2;
               apb \<leftarrow> chk_mul both half_bus_cycle;
               let raw = (if exponential_timeout chip
                 then (let to_peri = max apb 1; log2 = ilog2 to_peri in if to_peri \<noteq> 2 ^ log2 then log2 + 1 else log2)
                 else apb);
               Some (if raw \<le> max_bus_timeout chip then Inr (Some raw) else Inl TimeoutTooLong) })"

section \<open>Registers\<close>

record clock_regs =
  ms_mode :: bool
  force_out :: "bool \<times> bool"
  lsb_first :: "bool \<times> bool"
  arbitration_en :: bool
  ctr_clk_en :: bool
  conf_upgate :: bool
  sda_filter_thres :: u8
  scl_filter_thres :: u8
  filter_en :: "bool \<times> bool"
  sclk_sel :: bool
  sclk_div_num :: u8
  low_period :: u16
  wait_high :: nat
  high_period :: u16
  hold_time :: u16
  sample_time :: u16
  rstart_setup :: u16
  stop_setup :: u16
  start_hold :: u16
  stop_hold :: u16
  time_out_en :: bool
  time_out_value :: nat
  scl_st_to :: u8
  scl_main_st_to :: u8

definition init_master :: "clock_regs \<Rightarrow> clock_regs" where
  "init_master r = r\<lparr>ms_mode := True, force_out := (True, True), lsb_first := (False, False),
     arbitration_en := False, ctr_clk_en := True, conf_upgate := False\<rparr>"

definition set_filter :: "u8 option \<Rightarrow> u8 option \<Rightarrow> clock_regs \<Rightarrow> clock_regs" where
  "set_filter sda scl r =
     (let r = (case sda of Some t \<Rightarrow> r\<lparr>sda_filter_thres := t\<rparr> | None \<Rightarrow> r);
          r = (case scl of Some t \<Rightarrow> r\<lparr>scl_filter_thres := t\<rparr> | None \<Rightarrow> r)
      in r\<lparr>filter_en := (sda \<noteq> None, scl \<noteq> None)\<rparr>)"

text \<open>The arguments of \<open>configure_clock\<close>.\<close>

record bus_timing =
  t_sclk_div :: nat
  t_low :: nat
  t_high :: nat
  t_wait_high :: nat
  t_sda_hold :: nat
  t_sda_sample :: nat
  t_rstart_setup :: nat
  t_stop_setup :: nat
  t_start_hold :: nat
  t_stop_hold :: nat
  t_timeout :: "nat option"

definition configure_clock :: "clock_chip \<Rightarrow> bus_timing \<Rightarrow> clock_regs \<Rightarrow> (clock_regs \<times> (config_error + unit)) option" where
  "configure_clock chip t r =
     do { div_num \<leftarrow> chk_sub (t_sclk_div t) 1;
          let r = r\<lparr>sclk_sel := False, sclk_div_num := of_nat div_num\<rparr>;
          let r = r\<lparr>low_period := of_nat (t_low t)\<rparr>;
          Some (if wait_high_limit chip \<le> t_wait_high t then (r, Inl FrequencyOutOfRange)
            else (r\<lparr>wait_high := t_wait_high t, high_period := of_nat (t_high t),
                    hold_time := of_nat (t_sda_hold t), sample_time := of_nat (t_sda_sample t),
                    rstart_setup := of_nat (t_rstart_setup t), stop_setup := of_nat (t_stop_setup t),
                    start_hold := of_nat (t_start_hold t), stop_hold := of_nat (t_stop_hold t),
                    time_out_en := t_timeout t \<noteq> None,
                    time_out_value := (case t_timeout t of Some v \<Rightarrow> v | None \<Rightarrow> 1)\<rparr>, Inr ())) }"

section \<open>Frequency\<close>

definition half_cycle_of :: "nat \<Rightarrow> nat \<Rightarrow> (nat \<times> nat) option" where
  "half_cycle_of source_clk bus_freq =
     do { d \<leftarrow> chk_mul bus_freq 1024;
          q \<leftarrow> chk_div source_clk d;
          clkm_div \<leftarrow> chk_add q 1;
          sclk_freq \<leftarrow> chk_div source_clk clkm_div;
          cycle \<leftarrow> chk_div sclk_freq bus_freq;
          Some (clkm_div, cycle div 2) }"

definition timing_of :: "nat \<Rightarrow> nat \<Rightarrow> nat \<Rightarrow> bus_timing option" where
  "timing_of bus_freq clkm_div half_cycle =
     do { scl_wait_high \<leftarrow> (if 80 * 1000 \<le> bus_freq then chk_sub (half_cycle div 2) 2 else Some (half_cycle div 4));
          scl_high \<leftarrow> chk_sub half_cycle scl_wait_high;
          scl_low_period \<leftarrow> chk_sub half_cycle 1;
          sda_hold_time \<leftarrow> chk_sub (half_cycle div 4) 1;
          sda_sample_time \<leftarrow> chk_sub (half_cycle div 2) 1;
          edge \<leftarrow> chk_sub half_cycle 1;
          Some \<lparr>t_sclk_div = clkm_div, t_low = scl_low_period, t_high = scl_high, t_wait_high = scl_wait_high,
                t_sda_hold = sda_hold_time, t_sda_sample = sda_sample_time, t_rstart_setup = edge, t_stop_setup = edge,
                t_start_hold = edge, t_stop_hold = edge, t_timeout = None\<rparr> }"

definition set_frequency :: "clock_chip \<Rightarrow> nat \<Rightarrow> i2c_config \<Rightarrow> clock_regs \<Rightarrow> (clock_regs \<times> (config_error + unit)) option" where
  "set_frequency chip source_clk cfg r =
     do { (clkm_div, half_cycle) \<leftarrow> half_cycle_of source_clk (unat (ic_frequency cfg));
          t \<leftarrow> timing_of (unat (ic_frequency cfg)) clkm_div half_cycle;
          timeout \<leftarrow> apb_cycles chip (ic_timeout cfg) half_cycle;
          (case timeout of
             Inl e \<Rightarrow> Some (r, Inl e)
           | Inr v \<Rightarrow> configure_clock chip (t\<lparr>t_timeout := v\<rparr>) r) }"

text \<open>\<open>Driver::setup\<close>, and the reset of the state machine on chips without one of their own.\<close>

definition i2c_setup :: "clock_chip \<Rightarrow> nat \<Rightarrow> i2c_config \<Rightarrow> clock_regs \<Rightarrow> (clock_regs \<times> (config_error + unit)) option" where
  "i2c_setup chip source_clk cfg r =
     do { (r, res) \<leftarrow> set_frequency chip source_clk cfg (set_filter (Some 7) (Some 7) (init_master r));
          Some (case res of
             Inl e \<Rightarrow> (r, Inl e)
           | Inr _ \<Rightarrow> (r\<lparr>scl_st_to := fsm_value (ic_scl_st_timeout cfg),
                         scl_main_st_to := fsm_value (ic_scl_main_st_timeout cfg), conf_upgate := True\<rparr>, Inr ())) }"

definition do_fsm_reset :: "clock_chip \<Rightarrow> nat \<Rightarrow> i2c_config \<Rightarrow> (clock_regs \<Rightarrow> clock_regs) \<Rightarrow> clock_regs \<Rightarrow> clock_regs option" where
  "do_fsm_reset chip source_clk cfg reset r = map_option fst (i2c_setup chip source_clk cfg (reset r))"

definition i2c_apply_config ::
  "clock_chip \<Rightarrow> nat \<Rightarrow> i2c_config \<Rightarrow> (clock_regs \<Rightarrow> clock_regs) \<Rightarrow> clock_regs \<Rightarrow> (clock_regs \<times> (config_error + unit)) option" where
  "i2c_apply_config chip source_clk cfg reset r =
     do { (r, res) \<leftarrow> i2c_setup chip source_clk cfg r;
          (case res of
             Inl e \<Rightarrow> Some (r, Inl e)
           | Inr _ \<Rightarrow> map_option (\<lambda>r. (r, Inr ())) (do_fsm_reset chip source_clk cfg reset r)) }"

section \<open>The timings at 40 MHz\<close>

text \<open>The divider, the clock behind it and half a period of the bus, for a frequency of the bus.\<close>

definition clk_div :: "nat \<Rightarrow> nat" where "clk_div f = 40000000 div (f * 1024) + 1"
definition clk_tick :: "nat \<Rightarrow> nat" where "clk_tick f = 40000000 div clk_div f"
definition clk_half :: "nat \<Rightarrow> nat" where "clk_half f = clk_tick f div f div 2"

lemma half_cycle_of_ok:
  assumes "0 < f" "f < 2 ^ 22"
  shows "half_cycle_of 40000000 f = Some (clk_div f, clk_half f)"
proof -
  have "40000000 div (f * 1024) \<le> 40000000" by (rule div_le_dividend)
  then show ?thesis
    using assms by (simp add: half_cycle_of_def chk_Some clk_half_def clk_tick_def clk_div_def del: div_mult2_eq)
qed

lemma clk_div_bounds: "0 < f \<Longrightarrow> 40000000 < clk_div f * (f * 1024)" "39063 \<le> f \<Longrightarrow> clk_div f = 1"
  "0 < f \<Longrightarrow> f < 39063 \<Longrightarrow> clk_div f * (512 * f) \<le> 40000000"
proof -
  assume "0 < f"
  then show "40000000 < clk_div f * (f * 1024)"
    using dividend_less_div_times [of "f * 1024" 40000000] by (simp add: clk_div_def algebra_simps)
next
  assume "39063 \<le> f"
  then show "clk_div f = 1" by (simp add: clk_div_def)
next
  assume f: "0 < f" "f < 39063"
  have "40000000 div (f * 1024) * (f * 1024) \<le> 40000000" by (rule div_times_less_eq_dividend)
  then have "1024 * (clk_div f * f) \<le> 40000000 + 1024 * f" by (simp add: clk_div_def algebra_simps)
  moreover have "clk_div f * (512 * f) = 512 * (clk_div f * f)" by simp
  ultimately show "clk_div f * (512 * f) \<le> 40000000" using f by linarith
qed

lemma clk_half_upper:
  assumes "0 < f"
  shows "clk_half f < 512"
proof -
  have "clk_tick f < f * 1024"
    using clk_div_bounds(1) [OF assms] unfolding clk_tick_def
    by (intro less_mult_imp_div_less) (simp add: mult.commute)
  then have "clk_tick f div f < 1024" by (intro less_mult_imp_div_less) (simp add: mult.commute)
  then show ?thesis by (simp add: clk_half_def)
qed

lemma clk_half_lower:
  assumes "0 < f" "f < 2 ^ 22"
  shows "4 \<le> clk_half f"
proof (cases "39063 \<le> f")
  case True
  then have "clk_tick f = 40000000" by (simp add: clk_tick_def clk_div_bounds(2))
  moreover have "40000000 div (2 ^ 22 :: nat) \<le> 40000000 div f" using assms by (intro div_le_mono2) simp_all
  ultimately show ?thesis by (simp add: clk_half_def)
next
  case False
  have "512 * f \<le> clk_tick f"
    using False clk_div_bounds(3) [OF assms(1)] unfolding clk_tick_def
    by (subst less_eq_div_iff_mult_less_eq) (simp_all add: clk_div_def mult.commute)
  then have "512 \<le> clk_tick f div f" using assms(1) by (simp add: less_eq_div_iff_mult_less_eq)
  then show ?thesis by (simp add: clk_half_def)
qed

lemma clk_half_80k:
  assumes "80000 \<le> f"
  shows "clk_half f \<le> 250"
proof -
  have "40000000 div f \<le> 40000000 div (80000 :: nat)" using assms by (intro div_le_mono2) simp_all
  then show ?thesis using assms by (simp add: clk_half_def clk_tick_def clk_div_bounds(2))
qed

lemma clk_half_exact: "0 < f \<Longrightarrow> f * (2 * clk_half f) \<le> clk_tick f \<and> clk_tick f < f * (2 * (clk_half f + 1))"
proof -
  assume f: "0 < f"
  define c where "c = clk_tick f div f"
  have "f * c \<le> clk_tick f" "clk_tick f < f * (c + 1)"
    using f dividend_less_times_div [of f "clk_tick f"] by (simp_all add: c_def)
  moreover have "2 * clk_half f \<le> c" "c + 1 \<le> 2 * (clk_half f + 1)" by (simp_all add: clk_half_def c_def)
  ultimately show ?thesis using f by (meson mult_le_mono2 le_trans less_le_trans)
qed

lemma clk_div_field: "f < 153 \<longleftrightarrow> 256 < clk_div f" if "0 < f"
proof -
  have "40000000 div (f * 1024) < 256 \<longleftrightarrow> 40000000 < 256 * (f * 1024)" using that by (intro div_less_iff_less_mult) simp
  then show ?thesis by (auto simp: clk_div_def)
qed

text \<open>The wait of SCL, below 128 for every frequency.\<close>

definition clk_wait :: "nat \<Rightarrow> nat" where
  "clk_wait f = (if 80000 \<le> f then clk_half f div 2 - 2 else clk_half f div 4)"

lemma clk_wait_bounds: "0 < f \<Longrightarrow> clk_wait f < 128" "f < 2 ^ 22 \<Longrightarrow> clk_wait f \<le> clk_half f"
  using clk_half_80k [of f] clk_half_upper [of f] by (auto simp: clk_wait_def)

lemma timing_of_ok:
  assumes "0 < f" "f < 2 ^ 22"
  shows "timing_of f d (clk_half f) = Some \<lparr>t_sclk_div = d, t_low = clk_half f - 1, t_high = clk_half f - clk_wait f,
    t_wait_high = clk_wait f, t_sda_hold = clk_half f div 4 - 1, t_sda_sample = clk_half f div 2 - 1,
    t_rstart_setup = clk_half f - 1, t_stop_setup = clk_half f - 1, t_start_hold = clk_half f - 1,
    t_stop_hold = clk_half f - 1, t_timeout = None\<rparr>"
proof -
  note h = clk_half_lower [OF assms] and w = clk_wait_bounds(2) [OF assms(2)]
  have "(if 80 * 1000 \<le> f then chk_sub (clk_half f div 2) 2 else Some (clk_half f div 4)) = Some (clk_wait f)"
    using h div_le_mono [of 4 "clk_half f" 2] by (simp add: chk_sub_def clk_wait_def)
  moreover have "1 \<le> clk_half f div 4" "1 \<le> clk_half f div 2" using h by simp_all
  ultimately show ?thesis using h w by (simp add: timing_of_def chk_Some)
qed

text \<open>What the setup writes at 40 MHz, if the timeout is accepted.\<close>

definition clock_written :: "i2c_config \<Rightarrow> nat option \<Rightarrow> clock_regs" where
  "clock_written cfg v = (let f = unat (ic_frequency cfg); h = clk_half f in
     \<lparr>ms_mode = True, force_out = (True, True), lsb_first = (False, False), arbitration_en = False, ctr_clk_en = True,
      conf_upgate = True, sda_filter_thres = 7, scl_filter_thres = 7, filter_en = (True, True), sclk_sel = False,
      sclk_div_num = of_nat (clk_div f - 1), low_period = of_nat (h - 1), wait_high = clk_wait f,
      high_period = of_nat (h - clk_wait f), hold_time = of_nat (h div 4 - 1), sample_time = of_nat (h div 2 - 1),
      rstart_setup = of_nat (h - 1), stop_setup = of_nat (h - 1), start_hold = of_nat (h - 1), stop_hold = of_nat (h - 1),
      time_out_en = v \<noteq> None, time_out_value = (case v of Some t \<Rightarrow> t | None \<Rightarrow> 1),
      scl_st_to = fsm_value (ic_scl_st_timeout cfg), scl_main_st_to = fsm_value (ic_scl_main_st_timeout cfg)\<rparr>)"

lemma setup_written:
  assumes "0 < unat (ic_frequency cfg)" "unat (ic_frequency cfg) < 2 ^ 22" "128 \<le> wait_high_limit chip"
    "apb_cycles chip (ic_timeout cfg) (clk_half (unat (ic_frequency cfg))) = Some (Inr v)"
  shows "i2c_setup chip 40000000 cfg r = Some (clock_written cfg v, Inr ())"
proof -
  have "\<not> wait_high_limit chip \<le> clk_wait (unat (ic_frequency cfg))"
    using clk_wait_bounds(1) [OF assms(1)] assms(3) by simp
  moreover have "chk_sub (clk_div f) 1 = Some (clk_div f - 1)" for f by (simp add: chk_sub_def clk_div_def)
  ultimately show ?thesis
    using assms(4) half_cycle_of_ok [OF assms(1,2)] timing_of_ok [OF assms(1,2)]
    by (simp add: i2c_setup_def set_frequency_def configure_clock_def clock_written_def init_master_def set_filter_def Let_def)
qed

lemma no_frequency:
  assumes "unat (ic_frequency cfg) = 0 \<or> 2 ^ 22 \<le> unat (ic_frequency cfg)"
  shows "i2c_setup chip 40000000 cfg r = None"
  using assms by (auto simp: i2c_setup_def set_frequency_def half_cycle_of_def chk_mul_def chk_div_def)

section \<open>Properties\<close>

text \<open>
  C32. The bus clock: for every frequency from 153 Hz to 4 MHz the setup succeeds and every field holds its
  value; half a period is the ticks that the low phase, and the high phase with its wait, are given, and
  the bus is never slower than asked for and faster by less than one tick of half a period.
\<close>

theorem i2c_clock_timing:
  assumes "153 \<le> unat (ic_frequency cfg)" "unat (ic_frequency cfg) < 2 ^ 22" "128 \<le> wait_high_limit chip"
    "apb_cycles chip (ic_timeout cfg) (clk_half (unat (ic_frequency cfg))) = Some (Inr v)"
  shows "\<exists>r' half tick. i2c_setup chip 40000000 cfg r = Some (r', Inr ()) \<and>
    tick = 40000000 div (unat (sclk_div_num r') + 1) \<and> 4 \<le> half \<and> half < 512 \<and>
    unat (ic_frequency cfg) * (2 * half) \<le> tick \<and> tick < unat (ic_frequency cfg) * (2 * (half + 1)) \<and>
    unat (low_period r') + 1 = half \<and> unat (high_period r') + wait_high r' = half \<and> wait_high r' < 128 \<and>
    unat (start_hold r') + 1 = half \<and> unat (stop_hold r') + 1 = half \<and>
    unat (rstart_setup r') + 1 = half \<and> unat (stop_setup r') + 1 = half \<and>
    unat (hold_time r') + 1 = half div 4 \<and> unat (sample_time r') + 1 = half div 2 \<and>
    sda_filter_thres r' = 7 \<and> scl_filter_thres r' = 7 \<and> filter_en r' = (True, True) \<and> time_out_en r' = (v \<noteq> None)"
proof -
  define f where "f = unat (ic_frequency cfg)"
  have f: "0 < f" "f < 2 ^ 22" "\<not> f < 153" using assms(1,2) by (simp_all add: f_def)
  note h = clk_half_lower [OF f(1,2)] clk_half_upper [OF f(1)] clk_wait_bounds(1) [OF f(1)] clk_wait_bounds(2) [OF f(2)]
  have d: "unat (of_nat (clk_div f - 1) :: u8) + 1 = clk_div f"
    using clk_div_field [OF f(1)] f(3) by (subst unat_of_nat_eq) (simp_all add: clk_div_def)
  have q: "unat (of_nat (n - 1) :: u16) + 1 = n" if "1 \<le> n" "n < 512" for n
    using that by (subst unat_of_nat_eq) simp_all
  have quarter: "1 \<le> clk_half f div 4" "1 \<le> clk_half f div 2" using h(1) by simp_all
  have w: "unat (of_nat (clk_half f - clk_wait f) :: u16) = clk_half f - clk_wait f"
    using h(2) by (intro unat_of_nat_eq) simp
  show ?thesis
    unfolding setup_written [OF f(1) [unfolded f_def] assms(2-4)]
    by (rule exI [where x = "clock_written cfg v"], rule exI [where x = "clk_half f"], rule exI [where x = "clk_tick f"])
      (use h d w quarter q [of "clk_half f"] q [of "clk_half f div 4"] q [of "clk_half f div 2"] clk_half_exact [OF f(1)]
       in \<open>simp add: clock_written_def Let_def f_def [symmetric] clk_tick_def del: of_nat_diff\<close>)
qed

text \<open>
  No frequency is refused: 0 Hz and everything from 4194304 Hz on is a panic, not the error the driver
  documents, and below 153 Hz the divider is cut to its eight bits and the clock is too fast.
\<close>

theorem i2c_frequency_limits:
  assumes "128 \<le> wait_high_limit chip" "ic_timeout cfg = TimeoutDisabled"
  shows "(i2c_setup chip 40000000 cfg r = None) = (ic_frequency cfg = 0 \<or> 2 ^ 22 \<le> unat (ic_frequency cfg)) \<and>
    (\<forall>r' e. i2c_setup chip 40000000 cfg r \<noteq> Some (r', Inl e)) \<and>
    (0 < unat (ic_frequency cfg) \<and> unat (ic_frequency cfg) < 153 \<longrightarrow>
      (\<exists>r'. i2c_setup chip 40000000 cfg r = Some (r', Inr ()) \<and> unat (sclk_div_num r') + 1 < clk_div (unat (ic_frequency cfg))))"
proof -
  let ?f = "unat (ic_frequency cfg)"
  have ok: "i2c_setup chip 40000000 cfg r = Some (clock_written cfg None, Inr ())" if "0 < ?f" "?f < 2 ^ 22"
    using that assms by (intro setup_written) (simp_all add: apb_cycles_def)
  have cut: "unat (sclk_div_num (clock_written cfg None)) + 1 < clk_div ?f" if "0 < ?f" "?f < 153"
  proof -
    have "unat (sclk_div_num (clock_written cfg None)) < 256"
      using unsigned_less [of "sclk_div_num (clock_written cfg None)"] by simp
    then show ?thesis using clk_div_field [OF that(1)] that(2) by simp
  qed
  have "?f = 0 \<or> 2 ^ 22 \<le> ?f \<or> 0 < ?f \<and> ?f < 2 ^ 22" by linarith
  then show ?thesis using no_frequency [of cfg chip r] ok cut by (auto simp: unat_eq_zero)
qed

text \<open>
  The timeout of the bus, where the controller takes a power of two: an accepted one is at least the
  cycles asked for and less than twice as long, one is refused only when no power it can hold is long enough.
\<close>

theorem bus_timeout_kept:
  assumes "exponential_timeout chip" "2 * unat cycles * half < 2 ^ 32" "0 < unat cycles * half"
  shows "case apb_cycles chip (TimeoutBusCycles cycles) half of
      Some (Inr (Some t)) \<Rightarrow> 2 * unat cycles * half \<le> 2 ^ t \<and> 2 ^ t < 2 * (2 * unat cycles * half) \<and> t \<le> max_bus_timeout chip
    | Some (Inl e) \<Rightarrow> e = TimeoutTooLong \<and> 2 ^ max_bus_timeout chip < 2 * unat cycles * half
    | _ \<Rightarrow> False"
proof -
  define n where "n = unat cycles * 2 * half"
  define l where "l = ilog2 n"
  have n: "0 < n" "2 * unat cycles * half = n" using assms(3) by (simp_all add: n_def)
  then have l: "2 ^ l \<le> n" "n < 2 * 2 ^ l" using ilog2_bounds [of n] by (simp_all add: l_def)
  have small: "unat cycles * 2 < 2 ^ 32" using assms(2,3) by (cases half) auto
  have ap: "apb_cycles chip (TimeoutBusCycles cycles) half =
      Some (let raw = (if n \<noteq> 2 ^ l then l + 1 else l) in if raw \<le> max_bus_timeout chip then Inr (Some raw) else Inl TimeoutTooLong)"
  proof -
    have "chk_mul (unat cycles) 2 = Some (unat cycles * 2)" "chk_mul (unat cycles * 2) half = Some n"
      using small assms(2) n by (simp_all add: chk_mul_def n_def)
    moreover have "max n 1 = n" using n(1) by simp
    ultimately show ?thesis using assms(1) by (simp only: apb_cycles_def bus_timeout.case bind.bind_lunit Let_def if_True l_def)
  qed
  have long: "2 ^ max_bus_timeout chip < n" if "max_bus_timeout chip < (if n \<noteq> 2 ^ l then l + 1 else l)"
  proof (cases "n = 2 ^ l")
    case False
    then have "2 ^ max_bus_timeout chip \<le> (2 ^ l :: nat)" using that by (intro power_increasing) auto
    then show ?thesis using l False by linarith
  qed (use that in simp)
  show ?thesis unfolding ap n(2) using l n(1) long by (auto simp: Let_def not_le)
qed

text \<open>
  The reset of the state machine loses nothing: whatever the reset of the peripheral leaves in the
  registers, the setup after it restores every field the configuration wrote.
\<close>

theorem fsm_reset_restores:
  assumes "i2c_setup chip source_clk cfg r = Some (r', Inr ())"
  shows "do_fsm_reset chip source_clk cfg reset s = Some r' \<and>
    i2c_apply_config chip source_clk cfg reset s = Some (r', Inr ())"
proof -
  have same: "i2c_setup chip source_clk cfg s = Some (r', Inr ())" for s
    using assms
    by (auto simp: i2c_setup_def set_frequency_def configure_clock_def init_master_def set_filter_def Let_def
        split: bind_splits sum.splits prod.splits if_splits)
  show ?thesis using same by (simp add: do_fsm_reset_def i2c_apply_config_def)
qed

section \<open>Witnesses\<close>

text \<open>The configuration of the firmware, on a controller with the limits of the ESP32-S3.\<close>

definition firmware_i2c_config :: i2c_config where
  "firmware_i2c_config = default_i2c_config\<lparr>ic_frequency := 400000\<rparr>"

definition sim_clock_chip :: clock_chip where
  "sim_clock_chip = \<lparr>max_bus_timeout = 31, exponential_timeout = True, wait_high_limit = 256\<rparr>"

lemma no_timeout: "ic_timeout cfg = TimeoutDisabled \<Longrightarrow> apb_cycles chip (ic_timeout cfg) h = Some (Inr None)"
  by (simp add: apb_cycles_def)

lemma firmware_timeout [simp]: "ic_timeout firmware_i2c_config = TimeoutDisabled" "ic_frequency firmware_i2c_config = 400000"
  by (simp_all add: firmware_i2c_config_def default_i2c_config_def)

lemma sim_chip_limit: "128 \<le> wait_high_limit sim_clock_chip" by (simp add: sim_clock_chip_def)

theorem i2c_clock_timing_witness:
  "\<exists>r' half tick. i2c_setup sim_clock_chip 40000000 firmware_i2c_config (clock_written default_i2c_config (Some 3)) = Some (r', Inr ()) \<and>
    tick = 40000000 div (unat (sclk_div_num r') + 1) \<and> 400000 * (2 * half) \<le> tick \<and> tick < 400000 * (2 * (half + 1)) \<and>
    unat (low_period r') + 1 = half \<and> unat (high_period r') + wait_high r' = half \<and> \<not> time_out_en r'"
  using i2c_clock_timing [of firmware_i2c_config sim_clock_chip None, OF _ _ sim_chip_limit no_timeout]
  by (fastforce simp: One_nat_def [symmetric] simp del: One_nat_def)

theorem i2c_frequency_limits_witness:
  "i2c_setup sim_clock_chip 40000000 (default_i2c_config\<lparr>ic_frequency := 0\<rparr>) (clock_written default_i2c_config None) = None \<and>
   (\<exists>r'. i2c_setup sim_clock_chip 40000000 (default_i2c_config\<lparr>ic_frequency := 100\<rparr>) (clock_written default_i2c_config None) = Some (r', Inr ()) \<and>
     unat (sclk_div_num r') + 1 < 391)"
  using i2c_frequency_limits [OF sim_chip_limit, of "default_i2c_config\<lparr>ic_frequency := 0\<rparr>"]
    i2c_frequency_limits [OF sim_chip_limit, of "default_i2c_config\<lparr>ic_frequency := 100\<rparr>"]
  by (simp add: default_i2c_config_def clk_div_def)

theorem bus_timeout_kept_witness:
  "\<exists>t. apb_cycles sim_clock_chip (TimeoutBusCycles 10) 50 = Some (Inr (Some t)) \<and> 1000 \<le> (2 :: nat) ^ t \<and> (2 :: nat) ^ t < 2000"
  using bus_timeout_kept [of sim_clock_chip 10 50]
  by (simp add: sim_clock_chip_def apb_cycles_def chk_mul_def ilog2.simps)

theorem fsm_reset_restores_witness:
  "\<exists>r'. do_fsm_reset sim_clock_chip 40000000 firmware_i2c_config (\<lambda>_. clock_written default_i2c_config None)
      (clock_written default_i2c_config (Some 3)) = Some r' \<and> sclk_div_num r' = 0 \<and> low_period r' = 49"
proof -
  have "i2c_setup sim_clock_chip 40000000 firmware_i2c_config s = Some (clock_written firmware_i2c_config None, Inr ())" for s
    by (rule setup_written) (simp_all add: sim_chip_limit apb_cycles_def)
  from fsm_reset_restores [OF this] show ?thesis
    by (simp add: clock_written_def clk_div_def clk_half_def clk_tick_def)
qed

end
