(* ===== verification/I2c_Recovery.thy ===== *)
theory I2c_Recovery
  imports I2c_Master
begin

text \<open>
  Clearing a stuck I2C bus (\<open>esp-hal-patched/src/i2c/master/mod.rs\<close>, both modules \<open>bus_clear\<close> and
  \<open>clear_bus_blocking\<close>).  The two lines are open drain: the data line is high when the driver and
  the device release it.  The device is a parameter: whether it releases the line, and where a falling clock
  takes it.  The readings of the clock, in microseconds, are a sequence; a reading takes the next one.
\<close>

section \<open>The lines\<close>

record 'd i2c_slave =
  sl_releases :: "'d \<Rightarrow> bool"
  sl_fall :: "'d \<Rightarrow> 'd"

datatype clear_state = ClearIdle | ClearSendStop | ClearSendClock nat bool

text \<open>The state of the future and of the lines; \<open>bc_wire\<close> logs the levels of clock and data after every change.\<close>

record 'd bus_clear =
  bc_scl :: bool
  bc_sda :: bool
  bc_dev :: 'd
  bc_wire :: "(bool \<times> bool) list"
  bc_looks :: nat
  bc_wait :: nat
  bc_state :: clear_state
  bc_reset_fsm :: bool
  bc_pins :: bool
  bc_connected :: bool
  bc_fsm_resets :: nat
  bc_ints_cleared :: bool

definition sda_level :: "'d i2c_slave \<Rightarrow> 'd bus_clear \<Rightarrow> bool" where
  "sda_level sl s \<longleftrightarrow> bc_sda s \<and> sl_releases sl (bc_dev s)"

definition log_levels :: "'d i2c_slave \<Rightarrow> 'd bus_clear \<Rightarrow> 'd bus_clear" where
  "log_levels sl s = s\<lparr>bc_wire := bc_wire s @ [(bc_scl s, sda_level sl s)]\<rparr>"

definition set_scl :: "'d i2c_slave \<Rightarrow> bool \<Rightarrow> 'd bus_clear \<Rightarrow> 'd bus_clear" where
  "set_scl sl high s = log_levels sl (s\<lparr>bc_dev := (if bc_scl s \<and> \<not> high then sl_fall sl (bc_dev s) else bc_dev s), bc_scl := high\<rparr>)"

definition set_sda :: "'d i2c_slave \<Rightarrow> bool \<Rightarrow> 'd bus_clear \<Rightarrow> 'd bus_clear" where
  "set_sda sl high s = log_levels sl (s\<lparr>bc_sda := high\<rparr>)"

definition look_now :: "(nat \<Rightarrow> nat) \<Rightarrow> 'd bus_clear \<Rightarrow> nat \<times> 'd bus_clear" where
  "look_now clock s = (clock (bc_looks s), s\<lparr>bc_looks := bc_looks s + 1\<rparr>)"

section \<open>Clearing in software\<close>

definition bus_clear_bits :: nat where "bus_clear_bits = 9"

definition scl_delay :: nat where "scl_delay = 5"

definition clear_bus_timeout :: nat where "clear_bus_timeout = 50000"

definition clear_new :: "'d i2c_slave \<Rightarrow> (nat \<Rightarrow> nat) \<Rightarrow> bool \<Rightarrow> 'd bus_clear \<Rightarrow> 'd bus_clear" where
  "clear_new sl clock reset_fsm s =
     (if \<not> bc_pins s
      then let s = (if reset_fsm then s\<lparr>bc_fsm_resets := bc_fsm_resets s + 1\<rparr> else s);
               (now, s) = look_now clock s
           in s\<lparr>bc_wait := now, bc_state := ClearIdle, bc_reset_fsm := False\<rparr>
      else let s = set_scl sl False (set_sda sl True s);
               s = s\<lparr>bc_connected := False\<rparr>;
               (now, s) = look_now clock s
           in s\<lparr>bc_wait := now + scl_delay, bc_state := ClearSendClock bus_clear_bits False, bc_reset_fsm := reset_fsm\<rparr>)"

definition wait_again :: "(nat \<Rightarrow> nat) \<Rightarrow> 'd bus_clear \<Rightarrow> 'd bus_clear" where
  "wait_again clock s = (case look_now clock s of (now, s) \<Rightarrow> s\<lparr>bc_wait := now + scl_delay\<rparr>)"

text \<open>One poll; the result is whether it is ready.\<close>

definition clear_poll :: "'d i2c_slave \<Rightarrow> (nat \<Rightarrow> nat) \<Rightarrow> 'd bus_clear \<Rightarrow> 'd bus_clear \<times> bool" where
  "clear_poll sl clock s =
     (case look_now clock s of (now, s) \<Rightarrow>
       (case bc_state s of
          ClearIdle \<Rightarrow> (s, \<not> bc_pins s \<or> sda_level sl s)
        | st \<Rightarrow>
          if now < bc_wait s then (s, False)
          else case st of
            ClearIdle \<Rightarrow> (s, False)
          | ClearSendStop \<Rightarrow>
              ((if bc_pins s then set_sda sl True s else s)\<lparr>bc_state := ClearIdle\<rparr>, False)
          | ClearSendClock n False \<Rightarrow>
              (if n = 0 then
                 (wait_again clock ((if bc_pins s then set_scl sl True (set_sda sl False s) else s)\<lparr>bc_state := ClearSendStop\<rparr>), False)
               else
                 let up = (if bc_pins s then set_scl sl True s else s) in
                 if bc_pins s \<and> sda_level sl up
                 then ((wait_again clock (set_sda sl False up))\<lparr>bc_state := ClearSendStop\<rparr>, False)
                 else (wait_again clock (up\<lparr>bc_state := ClearSendClock (n - 1) True\<rparr>), False))
          | ClearSendClock n True \<Rightarrow>
              (wait_again clock ((if bc_pins s then set_scl sl False s else s)\<lparr>bc_state := ClearSendClock n False\<rparr>), False)))"

definition clear_drop :: "'d i2c_slave \<Rightarrow> 'd bus_clear \<Rightarrow> 'd bus_clear" where
  "clear_drop sl s =
     (if bc_pins s
      then let s = set_sda sl True (set_scl sl True s);
               s = (if bc_reset_fsm s then s\<lparr>bc_fsm_resets := bc_fsm_resets s + 1\<rparr> else s)
           in s\<lparr>bc_connected := True, bc_ints_cleared := True\<rparr>
      else s)"

text \<open>The loop of \<open>clear_bus_blocking\<close> and, at its end, the drop of the future.\<close>

partial_function (option) clear_bus_loop :: "'d i2c_slave \<Rightarrow> (nat \<Rightarrow> nat) \<Rightarrow> nat \<Rightarrow> 'd bus_clear \<Rightarrow> ('d bus_clear \<times> bool) option" where
  "clear_bus_loop sl clock start s =
     (let p = clear_poll sl clock s in
      if snd p then Some p
      else let q = look_now clock (fst p) in
        if clear_bus_timeout < fst q - start then Some (snd q, False) else clear_bus_loop sl clock start (snd q))"

definition clear_bus_blocking :: "'d i2c_slave \<Rightarrow> (nat \<Rightarrow> nat) \<Rightarrow> bool \<Rightarrow> 'd bus_clear \<Rightarrow> 'd bus_clear option" where
  "clear_bus_blocking sl clock reset_fsm s =
     (case look_now clock (clear_new sl clock reset_fsm s) of (start, s) \<Rightarrow>
        map_option (\<lambda>(s, _). clear_drop sl s) (clear_bus_loop sl clock start s))"

section \<open>Clearing in hardware\<close>

text \<open>
  The controller sends the pulses itself; \<open>hc_pulses\<close> is its request and \<open>hc_enabled\<close> whether it is still at
  it.  At the drop the driver sends the stop condition with the pins.
\<close>

record 'd hw_clear =
  hc_bus :: "'d bus_clear"
  hc_pulses :: u8
  hc_enabled :: bool
  hc_updates :: nat

definition hw_configure :: "u8 \<Rightarrow> 'd hw_clear \<Rightarrow> 'd hw_clear" where
  "hw_configure bits h = h\<lparr>hc_pulses := bits, hc_enabled := 0 < bits, hc_updates := hc_updates h + 1\<rparr>"

definition hw_clear_new :: "bool \<Rightarrow> 'd hw_clear \<Rightarrow> 'd hw_clear" where
  "hw_clear_new reset_fsm h =
     hw_configure 9 (if reset_fsm then h\<lparr>hc_bus := (hc_bus h)\<lparr>bc_fsm_resets := bc_fsm_resets (hc_bus h) + 1\<rparr>\<rparr> else h)"

definition hw_clear_drop :: "'d i2c_slave \<Rightarrow> 'd hw_clear \<Rightarrow> 'd hw_clear" where
  "hw_clear_drop sl h =
     (let h = (if hc_enabled h then hw_configure 0 h else h);
          s = hc_bus h;
          s = (if bc_pins s
               then let s = set_scl sl False (set_sda sl True s);
                        s = s\<lparr>bc_connected := False\<rparr>;
                        s = set_sda sl True (set_scl sl True (set_sda sl False s))
                    in s\<lparr>bc_connected := True\<rparr>
               else s)
      in h\<lparr>hc_bus := s\<lparr>bc_ints_cleared := True\<rparr>\<rparr>)"

section \<open>One poll\<close>

lemmas line_defs = set_scl_def set_sda_def log_levels_def sda_level_def look_now_def wait_again_def

lemma poll_looks: "bc_looks s < bc_looks (fst (clear_poll sl clock s))"
  by (auto simp: clear_poll_def line_defs Let_def split: clear_state.split bool.split)

text \<open>The device gives the data line free, for good, after that many falling edges of the clock.\<close>

definition freed :: "'d i2c_slave \<Rightarrow> 'd \<Rightarrow> nat \<Rightarrow> bool" where
  "freed sl d k \<longleftrightarrow> (\<forall>i\<ge>k. sl_releases sl ((sl_fall sl ^^ i) d))"

lemma freed_fall: "freed sl d (Suc k) \<Longrightarrow> freed sl (sl_fall sl d) k"
  unfolding freed_def by (metis Suc_le_mono funpow_swap1 funpow.simps(2) o_apply)

lemma freed_now: "freed sl d 0 \<Longrightarrow> sl_releases sl d"
  by (auto simp: freed_def dest: spec [where x = 0])

definition stop_sent :: "(bool \<times> bool) list \<Rightarrow> bool" where
  "stop_sent wire \<longleftrightarrow> (\<exists>before. wire = before @ [(True, False), (True, True)])"

fun clear_inv :: "'d i2c_slave \<Rightarrow> clear_state \<Rightarrow> 'd bus_clear \<Rightarrow> bool" where
  "clear_inv sl (ClearSendClock n False) s \<longleftrightarrow> \<not> bc_scl s \<and> bc_sda s \<and> freed sl (bc_dev s) n"
| "clear_inv sl (ClearSendClock n True) s \<longleftrightarrow> bc_scl s \<and> bc_sda s \<and> freed sl (bc_dev s) (Suc n)"
| "clear_inv sl ClearSendStop s \<longleftrightarrow> bc_scl s \<and> \<not> bc_sda s \<and> sl_releases sl (bc_dev s) \<and> (\<exists>before. bc_wire s = before @ [(True, False)])"
| "clear_inv sl ClearIdle s \<longleftrightarrow> bc_scl s \<and> bc_sda s \<and> sl_releases sl (bc_dev s) \<and> stop_sent (bc_wire s)"

fun clear_rank :: "clear_state \<Rightarrow> nat" where
  "clear_rank ClearIdle = 0"
| "clear_rank ClearSendStop = 1"
| "clear_rank (ClearSendClock n high) = 2 * n + (if high then 3 else 2)"

lemma poll_idle:
  assumes "bc_state s = ClearIdle" "clear_inv sl ClearIdle s"
  shows "clear_poll sl clock s = (s\<lparr>bc_looks := bc_looks s + 1\<rparr>, True)"
  using assms by (simp add: clear_poll_def look_now_def sda_level_def)

lemma poll_early:
  assumes "bc_state s \<noteq> ClearIdle" "clock (bc_looks s) < bc_wait s"
  shows "clear_poll sl clock s = (s\<lparr>bc_looks := bc_looks s + 1\<rparr>, False)"
  using assms by (cases "bc_state s") (simp_all add: clear_poll_def look_now_def)

text \<open>A poll that is due takes the machine on.\<close>

lemma poll_due:
  assumes "bc_pins s" "bc_state s \<noteq> ClearIdle" "clear_inv sl (bc_state s) s" "bc_wait s \<le> clock (bc_looks s)"
  shows "\<exists>s'. clear_poll sl clock s = (s', False) \<and> bc_pins s' \<and> bc_reset_fsm s' = bc_reset_fsm s \<and> bc_fsm_resets s' = bc_fsm_resets s \<and>
    clear_inv sl (bc_state s') s' \<and> clear_rank (bc_state s') < clear_rank (bc_state s) \<and>
    (bc_state s' = ClearIdle \<and> bc_looks s' = bc_looks s + 1 \<or>
     bc_looks s' = bc_looks s + 2 \<and> bc_wait s' = clock (bc_looks s + 1) + 5)"
proof (cases "bc_state s")
  case (ClearSendClock n high)
  show ?thesis
  proof (cases high)
    case True
    then show ?thesis
      using assms ClearSendClock freed_fall [of sl "bc_dev s" n]
      by (simp add: clear_poll_def line_defs scl_delay_def)
  next
    case False
    show ?thesis
    proof (cases n)
      case 0
      then show ?thesis
        using assms ClearSendClock False freed_now [of sl "bc_dev s"]
        by (simp add: clear_poll_def line_defs scl_delay_def)
    next
      case (Suc m)
      then show ?thesis
        using assms ClearSendClock False
        by (simp add: clear_poll_def line_defs scl_delay_def Let_def)
    qed
  qed
next
  case ClearSendStop
  then show ?thesis
    using assms by (auto simp: clear_poll_def line_defs stop_sent_def)
qed (use assms in simp)

section \<open>The loop\<close>

lemma loop_unfold:
  "clear_bus_loop sl clock start s =
     (case clear_poll sl clock s of (s', ready) \<Rightarrow>
        if ready then Some (s', True)
        else if clear_bus_timeout < clock (bc_looks s') - start then Some (s'\<lparr>bc_looks := bc_looks s' + 1\<rparr>, False)
        else clear_bus_loop sl clock start (s'\<lparr>bc_looks := bc_looks s' + 1\<rparr>))"
  by (subst clear_bus_loop.simps) (auto simp: Let_def look_now_def split: prod.splits)

text \<open>Between two readings pass at most 800 microseconds; the machine is then done before the timeout.\<close>

definition in_time :: "(nat \<Rightarrow> nat) \<Rightarrow> nat \<Rightarrow> 'd bus_clear \<Rightarrow> bool" where
  "in_time clock start s \<longleftrightarrow> bc_state s = ClearIdle \<or>
     clock (bc_looks s) \<le> bc_wait s + 1600 \<and> bc_wait s \<le> start + 5 + (20 - clear_rank (bc_state s)) * 2405"

lemma loop_ready:
  assumes "mono clock" "\<And>i. clock (Suc i) \<le> clock i + 800" "start + clear_bus_timeout < clock k"
    and "bc_pins s" "clear_inv sl (bc_state s) s" "in_time clock start s" "clear_rank (bc_state s) \<le> 20"
  shows "\<exists>s'. clear_bus_loop sl clock start s = Some (s', True) \<and> bc_pins s' \<and> clear_inv sl ClearIdle s' \<and>
    bc_reset_fsm s' = bc_reset_fsm s \<and> bc_fsm_resets s' = bc_fsm_resets s"
  using assms(4-7)
proof (induction "Suc k - bc_looks s" arbitrary: s rule: less_induct)
  case less
  show ?case
  proof (cases "bc_state s = ClearIdle")
    case True
    then show ?thesis
      using less.prems by (subst loop_unfold) (auto simp: poll_idle stop_sent_def)
  next
    case busy: False
    let ?j = "bc_looks s"
    have r: "1 \<le> clear_rank (bc_state s)" using busy by (cases "bc_state s") auto
    have t: "clock ?j \<le> bc_wait s + 1600" "bc_wait s \<le> start + 5 + (20 - clear_rank (bc_state s)) * 2405"
      using less.prems(3) busy by (simp_all add: in_time_def)
    have "(20 - clear_rank (bc_state s)) * 2405 \<le> 19 * 2405" using r by (intro mult_le_mono1) simp
    then have w: "bc_wait s \<le> start + 45700" using t(2) by simp
    have step: "clock (?j + 1) \<le> clock ?j + 800" "clock (?j + 2) \<le> clock ?j + 1600" "clock (?j + 3) \<le> clock (?j + 1) + 1600"
      using assms(2) [of ?j] assms(2) [of "?j + 1"] assms(2) [of "?j + 2"] by (simp_all add: numeral_3_eq_3)
    have early: "clock (?j + 2) \<le> start + clear_bus_timeout" using step t(1) w by (simp add: clear_bus_timeout_def)
    have "clock (?j + 1) \<le> clock (?j + 2)" using assms(1) by (simp add: mono_def)
    then have early': "\<not> clear_bus_timeout < clock (?j + 1) - start" using early by linarith
    have k: "?j + 2 < k"
    proof (rule ccontr)
      assume "\<not> ?j + 2 < k"
      then have "clock k \<le> clock (?j + 2)" using assms(1) by (simp add: mono_def)
      then show False using early assms(3) by simp
    qed
    show ?thesis
    proof (cases "clock ?j < bc_wait s")
      case True
      let ?s = "s\<lparr>bc_looks := ?j + 2\<rparr>"
      have p: "clear_bus_loop sl clock start s = clear_bus_loop sl clock start ?s"
        using early' by (subst loop_unfold) (simp add: poll_early [of s clock sl, OF busy True])
      have "in_time clock start ?s" using t True step(2) by (simp add: in_time_def)
      moreover have "clear_inv sl (bc_state ?s) ?s" using less.prems(2) by (cases "(sl, bc_state s, s)" rule: clear_inv.cases) auto
      ultimately show ?thesis unfolding p using less.hyps [of ?s] less.prems(1,4) k by simp
    next
      case False
      then have due: "bc_wait s \<le> clock ?j" by simp
      obtain s1 where s1: "clear_poll sl clock s = (s1, False)" "bc_pins s1" "bc_reset_fsm s1 = bc_reset_fsm s"
          "bc_fsm_resets s1 = bc_fsm_resets s" "clear_inv sl (bc_state s1) s1" "clear_rank (bc_state s1) < clear_rank (bc_state s)"
          "bc_state s1 = ClearIdle \<and> bc_looks s1 = ?j + 1 \<or> bc_looks s1 = ?j + 2 \<and> bc_wait s1 = clock (?j + 1) + 5"
        using poll_due [of s sl clock, OF less.prems(1) busy less.prems(2) due] by blast
      let ?s = "s1\<lparr>bc_looks := bc_looks s1 + 1\<rparr>"
      have l: "bc_looks s1 \<le> ?j + 2" "?j < bc_looks s1" using s1(7) by auto
      have "clock (bc_looks s1) \<le> clock (?j + 2)" using l(1) assms(1) by (simp add: mono_def)
      then have "\<not> clear_bus_timeout < clock (bc_looks s1) - start" using early by linarith
      then have p: "clear_bus_loop sl clock start s = clear_bus_loop sl clock start ?s"
        by (subst loop_unfold) (simp add: s1(1))
      have "in_time clock start ?s"
      proof (cases "bc_state s1 = ClearIdle")
        case True
        then show ?thesis by (simp add: in_time_def)
      next
        case False
        then have wl: "bc_looks s1 = ?j + 2" "bc_wait s1 = clock (?j + 1) + 5" using s1(7) by auto
        have "Suc (20 - clear_rank (bc_state s)) * 2405 \<le> (20 - clear_rank (bc_state s1)) * 2405"
          using s1(6) less.prems(4) by (intro mult_le_mono1) simp
        then have "bc_wait s1 \<le> start + 5 + (20 - clear_rank (bc_state s1)) * 2405"
          using wl(2) step(1) t by simp
        moreover have "clock (?j + 3) \<le> bc_wait s1 + 1600" using wl(2) step(3) by simp
        ultimately show ?thesis using wl(1) by (simp add: in_time_def numeral_3_eq_3)
      qed
      moreover have "clear_inv sl (bc_state ?s) ?s" using s1(5) by (cases "(sl, bc_state s1, s1)" rule: clear_inv.cases) auto
      ultimately show ?thesis unfolding p using less.hyps [of ?s] less.prems(4) s1(2-4,6) l k by simp
    qed
  qed
qed

lemma poll_keeps:
  "bc_pins (fst (clear_poll sl clock s)) = bc_pins s" "bc_reset_fsm (fst (clear_poll sl clock s)) = bc_reset_fsm s"
  "bc_fsm_resets (fst (clear_poll sl clock s)) = bc_fsm_resets s"
  by (auto simp: clear_poll_def line_defs Let_def split: clear_state.split bool.split)

lemma loop_keeps:
  assumes "mono clock" "start + clear_bus_timeout < clock k"
  shows "\<exists>s' b. clear_bus_loop sl clock start s = Some (s', b) \<and> bc_pins s' = bc_pins s \<and> bc_reset_fsm s' = bc_reset_fsm s \<and>
    bc_fsm_resets s' = bc_fsm_resets s"
proof (induction "Suc k - bc_looks s" arbitrary: s rule: less_induct)
  case less
  obtain s' ready where p: "clear_poll sl clock s = (s', ready)" by fastforce
  note keep = poll_keeps [of sl clock s, unfolded p fst_conv]
  have l: "bc_looks s < bc_looks s'" using poll_looks [of s sl clock] p by simp
  show ?case
  proof (cases "bc_looks s' < k")
    case True
    then have "Suc k - bc_looks (s'\<lparr>bc_looks := bc_looks s' + 1\<rparr>) < Suc k - bc_looks s" using l by simp
    from less [OF this] show ?thesis using keep by (subst loop_unfold) (auto simp: p)
  next
    case False
    then have "clock k \<le> clock (bc_looks s')" using assms(1) by (simp add: mono_def)
    then have "clear_bus_timeout < clock (bc_looks s') - start" using assms(2) by simp
    then show ?thesis using keep by (subst loop_unfold) (auto simp: p)
  qed
qed

section \<open>Properties\<close>

lemma freed_later: "freed sl d k \<Longrightarrow> k \<le> m \<Longrightarrow> freed sl d m"
  by (simp add: freed_def)

text \<open>
  C33. A stuck bus is cleared: if the device gives the data line free within nine falling edges of the clock and the
  clock is read at least every 800 microseconds, \<open>clear_bus_blocking\<close> is done before its timeout; it
  has sent a stop condition, both lines are high, the pins are connected to the controller again and its state
  machine was reset if and only if that was asked for.
\<close>

theorem bus_clear_releases:
  assumes "bc_pins s" "freed sl (bc_dev s) 9" "mono clock" "\<And>i. clock (Suc i) \<le> clock i + 800" "\<And>t. \<exists>k. t < clock k"
  shows "\<exists>s' before. clear_bus_blocking sl clock reset_fsm s = Some s' \<and>
    bc_wire s' = before @ [(True, False), (True, True)] @ replicate 2 (True, True) \<and> bc_scl s' \<and> sda_level sl s' \<and>
    bc_connected s' \<and> bc_ints_cleared s' \<and> bc_fsm_resets s' = bc_fsm_resets s + (if reset_fsm then 1 else 0)"
proof -
  define s0 where "s0 = clear_new sl clock reset_fsm s"
  let ?start = "clock (bc_looks s0)"
  let ?s1 = "s0\<lparr>bc_looks := bc_looks s0 + 1\<rparr>"
  have n: "bc_pins s0" "bc_state s0 = ClearSendClock 9 False" "bc_reset_fsm s0 = reset_fsm" "bc_fsm_resets s0 = bc_fsm_resets s"
      "\<not> bc_scl s0" "bc_sda s0" "bc_looks s0 = bc_looks s + 1" "bc_wait s0 = clock (bc_looks s) + 5"
    using assms(1) by (simp_all add: s0_def clear_new_def line_defs bus_clear_bits_def scl_delay_def)
  have "bc_dev s0 = bc_dev s \<or> bc_dev s0 = sl_fall sl (bc_dev s)"
    using assms(1) by (simp add: s0_def clear_new_def line_defs)
  then have f: "freed sl (bc_dev s0) 9"
    using assms(2) freed_fall [OF freed_later [OF assms(2), of "Suc 9"]] by auto
  obtain k where k: "?start + clear_bus_timeout < clock k" using assms(5) by blast
  have "clock (bc_looks s) \<le> ?start" using assms(3) n(7) by (simp add: mono_def)
  moreover have "clock (bc_looks s + 2) \<le> clock (bc_looks s) + 1600"
    using assms(4) [of "bc_looks s"] assms(4) [of "bc_looks s + 1"] by simp
  ultimately have "in_time clock ?start ?s1" using n(2,7,8) by (simp add: in_time_def)
  from loop_ready [OF assms(3,4) k _ _ this, of sl] n f
  obtain s2 where s2: "clear_bus_loop sl clock ?start ?s1 = Some (s2, True)" "bc_pins s2" "clear_inv sl ClearIdle s2"
      "bc_reset_fsm s2 = reset_fsm" "bc_fsm_resets s2 = bc_fsm_resets s"
    by auto
  obtain before where w: "bc_wire s2 = before @ [(True, False), (True, True)]" using s2(3) by (auto simp: stop_sent_def)
  have "clear_bus_blocking sl clock reset_fsm s = Some (clear_drop sl s2)"
    using s2(1) by (simp add: clear_bus_blocking_def look_now_def s0_def [symmetric])
  then show ?thesis
    using s2(2-5) w by (intro exI [where x = "clear_drop sl s2"] exI [where x = before]) (simp add: clear_drop_def line_defs numeral_2_eq_2)
qed

text \<open>
  Clearing always ends: whatever the device does, once the clock has passed the timeout, with the lines let
  go, the pins connected and the state machine reset as asked, with or without pins.
\<close>

theorem bus_clear_ends:
  assumes "mono clock" "\<And>t. \<exists>k. t < clock k"
  shows "\<exists>s'. clear_bus_blocking sl clock reset_fsm s = Some s' \<and>
    (bc_pins s \<longrightarrow> bc_scl s' \<and> bc_sda s' \<and> bc_connected s' \<and> bc_ints_cleared s') \<and>
    bc_fsm_resets s' = bc_fsm_resets s + (if reset_fsm then 1 else 0)"
proof -
  define s0 where "s0 = clear_new sl clock reset_fsm s"
  let ?start = "clock (bc_looks s0)"
  have n: "bc_pins s0 = bc_pins s" "bc_reset_fsm s0 = (bc_pins s \<and> reset_fsm)"
      "bc_fsm_resets s0 = bc_fsm_resets s + (if \<not> bc_pins s \<and> reset_fsm then 1 else 0)"
    by (simp_all add: s0_def clear_new_def line_defs Let_def)
  obtain k where "?start + clear_bus_timeout < clock k" using assms(2) by blast
  from loop_keeps [OF assms(1) this, of sl "s0\<lparr>bc_looks := bc_looks s0 + 1\<rparr>"]
  obtain s2 b where s2: "clear_bus_loop sl clock ?start (s0\<lparr>bc_looks := bc_looks s0 + 1\<rparr>) = Some (s2, b)"
      "bc_pins s2 = bc_pins s" "bc_reset_fsm s2 = (bc_pins s \<and> reset_fsm)" "bc_fsm_resets s2 = bc_fsm_resets s0"
    using n by auto
  have "clear_bus_blocking sl clock reset_fsm s = Some (clear_drop sl s2)"
    using s2(1) by (simp add: clear_bus_blocking_def look_now_def s0_def [symmetric])
  then show ?thesis
    using s2(2-4) n(3) by (auto simp: clear_drop_def line_defs Let_def)
qed

text \<open>
  The stop condition after the controller's own pulses: when the device is free the drop of the future sends it,
  and leaves the pins connected and the pulses disabled.
\<close>

theorem hw_clear_stop:
  assumes "bc_pins (hc_bus h)" "freed sl (bc_dev (hc_bus h)) 0"
  shows "stop_sent (bc_wire (hc_bus (hw_clear_drop sl h)))" "bc_connected (hc_bus (hw_clear_drop sl h))"
    "\<not> hc_enabled (hw_clear_drop sl h)" "sda_level sl (hc_bus (hw_clear_drop sl h))"
proof -
  have "sl_releases sl (bc_dev (hc_bus h))" "sl_releases sl (sl_fall sl (bc_dev (hc_bus h)))"
    using freed_now [OF assms(2)] freed_now [OF freed_fall [OF freed_later [OF assms(2), of "Suc 0"]]] by simp_all
  then show "stop_sent (bc_wire (hc_bus (hw_clear_drop sl h)))" "bc_connected (hc_bus (hw_clear_drop sl h))"
    "\<not> hc_enabled (hw_clear_drop sl h)" "sda_level sl (hc_bus (hw_clear_drop sl h))"
    using assms(1) by (auto simp: hw_clear_drop_def hw_configure_def line_defs Let_def stop_sent_def)
qed

section \<open>Witnesses\<close>

text \<open>A device in the middle of a byte, which frees the line after five more bits.\<close>

definition sim_slave :: "nat i2c_slave" where
  "sim_slave = \<lparr>sl_releases = (\<lambda>bits. bits = 0), sl_fall = (\<lambda>bits. bits - 1)\<rparr>"

definition sim_stuck :: "nat bus_clear" where
  "sim_stuck = \<lparr>bc_scl = True, bc_sda = True, bc_dev = 5, bc_wire = [], bc_looks = 0, bc_wait = 0, bc_state = ClearIdle,
     bc_reset_fsm = False, bc_pins = True, bc_connected = True, bc_fsm_resets = 0, bc_ints_cleared = False\<rparr>"

lemma sim_slave_fall: "(sl_fall sim_slave ^^ i) bits = bits - i"
  by (induction i) (simp_all add: sim_slave_def)

theorem bus_clear_releases_witness:
  "\<exists>s'. clear_bus_blocking sim_slave (\<lambda>k. 10 * k) True sim_stuck = Some s' \<and> sda_level sim_slave s' \<and> bc_fsm_resets s' = 1"
proof -
  have f: "freed sim_slave (bc_dev sim_stuck) 9"
    by (simp add: freed_def sim_slave_fall) (simp add: sim_slave_def sim_stuck_def)
  have k: "\<exists>k. t < 10 * k" for t :: nat by (rule exI [where x = "Suc t"]) simp
  have m: "mono (\<lambda>k :: nat. 10 * k)" by (simp add: mono_def)
  have p: "bc_pins sim_stuck" by (simp add: sim_stuck_def)
  show ?thesis
    using bus_clear_releases [of sim_stuck sim_slave "\<lambda>k. 10 * k" True, OF p f m _ k] by (auto simp: sim_stuck_def)
qed

theorem bus_clear_ends_witness:
  "\<exists>s'. clear_bus_blocking sim_slave (\<lambda>k. 10 * k) False (sim_stuck\<lparr>bc_dev := 1000\<rparr>) = Some s' \<and> bc_connected s'"
proof -
  have k: "\<exists>k. t < 10 * k" for t :: nat by (rule exI [where x = "Suc t"]) simp
  have m: "mono (\<lambda>k :: nat. 10 * k)" by (simp add: mono_def)
  show ?thesis
    using bus_clear_ends [OF m k, of sim_slave False "sim_stuck\<lparr>bc_dev := 1000\<rparr>"] by (auto simp: sim_stuck_def)
qed

end
