(* ===== verification/I2c_Contract.thy ===== *)
theory I2c_Contract
  imports I2c_Master
begin

text \<open>
  What the I2C master promises (the \<open>Transaction contract\<close> in the documentation of
  \<open>I2c::transaction\<close>) and the proof that the driver of \<open>I2c_Master\<close> keeps it for buffers of every
  length: the chunks, command programs and waits put on the bus exactly what the contract says, and
  the buffers receive what the device sent.

  The locale \<open>i2c_bus\<close> states what the driver relies on: a controller that plays well-formed
  programs, whose looks report completion after finitely many of them, and a device that
  acknowledges.
\<close>

section \<open>What happens on the bus\<close>

datatype bus_event = BusStart | BusSend u8 | BusRecv u8 i2c_ack | BusStop

text \<open>A byte the device sends is a function of everything the bus has carried.\<close>

type_synonym device = "bus_event list \<Rightarrow> u8"

fun receive :: "device \<Rightarrow> i2c_ack \<Rightarrow> nat \<Rightarrow> bus_event list \<Rightarrow> bus_event list" where
  "receive dev a 0 tr = tr"
| "receive dev a (Suc n) tr = receive dev a n (tr @ [BusRecv (dev tr) a])"

fun received :: "bus_event list \<Rightarrow> u8 list" where
  "received [] = []"
| "received (BusRecv b _ # tr) = b # received tr"
| "received (_ # tr) = received tr"

text \<open>The controller plays a program: a STOP or a repeated START where the program has them.\<close>

fun play :: "device \<Rightarrow> i2c_cmd list \<Rightarrow> u8 list \<Rightarrow> bus_event list \<Rightarrow> bus_event list" where
  "play dev [] fifo tr = tr"
| "play dev (CmdStart # cs) fifo tr = play dev cs fifo (tr @ [BusStart])"
| "play dev (CmdWrite _ _ n # cs) fifo tr = play dev cs (drop (unat n) fifo) (tr @ map BusSend (take (unat n) fifo))"
| "play dev (CmdRead a n # cs) fifo tr = play dev cs fifo (receive dev a (unat n) tr)"
| "play dev (CmdStop # cs) fifo tr = play dev cs fifo (tr @ [BusStop])"
| "play dev (CmdEnd # cs) fifo tr = tr"

fun sends :: "i2c_cmd \<Rightarrow> nat" where
  "sends (CmdWrite _ _ n) = unat n"
| "sends _ = 0"

fun reads :: "i2c_cmd \<Rightarrow> nat" where
  "reads (CmdRead _ n) = unat n"
| "reads _ = 0"

text \<open>
  The programs the reference manual allows: they fit the command registers and the FIFOs, use up
  the bytes in the FIFO, have no empty command and end in STOP or END.
\<close>

fun ends_program :: "i2c_cmd list \<Rightarrow> bool" where
  "ends_program [] = False"
| "ends_program [c] = (c = CmdStop \<or> c = CmdEnd)"
| "ends_program (_ # cs) = ends_program cs"

definition program_ok :: "i2c_chip \<Rightarrow> i2c_cmd list \<Rightarrow> u8 list \<Rightarrow> bool" where
  "program_ok chip cmds fifo \<longleftrightarrow>
     length cmds \<le> comd_count chip \<and> ends_program cmds \<and>
     sum_list (map sends cmds) = length fifo \<and> length fifo \<le> fifo_size chip \<and>
     sum_list (map reads cmds) \<le> fifo_size chip \<and>
     list_all (\<lambda>c. case c of CmdWrite _ _ n \<Rightarrow> n \<noteq> 0 | CmdRead _ n \<Rightarrow> n \<noteq> 0 | _ \<Rightarrow> True) cmds"

definition clean :: "i2c_ints \<Rightarrow> bool" where
  "clean r \<longleftrightarrow> \<not> in_nack r \<and> \<not> in_arbitration_lost r \<and> (in_trans_complete r \<longrightarrow> sr_resp_rec r) \<and>
     \<not> in_scl_st_to r \<and> \<not> in_scl_main_st_to r \<and> \<not> in_time_out r"

section \<open>The contract\<close>

text \<open>
  START and the address before an operation of another kind than the last, nothing between
  operations of one kind, STOP after the last; a byte read is acknowledged unless it is the last of
  a read that no read follows.
\<close>

definition begin_op :: "u8 \<Rightarrow> op_kind option \<Rightarrow> op_kind \<Rightarrow> bus_event list \<Rightarrow> bus_event list" where
  "begin_op addr last_op k tr = (if last_op = Some k then tr else tr @ [BusStart, BusSend (address_byte addr k)])"

definition read_bytes :: "device \<Rightarrow> nat \<Rightarrow> bool \<Rightarrow> bus_event list \<Rightarrow> bus_event list" where
  "read_bytes dev n goes_on tr = (if goes_on then receive dev AckBit n tr else receive dev NackBit 1 (receive dev AckBit (n - 1) tr))"

definition received_since :: "bus_event list \<Rightarrow> bus_event list \<Rightarrow> u8 list" where
  "received_since tr tr' = received (drop (length tr) tr')"

fun bus_contract :: "device \<Rightarrow> u8 \<Rightarrow> op_kind option \<Rightarrow> i2c_operation list \<Rightarrow> bus_event list \<Rightarrow> bus_event list \<times> i2c_operation list" where
  "bus_contract dev addr last_op [] tr = (tr, [])"
| "bus_contract dev addr last_op (op # ops) tr =
     (let tr1 = begin_op addr last_op (op_kind_of op) tr;
          next_read = (case ops of OpRead _ # _ \<Rightarrow> True | _ \<Rightarrow> False);
          (tr2, op') = (case op of OpWrite bs \<Rightarrow> (tr1 @ map BusSend bs, op)
                                 | OpRead bs \<Rightarrow> let tr2 = read_bytes dev (length bs) next_read tr1
                                               in (tr2, OpRead (received_since tr1 tr2)));
          tr3 = (if ops = [] then tr2 @ [BusStop] else tr2);
          (tr4, ops') = bus_contract dev addr (Some (op_kind_of op)) ops tr3
      in (tr4, op' # ops'))"

definition bus_idle :: "bus_event list \<Rightarrow> bool" where
  "bus_idle tr \<longleftrightarrow> tr = [] \<or> last tr = BusStop"

text \<open>A bus that something else left busy is cleared with a STOP first.\<close>

definition settled :: "bus_event list \<Rightarrow> bus_event list" where
  "settled tr = (if bus_idle tr then tr else tr @ [BusStop])"

section \<open>Lemmas on traces and chunks\<close>

lemma receive_append: "\<exists>tr'. receive dev a n tr = tr @ tr' \<and> length (received tr') = n"
proof (induction n arbitrary: tr)
  case (Suc n)
  from Suc [of "tr @ [BusRecv (dev tr) a]"] show ?case by auto
qed simp

lemma receive_add: "receive dev a (m + n) tr = receive dev a n (receive dev a m tr)"
  by (induction m arbitrary: tr) simp_all

lemma received_append [simp]: "received (xs @ ys) = received xs @ received ys"
  by (induction xs rule: received.induct) simp_all

lemma received_sends [simp]: "received (map BusSend bs) = []"
  by (induction bs) simp_all

lemma read_bytes_append: "n \<noteq> 0 \<Longrightarrow> \<exists>tr'. read_bytes dev n goes_on tr = tr @ tr' \<and> length (received tr') = n"
proof (cases goes_on)
  case False
  assume n: "n \<noteq> 0"
  obtain t1 where "receive dev AckBit (n - 1) tr = tr @ t1" "length (received t1) = n - 1"
    using receive_append by blast
  with False n show ?thesis by (simp add: read_bytes_def)
qed (use receive_append [of dev AckBit n tr] in \<open>simp add: read_bytes_def\<close>)

lemma read_bytes_split:
  "n \<noteq> 0 \<Longrightarrow> read_bytes dev (m + n) goes_on tr = read_bytes dev n goes_on (receive dev AckBit m tr)"
  by (simp add: read_bytes_def receive_add [symmetric])

lemma variable_chunks_Nil [simp]: "variable_chunks cs [] = Some []"
  by (simp add: variable_chunks.simps)

lemma chunk_size_bounds:
  "3 \<le> cs \<Longrightarrow> 0 < n \<Longrightarrow> 0 < calculate_chunk_size cs n \<and> calculate_chunk_size cs n \<le> cs \<and> calculate_chunk_size cs n \<le> n"
  by (auto simp: calculate_chunk_size_def)

text \<open>The chunks are the buffer cut into pieces that are not empty and fit.\<close>

lemma variable_chunks_spec:
  assumes "3 \<le> cs"
  shows "\<exists>chunks. variable_chunks cs buffer = Some chunks \<and> concat chunks = buffer \<and>
    list_all (\<lambda>c. c \<noteq> [] \<and> length c \<le> cs) chunks"
proof (induction buffer rule: length_induct)
  case (1 buffer)
  show ?case
  proof (cases "buffer = []")
    case False
    let ?s = "calculate_chunk_size cs (length buffer)"
    have s: "0 < ?s" "?s \<le> cs" "?s \<le> length buffer" using chunk_size_bounds [OF assms, of "length buffer"] False by auto
    then have "length (drop ?s buffer) < length buffer" by simp
    then obtain rest where "variable_chunks cs (drop ?s buffer) = Some rest" "concat rest = drop ?s buffer"
        "list_all (\<lambda>c. c \<noteq> [] \<and> length c \<le> cs) rest"
      using 1 by blast
    then show ?thesis
      using s False by (subst variable_chunks.simps) (simp add: Let_def)
  qed simp
qed

section \<open>The controller and the device\<close>

text \<open>
  \<open>trace h\<close> is what the bus carries up to the end of the running program, \<open>rx h\<close> what is in the
  receive FIFO then; \<open>running h\<close> says that a program is under way or over without an error, and
  \<open>left h\<close> bounds the looks until it is seen to be over.
\<close>

locale i2c_bus =
  fixes hw :: "'h i2c_hw" and chip :: i2c_chip and dev :: device
    and trace :: "'h \<Rightarrow> bus_event list" and rx :: "'h \<Rightarrow> u8 list" and running :: "'h \<Rightarrow> bool" and left :: "'h \<Rightarrow> nat"
  assumes fifo: "4 \<le> fifo_size chip" "fifo_size chip \<le> 255" and registers: "6 \<le> comd_count chip"
    and busy: "hw_bus_busy hw h \<longleftrightarrow> \<not> bus_idle (trace h)"
    and cleared: "trace (hw_clear_bus hw h False) = trace h @ [BusStop]"
    and reset: "trace (hw_reset hw h) = trace h"
    and started: "program_ok chip cmds fifo_bytes \<Longrightarrow>
      running (hw_start hw (hw_reset hw h) cmds fifo_bytes) \<and>
      trace (hw_start hw (hw_reset hw h) cmds fifo_bytes) = play dev cmds fifo_bytes (trace h) \<and>
      rx (hw_start hw (hw_reset hw h) cmds fifo_bytes) = received_since (trace h) (play dev cmds fifo_bytes (trace h))"
    and looked: "running h \<Longrightarrow> hw_ints hw h = (h', r) \<Longrightarrow>
      running h' \<and> trace h' = trace h \<and> rx h' = rx h \<and> clean r \<and>
      (if left h = 0 then (in_trans_complete r \<or> in_end_detect r) \<and> left h' = 0 else left h' < left h)"
    and scanned: "running h \<Longrightarrow> hw_cmd_done hw h i = (h', dn) \<Longrightarrow>
      running h' \<and> trace h' = trace h \<and> rx h' = rx h \<and> (if left h = 0 then dn \<and> left h' = 0 else left h' < left h)"
    and counted: "running h \<Longrightarrow> hw_rx_count hw h = length (rx h)"
    and taken: "running h \<Longrightarrow> rx h = b # bs \<Longrightarrow> hw_rx_byte hw h = (h', b') \<Longrightarrow>
      running h' \<and> trace h' = trace h \<and> b' = b \<and> rx h' = bs"
begin

definition after :: "'h \<Rightarrow> 'h \<Rightarrow> bool" where
  "after h h' \<longleftrightarrow> running h' \<and> trace h' = trace h \<and> rx h' = rx h"

lemma after_trans: "after h h1 \<Longrightarrow> after h1 h2 \<Longrightarrow> after h h2"
  by (simp add: after_def)

lemma after_running: "after h h' \<Longrightarrow> running h'"
  by (simp add: after_def)

lemma ints:
  assumes "running h"
  shows "\<exists>h' r. hw_ints hw h = (h', r) \<and> after h h' \<and> clean r \<and> left h' \<le> left h \<and>
    (left h = 0 \<longrightarrow> in_trans_complete r \<or> in_end_detect r) \<and> (left h \<noteq> 0 \<longrightarrow> left h' < left h)"
proof (cases "hw_ints hw h")
  case (Pair h' r)
  show ?thesis using looked [OF assms Pair] Pair by (auto simp: after_def split: if_splits)
qed

lemma clean_ok: "clean r \<Longrightarrow> check_errors chip r = Inr ()"
  by (simp add: clean_def check_errors_def)

lemma poll:
  assumes "running h"
  obtains h' where "poll_completion hw chip None h = (h', Some (Inr ()))" "after h h'"
  | h' where "poll_completion hw chip None h = (h', None)" "after h h'" "left h' < left h"
proof -
  obtain h1 r1 where 1: "hw_ints hw h = (h1, r1)" "after h h1" "clean r1" "left h1 \<le> left h" "left h \<noteq> 0 \<longrightarrow> left h1 < left h"
    using ints [OF assms] by blast
  obtain h2 r2 where 2: "hw_ints hw h1 = (h2, r2)" "after h1 h2" "clean r2" "left h2 \<le> left h1"
      "left h1 = 0 \<longrightarrow> in_trans_complete r2 \<or> in_end_detect r2"
    using ints [OF after_running [OF 1(2)]] by auto
  have a: "after h h2" by (rule after_trans [OF 1(2) 2(2)])
  have p: "poll_completion hw chip None h = (h2, if in_trans_complete r2 \<or> in_end_detect r2 then Some (Inr ()) else None)"
    by (simp add: poll_completion_def look_at_clock_def 1(1) 2(1) clean_ok [OF 1(3)])
  show thesis
  proof (cases "in_trans_complete r2 \<or> in_end_detect r2")
    case True
    then show thesis using p a that(1) by auto
  next
    case False
    then have "left h2 < left h" using 1(4,5) 2(4,5) by fastforce
    then show thesis using p a that(2) False by auto
  qed
qed

lemma wait_poll_ok: "running h \<Longrightarrow> \<exists>h'. wait_poll hw chip None h = Some (h', Inr ()) \<and> after h h'"
proof (induction "left h" arbitrary: h rule: less_induct)
  case less
  show ?case
  proof (rule poll [OF less.prems])
    fix h' assume "poll_completion hw chip None h = (h', Some (Inr ()))" "after h h'"
    then show ?thesis by (subst wait_poll.simps) simp
  next
    fix h' assume h': "poll_completion hw chip None h = (h', None)" "after h h'" "left h' < left h"
    then obtain h2 where "wait_poll hw chip None h' = Some (h2, Inr ())" "after h' h2"
      using less.hyps unfolding after_def by blast
    then show ?thesis using h' after_trans by (subst wait_poll.simps) auto
  qed
qed

lemma scan_ok:
  "running h \<Longrightarrow> \<exists>h' ok. scan_commands hw None now i cs h = (h', Inr ok) \<and> after h h' \<and> left h' \<le> left h \<and> (ok \<or> left h' < left h)"
proof (induction cs arbitrary: i h)
  case Nil
  then show ?case by (intro exI [where x = h] exI [where x = True]) (simp add: after_def)
next
  case (Cons c cs)
  obtain h1 dn where d: "hw_cmd_done hw h i = (h1, dn)" by (cases "hw_cmd_done hw h i")
  then have s: "after h h1" "left h1 \<le> left h" "left h = 0 \<Longrightarrow> dn" "left h \<noteq> 0 \<Longrightarrow> left h1 < left h"
    using scanned [OF Cons.prems d] by (auto simp: after_def split: if_splits)
  then obtain h2 ok where "scan_commands hw None now (Suc i) cs h1 = (h2, Inr ok)" "after h1 h2" "left h2 \<le> left h1" "ok \<or> left h2 < left h1"
    using Cons.IH [of h1 "Suc i"] unfolding after_def by blast
  with s d after_trans [OF s(1)] show ?case by (cases "dn \<or> c = CmdEnd") auto
qed

lemma commands_done: "running h \<Longrightarrow> \<exists>h'. check_all_commands_done hw chip None cmds h = Some (h', Inr ()) \<and> after h h'"
proof (induction "left h" arbitrary: h rule: less_induct)
  case less
  obtain h1 ok where s: "all_commands_done hw None cmds h = (h1, Inr ok)" "after h h1" "ok \<or> left h1 < left h"
    using scan_ok [OF less.prems] by (fastforce simp: all_commands_done_def look_at_clock_def)
  show ?case
  proof (cases ok)
    case True
    obtain h2 r where "hw_ints hw h1 = (h2, r)" "after h1 h2" "clean r"
      using ints [OF after_running [OF s(2)]] by blast
    then show ?thesis using s True after_trans clean_ok by (subst check_all_commands_done.simps) auto
  next
    case False
    then obtain h2 where "check_all_commands_done hw chip None cmds h1 = Some (h2, Inr ())" "after h1 h2"
      using less.hyps [of h1] s unfolding after_def by blast
    then show ?thesis using s False after_trans by (subst check_all_commands_done.simps) auto
  qed
qed

lemma waited: "running h \<Longrightarrow> \<exists>h'. wait_for_completion hw chip None cmds h = Some (h', Inr ()) \<and> after h h'"
proof -
  assume "running h"
  then obtain h1 where 1: "wait_poll hw chip None h = Some (h1, Inr ())" "after h h1" using wait_poll_ok by blast
  then obtain h2 where "check_all_commands_done hw chip None cmds h1 = Some (h2, Inr ())" "after h1 h2"
    using commands_done unfolding after_def by blast
  with 1 show ?thesis using after_trans by (auto simp: wait_for_completion_def)
qed

lemma fifo_read:
  "running h \<Longrightarrow> rx h = bs @ rest \<Longrightarrow>
   \<exists>h'. read_fifo_bytes hw (length bs) h = (h', bs) \<and> running h' \<and> trace h' = trace h \<and> rx h' = rest"
proof (induction bs arbitrary: h)
  case (Cons b bs)
  obtain h1 b' where b: "hw_rx_byte hw h = (h1, b')" by (cases "hw_rx_byte hw h")
  then have h1: "running h1" "trace h1 = trace h" "b' = b" "rx h1 = bs @ rest" using taken [OF Cons.prems(1) _ b] Cons.prems(2) by auto
  from Cons.IH [OF h1(1,4)] b h1 show ?case by auto
qed simp

lemma fifo_read_all:
  assumes "running h"
  shows "\<exists>h'. read_all_from_fifo hw (length (rx h)) h = Some (h', Inr (rx h)) \<and> trace h' = trace h"
proof -
  obtain h' where h': "read_fifo_bytes hw (length (rx h)) h = (h', rx h)" "running h'" "trace h' = trace h" "rx h' = []"
    using fifo_read [OF assms, of "rx h" "[]"] by auto
  then show ?thesis by (simp add: read_all_from_fifo_def counted [OF assms] counted [OF h'(2)])
qed

text \<open>Programs: what one chunk puts on the bus.\<close>

lemma add_cmds_fit: "length cmds + length cs \<le> comd_count chip \<Longrightarrow> add_cmds chip cs cmds = Inr (cmds @ cs)"
  by (induction cs arbitrary: cmds) (simp_all add: add_cmd_def)

lemma chunk_size: "3 \<le> i2c_chunk_size chip" "i2c_chunk_size chip < fifo_size chip" "fifo_size chip = Suc (i2c_chunk_size chip)"
  using fifo by (simp_all add: i2c_chunk_size_def)

lemma byte_length: "n \<le> fifo_size chip \<Longrightarrow> unat (of_nat n :: u8) = n"
  using fifo by (intro unat_of_nat_eq) simp

lemma byte_length_0: "n \<le> fifo_size chip \<Longrightarrow> ((of_nat n :: u8) = 0) = (n = 0)"
  using byte_length [of n] by (simp add: word_unat_eq_iff)

lemma write_program:
  assumes "length bytes \<le> i2c_chunk_size chip" "bytes \<noteq> [] \<or> start \<or> stop"
  shows "\<exists>cmds fifo_bytes. finish_program chip start stop (setup_write chip addr bytes start) = Inr (cmds, fifo_bytes) \<and>
    program_ok chip cmds fifo_bytes \<and>
    play dev cmds fifo_bytes tr = tr @ (if start then [BusStart, BusSend (address_byte addr KindWrite)] else []) @
      map BusSend bytes @ (if stop then [BusStop] else [])"
proof -
  have n: "Suc (length bytes) \<le> fifo_size chip" "length bytes \<le> fifo_size chip"
    using assms(1) chunk_size by simp_all
  note u = byte_length [OF n(1)] byte_length [OF n(2)] byte_length_0 [OF n(1)] byte_length_0 [OF n(2)]
  show ?thesis
    using assms n u registers chunk_size(3)
    by (cases start; cases stop; cases "bytes = []")
      (simp_all add: finish_program_def setup_write_def add_cmds_fit program_ok_def Let_def del: add_cmds.simps)
qed

lemma read_program:
  assumes "n \<noteq> 0" "n \<le> i2c_chunk_size chip"
  shows "\<exists>cmds fifo_bytes. finish_program chip start stop (setup_read chip addr n start goes_on) = Inr (cmds, fifo_bytes) \<and>
    program_ok chip cmds fifo_bytes \<and>
    play dev cmds fifo_bytes tr = read_bytes dev n goes_on
      (tr @ (if start then [BusStart, BusSend (address_byte addr KindRead)] else [])) @ (if stop then [BusStop] else [])"
proof -
  have n: "n \<le> fifo_size chip" "n - 1 \<le> fifo_size chip" using assms(2) chunk_size by simp_all
  note u = byte_length [OF n(1)] byte_length [OF n(2)] byte_length_0 [OF n(1)] byte_length_0 [OF n(2)]
  show ?thesis
    using assms n u registers chunk_size(3)
    by (cases start; cases stop; cases goes_on; cases "n = 1")
      (simp_all add: finish_program_def setup_read_def add_cmds_fit program_ok_def read_bytes_def Let_def del: add_cmds.simps)
qed

text \<open>Operations: a chunk is transmitted, and a chunk of a read delivers what was received.\<close>

lemma validated: "addr \<le> 0x7F \<Longrightarrow> validate addr = Inr ()"
  by (simp add: validate_def not_less [symmetric])

lemma write_op:
  assumes "addr \<le> 0x7F" "length bytes \<le> i2c_chunk_size chip"
  shows "\<exists>h'. write_operation hw chip addr bytes start stop NoDeadline h = Some (h', Inr ()) \<and>
    trace h' = trace h @ (if start then [BusStart, BusSend (address_byte addr KindWrite)] else []) @
      map BusSend bytes @ (if stop then [BusStop] else [])"
proof (cases "bytes \<noteq> [] \<or> start \<or> stop")
  case True
  obtain cmds fb where p: "finish_program chip start stop (setup_write chip addr bytes start) = Inr (cmds, fb)"
      "program_ok chip cmds fb" "play dev cmds fb (trace h) = trace h @ (if start then [BusStart, BusSend (address_byte addr KindWrite)] else []) @
        map BusSend bytes @ (if stop then [BusStop] else [])"
    using write_program [OF assms(2) True] by blast
  let ?h = "hw_start hw (hw_reset hw h) cmds fb"
  have s: "running ?h" "trace ?h = play dev cmds fb (trace h)" using started [OF p(2)] by auto
  obtain h' where "wait_for_completion hw chip None cmds ?h = Some (h', Inr ())" "after ?h h'" using waited [OF s(1)] by blast
  with p s True show ?thesis
    by (auto simp: write_operation_def validated [OF assms(1)] deadline_start_def after_def Let_def)
next
  case False
  then show ?thesis by (simp add: write_operation_def validated [OF assms(1)] reset Let_def)
qed

lemma read_op:
  assumes "addr \<le> 0x7F" "n \<noteq> 0" "n \<le> i2c_chunk_size chip"
  shows "\<exists>h' d. read_operation hw chip addr n start stop goes_on NoDeadline h = Some (h', Inr (received d)) \<and>
    trace h' = trace h @ d \<and>
    trace h @ d = read_bytes dev n goes_on (trace h @ (if start then [BusStart, BusSend (address_byte addr KindRead)] else [])) @
      (if stop then [BusStop] else [])"
proof -
  let ?pre = "if start then [BusStart, BusSend (address_byte addr KindRead)] else []" and ?post = "if stop then [BusStop] else []"
  obtain cmds fb where p: "finish_program chip start stop (setup_read chip addr n start goes_on) = Inr (cmds, fb)"
      "program_ok chip cmds fb" "play dev cmds fb (trace h) = read_bytes dev n goes_on (trace h @ ?pre) @ ?post"
    using read_program [OF assms(2,3)] by blast
  obtain d where d: "read_bytes dev n goes_on (trace h @ ?pre) = (trace h @ ?pre) @ d" "length (received d) = n"
    using read_bytes_append [OF assms(2)] by blast
  let ?h = "hw_start hw (hw_reset hw h) cmds fb" and ?d = "?pre @ d @ ?post"
  have s: "running ?h" "trace ?h = trace h @ ?d" "rx ?h = received ?d"
    using started [OF p(2)] p(3) d(1) by (auto simp: received_since_def)
  have len: "length (received ?d) = n" using d(2) by simp
  obtain h1 where w: "wait_for_completion hw chip None cmds ?h = Some (h1, Inr ())" "after ?h h1" using waited [OF s(1)] by blast
  have rx: "rx h1 = received ?d" "trace h1 = trace h @ ?d" using w(2) s by (simp_all add: after_def)
  obtain h' where r: "read_all_from_fifo hw n h1 = Some (h', Inr (received ?d))" "trace h' = trace h @ ?d"
    using fifo_read_all [OF after_running [OF w(2)]] unfolding rx len by blast
  have "\<not> fifo_size chip < n" using assms(3) chunk_size(2) by simp
  then have "read_operation hw chip addr n start stop goes_on NoDeadline h = Some (h', Inr (received ?d))"
    using p(1) w(1) r(1) assms(2) by (simp add: read_operation_def validated [OF assms(1)] deadline_start_def Let_def)
  then show ?thesis using r(2) d(1) by (intro exI [where x = h'] exI [where x = ?d]) simp
qed

lemma write_chunks_trace:
  assumes "addr \<le> 0x7F" "list_all (\<lambda>c. c \<noteq> [] \<and> length c \<le> i2c_chunk_size chip) chunks" "chunks \<noteq> []" "count = idx + length chunks"
  shows "\<exists>h'. write_chunks hw chip addr start stop NoDeadline count idx chunks h = Some (h', Inr ()) \<and>
    trace h' = trace h @ (if start \<and> idx = 0 then [BusStart, BusSend (address_byte addr KindWrite)] else []) @
      map BusSend (concat chunks) @ (if stop then [BusStop] else [])"
  using assms(2-4)
proof (induction chunks arbitrary: idx h)
  case (Cons c cs)
  have len: "length c \<le> i2c_chunk_size chip" using Cons.prems(1) by simp
  obtain h1 where h1: "write_operation hw chip addr c (start \<and> idx = 0) (stop \<and> idx = count - 1) NoDeadline h = Some (h1, Inr ())"
      "trace h1 = trace h @ (if start \<and> idx = 0 then [BusStart, BusSend (address_byte addr KindWrite)] else []) @
        map BusSend c @ (if stop \<and> idx = count - 1 then [BusStop] else [])"
    using write_op [OF assms(1) len] by blast
  show ?case
  proof (cases "cs = []")
    case True
    then show ?thesis using h1 Cons.prems(3) by simp
  next
    case False
    obtain h2 where "write_chunks hw chip addr start stop NoDeadline count (Suc idx) cs h1 = Some (h2, Inr ())"
        "trace h2 = trace h1 @ map BusSend (concat cs) @ (if stop then [BusStop] else [])"
      using Cons.IH [of "Suc idx" h1] Cons.prems False by auto
    then show ?thesis using h1 Cons.prems(3) False by simp
  qed
qed simp

lemma write_trace:
  assumes "addr \<le> 0x7F"
  shows "\<exists>h'. write_blocking hw chip addr buffer start stop NoDeadline h = Some (h', Inr ()) \<and>
    trace h' = trace h @ (if start then [BusStart, BusSend (address_byte addr KindWrite)] else []) @
      map BusSend buffer @ (if stop then [BusStop] else [])"
proof (cases "buffer = []")
  case True
  then show ?thesis using write_op [OF assms, of "[]"] by (simp add: write_blocking_def)
next
  case False
  obtain chunks where c: "variable_chunks (i2c_chunk_size chip) buffer = Some chunks" "concat chunks = buffer"
      "list_all (\<lambda>c. c \<noteq> [] \<and> length c \<le> i2c_chunk_size chip) chunks"
    using variable_chunks_spec [OF chunk_size(1)] by blast
  then have "chunks \<noteq> []" using False by auto
  from write_chunks_trace [OF assms c(3) this, of "length chunks" 0] c False show ?thesis
    by (simp add: write_blocking_def)
qed

lemma read_chunks_trace:
  assumes "addr \<le> 0x7F" "list_all (\<lambda>c. c \<noteq> [] \<and> length c \<le> i2c_chunk_size chip) chunks" "chunks \<noteq> []" "count = idx + length chunks"
  shows "\<exists>h' d. read_chunks hw chip addr start stop goes_on NoDeadline count idx chunks h = Some (h', received d, Inr ()) \<and>
    trace h' = trace h @ d \<and>
    trace h @ d = read_bytes dev (length (concat chunks)) goes_on
      (trace h @ (if start \<and> idx = 0 then [BusStart, BusSend (address_byte addr KindRead)] else [])) @ (if stop then [BusStop] else [])"
  using assms(2-4)
proof (induction chunks arbitrary: idx h)
  case (Cons c cs)
  let ?n = "length c" and ?pre = "if start \<and> idx = 0 then [BusStart, BusSend (address_byte addr KindRead)] else []"
  have len: "?n \<noteq> 0" "?n \<le> i2c_chunk_size chip" using Cons.prems(1) by simp_all
  obtain h1 d1 where h1: "read_operation hw chip addr ?n (start \<and> idx = 0) (stop \<and> idx = count - 1) (goes_on \<or> idx < count - 1) NoDeadline h =
        Some (h1, Inr (received d1))" "trace h1 = trace h @ d1"
      "trace h @ d1 = read_bytes dev ?n (goes_on \<or> idx < count - 1) (trace h @ ?pre) @ (if stop \<and> idx = count - 1 then [BusStop] else [])"
    using read_op [OF assms(1) len] by blast
  show ?case
  proof (cases "cs = []")
    case True
    then show ?thesis using h1 Cons.prems(3) by (intro exI [where x = h1] exI [where x = d1]) simp
  next
    case False
    then have first: "trace h @ d1 = receive dev AckBit ?n (trace h @ ?pre)" using h1(3) Cons.prems(3) by (simp add: read_bytes_def)
    obtain h2 d2 where h2: "read_chunks hw chip addr start stop goes_on NoDeadline count (Suc idx) cs h1 = Some (h2, received d2, Inr ())"
        "trace h2 = trace h1 @ d2" "trace h1 @ d2 = read_bytes dev (length (concat cs)) goes_on (trace h1) @ (if stop then [BusStop] else [])"
      using Cons.IH [of "Suc idx" h1] Cons.prems False by auto
    have "length (concat cs) \<noteq> 0" using Cons.prems(1) False by (cases cs) auto
    then have split: "read_bytes dev (length (concat (c # cs))) goes_on (trace h @ ?pre) = read_bytes dev (length (concat cs)) goes_on (trace h1)"
      unfolding h1(2) first by (simp only: concat.simps length_append read_bytes_split not_False_eq_True)
    have "trace h @ d1 @ d2 = read_bytes dev (length (concat (c # cs))) goes_on (trace h @ ?pre) @ (if stop then [BusStop] else [])"
      using h2(3) unfolding split h1(2) append_assoc .
    moreover have "read_chunks hw chip addr start stop goes_on NoDeadline count idx (c # cs) h = Some (h2, received (d1 @ d2), Inr ())"
      using h1(1) h2(1) by simp
    moreover have "trace h2 = trace h @ d1 @ d2" using h1(2) h2(2) by simp
    ultimately show ?thesis by blast
  qed
qed simp

lemma read_trace:
  assumes "addr \<le> 0x7F" "buffer \<noteq> []"
  shows "\<exists>h' d. read_blocking hw chip addr buffer start stop goes_on NoDeadline h = Some (h', received d, Inr ()) \<and>
    trace h' = trace h @ d \<and>
    trace h @ d = read_bytes dev (length buffer) goes_on
      (trace h @ (if start then [BusStart, BusSend (address_byte addr KindRead)] else [])) @ (if stop then [BusStop] else [])"
proof -
  obtain chunks where c: "variable_chunks (i2c_chunk_size chip) buffer = Some chunks" "concat chunks = buffer"
      "list_all (\<lambda>c. c \<noteq> [] \<and> length c \<le> i2c_chunk_size chip) chunks"
    using variable_chunks_spec [OF chunk_size(1)] by blast
  then have ne: "chunks \<noteq> []" using assms(2) by auto
  obtain h' d where "read_chunks hw chip addr start stop goes_on NoDeadline (length chunks) 0 chunks h = Some (h', received d, Inr ())"
      "trace h' = trace h @ d"
      "trace h @ d = read_bytes dev (length buffer) goes_on
        (trace h @ (if start then [BusStart, BusSend (address_byte addr KindRead)] else [])) @ (if stop then [BusStop] else [])"
    using read_chunks_trace [OF assms(1) c(3) ne, of "length chunks" 0 start stop goes_on h] c(2) by auto
  then show ?thesis using c(1) by (intro exI [where x = h'] exI [where x = d]) (simp add: read_blocking_def)
qed

text \<open>Transactions: the loop over the operations keeps the contract.\<close>

lemma operations_trace:
  assumes "addr \<le> 0x7F"
  shows "list_all (\<lambda>op. op_is_write op \<or> \<not> op_is_empty op) ops \<Longrightarrow>
    \<exists>h'. run_operations hw chip NoTimeout addr NoDeadline last_op ops h = Some (h', snd (bus_contract dev addr last_op ops (trace h)), Inr ()) \<and>
      trace h' = fst (bus_contract dev addr last_op ops (trace h))"
proof (induction ops arbitrary: last_op h)
  case (Cons op ops)
  let ?last = "ops = []"
  have dl: "op_deadline NoTimeout NoDeadline = NoDeadline" by (simp add: op_deadline_def)
  have nxt: "((case ops of [] \<Rightarrow> None | op' # _ \<Rightarrow> Some (op_kind_of op')) = None) = ?last"
    "((case ops of [] \<Rightarrow> None | op' # _ \<Rightarrow> Some (op_kind_of op')) = Some KindRead) = (case ops of OpRead _ # _ \<Rightarrow> True | _ \<Rightarrow> False)"
    by (auto split: list.split i2c_operation.split)
  show ?case
  proof (cases op)
    case (OpWrite bs)
    obtain h1 where h1: "write_blocking hw chip addr bs (last_op \<noteq> Some KindWrite) ?last NoDeadline h = Some (h1, Inr ())"
        "trace h1 = begin_op addr last_op KindWrite (trace h) @ map BusSend bs @ (if ?last then [BusStop] else [])"
      using write_trace [OF assms, of bs "last_op \<noteq> Some KindWrite" ?last h] by (auto simp: begin_op_def)
    obtain h2 where "run_operations hw chip NoTimeout addr NoDeadline (Some KindWrite) ops h1 =
          Some (h2, snd (bus_contract dev addr (Some KindWrite) ops (trace h1)), Inr ())"
        "trace h2 = fst (bus_contract dev addr (Some KindWrite) ops (trace h1))"
      using Cons.IH [of "Some KindWrite" h1] Cons.prems by auto
    then show ?thesis using h1 by (simp add: OpWrite dl nxt Let_def split_beta)
  next
    case (OpRead bs)
    let ?goes_on = "case ops of OpRead _ # _ \<Rightarrow> True | _ \<Rightarrow> False"
    have ne: "bs \<noteq> []" using Cons.prems OpRead by simp
    obtain h1 d where h1: "read_blocking hw chip addr bs (last_op \<noteq> Some KindRead) ?last ?goes_on NoDeadline h = Some (h1, received d, Inr ())"
        "trace h1 = trace h @ d"
        "trace h @ d = read_bytes dev (length bs) ?goes_on (begin_op addr last_op KindRead (trace h)) @ (if ?last then [BusStop] else [])"
      using read_trace [OF assms ne, of "last_op \<noteq> Some KindRead" ?last ?goes_on h] by (auto simp: begin_op_def)
    obtain d' where d': "read_bytes dev (length bs) ?goes_on (begin_op addr last_op KindRead (trace h)) =
        begin_op addr last_op KindRead (trace h) @ d'"
      using read_bytes_append [of "length bs"] ne by blast
    have e: "ops = [] \<Longrightarrow> read_bytes dev (length bs) False (begin_op addr last_op KindRead (trace h)) = begin_op addr last_op KindRead (trace h) @ d'"
      using d' by simp
    have rec: "received d = received d'"
      using h1(3) unfolding d' by (auto simp: begin_op_def split: if_splits)
    obtain h2 where "run_operations hw chip NoTimeout addr NoDeadline (Some KindRead) ops h1 =
          Some (h2, snd (bus_contract dev addr (Some KindRead) ops (trace h1)), Inr ())"
        "trace h2 = fst (bus_contract dev addr (Some KindRead) ops (trace h1))"
      using Cons.IH [of "Some KindRead" h1] Cons.prems by auto
    then show ?thesis
      using h1(1,2) h1(3) [unfolded d'] d' e rec by (simp add: OpRead dl nxt Let_def split_beta received_since_def)
  qed
qed simp

lemma transaction_trace:
  fixes ops
  assumes "addr \<le> 0x7F"
  defines "ops' \<equiv> filter (\<lambda>op. op_is_write op \<or> \<not> op_is_empty op) ops"
  shows "\<exists>h'. transaction hw chip NoTimeout addr ops h = Some (h', snd (bus_contract dev addr None ops' (settled (trace h))), Inr ()) \<and>
    trace h' = fst (bus_contract dev addr None ops' (settled (trace h)))"
proof -
  have "list_all (\<lambda>op. op_is_write op \<or> \<not> op_is_empty op) ops'" by (auto simp: ops'_def list_all_iff)
  moreover have "trace (ensure_idle hw h) = settled (trace h)"
    by (simp add: ensure_idle_def settled_def busy cleared)
  ultimately show ?thesis
    using operations_trace [OF assms(1), of ops' None "ensure_idle hw h"]
    by (auto simp: transaction_def transaction_impl_def validated [OF assms(1)] ops'_def)
qed

end

section \<open>A controller that meets the contract\<close>

text \<open>
  A laboratory controller: it plays a program at once and is seen to be done after a few looks.
  \<open>sim_chip\<close> has the sizes of the ESP32-S3.
\<close>

record sim_bus =
  lb_trace :: "bus_event list"
  lb_rx :: "u8 list"
  lb_left :: nat

definition sim_chip :: i2c_chip where
  "sim_chip = \<lparr>fifo_size = 32, comd_count = 8, has_fsm_timeouts = True, can_estimate_nack = True\<rparr>"

definition sim_ints :: "bool \<Rightarrow> i2c_ints" where
  "sim_ints over = \<lparr>in_nack = False, in_arbitration_lost = False, in_trans_complete = over, in_end_detect = False,
     in_time_out = False, in_scl_st_to = False, in_scl_main_st_to = False, sr_resp_rec = over, fifo_raddr = 0\<rparr>"

definition sim_i2c :: "device \<Rightarrow> sim_bus i2c_hw" where
  "sim_i2c dev = \<lparr>hw_bus_busy = (\<lambda>h. \<not> bus_idle (lb_trace h)),
     hw_clear_bus = (\<lambda>h _. h\<lparr>lb_trace := lb_trace h @ [BusStop]\<rparr>),
     hw_fsm_reset = (\<lambda>h. h), hw_reset = (\<lambda>h. h\<lparr>lb_rx := []\<rparr>),
     hw_start = (\<lambda>h cmds fifo. let tr = play dev cmds fifo (lb_trace h) in
       \<lparr>lb_trace = tr, lb_rx = received_since (lb_trace h) tr, lb_left = 3\<rparr>),
     hw_ints = (\<lambda>h. (h\<lparr>lb_left := lb_left h - 1\<rparr>, sim_ints (lb_left h = 0))),
     hw_cmd_done = (\<lambda>h i. (h\<lparr>lb_left := lb_left h - 1\<rparr>, lb_left h = 0)),
     hw_rx_count = (\<lambda>h. length (lb_rx h)),
     hw_rx_byte = (\<lambda>h. case lb_rx h of [] \<Rightarrow> (h, 0) | b # bs \<Rightarrow> (h\<lparr>lb_rx := bs\<rparr>, b)),
     hw_now = (\<lambda>h. (h, 0))\<rparr>"

lemma sim_i2c_bus: "i2c_bus (sim_i2c dev) sim_chip dev lb_trace lb_rx (\<lambda>_. True) lb_left"
  by unfold_locales
    (auto simp: sim_i2c_def sim_chip_def sim_ints_def clean_def received_since_def Let_def)

interpretation sim_bus: i2c_bus "sim_i2c dev" sim_chip dev lb_trace lb_rx "\<lambda>_. True" lb_left for dev
  by (rule sim_i2c_bus)

section \<open>Properties\<close>

text \<open>
  C13. The transaction contract, for 7-bit addresses and without a software timeout (the configuration of
  this firmware), on a controller that plays its programs and with a device that acknowledges:
  \<open>transaction\<close> succeeds for operations of every number and length, and the bus carries what the
  documentation promises for the operations that are left when reads into an empty buffer are dropped: START
  and the address before the first operation and, repeated, before each of another kind, the data of
  adjacent operations of one kind without anything between (whatever the chunks), the last byte of the
  reads before a write or the end not acknowledged, one STOP at the end; each read buffer holds the
  bytes the device sent for it.  Operations without data succeed as well, where the documentation of
  \<open>transaction\<close> promises an error.
\<close>

theorem i2c_transaction_contract:
  fixes ops
  assumes "i2c_bus hw chip dev trace rx running left" "addr \<le> 0x7F"
  defines "ops' \<equiv> filter (\<lambda>op. op_is_write op \<or> \<not> op_is_empty op) ops"
  shows "\<exists>h'. transaction hw chip NoTimeout addr ops h = Some (h', snd (bus_contract dev addr None ops' (settled (trace h))), Inr ()) \<and>
    trace h' = fst (bus_contract dev addr None ops' (settled (trace h)))"
  unfolding ops'_def by (rule i2c_bus.transaction_trace [OF assms(1,2)])

theorem i2c_transaction_contract_witness:
  "\<exists>h'. transaction (sim_i2c (\<lambda>tr. of_nat (length tr))) sim_chip NoTimeout 0x15 [OpWrite (replicate 40 7), OpRead [], OpWrite [8], OpRead [0, 0]]
      \<lparr>lb_trace = [], lb_rx = [], lb_left = 0\<rparr> = Some (h', [OpWrite (replicate 40 7), OpWrite [8], OpRead [45, 46]], Inr ()) \<and>
    lb_trace h' = [BusStart, BusSend 0x2A] @ replicate 40 (BusSend 7) @
      [BusSend 8, BusStart, BusSend 0x2B, BusRecv 45 AckBit, BusRecv 46 NackBit, BusStop]"
proof -
  let ?d = "\<lambda>tr. of_nat (length tr)" and ?ops = "[OpWrite (replicate 40 7), OpRead [], OpWrite [8], OpRead [0, 0]]"
  let ?h = "\<lparr>lb_trace = [], lb_rx = [], lb_left = 0\<rparr>"
  have a: "(0x15 :: u8) \<le> 0x7F" by simp
  have c: "bus_contract ?d 0x15 None (filter (\<lambda>op. op_is_write op \<or> \<not> op_is_empty op) ?ops) (settled (lb_trace ?h)) =
    ([BusStart, BusSend 0x2A] @ replicate 40 (BusSend 7) @
      [BusSend 8, BusStart, BusSend 0x2B, BusRecv 45 AckBit, BusRecv 46 NackBit, BusStop],
     [OpWrite (replicate 40 7), OpWrite [8], OpRead [45, 46]])"
    by code_simp
  from i2c_transaction_contract [OF sim_i2c_bus [of ?d] a, of ?ops ?h] show ?thesis unfolding c by simp
qed

text \<open>
  What never reaches the bus: an address of more than seven bits is refused before any program,
  with a reset of the controller only; and a read into an empty buffer is filtered out, so it
  reports success without addressing the device, where the documentation of \<open>read\<close> promises an error.
\<close>

theorem i2c_refusals:
  "(0x7F < addr \<longrightarrow> (\<exists>ops'. transaction hw chip st addr ops h = Some (hw_fsm_reset hw h, ops', Inl (AddressInvalid addr)))) \<and>
   (addr \<le> 0x7F \<longrightarrow> i2c_master_read hw chip NoTimeout addr [] h = Some (ensure_idle hw h, [], Inr ()) \<and>
     i2c_master_write_read hw chip NoTimeout addr bs [] h =
       map_option (\<lambda>(h, r). (h, [], r)) (i2c_master_write hw chip NoTimeout addr bs h))"
proof -
  have v: "validate addr = (if 0x7F < addr then Inl (AddressInvalid addr) else Inr ())" by (simp add: validate_def)
  have bad: "\<exists>ops'. transaction hw chip st addr ops h = Some (hw_fsm_reset hw h, ops', Inl (AddressInvalid addr))" if "0x7F < addr"
    using that by (simp add: transaction_def transaction_impl_def v internal_recover_def)
  have filtered: "transaction hw chip NoTimeout addr [OpWrite bs, OpRead []] h = transaction hw chip NoTimeout addr [OpWrite bs] h"
    and skipped: "transaction hw chip NoTimeout addr [OpRead []] h = Some (ensure_idle hw h, [], Inr ())" if "addr \<le> 0x7F"
    using that by (simp_all add: transaction_def transaction_impl_def v not_less [symmetric])
  have none_read: "read_buffer [] ops' = []" if "transaction hw chip NoTimeout addr [OpWrite bs] h = Some (h', ops', r)" for h' ops' r
  proof -
    have "\<exists>a. ops' = [OpWrite a]"
      using that by (auto simp: transaction_def transaction_impl_def Let_def split: Option.bind_splits sum.splits)
    then show ?thesis by auto
  qed
  have "i2c_master_read hw chip NoTimeout addr [] h = Some (ensure_idle hw h, [], Inr ())" if "addr \<le> 0x7F"
    unfolding i2c_master_read_def skipped [OF that] by simp
  moreover have "i2c_master_write_read hw chip NoTimeout addr bs [] h =
      map_option (\<lambda>(h, r). (h, [], r)) (i2c_master_write hw chip NoTimeout addr bs h)" if "addr \<le> 0x7F"
    by (cases "transaction hw chip NoTimeout addr [OpWrite bs] h")
      (auto simp: i2c_master_write_read_def i2c_master_write_def filtered [OF that] none_read)
  ultimately show ?thesis using bad by blast
qed

theorem i2c_refusals_witness:
  "(\<exists>ops'. transaction (sim_i2c (\<lambda>_. 0)) sim_chip NoTimeout 0x80 [] \<lparr>lb_trace = [], lb_rx = [], lb_left = 0\<rparr> =
      Some (\<lparr>lb_trace = [], lb_rx = [], lb_left = 0\<rparr>, ops', Inl (AddressInvalid 0x80))) \<and>
   i2c_master_read (sim_i2c (\<lambda>_. 0)) sim_chip NoTimeout 0x15 [] \<lparr>lb_trace = [], lb_rx = [], lb_left = 0\<rparr> =
      Some (\<lparr>lb_trace = [], lb_rx = [], lb_left = 0\<rparr>, [], Inr ())"
proof -
  let ?h = "\<lparr>lb_trace = [], lb_rx = [], lb_left = 0\<rparr>"
  have "hw_fsm_reset (sim_i2c (\<lambda>_. 0)) ?h = ?h" "ensure_idle (sim_i2c (\<lambda>_. 0)) ?h = ?h"
    by (simp_all add: sim_i2c_def ensure_idle_def bus_idle_def)
  moreover have "0x7F < (0x80 :: u8)" "(0x15 :: u8) \<le> 0x7F" by simp_all
  ultimately show ?thesis using i2c_refusals by metis
qed

end
