(* ===== verification/Bus_Devices.thy ===== *)
theory Bus_Devices
  imports I2c_Contract Touch
begin

text \<open>
  The two devices of the firmware on the I2C bus, driven through the driver of \<open>I2c_Master\<close>: the
  haptic driver of \<open>Haptic\<close> with its bus parameter instantiated, the start of the touch controller
  (\<open>Cst816::new\<close>) and a whole poll of it (\<open>Cst816::read\<close>, with the transaction).  Both
  devices are register files with a pointer, as their data sheets have it: \<open>reg_event\<close>.
\<close>

section \<open>A device with registers\<close>

datatype reg_phase = PhIdle | PhAddress | PhPointer | PhData | PhRead

record reg_device =
  rd_phase :: reg_phase
  rd_ptr :: u8
  rd_regs :: "u8 \<Rightarrow> u8"

text \<open>The first byte after the address of a write sets the pointer; every byte after it advances it.\<close>

fun reg_event :: "u8 \<Rightarrow> reg_device \<Rightarrow> bus_event \<Rightarrow> reg_device" where
  "reg_event a d BusStart = d\<lparr>rd_phase := PhAddress\<rparr>"
| "reg_event a d BusStop = d\<lparr>rd_phase := PhIdle\<rparr>"
| "reg_event a d (BusSend b) =
     (case rd_phase d of
        PhAddress \<Rightarrow> d\<lparr>rd_phase := (if b = address_byte a KindWrite then PhPointer
                                   else if b = address_byte a KindRead then PhRead else PhIdle)\<rparr>
      | PhPointer \<Rightarrow> d\<lparr>rd_phase := PhData, rd_ptr := b\<rparr>
      | PhData \<Rightarrow> d\<lparr>rd_regs := (rd_regs d)(rd_ptr d := b), rd_ptr := rd_ptr d + 1\<rparr>
      | _ \<Rightarrow> d)"
| "reg_event a d (BusRecv _ _) = (if rd_phase d = PhRead then d\<lparr>rd_ptr := rd_ptr d + 1\<rparr> else d)"

definition reg_after :: "u8 \<Rightarrow> reg_device \<Rightarrow> bus_event list \<Rightarrow> reg_device" where
  "reg_after a d tr = foldl (reg_event a) d tr"

definition reg_dev :: "u8 \<Rightarrow> reg_device \<Rightarrow> device" where
  "reg_dev a d tr = (let d' = reg_after a d tr in if rd_phase d' = PhRead then rd_regs d' (rd_ptr d') else 0xFF)"

lemma reg_after_append [simp]: "reg_after a d (xs @ ys) = reg_after a (reg_after a d xs) ys"
  by (simp add: reg_after_def)

lemma reg_after_Nil [simp]: "reg_after a d [] = d"
  by (simp add: reg_after_def)

lemma reg_after_Cons [simp]: "reg_after a d (x # xs) = reg_after a (reg_event a d x) xs"
  by (simp add: reg_after_def)

lemma address_bytes_differ: "address_byte a KindWrite \<noteq> address_byte a KindRead"
proof -
  have "bit (address_byte a KindRead) 0" "\<not> bit (address_byte a KindWrite) 0"
    by (simp_all only: address_byte_def op_kind.case bit_or_iff bit_push_bit_iff) (simp_all add: bit_0)
  then show ?thesis by metis
qed

lemma settled_regs: "rd_regs (reg_after a d (settled tr)) = rd_regs (reg_after a d tr)"
  by (simp add: settled_def)

text \<open>A run of received bytes is a run of registers.\<close>

lemma reg_receive:
  assumes "rd_phase (reg_after a d tr) = PhRead"
  shows "\<exists>es. receive (reg_dev a d) k n tr = tr @ es \<and>
    received es = map (\<lambda>i. rd_regs (reg_after a d tr) (rd_ptr (reg_after a d tr) + of_nat i)) [0..<n] \<and>
    reg_after a d (tr @ es) = (reg_after a d tr)\<lparr>rd_ptr := rd_ptr (reg_after a d tr) + of_nat n\<rparr>"
  using assms
proof (induction n arbitrary: tr)
  case (Suc n)
  let ?d = "reg_after a d tr" and ?e = "BusRecv (reg_dev a d tr) k"
  have e: "reg_after a d (tr @ [?e]) = ?d\<lparr>rd_ptr := rd_ptr ?d + 1\<rparr>" using Suc.prems by simp
  have b: "reg_dev a d tr = rd_regs ?d (rd_ptr ?d)" using Suc.prems by (simp add: reg_dev_def Let_def)
  obtain es where es: "receive (reg_dev a d) k n (tr @ [?e]) = (tr @ [?e]) @ es"
      "received es = map (\<lambda>i. rd_regs ?d (rd_ptr ?d + 1 + of_nat i)) [0..<n]"
      "reg_after a d ((tr @ [?e]) @ es) = ?d\<lparr>rd_ptr := rd_ptr ?d + 1 + of_nat n\<rparr>"
    using Suc.IH [of "tr @ [?e]"] Suc.prems unfolding e by auto
  have "map (\<lambda>i. rd_regs ?d (rd_ptr ?d + of_nat i)) [0..<Suc n] =
      rd_regs ?d (rd_ptr ?d) # map (\<lambda>i. rd_regs ?d (rd_ptr ?d + 1 + of_nat i)) [0..<n]"
    by (simp add: upt_conv_Cons map_Suc_upt [symmetric] add_ac del: upt_Suc)
  then show ?case using es b by (intro exI [where x = "?e # es"]) (simp add: add_ac)
qed simp

section \<open>Register accesses through the driver\<close>

locale register_bus = i2c_bus hw chip "reg_dev addr d0" trace rx running left
  for hw :: "'h i2c_hw" and chip :: i2c_chip and addr :: u8 and d0 :: reg_device
    and trace :: "'h \<Rightarrow> bus_event list" and rx :: "'h \<Rightarrow> u8 list" and running :: "'h \<Rightarrow> bool" and left :: "'h \<Rightarrow> nat" +
  assumes seven_bits: "addr \<le> 0x7F"
begin

definition regs_of :: "'h \<Rightarrow> u8 \<Rightarrow> u8" where
  "regs_of h = rd_regs (reg_after addr d0 (trace h))"

lemma write_register:
  "\<exists>h'. i2c_master_write hw chip NoTimeout addr [r, v] h = Some (h', Inr ()) \<and> regs_of h' = (regs_of h)(r := v)"
proof -
  obtain h' where "transaction hw chip NoTimeout addr [OpWrite [r, v]] h =
        Some (h', snd (bus_contract (reg_dev addr d0) addr None [OpWrite [r, v]] (settled (trace h))), Inr ())"
      "trace h' = fst (bus_contract (reg_dev addr d0) addr None [OpWrite [r, v]] (settled (trace h)))"
    using transaction_trace [OF seven_bits, of "[OpWrite [r, v]]" h] by auto
  then show ?thesis
    by (simp add: i2c_master_write_def begin_op_def regs_of_def settled_regs)
qed

lemma read_registers:
  assumes "buffer \<noteq> []"
  shows "\<exists>h'. i2c_master_write_read hw chip NoTimeout addr [r] buffer h =
      Some (h', map (\<lambda>i. regs_of h (r + of_nat i)) [0..<length buffer], Inr ()) \<and> regs_of h' = regs_of h"
proof -
  let ?dev = "reg_dev addr d0" and ?ops = "[OpWrite [r], OpRead buffer]"
  define t1 where "t1 = settled (trace h) @ [BusStart, BusSend (address_byte addr KindWrite), BusSend r,
    BusStart, BusSend (address_byte addr KindRead)]"
  obtain n where n: "length buffer = Suc n" using assms by (cases buffer) auto
  have d: "reg_after addr d0 t1 = (reg_after addr d0 (settled (trace h)))\<lparr>rd_phase := PhRead, rd_ptr := r\<rparr>"
    using address_bytes_differ [of addr] by (simp add: t1_def)
  obtain es where es: "receive ?dev AckBit n t1 = t1 @ es"
      "received es = map (\<lambda>i. regs_of h (r + of_nat i)) [0..<n]"
      "reg_after addr d0 (t1 @ es) = (reg_after addr d0 t1)\<lparr>rd_ptr := r + of_nat n\<rparr>"
    using reg_receive [of addr d0 t1 AckBit n] unfolding d by (auto simp: regs_of_def settled_regs)
  have last: "?dev (t1 @ es) = regs_of h (r + of_nat n)"
    unfolding reg_dev_def es(3) d by (simp add: regs_of_def settled_regs)
  have t2: "read_bytes ?dev (length buffer) False t1 = t1 @ es @ [BusRecv (regs_of h (r + of_nat n)) NackBit]"
    unfolding read_bytes_def n by (simp add: es(1) last)
  have c: "bus_contract ?dev addr None ?ops (settled (trace h)) =
      (t1 @ es @ [BusRecv (regs_of h (r + of_nat n)) NackBit, BusStop],
       [OpWrite [r], OpRead (map (\<lambda>i. regs_of h (r + of_nat i)) [0..<length buffer])])"
    using t2 es(2) by (simp add: begin_op_def received_since_def n t1_def)
  obtain h' where "transaction hw chip NoTimeout addr ?ops h = Some (h', snd (bus_contract ?dev addr None ?ops (settled (trace h))), Inr ())"
      "trace h' = fst (bus_contract ?dev addr None ?ops (settled (trace h)))"
    using transaction_trace [OF seven_bits, of ?ops h] assms by auto
  moreover have "rd_regs (reg_after addr d0 (t1 @ es @ [BusRecv (regs_of h (r + of_nat n)) NackBit, BusStop])) = regs_of h"
    using es(3) [unfolded d] by (simp add: regs_of_def settled_regs)
  ultimately show ?thesis unfolding c by (simp add: i2c_master_write_read_def regs_of_def)
qed

end

interpretation sim_registers: register_bus "sim_i2c (reg_dev drv2605_addr d0)" sim_chip drv2605_addr d0 lb_trace lb_rx "\<lambda>_. True" lb_left
  for d0
  by (intro register_bus.intro register_bus_axioms.intro sim_i2c_bus) (simp add: drv2605_addr_def)

section \<open>The drivers on the bus\<close>

text \<open>
  The bus operations of the haptic driver: its reads are of one byte, and it ignores errors but for
  whether there is a byte.  A transaction that never returns has no counterpart there.
\<close>

definition driver_io :: "'h i2c_hw \<Rightarrow> i2c_chip \<Rightarrow> 'h i2c_ops" where
  "driver_io hw chip =
     \<lparr>i2c_write = (\<lambda>h addr bs. case i2c_master_write hw chip NoTimeout addr bs h of
         Some (h, Inr _) \<Rightarrow> (h, True) | Some (h, Inl _) \<Rightarrow> (h, False) | None \<Rightarrow> (h, False)),
      i2c_write_read = (\<lambda>h addr bs. case i2c_master_write_read hw chip NoTimeout addr bs [0] h of
         Some (h, [b], Inr _) \<Rightarrow> (h, Some b) | Some (h, _, _) \<Rightarrow> (h, None) | None \<Rightarrow> (h, None))\<rparr>"

definition cst816_addr :: u8 where "cst816_addr = 0x15"
definition reg_gesture_id :: u8 where "reg_gesture_id = 0x01"
definition reg_chip_id :: u8 where "reg_chip_id = 0xA7"
definition reg_dis_autosleep :: u8 where "reg_dis_autosleep = 0xFE"

text \<open>\<open>Cst816::new\<close>, from the chip ID on; the identifier is only logged.\<close>

definition touch_start :: "'h i2c_hw \<Rightarrow> i2c_chip \<Rightarrow> 'h \<Rightarrow> ('h \<times> cst816) option" where
  "touch_start hw chip h = do {
     (h, _, _) \<leftarrow> i2c_master_write_read hw chip NoTimeout cst816_addr [reg_chip_id] [0] h;
     (h, _) \<leftarrow> i2c_master_write hw chip NoTimeout cst816_addr [reg_dis_autosleep, 0x01] h;
     Some (h, cst816_new) }"

text \<open>A whole \<open>Cst816::read\<close>.\<close>

definition touch_regs_of :: "u8 list \<Rightarrow> touch_regs option" where
  "touch_regs_of buf = (case buf of [b0, b1, b2, b3, b4, b5] \<Rightarrow> Some (b0, b1, b2, b3, b4, b5) | _ \<Rightarrow> None)"

definition touch_poll :: "'h i2c_hw \<Rightarrow> i2c_chip \<Rightarrow> cst816 \<Rightarrow> 'h \<Rightarrow> ('h \<times> cst816 \<times> touch_event option) option" where
  "touch_poll hw chip s h = do {
     (h, buf, r) \<leftarrow> i2c_master_write_read hw chip NoTimeout cst816_addr [reg_gesture_id] (replicate 6 0) h;
     Some (h, touch_read (case r of Inl _ \<Rightarrow> None | Inr _ \<Rightarrow> touch_regs_of buf) s) }"

section \<open>Properties\<close>

lemma driver_registers:
  assumes "register_bus hw chip drv2605_addr d0 trace rx running left"
  shows "register_chip (driver_io hw chip) (register_bus.regs_of drv2605_addr d0 trace)"
proof
  fix h r v
  let ?regs = "register_bus.regs_of drv2605_addr d0 trace"
  show "?regs (fst (i2c_write (driver_io hw chip) h drv2605_addr [r, v])) = (?regs h)(r := v)"
    using register_bus.write_register [OF assms, of r v h] by (auto simp: driver_io_def)
  show "\<exists>h'. i2c_write_read (driver_io hw chip) h drv2605_addr [r] = (h', Some (?regs h r)) \<and> ?regs h' = ?regs h"
    using register_bus.read_registers [OF assms, of "[0]" r h] by (auto simp: driver_io_def)
qed

interpretation sim_drv2605: register_chip "driver_io (sim_i2c (reg_dev drv2605_addr d0)) sim_chip" "sim_registers.regs_of d0" for d0
  by (rule driver_registers) (rule sim_registers.register_bus_axioms)

lemma six_registers: "touch_regs_of (map f [0..<6]) = Some (f 0, f 1, f 2, f 3, f 4, f 5)"
proof -
  have "[0..<6] = [0, 1, 2, 3, 4, 5 :: nat]" by (simp add: upt_rec)
  then show ?thesis by (simp add: touch_regs_of_def)
qed

definition sim_device :: reg_device where
  "sim_device = \<lparr>rd_phase = PhIdle, rd_ptr = 0, rd_regs = (\<lambda>r. if r = 0x1A then 0xC1 else r)\<rparr>"

definition sim_start :: sim_bus where
  "sim_start = \<lparr>lb_trace = [], lb_rx = [], lb_left = 0\<rparr>"

text \<open>
  The haptic driver on its bus: through the I2C driver, on a controller that plays its programs and
  with the chip's registers on the bus, the initialisation and an effect leave the chip's registers
  as the data sheet wants them: out of standby, the ERM library, only the N_ERM_LRA bit of the feedback
  register cleared, only the open-loop bit of the control register set, full drive, then the effect
  in the sequencer, the end of the sequence behind it, and the start.
\<close>

theorem haptic_on_bus:
  fixes trace :: "'h \<Rightarrow> bus_event list" and h :: 'h
  assumes "i2c_bus hw chip (reg_dev drv2605_addr d0) trace rx running left"
  defines "regs \<equiv> \<lambda>h. rd_regs (reg_after drv2605_addr d0 (trace h))"
  shows "regs (haptic_play (driver_io hw chip) e (haptic_init (driver_io hw chip) h)) =
    (regs h)(reg_mode := 0, reg_library := 1, reg_feedback := regs h reg_feedback AND 0x7F, reg_rated_voltage := 0xFF,
       reg_od_clamp := 0xFF, reg_control3 := regs h reg_control3 OR 0x20,
       reg_waveform := effect_id e, reg_waveform + 1 := 0, reg_go := 1)"
proof -
  have b: "register_bus hw chip drv2605_addr d0 trace rx running left"
    by (intro register_bus.intro register_bus_axioms.intro assms(1)) (simp add: drv2605_addr_def)
  have r: "regs = register_bus.regs_of drv2605_addr d0 trace"
    by (rule ext) (simp add: regs_def register_bus.regs_of_def [OF b])
  have c: "register_chip (driver_io hw chip) regs" unfolding r by (rule driver_registers [OF b])
  show ?thesis
    by (simp add: register_chip.regs_play [OF c] register_chip.regs_init [OF c])
qed

theorem haptic_on_bus_witness:
  "rd_regs (reg_after drv2605_addr sim_device (lb_trace
     (haptic_play (driver_io (sim_i2c (reg_dev drv2605_addr sim_device)) sim_chip) SharpClick
       (haptic_init (driver_io (sim_i2c (reg_dev drv2605_addr sim_device)) sim_chip) sim_start)))) reg_feedback = 0x41"
  using haptic_on_bus [OF sim_i2c_bus [of "reg_dev drv2605_addr sim_device"], of SharpClick sim_start]
  by (simp add: sim_start_def sim_device_def drv2605_regs)

text \<open>
  C24. The touch controller on its bus: a poll never hangs or fails there, leaves the registers alone, and
  hands the six registers from the gesture on, in order, to the decoding; the start turns automatic
  sleep off and touches nothing else.
\<close>

theorem touch_on_bus:
  fixes trace :: "'h \<Rightarrow> bus_event list" and h :: 'h
  assumes "i2c_bus hw chip (reg_dev cst816_addr d0) trace rx running left"
  defines "regs \<equiv> \<lambda>h. rd_regs (reg_after cst816_addr d0 (trace h))"
  shows "(\<exists>h'. touch_poll hw chip s h =
      Some (h', touch_read (Some (regs h 1, regs h 2, regs h 3, regs h 4, regs h 5, regs h 6)) s) \<and> regs h' = regs h) \<and>
    (\<exists>h'. touch_start hw chip h = Some (h', cst816_new) \<and> regs h' = (regs h)(reg_dis_autosleep := 1))"
proof -
  have b: "register_bus hw chip cst816_addr d0 trace rx running left"
    by (intro register_bus.intro register_bus_axioms.intro assms(1)) (simp add: cst816_addr_def)
  have r: "register_bus.regs_of cst816_addr d0 trace = regs"
    by (rule ext) (simp add: regs_def register_bus.regs_of_def [OF b])
  note rd = register_bus.read_registers [OF b, unfolded r] and wr = register_bus.write_register [OF b, unfolded r]
  obtain h1 where h1: "i2c_master_write_read hw chip NoTimeout cst816_addr [reg_gesture_id] (replicate 6 0) h =
      Some (h1, map (\<lambda>i. regs h (reg_gesture_id + of_nat i)) [0..<6], Inr ())" "regs h1 = regs h"
    using rd [of "replicate 6 0" reg_gesture_id h] by auto
  obtain h2 h3 where "i2c_master_write_read hw chip NoTimeout cst816_addr [reg_chip_id] [0] h =
        Some (h2, [regs h reg_chip_id], Inr ())" "regs h2 = regs h"
      "i2c_master_write hw chip NoTimeout cst816_addr [reg_dis_autosleep, 1] h2 = Some (h3, Inr ())"
      "regs h3 = (regs h2)(reg_dis_autosleep := 1)"
    using rd [of "[0]" reg_chip_id h] wr [of reg_dis_autosleep 1] by fastforce
  moreover have "touch_regs_of (map (\<lambda>i. regs h (reg_gesture_id + of_nat i)) [0..<6]) =
      Some (regs h 1, regs h 2, regs h 3, regs h 4, regs h 5, regs h 6)"
    unfolding six_registers by (simp add: reg_gesture_id_def)
  ultimately show ?thesis
    using h1 unfolding touch_poll_def touch_start_def by (simp del: touch_read.simps)
qed

theorem touch_on_bus_witness:
  "\<exists>h'. touch_poll (sim_i2c (reg_dev cst816_addr sim_device)) sim_chip cst816_new sim_start =
    Some (h', \<lparr>last_gesture = GSwipeUp, finger_down = True\<rparr>, Some \<lparr>te_x = 0x304, te_y = 0x506, te_gesture = GSwipeUp\<rparr>)"
  using touch_on_bus [OF sim_i2c_bus [of "reg_dev cst816_addr sim_device"], of cst816_new sim_start]
  by (auto simp add: sim_start_def sim_device_def gesture_from_id_def cst816_new_def coordinate_def Let_def)

end
