(* ===== verification/Spi_Master.thy ===== *)
theory Spi_Master
  imports Display
begin

text \<open>
  The half-duplex write of the SPI driver (\<open>esp-hal-patched/src/spi/master.rs\<close>, the parts for the
  ESP32-S3 with GDMA) down to the registers: command, address and data mode, the lengths, the DMA
  buffer and the start.  \<open>Display\<close> abstracts from it by a log of transfers; the end of this theory
  shows that each transfer is one the registers describe.

  The waits for the controller to be idle and for the \<open>update\<close> bit are left out; whether the DMA
  engine accepts a transfer is a parameter of the state, by the number of the write.
\<close>

section \<open>Modes, commands and addresses\<close>

datatype spi_mode = SpiTwoLines | SpiSingle | SpiDual | SpiQuad | SpiOctal

datatype spi_command = SpiCmdNone
  | SpiCmd1 u16 spi_mode | SpiCmd2 u16 spi_mode | SpiCmd3 u16 spi_mode | SpiCmd4 u16 spi_mode | SpiCmd5 u16 spi_mode | SpiCmd6 u16 spi_mode
  | SpiCmd7 u16 spi_mode | SpiCmd8 u16 spi_mode | SpiCmd9 u16 spi_mode | SpiCmd10 u16 spi_mode | SpiCmd11 u16 spi_mode | SpiCmd12 u16 spi_mode
  | SpiCmd13 u16 spi_mode | SpiCmd14 u16 spi_mode | SpiCmd15 u16 spi_mode | SpiCmd16 u16 spi_mode

fun cmd_width :: "spi_command \<Rightarrow> nat" where
  "cmd_width SpiCmdNone = 0"
| "cmd_width (SpiCmd1 v m) = 1" | "cmd_width (SpiCmd2 v m) = 2" | "cmd_width (SpiCmd3 v m) = 3"
| "cmd_width (SpiCmd4 v m) = 4" | "cmd_width (SpiCmd5 v m) = 5" | "cmd_width (SpiCmd6 v m) = 6"
| "cmd_width (SpiCmd7 v m) = 7" | "cmd_width (SpiCmd8 v m) = 8" | "cmd_width (SpiCmd9 v m) = 9"
| "cmd_width (SpiCmd10 v m) = 10" | "cmd_width (SpiCmd11 v m) = 11" | "cmd_width (SpiCmd12 v m) = 12"
| "cmd_width (SpiCmd13 v m) = 13" | "cmd_width (SpiCmd14 v m) = 14" | "cmd_width (SpiCmd15 v m) = 15"
| "cmd_width (SpiCmd16 v m) = 16"

fun cmd_value :: "spi_command \<Rightarrow> u16" where
  "cmd_value SpiCmdNone = 0"
| "cmd_value (SpiCmd1 v m) = v" | "cmd_value (SpiCmd2 v m) = v" | "cmd_value (SpiCmd3 v m) = v"
| "cmd_value (SpiCmd4 v m) = v" | "cmd_value (SpiCmd5 v m) = v" | "cmd_value (SpiCmd6 v m) = v"
| "cmd_value (SpiCmd7 v m) = v" | "cmd_value (SpiCmd8 v m) = v" | "cmd_value (SpiCmd9 v m) = v"
| "cmd_value (SpiCmd10 v m) = v" | "cmd_value (SpiCmd11 v m) = v" | "cmd_value (SpiCmd12 v m) = v"
| "cmd_value (SpiCmd13 v m) = v" | "cmd_value (SpiCmd14 v m) = v" | "cmd_value (SpiCmd15 v m) = v"
| "cmd_value (SpiCmd16 v m) = v"

fun cmd_mode :: "spi_command \<Rightarrow> spi_mode" where
  "cmd_mode SpiCmdNone = SpiTwoLines"
| "cmd_mode (SpiCmd1 v m) = m" | "cmd_mode (SpiCmd2 v m) = m" | "cmd_mode (SpiCmd3 v m) = m"
| "cmd_mode (SpiCmd4 v m) = m" | "cmd_mode (SpiCmd5 v m) = m" | "cmd_mode (SpiCmd6 v m) = m"
| "cmd_mode (SpiCmd7 v m) = m" | "cmd_mode (SpiCmd8 v m) = m" | "cmd_mode (SpiCmd9 v m) = m"
| "cmd_mode (SpiCmd10 v m) = m" | "cmd_mode (SpiCmd11 v m) = m" | "cmd_mode (SpiCmd12 v m) = m"
| "cmd_mode (SpiCmd13 v m) = m" | "cmd_mode (SpiCmd14 v m) = m" | "cmd_mode (SpiCmd15 v m) = m"
| "cmd_mode (SpiCmd16 v m) = m"

datatype spi_address = SpiAddrNone
  | SpiAddr1 u32 spi_mode | SpiAddr2 u32 spi_mode | SpiAddr3 u32 spi_mode | SpiAddr4 u32 spi_mode | SpiAddr5 u32 spi_mode | SpiAddr6 u32 spi_mode
  | SpiAddr7 u32 spi_mode | SpiAddr8 u32 spi_mode | SpiAddr9 u32 spi_mode | SpiAddr10 u32 spi_mode | SpiAddr11 u32 spi_mode | SpiAddr12 u32 spi_mode
  | SpiAddr13 u32 spi_mode | SpiAddr14 u32 spi_mode | SpiAddr15 u32 spi_mode | SpiAddr16 u32 spi_mode | SpiAddr17 u32 spi_mode | SpiAddr18 u32 spi_mode
  | SpiAddr19 u32 spi_mode | SpiAddr20 u32 spi_mode | SpiAddr21 u32 spi_mode | SpiAddr22 u32 spi_mode | SpiAddr23 u32 spi_mode | SpiAddr24 u32 spi_mode
  | SpiAddr25 u32 spi_mode | SpiAddr26 u32 spi_mode | SpiAddr27 u32 spi_mode | SpiAddr28 u32 spi_mode | SpiAddr29 u32 spi_mode | SpiAddr30 u32 spi_mode
  | SpiAddr31 u32 spi_mode | SpiAddr32 u32 spi_mode

fun addr_width :: "spi_address \<Rightarrow> nat" where
  "addr_width SpiAddrNone = 0"
| "addr_width (SpiAddr1 v m) = 1" | "addr_width (SpiAddr2 v m) = 2" | "addr_width (SpiAddr3 v m) = 3"
| "addr_width (SpiAddr4 v m) = 4" | "addr_width (SpiAddr5 v m) = 5" | "addr_width (SpiAddr6 v m) = 6"
| "addr_width (SpiAddr7 v m) = 7" | "addr_width (SpiAddr8 v m) = 8" | "addr_width (SpiAddr9 v m) = 9"
| "addr_width (SpiAddr10 v m) = 10" | "addr_width (SpiAddr11 v m) = 11" | "addr_width (SpiAddr12 v m) = 12"
| "addr_width (SpiAddr13 v m) = 13" | "addr_width (SpiAddr14 v m) = 14" | "addr_width (SpiAddr15 v m) = 15"
| "addr_width (SpiAddr16 v m) = 16" | "addr_width (SpiAddr17 v m) = 17" | "addr_width (SpiAddr18 v m) = 18"
| "addr_width (SpiAddr19 v m) = 19" | "addr_width (SpiAddr20 v m) = 20" | "addr_width (SpiAddr21 v m) = 21"
| "addr_width (SpiAddr22 v m) = 22" | "addr_width (SpiAddr23 v m) = 23" | "addr_width (SpiAddr24 v m) = 24"
| "addr_width (SpiAddr25 v m) = 25" | "addr_width (SpiAddr26 v m) = 26" | "addr_width (SpiAddr27 v m) = 27"
| "addr_width (SpiAddr28 v m) = 28" | "addr_width (SpiAddr29 v m) = 29" | "addr_width (SpiAddr30 v m) = 30"
| "addr_width (SpiAddr31 v m) = 31" | "addr_width (SpiAddr32 v m) = 32"

fun addr_value_of :: "spi_address \<Rightarrow> u32" where
  "addr_value_of SpiAddrNone = 0"
| "addr_value_of (SpiAddr1 v m) = v" | "addr_value_of (SpiAddr2 v m) = v" | "addr_value_of (SpiAddr3 v m) = v"
| "addr_value_of (SpiAddr4 v m) = v" | "addr_value_of (SpiAddr5 v m) = v" | "addr_value_of (SpiAddr6 v m) = v"
| "addr_value_of (SpiAddr7 v m) = v" | "addr_value_of (SpiAddr8 v m) = v" | "addr_value_of (SpiAddr9 v m) = v"
| "addr_value_of (SpiAddr10 v m) = v" | "addr_value_of (SpiAddr11 v m) = v" | "addr_value_of (SpiAddr12 v m) = v"
| "addr_value_of (SpiAddr13 v m) = v" | "addr_value_of (SpiAddr14 v m) = v" | "addr_value_of (SpiAddr15 v m) = v"
| "addr_value_of (SpiAddr16 v m) = v" | "addr_value_of (SpiAddr17 v m) = v" | "addr_value_of (SpiAddr18 v m) = v"
| "addr_value_of (SpiAddr19 v m) = v" | "addr_value_of (SpiAddr20 v m) = v" | "addr_value_of (SpiAddr21 v m) = v"
| "addr_value_of (SpiAddr22 v m) = v" | "addr_value_of (SpiAddr23 v m) = v" | "addr_value_of (SpiAddr24 v m) = v"
| "addr_value_of (SpiAddr25 v m) = v" | "addr_value_of (SpiAddr26 v m) = v" | "addr_value_of (SpiAddr27 v m) = v"
| "addr_value_of (SpiAddr28 v m) = v" | "addr_value_of (SpiAddr29 v m) = v" | "addr_value_of (SpiAddr30 v m) = v"
| "addr_value_of (SpiAddr31 v m) = v" | "addr_value_of (SpiAddr32 v m) = v"

fun addr_mode :: "spi_address \<Rightarrow> spi_mode" where
  "addr_mode SpiAddrNone = SpiTwoLines"
| "addr_mode (SpiAddr1 v m) = m" | "addr_mode (SpiAddr2 v m) = m" | "addr_mode (SpiAddr3 v m) = m"
| "addr_mode (SpiAddr4 v m) = m" | "addr_mode (SpiAddr5 v m) = m" | "addr_mode (SpiAddr6 v m) = m"
| "addr_mode (SpiAddr7 v m) = m" | "addr_mode (SpiAddr8 v m) = m" | "addr_mode (SpiAddr9 v m) = m"
| "addr_mode (SpiAddr10 v m) = m" | "addr_mode (SpiAddr11 v m) = m" | "addr_mode (SpiAddr12 v m) = m"
| "addr_mode (SpiAddr13 v m) = m" | "addr_mode (SpiAddr14 v m) = m" | "addr_mode (SpiAddr15 v m) = m"
| "addr_mode (SpiAddr16 v m) = m" | "addr_mode (SpiAddr17 v m) = m" | "addr_mode (SpiAddr18 v m) = m"
| "addr_mode (SpiAddr19 v m) = m" | "addr_mode (SpiAddr20 v m) = m" | "addr_mode (SpiAddr21 v m) = m"
| "addr_mode (SpiAddr22 v m) = m" | "addr_mode (SpiAddr23 v m) = m" | "addr_mode (SpiAddr24 v m) = m"
| "addr_mode (SpiAddr25 v m) = m" | "addr_mode (SpiAddr26 v m) = m" | "addr_mode (SpiAddr27 v m) = m"
| "addr_mode (SpiAddr28 v m) = m" | "addr_mode (SpiAddr29 v m) = m" | "addr_mode (SpiAddr30 v m) = m"
| "addr_mode (SpiAddr31 v m) = m" | "addr_mode (SpiAddr32 v m) = m"

section \<open>Registers\<close>

record spi_regs =
  fcmd_dual :: bool
  fcmd_quad :: bool
  faddr_dual :: bool
  faddr_quad :: bool
  fread_dual :: bool
  fread_quad :: bool
  fwrite_dual :: bool
  fwrite_quad :: bool
  usr_highparts :: "bool \<times> bool"
  usr_sio :: bool
  usr_doutdin :: bool
  usr_miso :: bool
  usr_mosi :: bool
  usr_cs_hold :: bool
  usr_dummy_idle :: bool
  usr_dummy :: bool
  usr_addr :: bool
  usr_command :: bool
  clk_gate :: "bool \<times> bool \<times> bool"
  misc_bits :: u32
  slave_bits :: u32
  addr_bitlen :: u8
  dummy_cyclelen :: u8
  command_bitlen :: u8
  command_value :: u16
  addr_value :: u32
  data_bitlen :: u32
  dma_ena :: "bool \<times> bool"

definition init_spi_data_mode :: "spi_mode \<Rightarrow> spi_mode \<Rightarrow> spi_mode \<Rightarrow> spi_regs \<Rightarrow> spi_regs" where
  "init_spi_data_mode cmd_m addr_m data_m r =
     r\<lparr>fcmd_dual := cmd_m = SpiDual, fcmd_quad := cmd_m = SpiQuad,
       faddr_dual := addr_m = SpiDual, faddr_quad := addr_m = SpiQuad,
       fread_dual := data_m = SpiDual, fread_quad := data_m = SpiQuad,
       fwrite_dual := data_m = SpiDual, fwrite_quad := data_m = SpiQuad\<rparr>"

definition set_up_common_phases :: "spi_command \<Rightarrow> spi_address \<Rightarrow> u8 \<Rightarrow> spi_regs \<Rightarrow> spi_regs" where
  "set_up_common_phases cmd address dummy r =
     (let r = (if cmd \<noteq> SpiCmdNone
               then r\<lparr>command_bitlen := of_nat (cmd_width cmd - 1), command_value := cmd_value cmd\<rparr> else r);
          r = (if address \<noteq> SpiAddrNone
               then r\<lparr>addr_bitlen := of_nat (addr_width address - 1),
                      addr_value := push_bit (32 - addr_width address) (addr_value_of address)\<rparr> else r)
      in if 0 < dummy then r\<lparr>dummy_cyclelen := dummy - 1\<rparr> else r)"

definition setup_half_duplex ::
  "bool \<Rightarrow> spi_command \<Rightarrow> spi_address \<Rightarrow> bool \<Rightarrow> u8 \<Rightarrow> bool \<Rightarrow> spi_mode \<Rightarrow> spi_regs \<Rightarrow> spi_regs" where
  "setup_half_duplex is_write cmd address dummy_idle dummy no_mosi_miso data_m r =
     (let r = init_spi_data_mode (cmd_mode cmd) (addr_mode address) data_m r;
          r = r\<lparr>usr_highparts := (False, False), usr_sio := data_m = SpiSingle, usr_doutdin := False,
                usr_miso := \<not> is_write \<and> \<not> no_mosi_miso, usr_mosi := is_write \<and> \<not> no_mosi_miso,
                usr_cs_hold := True, usr_dummy_idle := dummy_idle, usr_dummy := dummy \<noteq> 0,
                usr_addr := address \<noteq> SpiAddrNone, usr_command := cmd \<noteq> SpiCmdNone,
                clk_gate := (True, True, True), misc_bits := 0, slave_bits := 0\<rparr>
      in set_up_common_phases cmd address dummy r)"

text \<open>\<open>configure_datalen\<close>: \<open>None\<close> is the overflow of the length in bits.\<close>

definition bits_of_bytes :: "nat \<Rightarrow> u32 option" where
  "bits_of_bytes n = (let x = (of_nat n :: u32) in if unat x * 8 < 2 ^ 32 then Some (sat_sub (x * 8) 1) else None)"

definition configure_datalen :: "nat \<Rightarrow> nat \<Rightarrow> spi_regs \<Rightarrow> spi_regs option" where
  "configure_datalen rx_len tx_len r =
     (case (bits_of_bytes rx_len, bits_of_bytes tx_len) of
        (Some rx, Some tx) \<Rightarrow> Some (r\<lparr>data_bitlen := max rx tx\<rparr>)
      | _ \<Rightarrow> None)"

section \<open>On the wire\<close>

text \<open>The phases the controller sends, as the reference manual has them, high bits first.\<close>

datatype spi_phase = CommandPhase spi_mode nat u16 | AddressPhase spi_mode nat u32
  | DummyPhase nat | DataPhase spi_mode "u8 list"

definition lines_of :: "bool \<Rightarrow> bool \<Rightarrow> bool \<Rightarrow> spi_mode" where
  "lines_of dual quad sio = (if quad then SpiQuad else if dual then SpiDual else if sio then SpiSingle else SpiTwoLines)"

definition phases :: "spi_regs \<Rightarrow> u8 list \<Rightarrow> spi_phase list" where
  "phases r buf =
     (if usr_command r then let n = unat (command_bitlen r) + 1 in
        [CommandPhase (lines_of (fcmd_dual r) (fcmd_quad r) True) n (take_bit n (command_value r))] else []) @
     (if usr_addr r then let n = unat (addr_bitlen r) + 1 in
        [AddressPhase (lines_of (faddr_dual r) (faddr_quad r) True) n (drop_bit (32 - n) (addr_value r))] else []) @
     (if usr_dummy r then [DummyPhase (unat (dummy_cyclelen r) + 1)] else []) @
     (if usr_mosi r then [DataPhase (lines_of (fwrite_dual r) (fwrite_quad r) (usr_sio r))
        (take ((unat (data_bitlen r) + 1) div 8) buf)] else [])"

section \<open>Transfers\<close>

datatype spi_dma_error = DmaOverflow | MaxDmaTransferSizeExceeded | DmaError nat

record spi_dev =
  sp_regs :: spi_regs
  sp_tx_buf :: "u8 list"
  sp_in_progress :: "bool \<times> bool"
  sp_dma :: "nat \<Rightarrow> nat option"
  sp_writes :: nat
  sp_wire :: "spi_phase list list"

definition max_dma_size :: nat where "max_dma_size = 32736"

text \<open>\<open>start_transfer_dma\<close> of the DMA driver, and the \<open>start_operation\<close> at its end.\<close>

definition start_operation :: "spi_dev \<Rightarrow> spi_dev" where
  "start_operation s = s\<lparr>sp_wire := sp_wire s @ [phases (sp_regs s) (sp_tx_buf s)]\<rparr>"

definition dma_start_transfer :: "nat \<Rightarrow> nat \<Rightarrow> spi_dev \<Rightarrow> (spi_dev \<times> (spi_dma_error + unit)) option" where
  "dma_start_transfer rx_len tx_len s =
     (case configure_datalen rx_len tx_len (sp_regs s) of
        None \<Rightarrow> None
      | Some r \<Rightarrow>
          let s = s\<lparr>sp_regs := r\<lparr>usr_miso := 0 < rx_len, usr_mosi := 0 < tx_len, dma_ena := (True, True)\<rparr>\<rparr> in
          (case (if 0 < tx_len then sp_dma s (sp_writes s) else None) of
             Some e \<Rightarrow> Some (s, Inl (DmaError e))
           | None \<Rightarrow> Some (start_operation s, Inr ())))"

definition start_transfer_dma :: "nat \<Rightarrow> nat \<Rightarrow> spi_dev \<Rightarrow> (spi_dev \<times> (spi_dma_error + unit)) option" where
  "start_transfer_dma bytes_to_read bytes_to_write s =
     (if max_dma_size < bytes_to_read \<or> max_dma_size < bytes_to_write then Some (s, Inl MaxDmaTransferSizeExceeded)
      else dma_start_transfer bytes_to_read bytes_to_write (s\<lparr>sp_in_progress := (0 < bytes_to_read, 0 < bytes_to_write)\<rparr>))"

definition start_half_duplex_write ::
  "spi_mode \<Rightarrow> spi_command \<Rightarrow> spi_address \<Rightarrow> u8 \<Rightarrow> nat \<Rightarrow> spi_dev \<Rightarrow> (spi_dev \<times> (spi_dma_error + unit)) option" where
  "start_half_duplex_write data_m cmd address dummy bytes_to_write s =
     start_transfer_dma 0 bytes_to_write
       (s\<lparr>sp_regs := setup_half_duplex True cmd address False dummy (bytes_to_write = 0) data_m (sp_regs s)\<rparr>)"

text \<open>\<open>SpiDmaBus::half_duplex_write\<close>; the writes that get past the capacity are numbered.\<close>

definition dma_half_duplex_write ::
  "spi_mode \<Rightarrow> spi_command \<Rightarrow> spi_address \<Rightarrow> u8 \<Rightarrow> u8 list \<Rightarrow> spi_dev \<Rightarrow> (spi_dev \<times> (spi_dma_error + unit)) option" where
  "dma_half_duplex_write data_m cmd address dummy buffer s =
     (if length (sp_tx_buf s) < length buffer then Some (s, Inl DmaOverflow)
      else
        let s = s\<lparr>sp_in_progress := (False, False), sp_tx_buf := buffer @ drop (length buffer) (sp_tx_buf s)\<rparr> in
        map_option (\<lambda>(s, r). (s\<lparr>sp_in_progress := (case r of Inl _ \<Rightarrow> sp_in_progress s | Inr _ \<Rightarrow> (False, False)),
                                 sp_writes := sp_writes s + 1\<rparr>, r))
          (start_half_duplex_write data_m cmd address dummy (length buffer) s))"

section \<open>What a write puts on the wire\<close>

text \<open>The lines of a command or address, and of the data; no register selects eight lines.\<close>

fun narrow_lines :: "spi_mode \<Rightarrow> spi_mode" where
  "narrow_lines SpiQuad = SpiQuad"
| "narrow_lines SpiDual = SpiDual"
| "narrow_lines _ = SpiSingle"

fun data_lines :: "spi_mode \<Rightarrow> spi_mode" where
  "data_lines SpiOctal = SpiTwoLines"
| "data_lines m = m"

definition spi_frame :: "spi_mode \<Rightarrow> spi_command \<Rightarrow> spi_address \<Rightarrow> u8 \<Rightarrow> u8 list \<Rightarrow> spi_phase list" where
  "spi_frame m cmd address dummy data =
     (if cmd \<noteq> SpiCmdNone then [CommandPhase (narrow_lines (cmd_mode cmd)) (cmd_width cmd) (take_bit (cmd_width cmd) (cmd_value cmd))] else []) @
     (if address \<noteq> SpiAddrNone
      then [AddressPhase (narrow_lines (addr_mode address)) (addr_width address) (take_bit (addr_width address) (addr_value_of address))] else []) @
     (if dummy \<noteq> 0 then [DummyPhase (unat dummy)] else []) @
     (if data \<noteq> [] then [DataPhase (data_lines m) data] else [])"

lemma cmd_width_bounds: "cmd \<noteq> SpiCmdNone \<Longrightarrow> 1 \<le> cmd_width cmd \<and> cmd_width cmd \<le> 16"
  by (cases cmd) simp_all

lemma addr_width_bounds: "address \<noteq> SpiAddrNone \<Longrightarrow> 1 \<le> addr_width address \<and> addr_width address \<le> 32"
  by (cases address) simp_all

lemma bitlen_of_width: "1 \<le> n \<Longrightarrow> n \<le> 32 \<Longrightarrow> unat (of_nat (n - 1) :: u8) + 1 = n"
  by (subst unat_of_nat_eq) simp_all

lemma drop_push: "n \<le> 32 \<Longrightarrow> drop_bit (32 - n) (push_bit (32 - n) v) = take_bit n v" for v :: u32
  by (rule bit_word_eqI) (auto simp: bit_simps)

lemma lines_of_narrow: "lines_of (m = SpiDual) (m = SpiQuad) True = narrow_lines m"
  by (cases m) (simp_all add: lines_of_def)

lemma lines_of_data: "lines_of (m = SpiDual) (m = SpiQuad) (m = SpiSingle) = data_lines m"
  by (cases m) (simp_all add: lines_of_def)

lemma bits_of_bytes_ok:
  assumes "n \<le> max_dma_size"
  shows "\<exists>x. bits_of_bytes n = Some x \<and> unat x = n * 8 - 1"
proof -
  have u: "unat (of_nat n :: u32) = n" using assms by (intro unat_of_nat_eq) (simp add: max_dma_size_def)
  moreover have "unat (of_nat n * 8 :: u32) = n * 8"
    using assms u by (simp add: unat_word_ariths max_dma_size_def)
  ultimately show ?thesis using assms by (simp add: bits_of_bytes_def Let_def unat_sat_sub max_dma_size_def)
qed

lemma configured_datalen:
  assumes "n \<le> max_dma_size"
  shows "\<exists>x. configure_datalen 0 n r = Some (r\<lparr>data_bitlen := x\<rparr>) \<and> unat x = n * 8 - 1"
proof -
  obtain x where "bits_of_bytes n = Some x" "unat x = n * 8 - 1" using bits_of_bytes_ok [OF assms] by blast
  moreover have "bits_of_bytes 0 = Some 0" by (simp add: bits_of_bytes_def sat_sub_def)
  ultimately show ?thesis by (intro exI [where x = x]) (simp add: configure_datalen_def max_def)
qed

text \<open>The registers after the setup describe the frame, whatever they held before.\<close>

lemma setup_phases:
  assumes "unat x = length data * 8 - 1"
    and r_def: "r = (setup_half_duplex True cmd address False dummy (data = []) m old)\<lparr>data_bitlen := x,
      usr_miso := False, usr_mosi := data \<noteq> [], dma_ena := e\<rparr>"
  shows "phases r (data @ rest) = spi_frame m cmd address dummy data"
proof -
  have f: "usr_command r = (cmd \<noteq> SpiCmdNone)" "usr_addr r = (address \<noteq> SpiAddrNone)" "usr_dummy r = (dummy \<noteq> 0)"
    "usr_mosi r = (data \<noteq> [])" "data_bitlen r = x"
    "fcmd_dual r = (cmd_mode cmd = SpiDual)" "fcmd_quad r = (cmd_mode cmd = SpiQuad)"
    "faddr_dual r = (addr_mode address = SpiDual)" "faddr_quad r = (addr_mode address = SpiQuad)"
    "fwrite_dual r = (m = SpiDual)" "fwrite_quad r = (m = SpiQuad)" "usr_sio r = (m = SpiSingle)"
    by (simp_all add: r_def setup_half_duplex_def set_up_common_phases_def init_spi_data_mode_def Let_def)
  have c: "unat (command_bitlen r) + 1 = cmd_width cmd" "command_value r = cmd_value cmd" if "cmd \<noteq> SpiCmdNone"
    using that cmd_width_bounds [OF that] bitlen_of_width [of "cmd_width cmd"]
    by (simp_all add: r_def setup_half_duplex_def set_up_common_phases_def Let_def)
  have a: "unat (addr_bitlen r) + 1 = addr_width address"
    "drop_bit (32 - addr_width address) (addr_value r) = take_bit (addr_width address) (addr_value_of address)" if "address \<noteq> SpiAddrNone"
    using that addr_width_bounds [OF that] bitlen_of_width [of "addr_width address"] drop_push [of "addr_width address" "addr_value_of address"]
    by (simp_all add: r_def setup_half_duplex_def set_up_common_phases_def Let_def)
  have d: "unat (dummy_cyclelen r) + 1 = unat dummy" if "dummy \<noteq> 0"
    using that word_gt_0 [of dummy]
    by (simp add: r_def setup_half_duplex_def set_up_common_phases_def Let_def unat_sub word_le_nat_alt unat_gt_0 Suc_le_eq)
  have n: "(unat x + 1) div 8 = length data" if "data \<noteq> []"
    using that assms(1) by (cases data) simp_all
  show ?thesis
    unfolding phases_def spi_frame_def Let_def f lines_of_narrow lines_of_data
    by (intro arg_cong2 [where f = "(@)"] if_cong refl) (simp_all add: c a d n del: add.commute One_nat_def)
qed

text \<open>A whole write: the frame on the wire, or the error of the DMA engine and nothing.\<close>

lemma write_on_wire:
  assumes "length data \<le> length (sp_tx_buf s)" "length (sp_tx_buf s) \<le> max_dma_size"
  shows "\<exists>s'. dma_half_duplex_write m cmd address dummy data s =
      Some (s', case (if data = [] then None else sp_dma s (sp_writes s)) of None \<Rightarrow> Inr () | Some e \<Rightarrow> Inl (DmaError e)) \<and>
    sp_wire s' = sp_wire s @ (if data \<noteq> [] \<and> sp_dma s (sp_writes s) \<noteq> None then [] else [spi_frame m cmd address dummy data]) \<and>
    length (sp_tx_buf s') = length (sp_tx_buf s) \<and> sp_dma s' = sp_dma s \<and> sp_writes s' = sp_writes s + 1"
proof -
  let ?r = "setup_half_duplex True cmd address False dummy (data = []) m (sp_regs s)"
  have len: "length data \<le> max_dma_size" using assms by simp
  obtain x where x: "configure_datalen 0 (length data) ?r = Some (?r\<lparr>data_bitlen := x\<rparr>)" "unat x = length data * 8 - 1"
    using configured_datalen [OF len] by blast
  note ph = setup_phases [where cmd = cmd and address = address and dummy = dummy and m = m and old = "sp_regs s"
      and e = "(True, True)" and rest = "drop (length data) (sp_tx_buf s)", OF x(2) refl]
  show ?thesis
    using assms(1) len x(1) ph
    by (auto simp: dma_half_duplex_write_def start_half_duplex_write_def start_transfer_dma_def dma_start_transfer_def
        start_operation_def Let_def not_less [symmetric] split: option.splits)
qed

section \<open>The display's transfers\<close>

fun spi_mode_of :: "data_mode \<Rightarrow> spi_mode" where
  "spi_mode_of Single = SpiSingle"
| "spi_mode_of Quad = SpiQuad"

text \<open>The call the display driver makes: an 8-bit command and a 24-bit address, both on one line.\<close>

definition display_write :: "data_mode \<Rightarrow> u16 \<Rightarrow> u32 \<Rightarrow> u8 list \<Rightarrow> spi_dev \<Rightarrow> (spi_dev \<times> (spi_dma_error + unit)) option" where
  "display_write mode cmd addr data s =
     dma_half_duplex_write (spi_mode_of mode) (SpiCmd8 cmd SpiSingle) (SpiAddr24 addr SpiSingle) 0 data s"

definition txn_frame :: "txn \<Rightarrow> spi_phase list" where
  "txn_frame t = [CommandPhase SpiSingle 8 (take_bit 8 (tx_cmd t)), AddressPhase SpiSingle 24 (take_bit 24 (tx_addr t))] @
     (if tx_data t \<noteq> [] then [DataPhase (spi_mode_of (tx_mode t)) (tx_data t)] else [])"

fun frames_of :: "bus_event list \<Rightarrow> spi_phase list list" where
  "frames_of [] = []"
| "frames_of (Write t # es) = txn_frame t # frames_of es"
| "frames_of (_ # es) = frames_of es"

lemma frames_of_append [simp]: "frames_of (xs @ ys) = frames_of xs @ frames_of ys"
  by (induction xs rule: frames_of.induct) simp_all

fun dma_error :: "spi_error \<Rightarrow> spi_dma_error" where
  "dma_error Overflow = DmaOverflow"
| "dma_error (TransferError e) = DmaError e"

text \<open>
  The bus of \<open>Display\<close> stands for the device: the same capacity and outcomes (a transfer without data
  uses no DMA), and each transfer in its log is the frame on the wire.
\<close>

definition spi_sim :: "spi_bus \<Rightarrow> spi_dev \<Rightarrow> bool" where
  "spi_sim b s \<longleftrightarrow> length (sp_tx_buf s) = tx_capacity b \<and> tx_capacity b \<le> max_dma_size \<and>
     sp_dma s = outcome b \<and> sp_writes s = started b \<and> sp_wire s = frames_of (bus_log b)"

lemma display_frame:
  "spi_frame (spi_mode_of mode) (SpiCmd8 cmd SpiSingle) (SpiAddr24 addr SpiSingle) 0 data =
     txn_frame \<lparr>tx_mode = mode, tx_cmd = cmd, tx_addr = addr, tx_data = data\<rparr>"
  by (cases mode) (simp_all add: spi_frame_def txn_frame_def)

lemma display_write_refines:
  assumes "spi_sim b s" "data = [] \<longrightarrow> outcome b (started b) = None"
  shows "\<exists>s'. display_write mode cmd addr data s =
      Some (s', map_sum dma_error id (snd (half_duplex_write b mode cmd addr data))) \<and>
    spi_sim (fst (half_duplex_write b mode cmd addr data)) s'"
proof (cases "length data \<le> tx_capacity b")
  case True
  then have "length data \<le> length (sp_tx_buf s)" "length (sp_tx_buf s) \<le> max_dma_size" using assms(1) by (simp_all add: spi_sim_def)
  from write_on_wire [OF this, of "spi_mode_of mode" "SpiCmd8 cmd SpiSingle" "SpiAddr24 addr SpiSingle" 0] show ?thesis
    using assms True unfolding display_frame
    by (auto simp: display_write_def half_duplex_write_def spi_sim_def not_less [symmetric] split: option.splits if_splits)
next
  case False
  then show ?thesis
    using assms(1) by (simp add: display_write_def dma_half_duplex_write_def half_duplex_write_def spi_sim_def)
qed

section \<open>Properties\<close>

text \<open>A run of transfers, each whatever became of the ones before it.\<close>

fun bus_writes :: "txn list \<Rightarrow> spi_bus \<Rightarrow> spi_bus \<times> (spi_dma_error + unit) list" where
  "bus_writes [] b = (b, [])"
| "bus_writes (t # ts) b =
     (let (b, r) = half_duplex_write b (tx_mode t) (tx_cmd t) (tx_addr t) (tx_data t);
          (b, rs) = bus_writes ts b
      in (b, map_sum dma_error id r # rs))"

fun spi_writes :: "txn list \<Rightarrow> spi_dev \<Rightarrow> (spi_dev \<times> (spi_dma_error + unit) list) option" where
  "spi_writes [] s = Some (s, [])"
| "spi_writes (t # ts) s =
     (case display_write (tx_mode t) (tx_cmd t) (tx_addr t) (tx_data t) s of
        None \<Rightarrow> None
      | Some (s, r) \<Rightarrow> map_option (\<lambda>(s, rs). (s, r # rs)) (spi_writes ts s))"

lemma bus_write_outcome: "outcome (fst (half_duplex_write b m c a d)) = outcome b"
  by (simp add: half_duplex_write_def split: option.split)

lemma spi_writes_refine:
  assumes "spi_sim b s" "list_all (\<lambda>t. tx_data t \<noteq> []) ts \<or> (\<forall>k. outcome b k = None)"
  shows "\<exists>s'. spi_writes ts s = Some (s', snd (bus_writes ts b)) \<and> spi_sim (fst (bus_writes ts b)) s'"
  using assms
proof (induction ts arbitrary: b s)
  case (Cons t ts)
  obtain b1 r where b1: "half_duplex_write b (tx_mode t) (tx_cmd t) (tx_addr t) (tx_data t) = (b1, r)" by fastforce
  have "tx_data t = [] \<longrightarrow> outcome b (started b) = None" using Cons.prems(2) by auto
  from display_write_refines [OF Cons.prems(1) this, of "tx_mode t" "tx_cmd t" "tx_addr t"] b1
  obtain s1 where s1: "display_write (tx_mode t) (tx_cmd t) (tx_addr t) (tx_data t) s = Some (s1, map_sum dma_error id r)"
      "spi_sim b1 s1"
    by auto
  have "outcome b1 = outcome b" using bus_write_outcome [of b] b1 by (metis fst_conv)
  then have "\<exists>s'. spi_writes ts s1 = Some (s', snd (bus_writes ts b1)) \<and> spi_sim (fst (bus_writes ts b1)) s'"
    using Cons.prems(2) by (intro Cons.IH [OF s1(2)]) auto
  then show ?case using s1(1) b1 by (auto simp: split_def Let_def)
qed simp

text \<open>
  C14. The display's bus on the SPI registers, with a transmit buffer of at most 32736 bytes: any run of
  transfers, if none of them is without data or the DMA engine refuses none (a transfer without data uses no
  DMA and so cannot be refused), goes through without a panic and with the results the display driver's bus
  gives, and the registers at the start of each operation describe exactly the transfer the driver asked for
  (the command on eight bits and the address on 24 on one line, the data on one or four, of its exact
  length), whatever the registers held before; a transfer over the buffer is refused and one the DMA engine
  refuses puts no operation on the wire.
\<close>

theorem spi_transfers_on_wire:
  assumes "spi_sim b s" "list_all (\<lambda>t. tx_data t \<noteq> []) ts \<or> (\<forall>k. outcome b k = None)"
  shows "\<exists>s'. spi_writes ts s = Some (s', snd (bus_writes ts b)) \<and> spi_sim (fst (bus_writes ts b)) s' \<and>
    sp_wire s' = frames_of (bus_log (fst (bus_writes ts b)))"
  using spi_writes_refine [OF assms] by (auto simp: spi_sim_def)

definition sim_spi :: spi_dev where
  "sim_spi = \<lparr>sp_regs = \<lparr>fcmd_dual = True, fcmd_quad = True, faddr_dual = True, faddr_quad = True, fread_dual = True,
      fread_quad = True, fwrite_dual = True, fwrite_quad = True, usr_highparts = (True, True), usr_sio = False, usr_doutdin = True,
      usr_miso = True, usr_mosi = True, usr_cs_hold = False, usr_dummy_idle = True, usr_dummy = True, usr_addr = False,
      usr_command = False, clk_gate = (False, False, False), misc_bits = 7, slave_bits = 7, addr_bitlen = 9, dummy_cyclelen = 9,
      command_bitlen = 9, command_value = 9, addr_value = 9, data_bitlen = 9, dma_ena = (False, False)\<rparr>,
     sp_tx_buf = replicate 32000 0, sp_in_progress = (False, False), sp_dma = (\<lambda>_. None), sp_writes = 0, sp_wire = []\<rparr>"

theorem spi_transfers_on_wire_witness:
  "\<exists>s'. spi_writes [\<lparr>tx_mode = Single, tx_cmd = 2, tx_addr = 0x2C00, tx_data = []\<rparr>,
      \<lparr>tx_mode = Quad, tx_cmd = 0x32, tx_addr = 0x2C00, tx_data = [1, 2, 3]\<rparr>] sim_spi = Some (s', [Inr (), Inr ()]) \<and>
    sp_wire s' = [[CommandPhase SpiSingle 8 2, AddressPhase SpiSingle 24 0x2C00],
      [CommandPhase SpiSingle 8 0x32, AddressPhase SpiSingle 24 0x2C00, DataPhase SpiQuad [1, 2, 3]]]"
proof -
  let ?b = "\<lparr>tx_capacity = 32000, outcome = (\<lambda>_. None), started = 0, bus_log = []\<rparr>"
  have sim: "spi_sim ?b sim_spi" by (simp add: spi_sim_def sim_spi_def max_dma_size_def)
  show ?thesis
    using spi_transfers_on_wire [where ts = "[\<lparr>tx_mode = Single, tx_cmd = 2, tx_addr = 0x2C00, tx_data = []\<rparr>,
      \<lparr>tx_mode = Quad, tx_cmd = 0x32, tx_addr = 0x2C00, tx_data = [1, 2, 3]\<rparr>]", OF sim]
    by (auto simp: half_duplex_write_def txn_frame_def take_bit_eq_mod)
qed

end
