(* ===== verification/Spi_Clock.thy ===== *)
theory Spi_Clock
  imports Spi_Master
begin

unbundle bit_operations_syntax

text \<open>
  The configuration of the SPI controller (\<open>esp-hal-patched/src/spi/master.rs\<close>): the search for the clock
  dividers, the check of the frequency and \<open>apply_config\<close>.  Frequencies are natural numbers below
  \<open>2 ^ 31\<close>, where the casts of the code change nothing; \<open>None\<close> is a panic.  Which bit of \<open>misc\<close> is the idle edge
  of the clock is a parameter.
\<close>

section \<open>The dividers\<close>

text \<open>One round of the search: the prescaler for \<open>n\<close> and its error against the best so far.\<close>

definition pre_for :: "nat \<Rightarrow> nat \<Rightarrow> nat \<Rightarrow> nat" where
  "pre_for source_freq target n =
     (let pre = (source_freq div n + target div 2) div target;
          pre = (if pre \<le> 0 then 1 else pre)
      in if 16 < pre then 16 else pre)"

definition err_for :: "nat \<Rightarrow> nat \<Rightarrow> nat \<Rightarrow> int" where
  "err_for source_freq target n = \<bar>int (source_freq div (pre_for source_freq target n * n)) - int target\<bar>"

definition clock_round :: "nat \<Rightarrow> nat \<Rightarrow> nat \<Rightarrow> int \<times> int \<times> int \<Rightarrow> int \<times> int \<times> int" where
  "clock_round source_freq target n best =
     (case best of (bestn, bestpre, besterr) \<Rightarrow>
        if bestn = -1 \<or> err_for source_freq target n \<le> besterr
        then (int n, int (pre_for source_freq target n), err_for source_freq target n) else best)"

definition recalculate :: "nat \<Rightarrow> nat \<Rightarrow> u32 option" where
  "recalculate source_freq frequency =
     (if (source_freq div 4) * 3 < frequency then Some (push_bit 31 1)
      else if frequency = 0 then None
      else
        (case fold (clock_round source_freq frequency) [2..<65] (-1, -1, 0) of
           (n, pre, _) \<Rightarrow>
             let l = n;
                 h = (128 * n + 127) div 256;
                 h = (if h \<le> 0 then 1 else h)
             in Some ((of_int l - 1) OR push_bit 6 (of_int h - 1) OR push_bit 12 (of_int n - 1) OR push_bit 18 (of_int pre - 1))))"

datatype spi_config_error = SpiFrequencyOutOfRange

definition validate_frequency :: "nat \<Rightarrow> nat \<Rightarrow> spi_config_error + unit" where
  "validate_frequency source_freq frequency =
     (let min_divider = 1; max_divider = 16 * 64 in
      if frequency < source_freq div max_divider \<or> source_freq div min_divider < frequency
      then Inl SpiFrequencyOutOfRange else Inr ())"

section \<open>Configuration\<close>

datatype clock_mode = Mode0 | Mode1 | Mode2 | Mode3

datatype bit_order = MsbFirst | LsbFirst

record spi_config =
  cf_reg :: u32
  cf_frequency :: nat
  cf_mode :: clock_mode
  cf_read_order :: bit_order
  cf_write_order :: bit_order

definition default_spi_config :: "nat \<Rightarrow> spi_config option" where
  "default_spi_config source_freq = map_option (\<lambda>reg. \<lparr>cf_reg = reg, cf_frequency = 1000000, cf_mode = Mode0,
     cf_read_order = MsbFirst, cf_write_order = MsbFirst\<rparr>) (recalculate source_freq 1000000)"

definition with_frequency :: "nat \<Rightarrow> nat \<Rightarrow> spi_config \<Rightarrow> spi_config option" where
  "with_frequency source_freq frequency c =
     map_option (\<lambda>reg. c\<lparr>cf_frequency := frequency, cf_reg := reg\<rparr>) (recalculate source_freq frequency)"

record spi_config_regs =
  cr_spi :: spi_regs
  cr_clock :: u32
  cr_ck_out_edge :: bool
  cr_bit_orders :: "bool \<times> bool"

definition enable_clocks :: "bool \<Rightarrow> spi_config_regs \<Rightarrow> spi_config_regs" where
  "enable_clocks enable r = r\<lparr>cr_spi := (cr_spi r)\<lparr>clk_gate := (enable, enable, True)\<rparr>\<rparr>"

definition ch_bus_freq :: "spi_config \<Rightarrow> spi_config_regs \<Rightarrow> spi_config_regs" where
  "ch_bus_freq c r = enable_clocks True ((enable_clocks False r)\<lparr>cr_clock := cf_reg c\<rparr>)"

definition set_bit_order :: "bit_order \<Rightarrow> bit_order \<Rightarrow> spi_config_regs \<Rightarrow> spi_config_regs" where
  "set_bit_order read_order write_order r = r\<lparr>cr_bit_orders := (read_order = LsbFirst, write_order = LsbFirst)\<rparr>"

definition set_clock_mode :: "nat \<Rightarrow> clock_mode \<Rightarrow> spi_config_regs \<Rightarrow> spi_config_regs" where
  "set_clock_mode idle_edge m r =
     r\<lparr>cr_spi := (cr_spi r)\<lparr>misc_bits := (if m \<in> {Mode2, Mode3} then set_bit idle_edge (misc_bits (cr_spi r))
                                     else unset_bit idle_edge (misc_bits (cr_spi r)))\<rparr>,
       cr_ck_out_edge := m \<in> {Mode1, Mode2}\<rparr>"

definition spi_apply_config :: "nat \<Rightarrow> nat \<Rightarrow> spi_config \<Rightarrow> spi_config_regs \<Rightarrow> spi_config_regs \<times> (spi_config_error + unit)" where
  "spi_apply_config idle_edge source_freq c r =
     (case validate_frequency source_freq (cf_frequency c) of
        Inl e \<Rightarrow> (r, Inl e)
      | Inr _ \<Rightarrow> (set_clock_mode idle_edge (cf_mode c)
          (set_bit_order (cf_read_order c) (cf_write_order c) (ch_bus_freq c r)), Inr ()))"

section \<open>The register on the controller\<close>

text \<open>How the reference manual reads the clock register: the bit for the system clock, or prescaler and counter.\<close>

definition clk_equ_sysclk :: "u32 \<Rightarrow> bool" where "clk_equ_sysclk reg = bit reg 31"
definition clkcnt_l :: "u32 \<Rightarrow> nat" where "clkcnt_l reg = unat (take_bit 6 reg)"
definition clkcnt_h :: "u32 \<Rightarrow> nat" where "clkcnt_h reg = unat (take_bit 6 (drop_bit 6 reg))"
definition clkcnt_n :: "u32 \<Rightarrow> nat" where "clkcnt_n reg = unat (take_bit 6 (drop_bit 12 reg))"
definition clkdiv_pre :: "u32 \<Rightarrow> nat" where "clkdiv_pre reg = unat (take_bit 4 (drop_bit 18 reg))"

definition bus_clock :: "nat \<Rightarrow> u32 \<Rightarrow> nat" where
  "bus_clock source_freq reg =
     (if clk_equ_sysclk reg then source_freq else source_freq div ((clkdiv_pre reg + 1) * (clkcnt_n reg + 1)))"

text \<open>Fields that do not overlap can be read back.\<close>

lemma no_bit: "unat w < 2 ^ k \<Longrightarrow> k \<le> i \<Longrightarrow> \<not> bit w i" for w :: u32
proof
  assume w: "unat w < 2 ^ k" "k \<le> i" and "bit w i"
  then have "odd (unat w div 2 ^ i)" by (simp add: bit_unsigned_iff flip: bit_iff_odd)
  moreover have "unat w < 2 ^ i" using w power_increasing [of k i "2 :: nat"] by linarith
  ultimately show False by simp
qed

lemma fields_read:
  fixes a b c d :: u32
  assumes "unat a < 2 ^ 6" "unat b < 2 ^ 6" "unat c < 2 ^ 6" "unat d < 2 ^ 4"
  defines "r \<equiv> a OR push_bit 6 b OR push_bit 12 c OR push_bit 18 d"
  shows "\<not> bit r 31" "take_bit 6 r = a" "take_bit 6 (drop_bit 6 r) = b" "take_bit 6 (drop_bit 12 r) = c" "take_bit 4 (drop_bit 18 r) = d"
proof -
  have z: "6 \<le> i \<Longrightarrow> \<not> bit a i" "6 \<le> i \<Longrightarrow> \<not> bit b i" "6 \<le> i \<Longrightarrow> \<not> bit c i" "4 \<le> i \<Longrightarrow> \<not> bit d i" for i
    using no_bit [OF assms(1), of i] no_bit [OF assms(2), of i] no_bit [OF assms(3), of i] no_bit [OF assms(4), of i] by simp_all
  show "\<not> bit r 31" by (simp add: r_def bit_or_iff bit_push_bit_iff z)
  note bits = r_def bit_or_iff bit_push_bit_iff bit_take_bit_iff bit_drop_bit_eq z
  show "take_bit 6 r = a" by (rule bit_eqI) (use z(1) in \<open>auto simp: bits not_le [symmetric]\<close>)
  show "take_bit 6 (drop_bit 6 r) = b" by (rule bit_eqI) (use z(2) in \<open>auto simp: bits not_le [symmetric]\<close>)
  show "take_bit 6 (drop_bit 12 r) = c" by (rule bit_eqI) (use z(3) in \<open>auto simp: bits not_le [symmetric]\<close>)
  show "take_bit 4 (drop_bit 18 r) = d" by (rule bit_eqI) (use z(4) in \<open>auto simp: bits not_le [symmetric]\<close>)
qed

section \<open>The search\<close>

lemma pre_for_bounds: "1 \<le> pre_for s t n" "pre_for s t n \<le> 16"
  by (simp_all add: pre_for_def Let_def)

lemma search_best:
  assumes "3 \<le> m"
  shows "\<exists>n. fold (clock_round s t) [2..<m] (-1, -1, 0) = (int n, int (pre_for s t n), err_for s t n) \<and> 2 \<le> n \<and> n < m \<and>
    (\<forall>k. 2 \<le> k \<and> k < m \<longrightarrow> err_for s t n \<le> err_for s t k) \<and> (\<forall>k. n < k \<and> k < m \<longrightarrow> err_for s t n < err_for s t k)"
  using assms
proof (induction m rule: dec_induct)
  case base
  have "[2..<3] = [2 :: nat]" by (simp add: upt_rec)
  moreover have "2 \<le> k \<and> k < 3 \<longleftrightarrow> k = 2" "\<not> (2 < k \<and> k < 3)" for k :: nat by auto
  ultimately show ?case by (intro exI [where x = 2]) (simp add: clock_round_def)
next
  case (step m)
  then obtain n where n: "fold (clock_round s t) [2..<m] (-1, -1, 0) = (int n, int (pre_for s t n), err_for s t n)" "2 \<le> n" "n < m"
    "\<And>k. 2 \<le> k \<Longrightarrow> k < m \<Longrightarrow> err_for s t n \<le> err_for s t k" "\<And>k. n < k \<Longrightarrow> k < m \<Longrightarrow> err_for s t n < err_for s t k"
    by blast
  have f: "fold (clock_round s t) [2..<Suc m] (-1, -1, 0) = clock_round s t m (int n, int (pre_for s t n), err_for s t n)"
    using step n(1) by simp
  show ?case
  proof (cases "err_for s t m \<le> err_for s t n")
    case True
    then show ?thesis using step.hyps n(4) unfolding f
      by (intro exI [where x = m]) (auto simp: clock_round_def less_Suc_eq intro: order_trans)
  next
    case False
    then show ?thesis using n(2-5) unfolding f
      by (intro exI [where x = n]) (auto simp: clock_round_def less_Suc_eq)
  qed
qed

text \<open>The rounded prescaler never does worse than none.\<close>

lemma rounding_helps:
  fixes x t :: nat
  assumes "0 < t" "p = (x + t div 2) div t" "1 < p" "1 < q" "q \<le> p"
  shows "\<bar>int (x div q) - int t\<bar> \<le> \<bar>int x - int t\<bar>"
proof -
  have pt: "p * t \<le> x + t div 2" using assms(2) by simp
  have "2 * t \<le> p * t" using assms(3) by (intro mult_le_mono1) simp
  then have x: "2 * t \<le> x + t div 2" using pt by linarith
  define y where "y = x div q"
  have y: "y \<le> x" "x < q * (y + 1)" using assms(4) dividend_less_times_div [of q x] by (simp_all add: y_def)
  show ?thesis
  proof (cases "t \<le> y")
    case True
    then show ?thesis using y(1) by (simp add: y_def [symmetric])
  next
    case False
    have "q * t \<le> p * t" using assms(5) by simp
    then have "q * t \<le> q * (y + 1) + t div 2" using pt y(2) by linarith
    moreover have "q * (y + 1) + q * (t - (y + 1)) = q * t"
      using False by (simp only: add_mult_distrib2 [symmetric]) simp
    ultimately have "q * (t - (y + 1)) \<le> t div 2" by linarith
    moreover have "2 * (t - (y + 1)) \<le> q * (t - (y + 1))" using assms(4) by (intro mult_le_mono1) simp
    ultimately have "2 * (t - (y + 1)) \<le> t div 2" by linarith
    then have "t - y \<le> x - t" using x False by linarith
    then show ?thesis using False x by (simp add: y_def [symmetric])
  qed
qed

lemma err_for_single:
  assumes "0 < t"
  shows "err_for s t n \<le> \<bar>int (s div n) - int t\<bar>"
proof -
  define p where "p = (s div n + t div 2) div t"
  have q: "pre_for s t n = min 16 (max 1 p)" by (simp add: pre_for_def p_def [symmetric] Let_def)
  have e: "err_for s t n = \<bar>int (s div n div pre_for s t n) - int t\<bar>"
    by (simp add: err_for_def div_mult2_eq mult.commute)
  show ?thesis
  proof (cases "1 < p")
    case True
    then show ?thesis unfolding e q using rounding_helps [OF assms p_def True, of "min 16 (max 1 p)"] by simp
  qed (simp add: e q)
qed

text \<open>The register of a search, field by field.\<close>

lemma recalculate_fields:
  assumes "0 < f" "f \<le> (s div 4) * 3"
  shows "\<exists>reg n. recalculate s f = Some reg \<and> \<not> clk_equ_sysclk reg \<and> 2 \<le> n \<and> n \<le> 64 \<and>
    clkcnt_n reg + 1 = n \<and> clkcnt_l reg + 1 = n \<and> clkcnt_h reg + 1 = n div 2 \<and> clkdiv_pre reg + 1 = pre_for s f n \<and>
    (\<forall>k. 2 \<le> k \<and> k \<le> 64 \<longrightarrow> err_for s f n \<le> err_for s f k) \<and> (\<forall>k. n < k \<and> k \<le> 64 \<longrightarrow> err_for s f n < err_for s f k)"
proof -
  obtain n where n: "fold (clock_round s f) [2..<65] (-1, -1, 0) = (int n, int (pre_for s f n), err_for s f n)" "2 \<le> n" "n < 65"
    "\<forall>k. 2 \<le> k \<and> k < 65 \<longrightarrow> err_for s f n \<le> err_for s f k" "\<forall>k. n < k \<and> k < 65 \<longrightarrow> err_for s f n < err_for s f k"
    using search_best [of 65 s f] by auto
  let ?p = "pre_for s f n"
  have h: "(128 * int n + 127) div 256 = int (n div 2)" by (simp add: zdiv_int)
  have h1: "1 \<le> n div 2" using n(2) by simp
  have w: "unat (of_int (int m) - 1 :: u32) = m - 1" if "1 \<le> m" "m \<le> 64" for m
  proof -
    have "(of_int (int m) - 1 :: u32) = of_nat (m - 1)" using that by simp
    moreover have "unat (of_nat (m - 1) :: u32) = m - 1" using that by (intro unat_of_nat_eq) simp
    ultimately show ?thesis by simp
  qed
  define reg :: u32 where "reg = (of_int (int n) - 1) OR push_bit 6 (of_int (int (n div 2)) - 1) OR push_bit 12 (of_int (int n) - 1) OR
    push_bit 18 (of_int (int ?p) - 1)"
  have r: "recalculate s f = Some reg"
    using assms h1 unfolding recalculate_def n(1) prod.case Let_def h reg_def by simp
  have b: "unat (of_int (int n) - 1 :: u32) = n - 1" "unat (of_int (int (n div 2)) - 1 :: u32) = n div 2 - 1"
      "unat (of_int (int ?p) - 1 :: u32) = ?p - 1"
    using n(2,3) h1 pre_for_bounds [of s f n] by (intro w; simp)+
  have "unat (of_int (int n) - 1 :: u32) < 2 ^ 6" "unat (of_int (int (n div 2)) - 1 :: u32) < 2 ^ 6"
      "unat (of_int (int ?p) - 1 :: u32) < 2 ^ 4"
    using n(2,3) pre_for_bounds [of s f n] unfolding b by simp_all
  note fl = fields_read [OF this(1,2,1,3), folded reg_def]
  have "\<not> clk_equ_sysclk reg" "clkcnt_n reg + 1 = n" "clkcnt_l reg + 1 = n" "clkcnt_h reg + 1 = n div 2" "clkdiv_pre reg + 1 = ?p"
    unfolding clk_equ_sysclk_def clkcnt_n_def clkcnt_l_def clkcnt_h_def clkdiv_pre_def fl b
    using fl(1) n(2) h1 pre_for_bounds(1) [of s f n] by simp_all
  then show ?thesis using r n(2-5) by (intro exI [where x = reg] exI [where x = n]) (simp add: less_Suc_eq_le [symmetric])
qed

section \<open>Properties\<close>

text \<open>
  C36. The search for the SPI clock: up to three quarters of the source, the register selects a prescaler up to 16
  and a counter from 2 to 64 with half of it high, no counter with its prescaler and no divider from 2 to
  64 alone comes closer to the frequency asked for, and among equals the counter is the largest; above that
  the bus runs at the source.
\<close>

theorem spi_clock_search:
  assumes "0 < f"
  shows "\<exists>reg. recalculate s f = Some reg \<and>
    (if (s div 4) * 3 < f then bus_clock s reg = s
     else \<exists>n. 2 \<le> n \<and> n \<le> 64 \<and> clkcnt_n reg + 1 = n \<and> clkcnt_l reg + 1 = n \<and> clkcnt_h reg + 1 = n div 2 \<and> clkdiv_pre reg < 16 \<and>
       \<bar>int (bus_clock s reg) - int f\<bar> = err_for s f n \<and>
       (\<forall>k\<in>{2..64}. \<bar>int (bus_clock s reg) - int f\<bar> \<le> err_for s f k \<and> (n < k \<longrightarrow> \<bar>int (bus_clock s reg) - int f\<bar> < err_for s f k) \<and>
         \<bar>int (bus_clock s reg) - int f\<bar> \<le> \<bar>int (s div k) - int f\<bar>))"
proof (cases "(s div 4) * 3 < f")
  case True
  have "bit (push_bit 31 1 :: u32) 31" by (simp add: bit_push_bit_iff)
  then show ?thesis using True by (simp add: recalculate_def bus_clock_def clk_equ_sysclk_def)
next
  case False
  then have "f \<le> (s div 4) * 3" by simp
  then obtain reg n where r: "recalculate s f = Some reg" "\<not> clk_equ_sysclk reg" "2 \<le> n" "n \<le> 64" "clkcnt_n reg + 1 = n" "clkcnt_l reg + 1 = n"
    "clkcnt_h reg + 1 = n div 2" "clkdiv_pre reg + 1 = pre_for s f n"
    "\<And>k. 2 \<le> k \<Longrightarrow> k \<le> 64 \<Longrightarrow> err_for s f n \<le> err_for s f k" "\<And>k. n < k \<Longrightarrow> k \<le> 64 \<Longrightarrow> err_for s f n < err_for s f k"
    using recalculate_fields [OF assms] by blast
  have e: "\<bar>int (bus_clock s reg) - int f\<bar> = err_for s f n"
    using r(2) by (simp only: bus_clock_def err_for_def r(5,8) if_False)
  have "clkdiv_pre reg < 16" using r(8) pre_for_bounds(2) [of s f n] by simp
  moreover have "err_for s f n \<le> \<bar>int (s div k) - int f\<bar>" if "2 \<le> k" "k \<le> 64" for k
    using r(9) [OF that] err_for_single [OF assms, of s k] by linarith
  ultimately show ?thesis using False r e by (intro exI [where x = reg]) auto
qed

text \<open>
  The polarity of the clock: after \<open>apply_config\<close> the idle edge is the one of the mode, but the
  setup of every half-duplex transfer clears the register it is in, so modes 2 and 3 transfer with the
  clock of modes 1 and 0; the edge the data changes on stays.
\<close>

theorem half_duplex_polarity:
  assumes "source_freq div 1024 \<le> cf_frequency c" "cf_frequency c \<le> source_freq" "idle_edge < 32"
  shows "\<exists>r'. spi_apply_config idle_edge source_freq c r = (r', Inr ()) \<and> cr_clock r' = cf_reg c \<and>
    cr_ck_out_edge r' = (cf_mode c \<in> {Mode1, Mode2}) \<and> clk_gate (cr_spi r') = (True, True, True) \<and>
    bit (misc_bits (cr_spi r')) idle_edge = (cf_mode c \<in> {Mode2, Mode3}) \<and>
    \<not> bit (misc_bits (setup_half_duplex is_write cmd address dummy_idle dummy no_data data_mode (cr_spi r'))) idle_edge"
  using assms
  by (auto simp: spi_apply_config_def validate_frequency_def set_clock_mode_def set_bit_order_def ch_bus_freq_def enable_clocks_def
      setup_half_duplex_def set_up_common_phases_def Let_def bit_set_bit_iff bit_unset_bit_iff)

text \<open>
  What the configuration refuses: a frequency above the source, or below a 1024th of it, is an
  error of \<open>apply_config\<close> that changes no register; a frequency of zero never gets there, the search for its dividers
  divides by it.
\<close>

theorem spi_frequency_checked:
  shows "(snd (spi_apply_config idle_edge source_freq c r) = Inl SpiFrequencyOutOfRange) =
      (cf_frequency c < source_freq div 1024 \<or> source_freq < cf_frequency c)"
    and "cf_frequency c < source_freq div 1024 \<or> source_freq < cf_frequency c \<longrightarrow> fst (spi_apply_config idle_edge source_freq c r) = r"
    and "with_frequency source_freq 0 c = None"
  by (simp_all add: spi_apply_config_def validate_frequency_def with_frequency_def recalculate_def Let_def)

section \<open>Witnesses\<close>

text \<open>The display's clock: 40 of the 80 MHz.\<close>

theorem spi_clock_search_witness:
  "\<exists>reg. recalculate 80000000 40000000 = Some reg \<and> bus_clock 80000000 reg = 40000000"
proof -
  obtain reg where "recalculate 80000000 40000000 = Some reg"
      "\<bar>int (bus_clock 80000000 reg) - int 40000000\<bar> \<le> \<bar>int (80000000 div 2) - int 40000000\<bar>"
    using spi_clock_search [of 40000000 80000000] by (auto dest!: bspec [where x = 2])
  then show ?thesis by simp
qed

theorem half_duplex_polarity_witness:
  "\<exists>r'. spi_apply_config 29 80000000 \<lparr>cf_reg = 1, cf_frequency = 40000000, cf_mode = Mode3, cf_read_order = MsbFirst, cf_write_order = MsbFirst\<rparr>
      \<lparr>cr_spi = sp_regs sim_spi, cr_clock = 0, cr_ck_out_edge = False, cr_bit_orders = (False, False)\<rparr> = (r', Inr ()) \<and>
    bit (misc_bits (cr_spi r')) 29 \<and>
    \<not> bit (misc_bits (setup_half_duplex True SpiCmdNone SpiAddrNone False 0 False SpiSingle (cr_spi r'))) 29"
  using half_duplex_polarity [of 80000000 "\<lparr>cf_reg = 1, cf_frequency = 40000000, cf_mode = Mode3, cf_read_order = MsbFirst, cf_write_order = MsbFirst\<rparr>"
      29 "\<lparr>cr_spi = sp_regs sim_spi, cr_clock = 0, cr_ck_out_edge = False, cr_bit_orders = (False, False)\<rparr>" True SpiCmdNone SpiAddrNone False 0 False SpiSingle]
  by auto

end
