(* ===== verification/Dma_Descriptors.thy ===== *)
theory Dma_Descriptors
  imports Prelude "HOL-Library.Monad_Syntax"
begin

text \<open>
  The DMA descriptors (\<open>esp-hal-patched/src/dma/mod.rs\<close>): the fields of a descriptor, the slice of
  descriptors that covers a buffer, and the chain for circular transfers.  A pointer to a descriptor is its
  index in the slice, a pointer into the buffer an offset, and \<open>None\<close> is null; \<open>None\<close> as the result of an
  operation is a panic.
\<close>

section \<open>Descriptors\<close>

type_synonym u12 = "12 word"

datatype dma_owner = OwnerCpu | OwnerDma

record dma_descriptor =
  d_size :: u12
  d_length :: u12
  d_suc_eof :: bool
  d_owner :: dma_owner
  d_buffer :: "nat option"
  d_next :: "nat option"

definition empty_descriptor :: dma_descriptor where
  "empty_descriptor = \<lparr>d_size = 0, d_length = 0, d_suc_eof = False, d_owner = OwnerCpu, d_buffer = None, d_next = None\<rparr>"

text \<open>The setters cast to \<open>u16\<close> and keep the twelve bits of the field.\<close>

definition desc_set_size :: "nat \<Rightarrow> dma_descriptor \<Rightarrow> dma_descriptor" where
  "desc_set_size len d = d\<lparr>d_size := ucast (of_nat len :: u16)\<rparr>"

definition desc_set_length :: "nat \<Rightarrow> dma_descriptor \<Rightarrow> dma_descriptor" where
  "desc_set_length len d = d\<lparr>d_length := ucast (of_nat len :: u16)\<rparr>"

definition desc_size :: "dma_descriptor \<Rightarrow> nat" where "desc_size d = unat (d_size d)"

definition desc_len :: "dma_descriptor \<Rightarrow> nat" where "desc_len d = unat (d_length d)"

definition reset_for_rx :: "dma_descriptor \<Rightarrow> dma_descriptor" where
  "reset_for_rx d = desc_set_length 0 (d\<lparr>d_owner := OwnerDma, d_suc_eof := False\<rparr>)"

definition reset_for_tx :: "bool \<Rightarrow> dma_descriptor \<Rightarrow> dma_descriptor" where
  "reset_for_tx set_eof d = d\<lparr>d_owner := OwnerDma, d_suc_eof := set_eof\<rparr>"

lemma ucast_12: "n < 4096 \<Longrightarrow> unat (ucast (of_nat n :: u16) :: u12) = n"
  by (simp add: unsigned_ucast_eq unat_of_nat take_bit_eq_mod)

lemma desc_setters [simp]:
  "d_next (desc_set_size n d) = d_next d" "d_owner (desc_set_size n d) = d_owner d" "d_buffer (desc_set_size n d) = d_buffer d"
  "d_suc_eof (desc_set_size n d) = d_suc_eof d" "desc_len (desc_set_size n d) = desc_len d"
  "d_next (desc_set_length n d) = d_next d" "d_owner (desc_set_length n d) = d_owner d" "d_buffer (desc_set_length n d) = d_buffer d"
  "d_suc_eof (desc_set_length n d) = d_suc_eof d" "desc_size (desc_set_length n d) = desc_size d"
  "d_next (reset_for_tx b d) = d_next d" "d_owner (reset_for_tx b d) = OwnerDma" "d_buffer (reset_for_tx b d) = d_buffer d"
  "d_suc_eof (reset_for_tx b d) = b" "desc_len (reset_for_tx b d) = desc_len d" "desc_size (reset_for_tx b d) = desc_size d"
  by (simp_all add: desc_set_size_def desc_set_length_def reset_for_tx_def desc_len_def desc_size_def)

lemma desc_stored:
  "n < 4096 \<Longrightarrow> desc_len (desc_set_length n d) = n" "n < 4096 \<Longrightarrow> desc_size (desc_set_size n d) = n"
  by (simp_all add: desc_set_size_def desc_set_length_def desc_len_def desc_size_def ucast_12)

section \<open>Sets of descriptors\<close>

datatype dma_alignment_error = UnalignedAddress | UnalignedSize

datatype dma_buf_error = BufferTooSmall | InsufficientDescriptors | UnsupportedMemoryRegion
  | InvalidAlignment dma_alignment_error | InvalidChunkSize

definition descriptor_count :: "nat \<Rightarrow> nat \<Rightarrow> bool \<Rightarrow> nat option" where
  "descriptor_count buffer_size chunk_size is_circular =
     (if is_circular \<and> buffer_size \<le> chunk_size * 2 then Some 3
      else if buffer_size < chunk_size then Some 1
      else if chunk_size = 0 then None
      else Some ((buffer_size + chunk_size - 1) div chunk_size))"

definition descriptors_for_buffer_len :: "nat \<Rightarrow> nat \<Rightarrow> nat \<Rightarrow> bool \<Rightarrow> (dma_buf_error + nat) option" where
  "descriptors_for_buffer_len available len chunk_size is_circular =
     map_option (\<lambda>required. if available < required then Inl InsufficientDescriptors else Inr required)
       (descriptor_count len chunk_size is_circular)"

text \<open>The two loops of \<open>set_up_descriptors\<close>: the links, from the last descriptor back, and the lengths.\<close>

definition link_up :: "nat option \<Rightarrow> dma_descriptor list \<Rightarrow> dma_descriptor list" where
  "link_up next ds = snd (foldr (\<lambda>(i, d) (next, out). (Some i, d\<lparr>d_next := next\<rparr> # out)) (enumerate 0 ds) (next, []))"

fun prepare_each ::
  "(dma_descriptor \<Rightarrow> nat \<Rightarrow> dma_descriptor) \<Rightarrow> nat \<Rightarrow> nat \<Rightarrow> dma_descriptor list \<Rightarrow> nat \<times> dma_descriptor list" where
  "prepare_each prepare chunk_size remaining [] = (remaining, [])"
| "prepare_each prepare chunk_size remaining (d # ds) =
     (let n = min chunk_size remaining;
          (rest, out) = prepare_each prepare chunk_size (remaining - n) ds
      in (rest, prepare d n # out))"

definition set_up_descriptors ::
  "(dma_descriptor \<Rightarrow> nat \<Rightarrow> dma_descriptor) \<Rightarrow> nat \<Rightarrow> nat \<Rightarrow> bool \<Rightarrow> dma_descriptor list \<Rightarrow>
     (dma_descriptor list \<times> (dma_buf_error + unit)) option" where
  "set_up_descriptors prepare len chunk_size is_circular ds =
     (case descriptors_for_buffer_len (length ds) len chunk_size is_circular of
        None \<Rightarrow> None
      | Some (Inl e) \<Rightarrow> Some (ds, Inl e)
      | Some (Inr k) \<Rightarrow>
          (case prepare_each prepare chunk_size len (link_up (if is_circular then Some 0 else None) (take k ds)) of
             (rest, out) \<Rightarrow> if rest = 0 then Some (out @ drop k ds, Inr ()) else None))"

text \<open>The chunks of the buffer, as far as there are descriptors.\<close>

fun point_each :: "nat \<Rightarrow> nat \<Rightarrow> nat \<Rightarrow> dma_descriptor list \<Rightarrow> dma_descriptor list" where
  "point_each chunk_size off remaining [] = []"
| "point_each chunk_size off remaining (d # ds) =
     (if remaining = 0 then d # ds
      else let n = min chunk_size remaining in
        (desc_set_size n d)\<lparr>d_buffer := Some off\<rparr> # point_each chunk_size (off + n) (remaining - n) ds)"

definition set_up_buffer_ptrs ::
  "nat \<Rightarrow> nat \<Rightarrow> bool \<Rightarrow> dma_descriptor list \<Rightarrow> (dma_descriptor list \<times> (dma_buf_error + unit)) option" where
  "set_up_buffer_ptrs buffer_len chunk_size is_circular ds =
     (case descriptors_for_buffer_len (length ds) buffer_len chunk_size is_circular of
        None \<Rightarrow> None
      | Some (Inl e) \<Rightarrow> Some (ds, Inl e)
      | Some (Inr k) \<Rightarrow>
          if chunk_size = 0 then None else Some (point_each chunk_size 0 buffer_len (take k ds) @ drop k ds, Inr ()))"

text \<open>The linked descriptors, in the order of the slice.\<close>

fun linked :: "dma_descriptor list \<Rightarrow> dma_descriptor list" where
  "linked [] = []"
| "linked (d # ds) = d # (if d_next d = None then [] else linked ds)"

fun map_linked :: "(dma_descriptor \<Rightarrow> dma_descriptor) \<Rightarrow> dma_descriptor list \<Rightarrow> dma_descriptor list" where
  "map_linked f [] = []"
| "map_linked f (d # ds) = f d # (if d_next d = None then ds else map_linked f ds)"

definition set_rx_length :: "nat \<Rightarrow> nat \<Rightarrow> dma_descriptor list \<Rightarrow> (dma_descriptor list \<times> (dma_buf_error + unit)) option" where
  "set_rx_length len chunk_size = set_up_descriptors (\<lambda>d n. desc_set_size n d) len chunk_size False"

definition set_tx_length :: "nat \<Rightarrow> nat \<Rightarrow> dma_descriptor list \<Rightarrow> (dma_descriptor list \<times> (dma_buf_error + unit)) option" where
  "set_tx_length len chunk_size = set_up_descriptors (\<lambda>d n. desc_set_length n d) len chunk_size False"

definition link_with_buffer :: "nat \<Rightarrow> nat \<Rightarrow> dma_descriptor list \<Rightarrow> (dma_descriptor list \<times> (dma_buf_error + unit)) option" where
  "link_with_buffer buffer_len chunk_size = set_up_buffer_ptrs buffer_len chunk_size False"

section \<open>What the controller reads\<close>

text \<open>
  The bytes the DMA controller takes for a transmission that starts at a descriptor: it follows the next
  pointers, each descriptor must be its own and point to its bytes, and null ends the transfer.  There are no more
  steps than descriptors unless the chain is a ring, which never ends.
\<close>

definition desc_bytes :: "'a list \<Rightarrow> dma_descriptor \<Rightarrow> 'a list option" where
  "desc_bytes buffer d =
     (if d_owner d \<noteq> OwnerDma then None
      else if desc_len d = 0 then Some []
      else case d_buffer d of
        None \<Rightarrow> None
      | Some off \<Rightarrow> if off + desc_len d \<le> length buffer then Some (take (desc_len d) (drop off buffer)) else None)"

fun dma_walk :: "nat \<Rightarrow> dma_descriptor list \<Rightarrow> 'a list \<Rightarrow> nat \<Rightarrow> 'a list option" where
  "dma_walk 0 ds buffer i = None"
| "dma_walk (Suc fuel) ds buffer i =
     (if i < length ds then
        do { here \<leftarrow> desc_bytes buffer (ds ! i);
             rest \<leftarrow> (case d_next (ds ! i) of None \<Rightarrow> Some [] | Some j \<Rightarrow> dma_walk fuel ds buffer j);
             Some (here @ rest) }
      else None)"

section \<open>The loops\<close>

lemma link_up_from:
  "fst (foldr (\<lambda>(i, d) (next, out). (Some i, d\<lparr>d_next := next\<rparr> # out)) (enumerate m ds) (nxt, [])) = (if ds = [] then nxt else Some m)"
  "i < length ds \<Longrightarrow> snd (foldr (\<lambda>(i, d) (next, out). (Some i, d\<lparr>d_next := next\<rparr> # out)) (enumerate m ds) (nxt, [])) ! i =
     (ds ! i)\<lparr>d_next := if Suc i < length ds then Some (m + Suc i) else nxt\<rparr>"
  "length (snd (foldr (\<lambda>(i, d) (next, out). (Some i, d\<lparr>d_next := next\<rparr> # out)) (enumerate m ds) (nxt, []))) = length ds"
proof (induction ds arbitrary: m i)
  case (Cons d ds)
  { case 1 then show ?case by (simp add: split_def) }
  { case 2 then show ?case using Cons.IH by (cases i) (auto simp: split_def) }
  { case 3 then show ?case using Cons.IH(3) by (simp add: split_def) }
qed simp_all

lemma length_link_up [simp]: "length (link_up nxt ds) = length ds"
  by (simp add: link_up_def link_up_from(3))

lemma nth_link_up:
  "i < length ds \<Longrightarrow> link_up nxt ds ! i = (ds ! i)\<lparr>d_next := if Suc i < length ds then Some (Suc i) else nxt\<rparr>"
  by (simp add: link_up_def link_up_from(2))

lemma prepare_each_nth:
  "fst (prepare_each p c n ds) = n - length ds * c"
  "length (snd (prepare_each p c n ds)) = length ds"
  "i < length ds \<Longrightarrow> snd (prepare_each p c n ds) ! i = p (ds ! i) (min c (n - i * c))"
proof (induction ds arbitrary: n i)
  case (Cons d ds)
  have left: "n - min c n - j * c = n - Suc j * c" for n j :: nat by (simp add: min_def)
  { case 1
    have "fst (prepare_each p c (n - min c n) ds) = n - Suc (length ds) * c" unfolding Cons.IH(1) left ..
    then show ?case by (simp add: split_def Let_def) }
  { case 2 show ?case using Cons.IH(2) by (simp add: split_def Let_def) }
  { case 3
    then show ?case
    proof (cases i)
      case (Suc j)
      then have "snd (prepare_each p c (n - min c n) ds) ! j = p (ds ! j) (min c (n - min c n - j * c))"
        using 3 by (intro Cons.IH(3)) simp
      then show ?thesis unfolding left Suc by (simp add: split_def Let_def)
    qed (simp add: split_def Let_def) }
qed simp_all

lemma length_point_each [simp]: "length (point_each c off n ds) = length ds"
  by (induction c off n ds rule: point_each.induct) (simp_all add: Let_def)

lemma point_each_nth:
  assumes "i < length ds" "0 < c"
  shows "point_each c off n ds ! i =
    (if i * c < n then (desc_set_size (min c (n - i * c)) (ds ! i))\<lparr>d_buffer := Some (off + i * c)\<rparr> else ds ! i)"
  using assms
proof (induction c off n ds arbitrary: i rule: point_each.induct)
  case (2 c off n d ds)
  show ?case
  proof (cases i)
    case (Suc j)
    show ?thesis
    proof (cases "n \<le> c")
      case True
      then show ?thesis using 2 Suc by (cases ds) (auto simp: Let_def)
    next
      case False
      then have "point_each c off n (d # ds) ! i = point_each c (off + c) (n - c) ds ! j" using Suc by (simp add: Let_def)
      also have "\<dots> = (if j * c < n - c then (desc_set_size (min c (n - c - j * c)) (ds ! j))\<lparr>d_buffer := Some (off + c + j * c)\<rparr> else ds ! j)"
        using 2 False Suc by (simp add: Let_def)
      finally show ?thesis using Suc False by (auto simp: algebra_simps)
    qed
  qed (simp add: Let_def)
qed simp

section \<open>How many descriptors\<close>

definition chunk_count :: "nat \<Rightarrow> nat \<Rightarrow> nat" where
  "chunk_count n c = (if n < c then 1 else (n + c - 1) div c)"

lemma chunk_count_bounds:
  assumes "0 < c"
  shows "1 \<le> chunk_count n c" "n \<le> chunk_count n c * c" "i < chunk_count n c \<Longrightarrow> 0 < i \<Longrightarrow> i * c < n"
proof -
  define q where "q = (n + c - 1) div c"
  have q: "q * c \<le> n + c - 1" "n + c - 1 < q * c + c"
    using assms dividend_less_div_times [of c "n + c - 1"] by (simp_all add: q_def)
  show "1 \<le> chunk_count n c" using assms by (auto simp: chunk_count_def div_greater_zero_iff Suc_le_eq)
  show "n \<le> chunk_count n c * c" using q assms by (auto simp: chunk_count_def q_def)
  assume i: "i < chunk_count n c" "0 < i"
  then have "i < q" by (auto simp: chunk_count_def q_def split: if_splits)
  then have "(i + 1) * c \<le> q * c" by (intro mult_le_mono1) simp
  then show "i * c < n" using q(1) assms by (simp add: algebra_simps)
qed

lemma chunk_count_mono: "0 < c \<Longrightarrow> m \<le> n \<Longrightarrow> chunk_count m c \<le> chunk_count n c"
  using chunk_count_bounds(1) [of c n] div_le_mono [of "m + c - 1" "n + c - 1" c] by (auto simp: chunk_count_def)

lemma descriptor_count_linear: "0 < c \<Longrightarrow> descriptor_count n c False = Some (chunk_count n c)"
  by (simp add: descriptor_count_def chunk_count_def)

section \<open>The set after its operations\<close>

text \<open>Linked in order for \<open>n\<close> bytes in chunks of \<open>c\<close>.\<close>

definition links_for :: "nat \<Rightarrow> nat \<Rightarrow> dma_descriptor list \<Rightarrow> bool" where
  "links_for n c ds \<longleftrightarrow> chunk_count n c \<le> length ds \<and>
     (\<forall>i<chunk_count n c. d_next (ds ! i) = (if Suc i < chunk_count n c then Some (Suc i) else None))"

lemma set_up_linear:
  assumes "0 < c" "chunk_count n c \<le> length ds" "\<And>d m. d_next (p d m) = d_next d"
  shows "\<exists>ds'. set_up_descriptors p n c False ds = Some (ds', Inr ()) \<and> length ds' = length ds \<and> links_for n c ds' \<and>
    (\<forall>i<length ds. ds' ! i = (if i < chunk_count n c
       then p ((ds ! i)\<lparr>d_next := if Suc i < chunk_count n c then Some (Suc i) else None\<rparr>) (min c (n - i * c)) else ds ! i))"
proof -
  let ?k = "chunk_count n c"
  let ?r = "prepare_each p c n (link_up None (take ?k ds))"
  have f: "fst ?r = 0" using chunk_count_bounds(2) [OF assms(1)] assms(2) by (simp add: prepare_each_nth(1) min_def)
  have e: "set_up_descriptors p n c False ds = Some (snd ?r @ drop ?k ds, Inr ())"
    using assms(2) f by (simp add: set_up_descriptors_def descriptors_for_buffer_len_def descriptor_count_linear [OF assms(1)] split_def)
  have l: "length (snd ?r) = ?k" using assms(2) by (simp add: prepare_each_nth(2))
  have at: "(snd ?r @ drop ?k ds) ! i = (if i < ?k
      then p ((ds ! i)\<lparr>d_next := if Suc i < ?k then Some (Suc i) else None\<rparr>) (min c (n - i * c)) else ds ! i)"
    if "i < length ds" for i
    using that l assms(2) by (auto simp: nth_append prepare_each_nth(3) nth_link_up min_def)
  show ?thesis
    using e l at assms(2,3) by (intro exI [where x = "snd ?r @ drop ?k ds"]) (auto simp: links_for_def)
qed

lemma set_up_refused:
  "0 < c \<Longrightarrow> length ds < chunk_count n c \<Longrightarrow> set_up_descriptors p n c False ds = Some (ds, Inl InsufficientDescriptors)"
  by (simp add: set_up_descriptors_def descriptors_for_buffer_len_def descriptor_count_linear)

lemma link_with_buffer_linear:
  assumes "0 < c" "chunk_count n c \<le> length ds"
  shows "\<exists>ds'. link_with_buffer n c ds = Some (ds', Inr ()) \<and> length ds' = length ds \<and>
    (\<forall>i<length ds. ds' ! i = (if i < chunk_count n c \<and> i * c < n
       then (desc_set_size (min c (n - i * c)) (ds ! i))\<lparr>d_buffer := Some (i * c)\<rparr> else ds ! i))"
  using assms
  by (auto simp: link_with_buffer_def set_up_buffer_ptrs_def descriptors_for_buffer_len_def descriptor_count_linear nth_append
      point_each_nth)

lemma link_with_buffer_refused:
  "0 < c \<Longrightarrow> length ds < chunk_count n c \<Longrightarrow> link_with_buffer n c ds = Some (ds, Inl InsufficientDescriptors)"
  by (simp add: link_with_buffer_def set_up_buffer_ptrs_def descriptors_for_buffer_len_def descriptor_count_linear)

lemma map_linked_nth:
  assumes "\<And>j. j < k \<Longrightarrow> d_next (ds ! j) = (if Suc j < k then Some (f j) else None)" "0 < k" "k \<le> length ds" "i < length ds"
  shows "map_linked g ds ! i = (if i < k then g (ds ! i) else ds ! i)"
  using assms
proof (induction ds arbitrary: k i f)
  case (Cons d ds)
  show ?case
  proof (cases "k = 1")
    case True
    then show ?thesis using Cons.prems(1) [of 0] by (cases i) simp_all
  next
    case False
    then have k: "1 < k" using Cons.prems(2) by simp
    then have n: "d_next d \<noteq> None" using Cons.prems(1) [of 0] by simp
    have "map_linked g ds ! j = (if j < k - 1 then g (ds ! j) else ds ! j)" if "j < length ds" for j
    proof (rule Cons.IH [where f = "\<lambda>j. f (Suc j)"])
      show "d_next (ds ! j') = (if Suc j' < k - 1 then Some (f (Suc j')) else None)" if "j' < k - 1" for j'
        using Cons.prems(1) [of "Suc j'"] that by auto
    qed (use k Cons.prems that in auto)
    then show ?thesis using n k Cons.prems(4) by (cases i) auto
  qed
qed simp

lemma length_map_linked [simp]: "length (map_linked g ds) = length ds"
  by (induction ds) simp_all

lemma linked_take:
  assumes "\<And>j. j < k \<Longrightarrow> d_next (ds ! j) = (if Suc j < k then Some (f j) else None)" "0 < k" "k \<le> length ds"
  shows "linked ds = take k ds"
  using assms
proof (induction ds arbitrary: k f)
  case (Cons d ds)
  show ?case
  proof (cases "k = 1")
    case True
    then show ?thesis using Cons.prems(1) [of 0] by simp
  next
    case False
    then have k: "1 < k" using Cons.prems(2) by simp
    have "linked ds = take (k - 1) ds"
    proof (rule Cons.IH [where f = "\<lambda>j. f (Suc j)"])
      show "d_next (ds ! j') = (if Suc j' < k - 1 then Some (f (Suc j')) else None)" if "j' < k - 1" for j'
        using Cons.prems(1) [of "Suc j'"] that by auto
    qed (use k Cons.prems in auto)
    moreover have "d_next d \<noteq> None" using k Cons.prems(1) [of 0] by simp
    ultimately show ?thesis using k by (cases k) auto
  qed
qed simp

text \<open>The controller follows the links of a filled set to exactly the first bytes of the buffer.\<close>

lemma walk_linked:
  assumes "0 < c" "links_for n c ds" "n \<le> length buffer"
    and "\<And>i. i < chunk_count n c \<Longrightarrow> d_owner (ds ! i) = OwnerDma"
    and "\<And>i. i < chunk_count n c \<Longrightarrow> desc_len (ds ! i) = min c (n - i * c)"
    and "\<And>i. i < chunk_count n c \<Longrightarrow> i * c < n \<Longrightarrow> d_buffer (ds ! i) = Some (i * c)"
    and "i < chunk_count n c" "chunk_count n c - i \<le> fuel"
  shows "dma_walk fuel ds buffer i = Some (take (n - i * c) (drop (i * c) buffer))"
  using assms(7,8)
proof (induction fuel arbitrary: i)
  case (Suc fuel)
  let ?k = "chunk_count n c"
  have i: "i < length ds" using Suc.prems(1) assms(2) by (simp add: links_for_def)
  have here: "desc_bytes buffer (ds ! i) = Some (take (min c (n - i * c)) (drop (i * c) buffer))"
    using assms(1,3) assms(4-6) [OF Suc.prems(1)] by (cases "i * c < n") (auto simp: desc_bytes_def min_def)
  show ?case
  proof (cases "Suc i < ?k")
    case True
    then have "Suc i * c < n" using chunk_count_bounds(3) [OF assms(1)] by blast
    then have m: "min c (n - i * c) = c" "n - i * c = c + (n - Suc i * c)" by simp_all
    have "dma_walk fuel ds buffer (Suc i) = Some (take (n - Suc i * c) (drop (Suc i * c) buffer))"
      using Suc.IH [OF True] Suc.prems(2) by simp
    moreover have "d_next (ds ! i) = Some (Suc i)" using assms(2) True by (simp add: links_for_def)
    ultimately have "dma_walk (Suc fuel) ds buffer i =
        Some (take c (drop (i * c) buffer) @ take (n - Suc i * c) (drop (Suc i * c) buffer))"
      using i here m(1) by simp
    then show ?thesis unfolding m(2) take_add by (simp add: add.commute)
  next
    case False
    then have "Suc i = ?k" using Suc.prems(1) by simp
    then have "n \<le> Suc i * c" using chunk_count_bounds(2) [OF assms(1)] by metis
    then have "min c (n - i * c) = n - i * c" by simp
    moreover have "d_next (ds ! i) = None" using assms(2) Suc.prems(1) False by (simp add: links_for_def)
    ultimately show ?thesis using i here by simp
  qed
qed simp

section \<open>Chains\<close>

datatype dma_fault = FaultAlignment dma_alignment_error | OutOfDescriptors | DescriptorFault | FaultOverflow
  | FaultTooSmall | FaultMemoryRegion | FaultChunkSize | FaultLate

fun fault_of :: "dma_buf_error \<Rightarrow> dma_fault" where
  "fault_of InsufficientDescriptors = OutOfDescriptors"
| "fault_of UnsupportedMemoryRegion = FaultMemoryRegion"
| "fault_of (InvalidAlignment e) = FaultAlignment e"
| "fault_of InvalidChunkSize = FaultChunkSize"
| "fault_of BufferTooSmall = FaultTooSmall"

text \<open>
  \<open>DescriptorChain::fill\<close>; the parameters say whether the first and the last descriptor are in RAM and
  whether the data is in memory the controller reaches.
\<close>

definition chain_chunk :: "bool \<Rightarrow> nat \<Rightarrow> nat \<Rightarrow> dma_fault + nat" where
  "chain_chunk circular chunk_size len =
     (if circular \<and> len \<le> chunk_size * 2
      then if len \<le> 3 then Inl FaultTooSmall else Inr (len div 3 + len mod 3)
      else Inr chunk_size)"

definition chain_fill ::
  "(dma_descriptor \<Rightarrow> nat \<Rightarrow> dma_descriptor) \<Rightarrow> bool \<Rightarrow> bool \<Rightarrow> bool \<Rightarrow> bool \<Rightarrow> nat \<Rightarrow> nat \<Rightarrow> dma_descriptor list \<Rightarrow>
     (dma_descriptor list \<times> (dma_fault + unit)) option" where
  "chain_fill prepare first_ok last_ok data_ok circular chunk_size len ds =
     (if \<not> first_ok then Some (ds, Inl FaultMemoryRegion)
      else if ds = [] then None
      else if \<not> last_ok \<or> \<not> data_ok then Some (ds, Inl FaultMemoryRegion)
      else case chain_chunk circular chunk_size len of
        Inl e \<Rightarrow> Some (ds, Inl e)
      | Inr c \<Rightarrow>
          do { (ds, res) \<leftarrow> set_up_buffer_ptrs len c circular ds;
               (case res of
                  Inl e \<Rightarrow> Some (ds, Inl (fault_of e))
                | Inr _ \<Rightarrow> map_option (\<lambda>(ds, res). (ds, map_sum fault_of id res)) (set_up_descriptors prepare len c circular ds)) })"

definition fill_for_rx :: "bool \<Rightarrow> bool \<Rightarrow> bool \<Rightarrow> bool \<Rightarrow> nat \<Rightarrow> nat \<Rightarrow> dma_descriptor list \<Rightarrow> (dma_descriptor list \<times> (dma_fault + unit)) option" where
  "fill_for_rx = chain_fill (\<lambda>d _. reset_for_rx d)"

definition fill_for_tx :: "bool \<Rightarrow> bool \<Rightarrow> bool \<Rightarrow> bool \<Rightarrow> nat \<Rightarrow> nat \<Rightarrow> dma_descriptor list \<Rightarrow> (dma_descriptor list \<times> (dma_fault + unit)) option" where
  "fill_for_tx first_ok last_ok data_ok is_circular =
     chain_fill (\<lambda>d n. desc_set_length n (reset_for_tx (d_next d = None \<or> is_circular) d)) first_ok last_ok data_ok is_circular"

lemma three_chunks:
  assumes "3 < len" "c = len div 3 + len mod 3"
  shows "descriptor_count len c True = Some 3" "len \<le> 3 * c" "0 < c" "c < len" "len \<le> 2 * c \<longleftrightarrow> len \<in> {4, 5, 8}"
proof -
  obtain q r where qr: "len = 3 * q + r" "r < 3" "len div 3 = q" "len mod 3 = r"
    using mult_div_mod_eq [of 3 len] by force
  then have c: "c = q + r" "1 \<le> q" using assms by auto
  have r: "r = 0 \<or> r = 1 \<or> r = 2" using qr(2) by linarith
  show "len \<le> 3 * c" "0 < c" "c < len" using c qr(1) assms(1) by auto
  have "len \<le> 2 * c \<longleftrightarrow> q \<le> r" using c qr(1) by auto
  moreover have "q \<le> r \<longleftrightarrow> len = 4 \<or> len = 5 \<or> len = 8" using c(2) qr(1) r assms(1) by presburger
  ultimately show "len \<le> 2 * c \<longleftrightarrow> len \<in> {4, 5, 8}" by simp
  have "(len + c - 1) div c = 3" if "\<not> len \<le> 2 * c"
    using that c qr(1) by (intro div_nat_eqI) auto
  then show "descriptor_count len c True = Some 3" using \<open>0 < c\<close> \<open>c < len\<close> by (auto simp: descriptor_count_def)
qed

text \<open>The ring of three descriptors a short circular transmission is cut into.\<close>

lemma circular_ring:
  assumes "3 < len" "len \<le> 2 * chunk_size" "chunk_size < 4096" "c = len div 3 + len mod 3"
  shows "\<exists>d0 d1 d2. fill_for_tx True True True True chunk_size len [a0, a1, a2] = Some ([d0, d1, d2], Inr ()) \<and>
    d_next d0 = Some 1 \<and> d_next d1 = Some 2 \<and> d_next d2 = Some 0 \<and>
    desc_len d0 = c \<and> desc_len d1 = min c (len - c) \<and> desc_len d2 = len - 2 * c \<and>
    d_buffer d0 = Some 0 \<and> d_buffer d1 = Some c \<and> d_buffer d2 = (if 2 * c < len then Some (2 * c) else d_buffer a2) \<and>
    (\<forall>d\<in>{d0, d1, d2}. d_owner d = OwnerDma \<and> d_suc_eof d)"
proof -
  note t = three_chunks [OF assms(1,4)]
  have l12: "len - c = (len - min c len)" "min c len = c" "min c (len - 2 * c) = len - 2 * c" using t by auto
  have "c < 4096" using assms by simp
  then have small: "c < 4096" "min c (len - c) < 4096" "len - 2 * c < 4096" using t(2) by simp_all
  have cc: "chain_chunk True chunk_size len = Inr c" using assms by (simp add: chain_chunk_def)
  have dn: "descriptors_for_buffer_len (Suc (Suc (Suc 0))) len c True = Some (Inr 3)" by (simp add: descriptors_for_buffer_len_def t(1))
  have pe: "point_each c 0 len [a0, a1, a2] =
      [(desc_set_size c a0)\<lparr>d_buffer := Some 0\<rparr>, (desc_set_size (min c (len - c)) a1)\<lparr>d_buffer := Some c\<rparr>,
       if 2 * c < len then (desc_set_size (len - 2 * c) a2)\<lparr>d_buffer := Some (2 * c)\<rparr> else a2]"
  proof (cases "2 * c < len")
    case True
    then have "min c len = c" "min c (len - c) = c" "min c (len - c - c) = len - 2 * c" "0 < len - c - c"
      using t(2) by simp_all
    then show ?thesis using True t(3,4) by (simp add: Let_def mult_2)
  next
    case False
    then have "min c len = c" "min c (len - c) = len - c" "0 < len - c" using t(4) by simp_all
    then show ?thesis using False t(3,4) by (simp add: Let_def)
  qed
  have pr: "prepare_each p c len [x0, x1, x2] = (0, [p x0 c, p x1 (min c (len - c)), p x2 (len - 2 * c)])" for p x0 x1 x2
  proof -
    have "min c len = c" "len - c - min c (len - c) = len - 2 * c" "min c (len - 2 * c) = len - 2 * c" "len - 2 * c \<le> c"
      using t(2,4) by linarith+
    then show ?thesis by (simp add: Let_def)
  qed
  let ?p = "\<lambda>d n. desc_set_length n (reset_for_tx (d_next d = None \<or> True) d)"
  have fill: "fill_for_tx True True True True chunk_size len [a0, a1, a2] =
      Some (snd (prepare_each ?p c len (link_up (Some 0) (point_each c 0 len [a0, a1, a2]))), Inr ())"
    using t(3) by (simp add: fill_for_tx_def chain_fill_def cc set_up_buffer_ptrs_def set_up_descriptors_def dn pe link_up_def pr
        del: point_each.simps prepare_each.simps)
  show ?thesis
    using small unfolding fill pe by (simp add: link_up_def pr desc_stored numeral_2_eq_2 del: prepare_each.simps)
qed

text \<open>
  C35. A short circular transmission becomes a ring of three descriptors whose lengths add up to the
  buffer; for buffers of 4, 5 and 8 bytes, and only for those, the last one of the ring is empty and keeps the pointer
  it had before.
\<close>

theorem circular_chain:
  assumes "3 < len" "len \<le> 2 * chunk_size" "chunk_size < 4096"
  shows "\<exists>d0 d1 d2. fill_for_tx True True True True chunk_size len [a0, a1, a2] = Some ([d0, d1, d2], Inr ()) \<and>
    d_next d0 = Some 1 \<and> d_next d1 = Some 2 \<and> d_next d2 = Some 0 \<and>
    desc_len d0 + desc_len d1 + desc_len d2 = len \<and> 0 < desc_len d0 \<and> 0 < desc_len d1 \<and>
    (desc_len d2 = 0) = (len \<in> {4, 5, 8}) \<and> (len \<in> {4, 5, 8} \<longrightarrow> d_buffer d2 = d_buffer a2)"
proof -
  define c where "c = len div 3 + len mod 3"
  note t = three_chunks [OF assms(1) c_def]
  have empty: "len - 2 * c = 0 \<longleftrightarrow> len \<in> {4, 5, 8}" using t(5) by simp
  have sum: "c + min c (len - c) + (len - 2 * c) = len" "0 < min c (len - c)" using t(2-4) by linarith+
  have stale: "\<not> 2 * c < len" if "len \<in> {4, 5, 8}" using that t(5) by simp
  obtain d0 d1 d2 where r: "fill_for_tx True True True True chunk_size len [a0, a1, a2] = Some ([d0, d1, d2], Inr ())"
      "d_next d0 = Some 1" "d_next d1 = Some 2" "d_next d2 = Some 0"
      "desc_len d0 = c" "desc_len d1 = min c (len - c)" "desc_len d2 = len - 2 * c"
      "d_buffer d2 = (if 2 * c < len then Some (2 * c) else d_buffer a2)"
    using circular_ring [OF assms c_def, of a0 a1 a2] by blast
  have "len \<in> {4, 5, 8} \<longrightarrow> d_buffer d2 = d_buffer a2" using r(8) stale by simp
  then show ?thesis using r(1-7) t(3) sum empty by (intro exI [where x = d0] exI [where x = d1] exI [where x = d2]) simp
qed

theorem circular_chain_witness:
  "\<exists>d0 d1 d2. fill_for_tx True True True True 4092 8 [empty_descriptor, empty_descriptor, empty_descriptor] = Some ([d0, d1, d2], Inr ()) \<and>
    desc_len d0 + desc_len d1 + desc_len d2 = 8 \<and> desc_len d2 = 0 \<and> d_buffer d2 = None"
  using circular_chain [of 8 4092 empty_descriptor empty_descriptor empty_descriptor] by (auto simp: empty_descriptor_def)

end
