(* ===== verification/Dma_Buffers.thy ===== *)
theory Dma_Buffers
  imports Dma_Descriptors
begin

text \<open>
  The buffers the DMA controller reads and writes (\<open>esp-hal-patched/src/dma/buffers.rs\<close>): the checks of
  memory and alignment, \<open>DmaTxBuf\<close> and \<open>DmaRxBuf\<close>.  The ranges of the memories are parameters; the cache
  is left out.
\<close>

section \<open>Memory and bursts\<close>

record dma_memory =
  dram_range :: "nat \<times> nat"
  psram_range :: "nat \<times> nat"

definition addr_in_range :: "nat \<Rightarrow> nat \<times> nat \<Rightarrow> bool" where
  "addr_in_range addr r \<longleftrightarrow> fst r \<le> addr \<and> addr < snd r"

definition slice_in_range :: "nat \<Rightarrow> nat \<Rightarrow> nat \<times> nat \<Rightarrow> bool" where
  "slice_in_range addr len r \<longleftrightarrow> addr_in_range addr r \<and> addr + len \<le> snd r"

datatype transfer_direction = DirIn | DirOut

datatype external_burst = Size16 | Size32 | Size64

fun external_bytes :: "external_burst \<Rightarrow> nat" where
  "external_bytes Size16 = 16" | "external_bytes Size32 = 32" | "external_bytes Size64 = 64"

datatype internal_burst = BurstDisabled | BurstEnabled

record burst_config =
  external_memory :: external_burst
  internal_memory :: internal_burst

definition default_burst :: burst_config where
  "default_burst = \<lparr>external_memory = Size16, internal_memory = BurstDisabled\<rparr>"

definition min_psram_alignment :: "external_burst \<Rightarrow> transfer_direction \<Rightarrow> nat" where
  "min_psram_alignment e dir = (if dir = DirIn then external_bytes e else 1)"

definition min_dram_alignment :: "internal_burst \<Rightarrow> transfer_direction \<Rightarrow> nat" where
  "min_dram_alignment i dir = (if dir = DirIn then if i \<noteq> BurstDisabled then 4 else 1 else 1)"

definition min_compatible_alignment :: "burst_config \<Rightarrow> nat" where
  "min_compatible_alignment b =
     max (max (min_dram_alignment (internal_memory b) DirIn) (min_dram_alignment (internal_memory b) DirOut))
       (external_bytes (external_memory b))"

definition chunk_size_for_alignment :: "nat \<Rightarrow> nat" where
  "chunk_size_for_alignment alignment = 4096 - alignment"

definition max_compatible_chunk_size :: "burst_config \<Rightarrow> nat" where
  "max_compatible_chunk_size b = chunk_size_for_alignment (min_compatible_alignment b)"

definition min_alignment :: "dma_memory \<Rightarrow> burst_config \<Rightarrow> nat \<Rightarrow> transfer_direction \<Rightarrow> nat" where
  "min_alignment mem b addr dir =
     (let alignment = min_dram_alignment (internal_memory b) dir in
      if addr_in_range addr (psram_range mem) then max alignment (min_psram_alignment (external_memory b) dir) else alignment)"

definition max_chunk_size_for :: "dma_memory \<Rightarrow> burst_config \<Rightarrow> nat \<Rightarrow> transfer_direction \<Rightarrow> nat" where
  "max_chunk_size_for mem b addr dir = chunk_size_for_alignment (min_alignment mem b addr dir)"

definition ensure_buffer_aligned :: "dma_memory \<Rightarrow> burst_config \<Rightarrow> nat \<Rightarrow> nat \<Rightarrow> transfer_direction \<Rightarrow> dma_alignment_error + unit" where
  "ensure_buffer_aligned mem b addr len dir =
     (let alignment = min_alignment mem b addr dir in
      if addr mod alignment \<noteq> 0 then Inl UnalignedAddress
      else if dir = DirIn \<and> len mod alignment \<noteq> 0 then Inl UnalignedSize
      else Inr ())"

definition ensure_buffer_compatible :: "dma_memory \<Rightarrow> burst_config \<Rightarrow> nat \<Rightarrow> nat \<Rightarrow> transfer_direction \<Rightarrow> dma_buf_error + unit" where
  "ensure_buffer_compatible mem b addr len dir =
     (if \<not> (slice_in_range addr len (dram_range mem) \<or> slice_in_range addr len (psram_range mem)) then Inl UnsupportedMemoryRegion
      else map_sum InvalidAlignment id (ensure_buffer_aligned mem b addr len dir))"

section \<open>Buffers\<close>

record dma_buf =
  bf_descs :: "dma_descriptor list"
  bf_addr :: nat
  bf_data :: "u8 list"
  bf_burst :: burst_config

text \<open>A step on the descriptors, and the next one if it went well.\<close>

definition on_descs ::
  "(dma_descriptor list \<Rightarrow> (dma_descriptor list \<times> (dma_buf_error + unit)) option) \<Rightarrow> dma_buf \<Rightarrow> (dma_buf \<times> (dma_buf_error + unit)) option" where
  "on_descs f b = map_option (\<lambda>(ds, r). (b\<lparr>bf_descs := ds\<rparr>, r)) (f (bf_descs b))"

definition and_ok ::
  "(dma_buf \<times> (dma_buf_error + unit)) option \<Rightarrow> (dma_buf \<Rightarrow> (dma_buf \<times> (dma_buf_error + unit)) option) \<Rightarrow> (dma_buf \<times> (dma_buf_error + unit)) option" where
  "and_ok m f = (case m of Some (b, Inr _) \<Rightarrow> f b | r \<Rightarrow> r)"

definition descriptor_set_new :: "dma_memory \<Rightarrow> nat \<Rightarrow> dma_descriptor list \<Rightarrow> dma_buf_error + dma_descriptor list" where
  "descriptor_set_new mem addr ds =
     (if slice_in_range addr (12 * length ds) (dram_range mem) then Inr (map (\<lambda>_. empty_descriptor) ds) else Inl UnsupportedMemoryRegion)"

subsection \<open>Transmission\<close>

definition tx_len :: "dma_buf \<Rightarrow> nat" where
  "tx_len b = sum_list (map desc_len (linked (bf_descs b)))"

definition tx_set_length_fallible :: "dma_memory \<Rightarrow> nat \<Rightarrow> burst_config \<Rightarrow> dma_buf \<Rightarrow> (dma_buf \<times> (dma_buf_error + unit)) option" where
  "tx_set_length_fallible mem len burst b =
     (if length (bf_data b) < len then Some (b, Inl BufferTooSmall)
      else case ensure_buffer_compatible mem burst (bf_addr b) len DirOut of
        Inl e \<Rightarrow> Some (b, Inl e)
      | Inr _ \<Rightarrow> and_ok (on_descs (set_tx_length len (max_chunk_size_for mem burst (bf_addr b) DirOut)) b)
          (\<lambda>b. Some (b\<lparr>bf_descs := map_linked (\<lambda>d. reset_for_tx (d_next d = None) d) (bf_descs b)\<rparr>, Inr ())))"

definition tx_configure :: "dma_memory \<Rightarrow> burst_config \<Rightarrow> nat \<Rightarrow> dma_buf \<Rightarrow> (dma_buf \<times> (dma_buf_error + unit)) option" where
  "tx_configure mem burst len b =
     and_ok (tx_set_length_fallible mem len burst b) (\<lambda>b.
     and_ok (on_descs (link_with_buffer (length (bf_data b)) (max_chunk_size_for mem burst (bf_addr b) DirOut)) b) (\<lambda>b.
     Some (b\<lparr>bf_burst := burst\<rparr>, Inr ())))"

definition tx_new_with_config ::
  "dma_memory \<Rightarrow> nat \<Rightarrow> dma_descriptor list \<Rightarrow> nat \<Rightarrow> u8 list \<Rightarrow> burst_config \<Rightarrow> (dma_buf_error + dma_buf) option" where
  "tx_new_with_config mem descs_addr ds addr buffer config =
     (case descriptor_set_new mem descs_addr ds of
        Inl e \<Rightarrow> Some (Inl e)
      | Inr ds \<Rightarrow> map_option (\<lambda>(b, r). map_sum id (\<lambda>_. b) r)
          (tx_configure mem config (length buffer) \<lparr>bf_descs = ds, bf_addr = addr, bf_data = buffer, bf_burst = default_burst\<rparr>))"

definition tx_new :: "dma_memory \<Rightarrow> nat \<Rightarrow> dma_descriptor list \<Rightarrow> nat \<Rightarrow> u8 list \<Rightarrow> (dma_buf_error + dma_buf) option" where
  "tx_new mem descs_addr ds addr buffer = tx_new_with_config mem descs_addr ds addr buffer default_burst"

definition tx_set_burst_config :: "dma_memory \<Rightarrow> burst_config \<Rightarrow> dma_buf \<Rightarrow> (dma_buf \<times> (dma_buf_error + unit)) option" where
  "tx_set_burst_config mem burst b = tx_configure mem burst (tx_len b) b"

definition unwrap_buf :: "(dma_buf \<times> (dma_buf_error + unit)) option \<Rightarrow> dma_buf option" where
  "unwrap_buf m = (case m of Some (b, Inr _) \<Rightarrow> Some b | _ \<Rightarrow> None)"

definition tx_set_length :: "dma_memory \<Rightarrow> nat \<Rightarrow> dma_buf \<Rightarrow> dma_buf option" where
  "tx_set_length mem len b = unwrap_buf (tx_set_length_fallible mem len (bf_burst b) b)"

definition tx_fill :: "dma_memory \<Rightarrow> u8 list \<Rightarrow> dma_buf \<Rightarrow> dma_buf option" where
  "tx_fill mem bytes b = map_option (\<lambda>b. b\<lparr>bf_data := bytes @ drop (length bytes) (bf_data b)\<rparr>) (tx_set_length mem (length bytes) b)"

subsection \<open>Reception\<close>

definition rx_len :: "dma_buf \<Rightarrow> nat" where
  "rx_len b = sum_list (map desc_size (linked (bf_descs b)))"

definition rx_set_length_fallible :: "dma_memory \<Rightarrow> nat \<Rightarrow> burst_config \<Rightarrow> dma_buf \<Rightarrow> (dma_buf \<times> (dma_buf_error + unit)) option" where
  "rx_set_length_fallible mem len burst b =
     (if length (bf_data b) < len then Some (b, Inl BufferTooSmall)
      else case ensure_buffer_compatible mem burst (bf_addr b) len DirIn of
        Inl e \<Rightarrow> Some (b, Inl e)
      | Inr _ \<Rightarrow> on_descs (set_rx_length len (max_chunk_size_for mem burst (bf_addr b) DirIn)) b)"

definition rx_configure :: "dma_memory \<Rightarrow> burst_config \<Rightarrow> nat \<Rightarrow> dma_buf \<Rightarrow> (dma_buf \<times> (dma_buf_error + unit)) option" where
  "rx_configure mem burst len b =
     and_ok (rx_set_length_fallible mem len burst b) (\<lambda>b.
     and_ok (on_descs (link_with_buffer (length (bf_data b)) (max_chunk_size_for mem burst (bf_addr b) DirIn)) b) (\<lambda>b.
     Some (b\<lparr>bf_burst := burst\<rparr>, Inr ())))"

definition rx_new_with_config ::
  "dma_memory \<Rightarrow> nat \<Rightarrow> dma_descriptor list \<Rightarrow> nat \<Rightarrow> u8 list \<Rightarrow> burst_config \<Rightarrow> (dma_buf_error + dma_buf) option" where
  "rx_new_with_config mem descs_addr ds addr buffer config =
     (case descriptor_set_new mem descs_addr ds of
        Inl e \<Rightarrow> Some (Inl e)
      | Inr ds \<Rightarrow> map_option (\<lambda>(b, r). map_sum id (\<lambda>_. b) r)
          (rx_configure mem config (length buffer) \<lparr>bf_descs = ds, bf_addr = addr, bf_data = buffer, bf_burst = default_burst\<rparr>))"

definition rx_new :: "dma_memory \<Rightarrow> nat \<Rightarrow> dma_descriptor list \<Rightarrow> nat \<Rightarrow> u8 list \<Rightarrow> (dma_buf_error + dma_buf) option" where
  "rx_new mem descs_addr ds addr buffer = rx_new_with_config mem descs_addr ds addr buffer default_burst"

definition rx_set_burst_config :: "dma_memory \<Rightarrow> burst_config \<Rightarrow> dma_buf \<Rightarrow> (dma_buf \<times> (dma_buf_error + unit)) option" where
  "rx_set_burst_config mem burst b = rx_configure mem burst (rx_len b) b"

definition rx_set_length :: "dma_memory \<Rightarrow> nat \<Rightarrow> dma_buf \<Rightarrow> dma_buf option" where
  "rx_set_length mem len b = unwrap_buf (rx_set_length_fallible mem len (bf_burst b) b)"

definition rx_prepare :: "dma_buf \<Rightarrow> dma_buf" where
  "rx_prepare b = b\<lparr>bf_descs := map_linked reset_for_rx (bf_descs b)\<rparr>"

definition number_of_received_bytes :: "dma_buf \<Rightarrow> nat" where
  "number_of_received_bytes b = sum_list (map desc_len (linked (bf_descs b)))"

definition received_data :: "dma_buf \<Rightarrow> u8 list list" where
  "received_data b = map (\<lambda>d. take (desc_len d) (drop (case d_buffer d of Some off \<Rightarrow> off | None \<Rightarrow> 0) (bf_data b))) (linked (bf_descs b))"

text \<open>The loop of \<open>read_received_data\<close> over what is left of the destination; \<open>split_at_mut\<close> panics past its end.\<close>

fun copy_chunks :: "u8 list list \<Rightarrow> u8 list \<Rightarrow> (u8 list \<times> u8 list) option" where
  "copy_chunks [] buf = Some ([], buf)"
| "copy_chunks (chunk # chunks) buf =
     (if buf = [] then Some ([], buf)
      else if length buf < length chunk then None
      else map_option (\<lambda>(out, rest). (chunk @ out, rest)) (copy_chunks chunks (drop (length chunk) buf)))"

definition read_received_data :: "u8 list \<Rightarrow> dma_buf \<Rightarrow> (u8 list \<times> nat) option" where
  "read_received_data buf b =
     map_option (\<lambda>(out, rest). (out @ rest, length buf - length rest)) (copy_chunks (received_data b) buf)"

section \<open>Transmission\<close>

lemma tx_chunk [simp]: "max_chunk_size_for mem burst addr DirOut = 4095"
  by (simp add: max_chunk_size_for_def min_alignment_def min_dram_alignment_def min_psram_alignment_def chunk_size_for_alignment_def Let_def)

lemma tx_compatible:
  "slice_in_range addr cap (dram_range mem) \<Longrightarrow> n \<le> cap \<Longrightarrow> ensure_buffer_compatible mem burst addr n DirOut = Inr ()"
  by (simp add: ensure_buffer_compatible_def ensure_buffer_aligned_def min_alignment_def min_dram_alignment_def
      min_psram_alignment_def slice_in_range_def Let_def)

text \<open>The chain transmits \<open>n\<close> bytes; the pointers cover the buffer.\<close>

definition chain_sends :: "nat \<Rightarrow> dma_descriptor list \<Rightarrow> bool" where
  "chain_sends n ds \<longleftrightarrow> links_for n 4095 ds \<and> (\<forall>i<chunk_count n 4095. d_owner (ds ! i) = OwnerDma \<and>
     desc_len (ds ! i) = min 4095 (n - i * 4095) \<and> d_suc_eof (ds ! i) = (Suc i = chunk_count n 4095))"

definition points :: "nat \<Rightarrow> nat \<Rightarrow> dma_descriptor list \<Rightarrow> bool" where
  "points cap c ds \<longleftrightarrow> chunk_count cap c \<le> length ds \<and> (\<forall>i. i * c < cap \<longrightarrow> d_buffer (ds ! i) = Some (i * c))"

lemma linked_links: "0 < c \<Longrightarrow> links_for n c ds \<Longrightarrow> linked ds = take (chunk_count n c) ds"
  using chunk_count_bounds(1) [of c n] by (intro linked_take [where f = Suc]) (auto simp: links_for_def)

lemma tx_lengths:
  assumes "chunk_count n 4095 \<le> length (bf_descs b)" "n \<le> length (bf_data b)"
    "ensure_buffer_compatible mem burst (bf_addr b) n DirOut = Inr ()"
  shows "\<exists>ds. tx_set_length_fallible mem n burst b = Some (b\<lparr>bf_descs := ds\<rparr>, Inr ()) \<and> length ds = length (bf_descs b) \<and> chain_sends n ds \<and>
    (\<forall>i<length ds. d_buffer (ds ! i) = d_buffer (bf_descs b ! i))"
proof -
  let ?k = "chunk_count n 4095"
  obtain ds where ds: "set_tx_length n 4095 (bf_descs b) = Some (ds, Inr ())" "length ds = length (bf_descs b)" "links_for n 4095 ds"
    "\<And>i. i < length ds \<Longrightarrow> ds ! i = (if i < ?k
       then desc_set_length (min 4095 (n - i * 4095)) ((bf_descs b ! i)\<lparr>d_next := if Suc i < ?k then Some (Suc i) else None\<rparr>) else bf_descs b ! i)"
    using set_up_linear [of 4095 n "bf_descs b" "\<lambda>d n. desc_set_length n d"] assms(1) unfolding set_tx_length_def by auto
  let ?g = "\<lambda>d. reset_for_tx (d_next d = None) d"
  have k: "?k \<le> length ds" "0 < ?k" using assms(1) ds(2) chunk_count_bounds(1) [of 4095 n] by simp_all
  have at: "map_linked ?g ds ! i = (if i < ?k then ?g (ds ! i) else ds ! i)" if "i < length ds" for i
    using that k ds(3) by (intro map_linked_nth [where f = Suc]) (auto simp: links_for_def)
  have "chain_sends n (map_linked ?g ds)"
    using ds(3) k unfolding chain_sends_def links_for_def by (auto simp: at ds(4) desc_stored)
  moreover have "d_buffer (map_linked ?g ds ! i) = d_buffer (bf_descs b ! i)" if "i < length ds" for i
    using that by (simp add: at ds(4))
  ultimately show ?thesis
    using assms(2,3) ds(1,2)
    by (intro exI [where x = "map_linked ?g ds"]) (simp add: tx_set_length_fallible_def on_descs_def and_ok_def)
qed

lemma link_points:
  assumes "0 < c" "c < 4096" "chunk_count (length (bf_data b)) c \<le> length (bf_descs b)"
  shows "\<exists>ds. on_descs (link_with_buffer (length (bf_data b)) c) b = Some (b\<lparr>bf_descs := ds\<rparr>, Inr ()) \<and>
    length ds = length (bf_descs b) \<and> points (length (bf_data b)) c ds \<and>
    (\<forall>i<length ds. d_next (ds ! i) = d_next (bf_descs b ! i) \<and> d_owner (ds ! i) = d_owner (bf_descs b ! i) \<and>
      desc_len (ds ! i) = desc_len (bf_descs b ! i) \<and> d_suc_eof (ds ! i) = d_suc_eof (bf_descs b ! i) \<and>
      desc_size (ds ! i) = (if i * c < length (bf_data b) then min c (length (bf_data b) - i * c) else desc_size (bf_descs b ! i)))"
proof -
  let ?cap = "length (bf_data b)"
  obtain ds where ds: "link_with_buffer ?cap c (bf_descs b) = Some (ds, Inr ())" "length ds = length (bf_descs b)"
    "\<And>i. i < length ds \<Longrightarrow> ds ! i = (if i < chunk_count ?cap c \<and> i * c < ?cap
       then (desc_set_size (min c (?cap - i * c)) (bf_descs b ! i))\<lparr>d_buffer := Some (i * c)\<rparr> else bf_descs b ! i)"
    using link_with_buffer_linear [OF assms(1,3)] by auto
  have cov: "i < chunk_count ?cap c" if "i * c < ?cap" for i
  proof -
    have "i * c < chunk_count ?cap c * c" using that chunk_count_bounds(2) [OF assms(1), of ?cap] by linarith
    then show ?thesis by simp
  qed
  have "d_buffer (ds ! i) = Some (i * c)" if "i * c < ?cap" for i
    using cov [OF that] assms(3) ds(2) that by (simp add: ds(3))
  then have "points ?cap c ds" using assms(3) ds(2) by (simp add: points_def)
  moreover have "desc_size (x\<lparr>d_buffer := z\<rparr>) = desc_size x" "desc_len (x\<lparr>d_buffer := z\<rparr>) = desc_len x" for x z
    by (simp_all add: desc_size_def desc_len_def)
  moreover have "min c m < 4096" for m using assms(2) by simp
  ultimately show ?thesis using ds(1,2) cov
    by (intro exI [where x = ds]) (auto simp: on_descs_def ds(3) desc_stored)
qed

lemma tx_points:
  assumes "chunk_count (length (bf_data b)) 4095 \<le> length (bf_descs b)" "chain_sends n (bf_descs b)"
  shows "\<exists>ds. on_descs (link_with_buffer (length (bf_data b)) 4095) b = Some (b\<lparr>bf_descs := ds\<rparr>, Inr ()) \<and>
    length ds = length (bf_descs b) \<and> chain_sends n ds \<and> points (length (bf_data b)) 4095 ds"
proof -
  obtain ds where ds: "on_descs (link_with_buffer (length (bf_data b)) 4095) b = Some (b\<lparr>bf_descs := ds\<rparr>, Inr ())"
      "length ds = length (bf_descs b)" "points (length (bf_data b)) 4095 ds"
    and same: "\<And>i. i < length ds \<Longrightarrow> d_next (ds ! i) = d_next (bf_descs b ! i) \<and> d_owner (ds ! i) = d_owner (bf_descs b ! i) \<and>
      desc_len (ds ! i) = desc_len (bf_descs b ! i) \<and> d_suc_eof (ds ! i) = d_suc_eof (bf_descs b ! i)"
    using link_points [of 4095 b] assms(1) by auto
  have "chunk_count n 4095 \<le> length ds" using assms(2) ds(2) by (simp add: chain_sends_def links_for_def)
  then have "chain_sends n ds" using assms(2) ds(2) same unfolding chain_sends_def links_for_def by simp
  then show ?thesis using ds by blast
qed

lemma min_step: "min n a + min c (n - a) = min n (a + c)" for n a c :: nat
  by linarith

text \<open>What the controller reads, and what the driver says it sends.\<close>

lemma sent_bytes:
  assumes "chain_sends n ds" "points (length buffer) 4095 ds" "n \<le> length buffer"
  shows "dma_walk (length ds) ds buffer 0 = Some (take n buffer)"
    and "sum_list (map desc_len (linked ds)) = n"
    and "map d_suc_eof (linked ds) = replicate (chunk_count n 4095 - 1) False @ [True]"
proof -
  let ?k = "chunk_count n 4095"
  have k: "0 < ?k" "?k \<le> length ds" using assms(1) chunk_count_bounds(1) [of 4095 n] by (simp_all add: chain_sends_def links_for_def)
  show "dma_walk (length ds) ds buffer 0 = Some (take n buffer)"
    using walk_linked [of 4095 n ds buffer 0 "length ds"] assms k by (simp add: chain_sends_def points_def)
  have l: "linked ds = take ?k ds" using assms(1) by (intro linked_links) (simp_all add: chain_sends_def)
  show "map d_suc_eof (linked ds) = replicate (?k - 1) False @ [True]"
    using assms(1) k unfolding l chain_sends_def by (intro nth_equalityI) (auto simp: nth_append)
  have part: "sum_list (map desc_len (take j ds)) = min n (j * 4095)" if "j \<le> ?k" for j
    using that
  proof (induction j)
    case (Suc j)
    moreover have "min n (j * 4095) + min 4095 (n - j * 4095) = min n (Suc j * 4095)" using min_step [of n "j * 4095" 4095] by (simp add: add.commute)
    ultimately show ?case using assms(1) k by (simp add: take_Suc_conv_app_nth chain_sends_def)
  qed simp
  show "sum_list (map desc_len (linked ds)) = n"
    using part [of ?k] chunk_count_bounds(2) [of 4095 n] unfolding l by simp
qed

text \<open>A run of fills.\<close>

fun tx_fills :: "dma_memory \<Rightarrow> u8 list list \<Rightarrow> dma_buf \<Rightarrow> dma_buf option" where
  "tx_fills mem [] b = Some b"
| "tx_fills mem (bytes # rest) b = (case tx_fill mem bytes b of None \<Rightarrow> None | Some b \<Rightarrow> tx_fills mem rest b)"

definition tx_ready :: "dma_memory \<Rightarrow> nat \<Rightarrow> nat \<Rightarrow> dma_buf \<Rightarrow> bool" where
  "tx_ready mem count n b \<longleftrightarrow> chain_sends n (bf_descs b) \<and> points (length (bf_data b)) 4095 (bf_descs b) \<and> n \<le> length (bf_data b) \<and>
     length (bf_descs b) = count \<and> slice_in_range (bf_addr b) (length (bf_data b)) (dram_range mem)"

lemma tx_new_ready:
  assumes "slice_in_range descs_addr (12 * length ds) (dram_range mem)" "slice_in_range addr (length buffer) (dram_range mem)"
    "chunk_count (length buffer) 4095 \<le> length ds"
  shows "\<exists>b. tx_new mem descs_addr ds addr buffer = Some (Inr b) \<and> tx_ready mem (length ds) (length buffer) b \<and> bf_data b = buffer"
proof -
  let ?b = "\<lparr>bf_descs = map (\<lambda>_. empty_descriptor) ds, bf_addr = addr, bf_data = buffer, bf_burst = default_burst\<rparr>"
  obtain ds1 where 1: "tx_set_length_fallible mem (length buffer) default_burst ?b = Some (?b\<lparr>bf_descs := ds1\<rparr>, Inr ())"
      "length ds1 = length ds" "chain_sends (length buffer) ds1"
    using tx_lengths [of "length buffer" ?b mem default_burst] tx_compatible [OF assms(2)] assms(3) by auto
  obtain ds2 where 2: "on_descs (link_with_buffer (length buffer) 4095) (?b\<lparr>bf_descs := ds1\<rparr>) = Some (?b\<lparr>bf_descs := ds2\<rparr>, Inr ())"
      "length ds2 = length ds" "chain_sends (length buffer) ds2" "points (length buffer) 4095 ds2"
    using tx_points [of "?b\<lparr>bf_descs := ds1\<rparr>" "length buffer"] 1 assms(3) by auto
  show ?thesis
    using 1(1) 2 assms(1,2)
    by (simp add: tx_new_def tx_new_with_config_def descriptor_set_new_def tx_configure_def and_ok_def tx_ready_def)
qed

lemma tx_fill_ready:
  assumes "tx_ready mem k n b" "length bytes \<le> length (bf_data b)"
  shows "\<exists>b'. tx_fill mem bytes b = Some b' \<and> tx_ready mem k (length bytes) b' \<and>
    bf_data b' = bytes @ drop (length bytes) (bf_data b)"
proof -
  have r: "points (length (bf_data b)) 4095 (bf_descs b)" "length (bf_descs b) = k"
      "slice_in_range (bf_addr b) (length (bf_data b)) (dram_range mem)"
    using assms(1) by (simp_all add: tx_ready_def)
  have "chunk_count (length bytes) 4095 \<le> length (bf_descs b)"
    using chunk_count_mono [of 4095 "length bytes" "length (bf_data b)"] assms(2) r(1) by (simp add: points_def)
  from tx_lengths [OF this assms(2) tx_compatible [OF r(3) assms(2)], of "bf_burst b"]
  obtain ds where ds: "tx_set_length_fallible mem (length bytes) (bf_burst b) b = Some (b\<lparr>bf_descs := ds\<rparr>, Inr ())"
      "length ds = k" "chain_sends (length bytes) ds" "\<And>i. i < length ds \<Longrightarrow> d_buffer (ds ! i) = d_buffer (bf_descs b ! i)"
    using r(2) by auto
  have "i < length ds" if "i * 4095 < length (bf_data b)" for i
  proof -
    have "i * 4095 < chunk_count (length (bf_data b)) 4095 * 4095"
      using that chunk_count_bounds(2) [of 4095 "length (bf_data b)"] by linarith
    then show ?thesis using r(1,2) ds(2) by (simp add: points_def)
  qed
  then have "points (length (bf_data b)) 4095 ds" using r(1,2) ds(2,4) by (simp add: points_def)
  then show ?thesis
    using ds r(3) assms(2) by (simp add: tx_fill_def tx_set_length_def unwrap_buf_def tx_ready_def)
qed

lemma tx_fills_ready:
  assumes "tx_ready mem k n b" "\<forall>d\<in>set datas. length d \<le> length (bf_data b)"
  shows "\<exists>b'. tx_fills mem datas b = Some b' \<and>
    tx_ready mem k (if datas = [] then n else length (last datas)) b' \<and> length (bf_data b') = length (bf_data b) \<and>
    take (if datas = [] then n else length (last datas)) (bf_data b') = (if datas = [] then take n (bf_data b) else last datas)"
  using assms
proof (induction datas arbitrary: b n)
  case (Cons d datas)
  obtain b1 where b1: "tx_fill mem d b = Some b1" "tx_ready mem k (length d) b1" "bf_data b1 = d @ drop (length d) (bf_data b)"
    using tx_fill_ready [OF Cons.prems(1)] Cons.prems(2) by auto
  have l: "length (bf_data b1) = length (bf_data b)" using b1(3) Cons.prems(2) by simp
  from Cons.IH [OF b1(2)] Cons.prems(2) l show ?case using b1 by (auto split: if_splits)
qed simp

section \<open>Properties of transmission\<close>

text \<open>
  C15. A transmission buffer sends what it was filled with: the controller, following the links of the
  descriptors, reads the whole buffer of a new one, and after any run of fills exactly the bytes of the
  last; the length agrees and only the last descriptor ends the transfer.
\<close>

theorem dma_tx_stream:
  assumes "slice_in_range descs_addr (12 * length ds) (dram_range mem)" "slice_in_range addr (length buffer) (dram_range mem)"
    "chunk_count (length buffer) 4095 \<le> length ds" "\<forall>d\<in>set datas. length d \<le> length buffer"
  shows "\<exists>b b'. tx_new mem descs_addr ds addr buffer = Some (Inr b) \<and> tx_fills mem datas b = Some b' \<and>
    (let sent = (if datas = [] then buffer else last datas) in
      dma_walk (length ds) (bf_descs b') (bf_data b') 0 = Some sent \<and> tx_len b' = length sent \<and>
      map d_suc_eof (linked (bf_descs b')) = replicate (chunk_count (length sent) 4095 - 1) False @ [True])"
proof -
  obtain b where b: "tx_new mem descs_addr ds addr buffer = Some (Inr b)" "tx_ready mem (length ds) (length buffer) b" "bf_data b = buffer"
    using tx_new_ready [OF assms(1-3)] by blast
  let ?n = "if datas = [] then length buffer else length (last datas)"
  obtain b' where b': "tx_fills mem datas b = Some b'" "tx_ready mem (length ds) ?n b'"
      "take ?n (bf_data b') = (if datas = [] then buffer else last datas)"
    using tx_fills_ready [OF b(2), of datas] assms(4) unfolding b(3) by auto
  have "?n \<le> length (bf_data b')" "chain_sends ?n (bf_descs b')" "points (length (bf_data b')) 4095 (bf_descs b')" "length (bf_descs b') = length ds"
    using b'(2) by (simp_all add: tx_ready_def)
  from sent_bytes [OF this(2,3,1)] this(4) show ?thesis
    using b(1) b'(1,3) by (auto simp: Let_def tx_len_def)
qed

text \<open>
  What a transmission buffer refuses: descriptors outside the internal RAM, a buffer in no memory of
  the controller and too few descriptors are errors of the constructor, and filling it with more bytes than it
  holds is a panic.
\<close>

theorem dma_tx_refused:
  assumes "slice_in_range descs_addr (12 * length ds) (dram_range mem)"
  shows "\<not> slice_in_range addr (length buffer) (dram_range mem) \<and> \<not> slice_in_range addr (length buffer) (psram_range mem) \<longrightarrow>
      tx_new mem descs_addr ds addr buffer = Some (Inl UnsupportedMemoryRegion)"
    and "slice_in_range addr (length buffer) (dram_range mem) \<and> length ds < chunk_count (length buffer) 4095 \<longrightarrow>
      tx_new mem descs_addr ds addr buffer = Some (Inl InsufficientDescriptors)"
    and "length (bf_data b) < length bytes \<longrightarrow> tx_fill mem bytes b = None"
  using assms tx_compatible [of addr "length buffer" mem "length buffer" default_burst]
  by (simp_all add: tx_new_def tx_new_with_config_def descriptor_set_new_def tx_configure_def tx_set_length_fallible_def
      ensure_buffer_compatible_def and_ok_def on_descs_def set_tx_length_def set_up_refused tx_fill_def tx_set_length_def unwrap_buf_def)

section \<open>Reception\<close>

lemma rx_chunk: "0 < max_chunk_size_for mem burst addr DirIn \<and> max_chunk_size_for mem burst addr DirIn < 4096"
  by (cases "external_memory burst")
    (auto simp: max_chunk_size_for_def min_alignment_def min_dram_alignment_def min_psram_alignment_def chunk_size_for_alignment_def Let_def max_def)

text \<open>The chain takes \<open>n\<close> bytes, in chunks of \<open>c\<close>.\<close>

definition takes :: "nat \<Rightarrow> nat \<Rightarrow> dma_descriptor list \<Rightarrow> bool" where
  "takes n c ds \<longleftrightarrow> links_for n c ds \<and> (\<forall>i<chunk_count n c. desc_size (ds ! i) = min c (n - i * c))"

lemma sum_chunks:
  assumes "0 < c" "links_for n c ds" "\<And>i. i < chunk_count n c \<Longrightarrow> f (ds ! i) = min c (m - i * c)" "m \<le> chunk_count n c * c"
  shows "sum_list (map f (linked ds)) = m"
proof -
  let ?k = "chunk_count n c"
  have k: "?k \<le> length ds" using assms(2) by (simp add: links_for_def)
  have part: "sum_list (map f (take j ds)) = min m (j * c)" if "j \<le> ?k" for j
    using that
  proof (induction j)
    case (Suc j)
    moreover have "min m (j * c) + min c (m - j * c) = min m (Suc j * c)" using min_step [of m "j * c" c] by (simp add: add.commute)
    ultimately show ?case using assms(3) k by (simp add: take_Suc_conv_app_nth)
  qed simp
  show ?thesis using part [of ?k] assms(4) by (simp add: linked_links [OF assms(1,2)])
qed

lemma takes_len: "0 < c \<Longrightarrow> takes n c ds \<Longrightarrow> sum_list (map desc_size (linked ds)) = n"
  using chunk_count_bounds(2) [of c n] by (intro sum_chunks) (auto simp: takes_def)

lemma rx_lengths:
  assumes c: "c = max_chunk_size_for mem burst (bf_addr b) DirIn" and "chunk_count n c \<le> length (bf_descs b)" "n \<le> length (bf_data b)"
    "ensure_buffer_compatible mem burst (bf_addr b) n DirIn = Inr ()"
  shows "\<exists>ds. rx_set_length_fallible mem n burst b = Some (b\<lparr>bf_descs := ds\<rparr>, Inr ()) \<and> length ds = length (bf_descs b) \<and> takes n c ds \<and>
    (\<forall>i<length ds. d_buffer (ds ! i) = d_buffer (bf_descs b ! i))"
proof -
  have c0: "0 < c" "c < 4096" using rx_chunk c by auto
  obtain ds where ds: "set_rx_length n c (bf_descs b) = Some (ds, Inr ())" "length ds = length (bf_descs b)" "links_for n c ds"
    "\<And>i. i < length ds \<Longrightarrow> ds ! i = (if i < chunk_count n c
       then desc_set_size (min c (n - i * c)) ((bf_descs b ! i)\<lparr>d_next := if Suc i < chunk_count n c then Some (Suc i) else None\<rparr>) else bf_descs b ! i)"
    using set_up_linear [of c n "bf_descs b" "\<lambda>d n. desc_set_size n d"] c0 assms(2) unfolding set_rx_length_def by auto
  have "min c m < 4096" for m using c0 by simp
  then have "takes n c ds" using ds(2,3) assms(2) by (simp add: takes_def ds(4) desc_stored)
  then show ?thesis
    using assms(3,4) ds(1,2) by (intro exI [where x = ds]) (simp add: rx_set_length_fallible_def on_descs_def c [symmetric] ds(4))
qed

text \<open>
  The controller's side: it fills the linked descriptors in order, each to its size, and stores how many
  bytes it put there.
\<close>

fun dma_store :: "u8 list \<Rightarrow> dma_descriptor list \<Rightarrow> u8 list \<Rightarrow> dma_descriptor list \<times> u8 list" where
  "dma_store bytes [] buffer = ([], buffer)"
| "dma_store bytes (d # ds) buffer =
     (let n = min (desc_size d) (length bytes);
          buffer = (case d_buffer d of Some off \<Rightarrow> overwrite off (take n bytes) buffer | None \<Rightarrow> buffer);
          (rest, buffer) = (if d_next d = None then (ds, buffer) else dma_store (drop n bytes) ds buffer)
      in ((desc_set_length n d)\<lparr>d_owner := OwnerCpu\<rparr> # rest, buffer))"

definition dma_receive :: "u8 list \<Rightarrow> dma_buf \<Rightarrow> dma_buf" where
  "dma_receive bytes b = (case dma_store bytes (bf_descs b) (bf_data b) of (ds, buffer) \<Rightarrow> b\<lparr>bf_descs := ds, bf_data := buffer\<rparr>)"

definition slice_of :: "u8 list \<Rightarrow> dma_descriptor \<Rightarrow> u8 list" where
  "slice_of buffer d = take (desc_len d) (drop (case d_buffer d of Some off \<Rightarrow> off | None \<Rightarrow> 0) buffer)"

text \<open>A run of \<open>k\<close> linked descriptors for \<open>n\<close> bytes from offset \<open>a\<close> on.\<close>

fun run_from :: "nat \<Rightarrow> nat \<Rightarrow> nat \<Rightarrow> nat \<Rightarrow> dma_descriptor list \<Rightarrow> bool" where
  "run_from c a n k [] \<longleftrightarrow> False"
| "run_from c a n k (d # ds) \<longleftrightarrow> desc_size d = min c n \<and> (0 < n \<longrightarrow> d_buffer d = Some a) \<and>
     (if k = Suc 0 then d_next d = None \<and> n \<le> c else d_next d \<noteq> None \<and> c < n \<and> run_from c (a + c) (n - c) (k - 1) ds)"

lemma dma_store_run:
  assumes "run_from c a n k ds" "0 < c" "c < 4096" "length bytes \<le> n" "a + n \<le> length buffer"
    and "dma_store bytes ds buffer = (ds', buffer')"
  shows "length buffer' = length buffer \<and> take a buffer' = take a buffer \<and>
    concat (map (slice_of buffer') (linked ds')) = bytes \<and> sum_list (map desc_len (linked ds')) = length bytes \<and>
    (\<exists>x xs. map (slice_of buffer') (linked ds') = x # xs \<and> length x = min c (length bytes))"
  using assms
proof (induction c a n k ds arbitrary: bytes buffer ds' buffer' rule: run_from.induct)
  case (2 c a n k d ds)
  define m where "m = min (desc_size d) (length bytes)"
  have m: "m = min c (length bytes)" "m \<le> n" "m < 4096" using "2.prems"(1,3,4) by (auto simp: m_def min_def)
  define buf where "buf = (case d_buffer d of Some off \<Rightarrow> overwrite off (take m bytes) buffer | None \<Rightarrow> buffer)"
  have buf: "length buf = length buffer \<and> take a buf = take a buffer \<and> take m (drop a buf) = take m bytes"
  proof (cases "n = 0")
    case True
    then have "m = 0" using m(2) by simp
    then show ?thesis by (simp add: buf_def overwrite_def split: option.split)
  next
    case False
    then have "buf = overwrite a (take m bytes) buffer" using "2.prems"(1) by (simp add: buf_def)
    moreover have "a \<le> length buffer" "m \<le> length bytes" "a + m \<le> length buffer" using "2.prems"(5) m(1,2) by simp_all
    ultimately show ?thesis by (simp add: overwrite_def)
  qed
  define d' where "d' = (desc_set_length m d)\<lparr>d_owner := OwnerCpu\<rparr>"
  have step: "dma_store bytes (d # ds) buffer =
      (case (if d_next d = None then (ds, buf) else dma_store (drop m bytes) ds buf) of (rest, x) \<Rightarrow> (d' # rest, x))"
    by (simp only: dma_store.simps Let_def m_def buf_def d'_def)
  have slice: "slice_of x d' = take m (drop a x)" for x
    using "2.prems"(1,4) m by (cases "n = 0") (auto simp: d'_def slice_of_def desc_len_def desc_set_length_def ucast_12)
  have len: "desc_len d' = m" "d_next d' = d_next d"
    using m(3) by (simp_all add: d'_def desc_len_def desc_set_length_def ucast_12)
  show ?case
  proof (cases "k = Suc 0")
    case True
    then have "m = length bytes" using "2.prems"(1,4) m(1) by simp
    moreover have "ds' = d' # ds" "buffer' = buf" using True "2.prems"(1,6) unfolding step by simp_all
    ultimately show ?thesis using True "2.prems"(1) buf slice len m(1) by simp
  next
    case False
    obtain rest where r: "dma_store (drop m bytes) ds buf = (rest, buffer')" "ds' = d' # rest"
      using "2.prems"(1,6) False unfolding step by (auto split: prod.splits)
    have "length (drop m bytes) \<le> n - c" "a + c + (n - c) \<le> length buf" "run_from c (a + c) (n - c) (k - 1) ds"
      using "2.prems"(1,4,5) False m(1) buf(1) by (auto simp: min_def)
    from "2.IH" [OF False this(3) "2.prems"(2,3) this(1,2) r(1)]
    have ih: "length buffer' = length buf" "take (a + c) buffer' = take (a + c) buf"
        "concat (map (slice_of buffer') (linked rest)) = drop m bytes"
        "sum_list (map desc_len (linked rest)) = length (drop m bytes)"
      by blast+
    have "take a buffer' = take a buf" using arg_cong [OF ih(2), of "take a"] by (simp add: min_def)
    moreover have "take m (drop a buffer') = take m (drop a buf)"
    proof -
      have "take c (drop a buffer') = take c (drop a buf)" using arg_cong [OF ih(2), of "drop a"] by (simp add: drop_take)
      from arg_cong [OF this, of "take m"] show ?thesis using m(1) by (simp add: min_def split: if_splits)
    qed
    moreover have "take m bytes @ drop m bytes = bytes" by simp
    moreover have "linked ds' = d' # linked rest" using r(2) len(2) "2.prems"(1) False by auto
    ultimately show ?thesis using ih buf slice len(1) m(1) by simp
  qed
qed simp

lemma run_from_takes:
  assumes "0 < c" "takes n c ds" "points cap c ds" "n \<le> cap" "j < chunk_count n c"
  shows "run_from c (j * c) (n - j * c) (chunk_count n c - j) (drop j ds)"
  using assms(5)
proof (induction "chunk_count n c - j" arbitrary: j)
  case (Suc x)
  let ?k = "chunk_count n c"
  have j: "j < length ds" using Suc.prems assms(2) by (simp add: takes_def links_for_def)
  have d: "drop j ds = ds ! j # drop (Suc j) ds" using j by (simp add: Cons_nth_drop_Suc)
  have here: "desc_size (ds ! j) = min c (n - j * c)" "0 < n - j * c \<Longrightarrow> d_buffer (ds ! j) = Some (j * c)"
      "d_next (ds ! j) = (if Suc j < ?k then Some (Suc j) else None)"
    using Suc.prems assms(2-4) by (simp_all add: takes_def links_for_def points_def)
  show ?case
  proof (cases "Suc j < ?k")
    case True
    have "Suc j * c < n" by (rule chunk_count_bounds(3) [OF assms(1) True]) simp
    moreover have "run_from c (Suc j * c) (n - Suc j * c) (?k - Suc j) (drop (Suc j) ds)"
      using Suc.hyps(2) True by (intro Suc.hyps(1)) simp_all
    moreover have "?k - j \<noteq> Suc 0" "?k - j - 1 = ?k - Suc j" "j * c + c = Suc j * c" "n - j * c - c = n - Suc j * c" using True by simp_all
    moreover have "c < n - j * c" using calculation(1) by simp
    ultimately show ?thesis unfolding d run_from.simps using here True by (simp add: add.commute)
  next
    case False
    then have "?k = Suc j" using Suc.prems by simp
    then show ?thesis using here chunk_count_bounds(2) [OF assms(1), of n] unfolding d by simp
  qed
qed simp

text \<open>Copying out: all of it into a destination that is large enough; a chunk past the end is a panic.\<close>

lemma copy_chunks_all:
  "length (concat chunks) \<le> length buf \<Longrightarrow> copy_chunks chunks buf = Some (concat chunks, drop (length (concat chunks)) buf)"
proof (induction chunks arbitrary: buf)
  case (Cons x xs)
  show ?case
  proof (cases "buf = []")
    case False
    have "copy_chunks xs (drop (length x) buf) = Some (concat xs, drop (length (concat xs)) (drop (length x) buf))"
      using Cons.prems by (intro Cons.IH) simp
    then show ?thesis using False Cons.prems by (simp add: add.commute)
  qed (use Cons.prems in simp)
qed simp

lemma read_out_all:
  assumes "concat (received_data b) = bytes" "length bytes \<le> length dest"
  shows "read_received_data dest b = Some (bytes @ drop (length bytes) dest, length bytes)"
  using copy_chunks_all [of "received_data b" dest] assms by (auto simp: read_received_data_def)

lemma read_past_end:
  "received_data b = x # xs \<Longrightarrow> 0 < length dest \<Longrightarrow> length dest < length x \<Longrightarrow> read_received_data dest b = None"
  by (cases dest) (simp_all add: read_received_data_def)

definition rx_ready :: "nat \<Rightarrow> nat \<Rightarrow> dma_buf \<Rightarrow> bool" where
  "rx_ready n c b \<longleftrightarrow> takes n c (bf_descs b) \<and> points (length (bf_data b)) c (bf_descs b) \<and> n \<le> length (bf_data b)"

lemma rx_prepare_ready:
  assumes "0 < c" "rx_ready n c b"
  shows "rx_ready n c (rx_prepare b)" "bf_data (rx_prepare b) = bf_data b"
proof -
  have "map_linked reset_for_rx (bf_descs b) ! i = (if i < chunk_count n c then reset_for_rx (bf_descs b ! i) else bf_descs b ! i)"
    if "i < length (bf_descs b)" for i
    using that assms chunk_count_bounds(1) [OF assms(1), of n]
    by (intro map_linked_nth [where f = Suc]) (auto simp: rx_ready_def takes_def links_for_def)
  moreover have "i < length (bf_descs b)" if "i * c < length (bf_data b)" for i
  proof -
    have "i * c < chunk_count (length (bf_data b)) c * c" using that chunk_count_bounds(2) [OF assms(1), of "length (bf_data b)"] by linarith
    then show ?thesis using assms(2) by (simp add: rx_ready_def points_def)
  qed
  moreover have "d_next (reset_for_rx d) = d_next d" "d_buffer (reset_for_rx d) = d_buffer d" "desc_size (reset_for_rx d) = desc_size d" for d
    by (simp_all add: reset_for_rx_def) (simp add: desc_size_def)
  ultimately show "rx_ready n c (rx_prepare b)"
    using assms(2) by (simp add: rx_prepare_def rx_ready_def takes_def links_for_def points_def)
  show "bf_data (rx_prepare b) = bf_data b" by (simp add: rx_prepare_def)
qed

lemma received:
  assumes "0 < c" "c < 4096" "rx_ready n c b" "length bytes \<le> n"
  shows "concat (received_data (dma_receive bytes b)) = bytes" "number_of_received_bytes (dma_receive bytes b) = length bytes"
    "\<exists>x xs. received_data (dma_receive bytes b) = x # xs \<and> length x = min c (length bytes)"
proof -
  obtain ds' buffer' where st: "dma_store bytes (bf_descs b) (bf_data b) = (ds', buffer')" by fastforce
  have "run_from c 0 n (chunk_count n c) (bf_descs b)"
    using run_from_takes [OF assms(1), of n "bf_descs b" "length (bf_data b)" 0] assms(3) chunk_count_bounds(1) [OF assms(1), of n]
    by (simp add: rx_ready_def)
  from dma_store_run [OF this assms(1,2,4) _ st] assms(3)
  show "concat (received_data (dma_receive bytes b)) = bytes" "number_of_received_bytes (dma_receive bytes b) = length bytes"
    "\<exists>x xs. received_data (dma_receive bytes b) = x # xs \<and> length x = min c (length bytes)"
    by (simp_all add: rx_ready_def dma_receive_def st received_data_def number_of_received_bytes_def slice_of_def [abs_def])
qed

lemma rx_set_ready:
  assumes "c = max_chunk_size_for mem burst (bf_addr b) DirIn" "points (length (bf_data b)) c (bf_descs b)" "n \<le> length (bf_data b)"
    "ensure_buffer_compatible mem burst (bf_addr b) n DirIn = Inr ()"
  shows "\<exists>ds. rx_set_length_fallible mem n burst b = Some (b\<lparr>bf_descs := ds\<rparr>, Inr ()) \<and> length ds = length (bf_descs b) \<and>
    rx_ready n c (b\<lparr>bf_descs := ds\<rparr>)"
proof -
  have c: "0 < c" using rx_chunk assms(1) by simp
  have "chunk_count n c \<le> length (bf_descs b)"
    using chunk_count_mono [OF c assms(3)] assms(2) by (simp add: points_def)
  from rx_lengths [OF assms(1) this assms(3,4)]
  obtain ds where ds: "rx_set_length_fallible mem n burst b = Some (b\<lparr>bf_descs := ds\<rparr>, Inr ())" "length ds = length (bf_descs b)" "takes n c ds"
    "\<And>i. i < length ds \<Longrightarrow> d_buffer (ds ! i) = d_buffer (bf_descs b ! i)" by blast
  have "i < length ds" if "i * c < length (bf_data b)" for i
  proof -
    have "i * c < chunk_count (length (bf_data b)) c * c" using that chunk_count_bounds(2) [OF c, of "length (bf_data b)"] by linarith
    then show ?thesis using assms(2) ds(2) by (simp add: points_def)
  qed
  then have "points (length (bf_data b)) c ds" using assms(2) ds(2,4) by (simp add: points_def)
  then show ?thesis using ds(1-3) assms(3) by (intro exI [where x = ds]) (simp add: rx_ready_def)
qed

text \<open>The pointers of the whole buffer set every size to that of its chunk, the last linked one included.\<close>

lemma rx_configured:
  assumes "c = max_chunk_size_for mem burst (bf_addr b) DirIn" "chunk_count (length (bf_data b)) c \<le> length (bf_descs b)" "n \<le> length (bf_data b)"
    "ensure_buffer_compatible mem burst (bf_addr b) n DirIn = Inr ()"
  shows "\<exists>b'. rx_configure mem burst n b = Some (b', Inr ()) \<and> bf_data b' = bf_data b \<and> bf_addr b' = bf_addr b \<and> bf_burst b' = burst \<and>
    length (bf_descs b') = length (bf_descs b) \<and> points (length (bf_data b)) c (bf_descs b') \<and> links_for n c (bf_descs b') \<and>
    (\<forall>i<chunk_count n c. desc_size (bf_descs b' ! i) = min c (length (bf_data b) - i * c))"
proof -
  have c: "0 < c" "c < 4096" using rx_chunk assms(1) by simp_all
  have k: "chunk_count n c \<le> length (bf_descs b)" using chunk_count_mono [OF c(1) assms(3)] assms(2) by simp
  obtain ds where ds: "rx_set_length_fallible mem n burst b = Some (b\<lparr>bf_descs := ds\<rparr>, Inr ())" "length ds = length (bf_descs b)" "takes n c ds"
    using rx_lengths [OF assms(1) k assms(3,4)] by blast
  obtain ds2 where ds2: "on_descs (link_with_buffer (length (bf_data b)) c) (b\<lparr>bf_descs := ds\<rparr>) = Some (b\<lparr>bf_descs := ds2\<rparr>, Inr ())"
    "length ds2 = length ds" "points (length (bf_data b)) c ds2"
    "\<And>i. i < length ds \<Longrightarrow> d_next (ds2 ! i) = d_next (ds ! i) \<and>
      desc_size (ds2 ! i) = (if i * c < length (bf_data b) then min c (length (bf_data b) - i * c) else desc_size (ds ! i))"
    using link_points [OF c, of "b\<lparr>bf_descs := ds\<rparr>"] assms(2) ds(2) by auto
  have size: "desc_size (ds2 ! i) = min c (length (bf_data b) - i * c)" if i: "i < chunk_count n c" for i
  proof (cases "i * c < length (bf_data b)")
    case False
    then have "n - i * c = 0" using assms(3) by simp
    moreover have "i < length ds" using i k ds(2) by simp
    ultimately show ?thesis using False ds2(4) ds(3) i by (simp add: takes_def)
  qed (use ds2(4) i k ds(2) in simp)
  have "links_for n c ds2" using ds(2,3) ds2(2,4) k by (simp add: takes_def links_for_def)
  then show ?thesis
    using ds(1,2) ds2 size assms(1)
    by (intro exI [where x = "b\<lparr>bf_descs := ds2, bf_burst := burst\<rparr>"]) (simp add: rx_configure_def and_ok_def)
qed

lemma rx_new_ready:
  assumes "slice_in_range descs_addr (12 * length ds) (dram_range mem)" "c = max_chunk_size_for mem default_burst addr DirIn"
    "ensure_buffer_compatible mem default_burst addr (length buffer) DirIn = Inr ()" "chunk_count (length buffer) c \<le> length ds"
  shows "\<exists>b. rx_new mem descs_addr ds addr buffer = Some (Inr b) \<and> rx_ready (length buffer) c b \<and> bf_data b = buffer \<and>
    bf_addr b = addr \<and> bf_burst b = default_burst"
proof -
  let ?b = "\<lparr>bf_descs = map (\<lambda>_. empty_descriptor) ds, bf_addr = addr, bf_data = buffer, bf_burst = default_burst\<rparr>"
  show ?thesis
    using rx_configured [of c mem default_burst ?b "length buffer"] assms
    by (auto simp: rx_new_def rx_new_with_config_def descriptor_set_new_def rx_ready_def takes_def)
qed

section \<open>Properties of reception\<close>

text \<open>
  C34. A reception buffer gives back what came in: after a new one is set to a length and prepared, whatever
  the controller stores, no more than that length, is the received data, in order and counted, and is
  copied into a destination that holds it; but a destination shorter than the first chunk is a panic, not the
  prefix that the documentation promises.
\<close>

theorem dma_rx_receive:
  assumes "slice_in_range descs_addr (12 * length ds) (dram_range mem)" "c = max_chunk_size_for mem default_burst addr DirIn"
    "ensure_buffer_compatible mem default_burst addr (length buffer) DirIn = Inr ()" "chunk_count (length buffer) c \<le> length ds"
    "ensure_buffer_compatible mem default_burst addr n DirIn = Inr ()" "n \<le> length buffer" "length bytes \<le> n"
  shows "\<exists>b b1. rx_new mem descs_addr ds addr buffer = Some (Inr b) \<and> rx_set_length mem n b = Some b1 \<and> rx_len b1 = n \<and>
    (let b2 = dma_receive bytes (rx_prepare b1) in
      concat (received_data b2) = bytes \<and> number_of_received_bytes b2 = length bytes \<and>
      (length bytes \<le> length dest \<longrightarrow> read_received_data dest b2 = Some (bytes @ drop (length bytes) dest, length bytes)) \<and>
      (0 < length dest \<and> length dest < min c (length bytes) \<longrightarrow> read_received_data dest b2 = None))"
proof -
  have c: "0 < c" "c < 4096" using rx_chunk assms(2) by simp_all
  obtain b where b: "rx_new mem descs_addr ds addr buffer = Some (Inr b)" "rx_ready (length buffer) c b" "bf_data b = buffer"
      "bf_addr b = addr" "bf_burst b = default_burst"
    using rx_new_ready [OF assms(1-4)] by blast
  obtain b1 where b1: "rx_set_length mem n b = Some b1" "rx_ready n c b1"
    using rx_set_ready [of c mem default_burst b n] assms(2,5,6) b(2-5) by (auto simp: rx_ready_def rx_set_length_def unwrap_buf_def)
  have "rx_len b1 = n" using takes_len [OF c(1)] b1(2) by (simp add: rx_len_def rx_ready_def)
  moreover note r = received [OF c rx_prepare_ready(1) [OF c(1) b1(2)] assms(7)]
  moreover note read_out_all [OF r(1), of dest]
  moreover have "read_received_data dest (dma_receive bytes (rx_prepare b1)) = None" if "0 < length dest" "length dest < min c (length bytes)"
    using r(3) that read_past_end by metis
  ultimately show ?thesis using b(1) b1(1) by (auto simp: Let_def)
qed

text \<open>
  Setting the bursts of a reception buffer again forgets its length: the buffer then takes whole chunks, up to
  its end, where it was to take fewer bytes.
\<close>

theorem rx_burst_forgets_length:
  assumes "rx_ready n c b" "c = max_chunk_size_for mem burst (bf_addr b) DirIn"
    "ensure_buffer_compatible mem burst (bf_addr b) n DirIn = Inr ()"
  shows "\<exists>b'. rx_set_burst_config mem burst b = Some (b', Inr ()) \<and> rx_len b = n \<and>
    rx_len b' = min (length (bf_data b)) (chunk_count n c * c)"
proof -
  have c: "0 < c" using rx_chunk assms(2) by simp
  have len: "rx_len b = n" using takes_len [OF c] assms(1) by (simp add: rx_len_def rx_ready_def)
  obtain b' where b': "rx_configure mem burst n b = Some (b', Inr ())" "bf_data b' = bf_data b" "links_for n c (bf_descs b')"
    "\<And>i. i < chunk_count n c \<Longrightarrow> desc_size (bf_descs b' ! i) = min c (length (bf_data b) - i * c)"
    using rx_configured [OF assms(2) _ _ assms(3)] assms(1) by (auto simp: rx_ready_def points_def)
  let ?m = "min (length (bf_data b)) (chunk_count n c * c)"
  have "desc_size (bf_descs b' ! i) = min c (?m - i * c)" if "i < chunk_count n c" for i
  proof -
    have "Suc i * c \<le> chunk_count n c * c" using that by (intro mult_le_mono1) simp
    then have "c \<le> chunk_count n c * c - i * c" by simp
    then have "min c (?m - i * c) = min c (length (bf_data b) - i * c)" by linarith
    then show ?thesis using b'(4) [OF that] by simp
  qed
  from sum_chunks [OF c b'(3) this] have "rx_len b' = ?m" by (simp add: rx_len_def)
  then show ?thesis using b'(1) len by (simp add: rx_set_burst_config_def)
qed

section \<open>Witnesses\<close>

text \<open>The memory of a chip, and the descriptors \<open>dma_buffers!(256, 32000)\<close> allocates for the transmission.\<close>

definition sim_memory :: dma_memory where
  "sim_memory = \<lparr>dram_range = (0x3FC88000, 0x3FD00000), psram_range = (0x3C000000, 0x3D000000)\<rparr>"

definition tx_descriptors :: "dma_descriptor list" where
  "tx_descriptors = replicate (the (descriptor_count 32000 4092 False)) empty_descriptor"

lemma tx_descriptors_8: "length tx_descriptors = 8" by (simp add: tx_descriptors_def descriptor_count_def)

theorem dma_tx_stream_witness:
  "\<exists>b b'. tx_new sim_memory 0x3FC90000 tx_descriptors 0x3FC90100 (replicate 32000 0) = Some (Inr b) \<and>
    tx_fills sim_memory [replicate 5000 1, [1, 2, 3]] b = Some b' \<and> dma_walk 8 (bf_descs b') (bf_data b') 0 = Some [1, 2, 3] \<and> tx_len b' = 3"
  using dma_tx_stream [where descs_addr = "0x3FC90000" and ds = tx_descriptors and mem = sim_memory and addr = "0x3FC90100" and buffer = "replicate 32000 0" and datas = "[replicate 5000 1, [1, 2, 3]]"]
  by (auto simp: tx_descriptors_8 sim_memory_def slice_in_range_def addr_in_range_def chunk_count_def Let_def)

lemma sim_chunk: "max_chunk_size_for sim_memory default_burst 0x3FC90100 DirIn = 4095"
  by (simp add: max_chunk_size_for_def min_alignment_def min_dram_alignment_def chunk_size_for_alignment_def default_burst_def
      sim_memory_def addr_in_range_def)

lemma sim_compatible: "n \<le> 256 \<Longrightarrow> ensure_buffer_compatible sim_memory default_burst 0x3FC90100 n DirIn = Inr ()"
  by (simp add: ensure_buffer_compatible_def ensure_buffer_aligned_def min_alignment_def min_dram_alignment_def default_burst_def
      sim_memory_def slice_in_range_def addr_in_range_def)

theorem dma_rx_receive_witness:
  "\<exists>b b1. rx_new sim_memory 0x3FC90000 [empty_descriptor] 0x3FC90100 (replicate 256 0) = Some (Inr b) \<and>
    rx_set_length sim_memory 20 b = Some b1 \<and> rx_len b1 = 20 \<and>
    concat (received_data (dma_receive [7, 8, 9] (rx_prepare b1))) = [7, 8, 9] \<and>
    read_received_data [0, 0] (dma_receive [7, 8, 9] (rx_prepare b1)) = None"
proof -
  have descs: "slice_in_range 0x3FC90000 (12 * length [empty_descriptor]) (dram_range sim_memory)"
    by (simp add: sim_memory_def slice_in_range_def addr_in_range_def)
  have "\<exists>b b1. rx_new sim_memory 0x3FC90000 [empty_descriptor] 0x3FC90100 (replicate 256 0) = Some (Inr b) \<and>
      rx_set_length sim_memory 20 b = Some b1 \<and> rx_len b1 = 20 \<and>
      (let b2 = dma_receive [7, 8, 9] (rx_prepare b1) in
        concat (received_data b2) = [7, 8, 9] \<and> number_of_received_bytes b2 = length [7, 8, 9 :: u8] \<and>
        (length [7, 8, 9 :: u8] \<le> length [0, 0 :: u8] \<longrightarrow>
          read_received_data [0, 0] b2 = Some ([7, 8, 9] @ drop (length [7, 8, 9 :: u8]) [0, 0], length [7, 8, 9 :: u8])) \<and>
        (0 < length [0, 0 :: u8] \<and> length [0, 0 :: u8] < min 4095 (length [7, 8, 9 :: u8]) \<longrightarrow> read_received_data [0, 0] b2 = None))"
    by (rule dma_rx_receive [OF descs sim_chunk [symmetric]]) (simp_all add: sim_compatible chunk_count_def)
  then show ?thesis by (auto simp: Let_def)
qed

theorem rx_burst_forgets_length_witness:
  "\<exists>b b'. rx_set_burst_config sim_memory default_burst b = Some (b', Inr ()) \<and> rx_len b = 10 \<and> rx_len b' = 100"
proof -
  let ?d = "empty_descriptor\<lparr>d_size := 10, d_buffer := Some 0\<rparr>"
  let ?b = "\<lparr>bf_descs = [?d], bf_addr = 0x3FC90100, bf_data = replicate 100 0, bf_burst = default_burst\<rparr>"
  have "\<forall>i. i * 4095 < 100 \<longrightarrow> d_buffer ([?d] ! i) = Some (i * 4095)"
  proof (intro allI impI)
    fix i :: nat
    assume "i * 4095 < 100"
    then have "i = 0" by (cases i) simp_all
    then show "d_buffer ([?d] ! i) = Some (i * 4095)" by simp
  qed
  then have "points 100 4095 [?d]" by (simp only: points_def) (simp add: chunk_count_def)
  then have "rx_ready 10 4095 ?b"
    by (simp add: rx_ready_def takes_def links_for_def chunk_count_def desc_size_def empty_descriptor_def)
  moreover have "4095 = max_chunk_size_for sim_memory default_burst (bf_addr ?b) DirIn"
      "ensure_buffer_compatible sim_memory default_burst (bf_addr ?b) 10 DirIn = Inr ()"
    by (simp_all add: sim_chunk sim_compatible)
  ultimately have "\<exists>b'. rx_set_burst_config sim_memory default_burst ?b = Some (b', Inr ()) \<and> rx_len ?b = 10 \<and>
      rx_len b' = min (length (bf_data ?b)) (chunk_count 10 4095 * 4095)"
    by (rule rx_burst_forgets_length)
  moreover have "min (length (bf_data ?b)) (chunk_count 10 4095 * 4095) = 100" by (simp add: chunk_count_def)
  ultimately show ?thesis by metis
qed

end
