(* ===== verification/Audio.thy ===== *)
theory Audio
  imports Float32 "HOL-Library.Monad_Syntax"
begin

text \<open>
  The audio sessions of the companion (\<open>companion/src/audio.rs\<close>).  The Windows audio service is a
  parameter: what its calls answer at one moment is a value of \<open>os_audio\<close>.
\<close>

section \<open>What the system answers\<close>

text \<open>
  One session: its process, whether its volume interface can be had, what the getters return, the
  image path of the process, and whether the setters succeed.
\<close>

record os_session =
  os_pid :: "u32 option"
  os_simple :: bool
  os_volume :: "f32 option"
  os_mute :: "bool option"
  os_path :: "str option"
  os_accepts :: bool

text \<open>
  The endpoint: whether the calls up to the session count succeed, and the sessions by index,
  \<open>None\<close> where \<open>GetSession\<close> or the cast to the control interface fails.
\<close>

record os_audio =
  oa_ready :: bool
  oa_sessions :: "os_session option list"

section \<open>Enumeration\<close>

record audio_session =
  as_pid :: u32
  as_process_name :: str
  as_exe_path :: str
  as_volume :: f32
  as_muted :: bool

text \<open>\<open>rsplit(['/', '\\']).next()\<close>, and the name without the extension.\<close>

definition is_sep :: "u8 \<Rightarrow> bool" where
  "is_sep b \<longleftrightarrow> b = 47 \<or> b = 92"

definition file_name :: "str \<Rightarrow> str" where
  "file_name full = rev (takeWhile (\<lambda>b. \<not> is_sep b) (rev full))"

definition ascii_lower :: "u8 \<Rightarrow> u8" where
  "ascii_lower b = (if 65 \<le> b \<and> b \<le> 90 then b + 32 else b)"

definition ends_with :: "'a list \<Rightarrow> 'a list \<Rightarrow> bool" where
  "ends_with suf s \<longleftrightarrow> length suf \<le> length s \<and> drop (length s - length suf) s = suf"

definition exe_name :: "str \<Rightarrow> str" where
  "exe_name full =
     (let filename = file_name full
      in if ends_with (ascii ''.exe'') (map ascii_lower filename) then take (length filename - 4) filename
         else filename)"

definition session_of :: "os_session \<Rightarrow> audio_session" where
  "session_of s =
     (let pid = (case os_pid s of Some p \<Rightarrow> p | None \<Rightarrow> 0);
          volume = (case os_volume s of Some v \<Rightarrow> v | None \<Rightarrow> 0);
          muted = (case os_mute s of Some b \<Rightarrow> b | None \<Rightarrow> False);
          full = (case os_path s of Some p \<Rightarrow> p | None \<Rightarrow> [])
      in \<lparr>as_pid = pid,
          as_process_name = (if pid \<noteq> 0 then exe_name full else ascii ''System Sounds''),
          as_exe_path = (if pid \<noteq> 0 then full else []),
          as_volume = volume, as_muted = muted\<rparr>)"

text \<open>The loop over the sessions ends with the first failing call.\<close>

fun enumerate_sessions :: "os_session option list \<Rightarrow> audio_session list option" where
  "enumerate_sessions [] = Some []"
| "enumerate_sessions (None # ss) = None"
| "enumerate_sessions (Some s # ss) =
     (if os_simple s then map_option ((#) (session_of s)) (enumerate_sessions ss) else None)"

definition audio_enumerate :: "os_audio \<Rightarrow> audio_session list option" where
  "audio_enumerate oa = (if oa_ready oa then enumerate_sessions (oa_sessions oa) else None)"

section \<open>Volume and mute\<close>

datatype audio_call = VolumeSet u32 f32 | MuteSet u32 bool

fun find_session :: "u32 \<Rightarrow> os_session option list \<Rightarrow> os_session option" where
  "find_session pid [] = None"
| "find_session pid (None # ss) = None"
| "find_session pid (Some s # ss) =
     (if (case os_pid s of Some p \<Rightarrow> p | None \<Rightarrow> 0) = pid then (if os_simple s then Some s else None)
      else find_session pid ss)"

text \<open>The call that reaches the system, if any, and whether it succeeds.\<close>

definition with_session :: "u32 \<Rightarrow> audio_call \<Rightarrow> os_audio \<Rightarrow> audio_call option \<times> bool" where
  "with_session pid call oa =
     (case (if oa_ready oa then find_session pid (oa_sessions oa) else None) of
        None \<Rightarrow> (None, False)
      | Some s \<Rightarrow> (Some call, os_accepts s))"

definition audio_set_volume :: "u32 \<Rightarrow> f32 \<Rightarrow> os_audio \<Rightarrow> audio_call option \<times> bool" where
  "audio_set_volume pid level oa = with_session pid (VolumeSet pid (clamp 0 1 level)) oa"

definition audio_set_mute :: "u32 \<Rightarrow> bool \<Rightarrow> os_audio \<Rightarrow> audio_call option \<times> bool" where
  "audio_set_mute pid muted oa = with_session pid (MuteSet pid muted) oa"

section \<open>Facts\<close>

lemma file_name_split: "\<exists>dir. full = dir @ file_name full \<and> (dir = [] \<or> is_sep (last dir)) \<and> (\<forall>b\<in>set (file_name full). \<not> is_sep b)"
proof -
  let ?P = "\<lambda>b. \<not> is_sep b"
  have s: "full = rev (dropWhile ?P (rev full)) @ file_name full"
    unfolding file_name_def by (metis rev_append rev_rev_ident takeWhile_dropWhile_id)
  have "dropWhile ?P (rev full) = [] \<or> is_sep (hd (dropWhile ?P (rev full)))"
    using hd_dropWhile [of ?P "rev full"] by blast
  then have "rev (dropWhile ?P (rev full)) = [] \<or> is_sep (last (rev (dropWhile ?P (rev full))))"
    by (auto simp: last_rev)
  moreover have "\<forall>b\<in>set (file_name full). \<not> is_sep b" by (auto simp: file_name_def dest: set_takeWhileD)
  ultimately show ?thesis using s by blast
qed

lemma ascii_length: "length (ascii s) = length s"
  by (simp add: ascii_def)

lemma exe_length: "length (ascii ''.exe'') = 4"
  by (simp add: ascii_length)

lemma exe_name_split:
  obtains ext where "file_name full = exe_name full @ ext"
    "map ascii_lower ext = ascii ''.exe'' \<or> ext = [] \<and> \<not> ends_with (ascii ''.exe'') (map ascii_lower (exe_name full))"
proof (cases "ends_with (ascii ''.exe'') (map ascii_lower (file_name full))")
  case True
  let ?n = "length (file_name full) - 4"
  have "file_name full = exe_name full @ drop ?n (file_name full)" using True by (simp add: exe_name_def Let_def)
  moreover have "map ascii_lower (drop ?n (file_name full)) = ascii ''.exe''"
    using True unfolding ends_with_def exe_length by (simp add: drop_map)
  ultimately show thesis using that by blast
next
  case False
  then show thesis using that [of "[]"] by (simp add: exe_name_def)
qed

lemma enumerate_sessions_Some:
  "enumerate_sessions ss = Some out \<Longrightarrow> \<exists>xs. ss = map Some xs \<and> out = map session_of xs"
  by (induction ss arbitrary: out rule: enumerate_sessions.induct)
    (force split: if_splits intro: exI [of _ "_ # _"])+

text \<open>A range the system's volumes are documented to have.\<close>

definition audio_contract :: "os_audio \<Rightarrow> bool" where
  "audio_contract oa \<longleftrightarrow> (\<forall>s v. Some s \<in> set (oa_sessions oa) \<and> os_volume s = Some v \<longrightarrow> 0 \<le> v \<and> v \<le> 1)"

lemma enumerate_volumes:
  assumes "audio_contract oa" "audio_enumerate oa = Some ss" "s \<in> set ss"
  shows "0 \<le> as_volume s \<and> as_volume s \<le> 1"
proof -
  obtain xs where xs: "oa_sessions oa = map Some xs" "ss = map session_of xs"
    using assms(2) enumerate_sessions_Some [of "oa_sessions oa" ss] by (auto simp: audio_enumerate_def split: if_splits)
  then obtain x where x: "x \<in> set xs" "s = session_of x" using assms(3) by auto
  then have "Some x \<in> set (oa_sessions oa)" using xs(1) by simp
  then show ?thesis using assms(1) x(2)
    by (cases "os_volume x") (auto simp: session_of_def Let_def audio_contract_def)
qed

section \<open>Properties\<close>

text \<open>
  The name an app is shown under: the part of the image path after the last separator (of
  either kind), without the extension \<open>.exe\<close> in whatever case; nothing else of the path is cut.
\<close>

theorem process_name:
  "\<exists>dir ext. full = dir @ exe_name full @ ext \<and> (dir = [] \<or> is_sep (last dir)) \<and>
    list_all (\<lambda>b. \<not> is_sep b) (exe_name full @ ext) \<and>
    (map ascii_lower ext = ascii ''.exe'' \<or> ext = [] \<and> \<not> ends_with (ascii ''.exe'') (map ascii_lower (exe_name full)))"
proof -
  obtain dir where d: "full = dir @ file_name full" "dir = [] \<or> is_sep (last dir)" "\<forall>b\<in>set (file_name full). \<not> is_sep b"
    using file_name_split by blast
  obtain ext where "file_name full = exe_name full @ ext"
    "map ascii_lower ext = ascii ''.exe'' \<or> ext = [] \<and> \<not> ends_with (ascii ''.exe'') (map ascii_lower (exe_name full))"
    by (rule exe_name_split)
  with d show ?thesis by (auto simp: list_all_iff)
qed

end
