(* ===== verification/Icons.thy ===== *)
theory Icons
  imports Prelude "HOL-Library.Monad_Syntax"
begin

text \<open>
  The icon conversion of the companion (\<open>companion/src/icons.rs\<close>): a 64 by 64 BGRA bitmap becomes
  big-endian RGB565, blended against black.  The Windows calls that extract the bitmap are a
  parameter: for a path they fail, or they fill the buffer the code allocated.  \<open>None\<close> is a
  panic (an index out of range, an overflowing product).
\<close>

section \<open>The conversion\<close>

definition icon_side :: u32 where "icon_side = 64"

definition byte_at :: "u8 list \<Rightarrow> nat \<Rightarrow> u8 option" where
  "byte_at bs i = (if i < length bs then Some (bs ! i) else None)"

text \<open>\<open>(0..pixels).any(|i| bgra[i * 4 + 3] != 0)\<close>, which stops at the first hit.\<close>

fun any_alpha :: "u8 list \<Rightarrow> nat list \<Rightarrow> bool option" where
  "any_alpha bgra [] = Some False"
| "any_alpha bgra (i # is) = do {
     a \<leftarrow> byte_at bgra (i * 4 + 3);
     if a \<noteq> 0 then Some True else any_alpha bgra is
   }"

text \<open>\<open>c * a / 255\<close> in \<open>u16\<close>.\<close>

definition premul :: "u8 \<Rightarrow> u8 \<Rightarrow> u16 option" where
  "premul c a = (if unat c * unat a < 2 ^ 16 then Some ((ucast c * ucast a) div 255) else None)"

definition blended :: "u8 list \<Rightarrow> bool \<Rightarrow> nat \<Rightarrow> (u16 \<times> u16 \<times> u16) option" where
  "blended bgra has_alpha i = do {
     b \<leftarrow> byte_at bgra (i * 4);
     g \<leftarrow> byte_at bgra (i * 4 + 1);
     r \<leftarrow> byte_at bgra (i * 4 + 2);
     a \<leftarrow> byte_at bgra (i * 4 + 3);
     if has_alpha then do {
       r \<leftarrow> premul r a;
       g \<leftarrow> premul g a;
       b \<leftarrow> premul b a;
       Some (r, g, b)
     } else Some (ucast r, ucast g, ucast b)
   }"

definition pack565 :: "u16 \<Rightarrow> u16 \<Rightarrow> u16 \<Rightarrow> u16" where
  "pack565 r g b = push_bit 8 (r AND 0xF8) OR push_bit 3 (g AND 0xFC) OR drop_bit 3 (b AND 0xF8)"

definition bgra_to_rgb565_be :: "u8 list \<Rightarrow> u32 \<Rightarrow> u32 \<Rightarrow> u8 list option" where
  "bgra_to_rgb565_be bgra w h =
     (if unat w * unat h < 2 ^ 32 then do {
        let pixels = unat (w * h);
        has_alpha \<leftarrow> any_alpha bgra [0..<pixels];
        fold_opt (\<lambda>i out. do {
            (r, g, b) \<leftarrow> blended bgra has_alpha i;
            let rgb565 = pack565 r g b;
            Some (out @ [ucast (drop_bit 8 rgb565), ucast (rgb565 AND 0xFF)])
          }) [0..<pixels] []
      } else None)"

text \<open>
  \<open>extract_bgra\<close>: the system either has no icon for the path or fills the \<open>width * height * 4\<close>
  bytes allocated for the bitmap.
\<close>

type_synonym icon_source = "str \<Rightarrow> (nat \<Rightarrow> u8) option"

definition extract_bgra :: "icon_source \<Rightarrow> str \<Rightarrow> u8 list option" where
  "extract_bgra os exe_path = map_option (\<lambda>fill. map fill [0..<unat (icon_side * icon_side * 4)]) (os exe_path)"

definition extract_rgb565 :: "icon_source \<Rightarrow> str \<Rightarrow> u8 list option option" where
  "extract_rgb565 os exe_path =
     (case extract_bgra os exe_path of
        None \<Rightarrow> Some None
      | Some bgra \<Rightarrow> map_option Some (bgra_to_rgb565_be bgra icon_side icon_side))"

text \<open>The bytes \<open>dump_ppm\<close> writes: the header lines, then three bytes per pixel.\<close>

definition dump_ppm :: "icon_source \<Rightarrow> str \<Rightarrow> u8 list option option" where
  "dump_ppm os exe_path =
     (case extract_bgra os exe_path of
        None \<Rightarrow> Some None
      | Some bgra \<Rightarrow> do {
          let pixels = unat (icon_side * icon_side);
          has_alpha \<leftarrow> any_alpha bgra [0..<pixels];
          let header = ascii ''P6'' @ [10] @ show_dec (unat icon_side) @ ascii '' '' @ show_dec (unat icon_side) @ [10]
                @ ascii ''255'' @ [10];
          out \<leftarrow> fold_opt (\<lambda>i out. do {
              (r, g, b) \<leftarrow> blended bgra has_alpha i;
              Some (out @ [ucast r, ucast g, ucast b])
            }) [0..<pixels] header;
          Some (Some out)
        })"

section \<open>What a pixel becomes\<close>

text \<open>The shade of a channel, as the exact quotient.\<close>

definition shade :: "bool \<Rightarrow> u8 \<Rightarrow> u8 \<Rightarrow> nat" where
  "shade has_alpha c a = (if has_alpha then unat c * unat a div 255 else unat c)"

definition opaque_or_blended :: "u8 list \<Rightarrow> nat \<Rightarrow> bool" where
  "opaque_or_blended bgra n \<longleftrightarrow> (\<exists>i<n. bgra ! (i * 4 + 3) \<noteq> 0)"

lemma byte_at_Some: "i < length bs \<Longrightarrow> byte_at bs i = Some (bs ! i)"
  by (simp add: byte_at_def)

lemma any_alpha_total:
  "(\<forall>i\<in>set is. i * 4 + 3 < length bgra) \<Longrightarrow> any_alpha bgra is = Some (\<exists>i\<in>set is. bgra ! (i * 4 + 3) \<noteq> 0)"
  by (induction "is") (auto simp: byte_at_Some)

lemma u8_less: "unat (c :: u8) < 256"
proof -
  have "unat c < 2 ^ LENGTH(8)" by (rule unsigned_less)
  then show ?thesis by simp
qed

lemma product_le: "unat (c :: u8) * unat (a :: u8) \<le> 255 * 255"
proof -
  have "unat c \<le> 255" "unat a \<le> 255" using u8_less [of c] u8_less [of a] by simp_all
  then show ?thesis by (rule mult_le_mono)
qed

lemma premul_total: "\<exists>x. premul c a = Some x \<and> unat x = unat c * unat a div 255"
proof -
  have b: "unat c * unat a < 65536" using product_le [of c a] by simp
  have "unat (ucast c * ucast a :: u16) = unat c * unat a"
    using b by (simp add: unat_word_ariths unat_ucast_up)
  with b show ?thesis by (simp add: premul_def unat_div)
qed

lemma shade_less: "shade f c a < 256"
proof -
  have "unat c * unat a div 255 \<le> 255 * 255 div 255" by (rule div_le_mono [OF product_le])
  then show ?thesis using u8_less [of c] by (simp add: shade_def)
qed

lemma blended_total:
  assumes "i * 4 + 3 < length bgra"
  shows "\<exists>r g b. blended bgra f i = Some (r, g, b) \<and> unat r = shade f (bgra ! (i * 4 + 2)) (bgra ! (i * 4 + 3)) \<and>
    unat g = shade f (bgra ! (i * 4 + 1)) (bgra ! (i * 4 + 3)) \<and> unat b = shade f (bgra ! (i * 4)) (bgra ! (i * 4 + 3))"
proof -
  obtain r where r: "premul (bgra ! (i * 4 + 2)) (bgra ! (i * 4 + 3)) = Some r"
      "unat r = unat (bgra ! (i * 4 + 2)) * unat (bgra ! (i * 4 + 3)) div 255" using premul_total by blast
  obtain g where g: "premul (bgra ! (i * 4 + 1)) (bgra ! (i * 4 + 3)) = Some g"
      "unat g = unat (bgra ! (i * 4 + 1)) * unat (bgra ! (i * 4 + 3)) div 255" using premul_total by blast
  obtain b where b: "premul (bgra ! (i * 4)) (bgra ! (i * 4 + 3)) = Some b"
      "unat b = unat (bgra ! (i * 4)) * unat (bgra ! (i * 4 + 3)) div 255" using premul_total by blast
  show ?thesis
    using assms r g b by (cases f) (simp_all add: blended_def byte_at_Some shade_def unat_ucast_up)
qed

text \<open>The three fields of the packed word.\<close>

lemma or_plus: "y < 2 ^ k \<Longrightarrow> (x * 2 ^ k) OR y = x * 2 ^ k + y" for x y :: nat
proof -
  assume y: "y < 2 ^ k"
  then have "take_bit k y = y" by (simp add: take_bit_nat_eq_self)
  then have "\<not> bit (push_bit k x) n \<or> \<not> bit y n" for n
    by (metis bit_push_bit_iff bit_take_bit_iff not_le)
  then have "push_bit k x + y = push_bit k x OR y" by (rule disjunctive_add)
  then show ?thesis by (simp add: push_bit_eq_mult)
qed

lemma mask_field: "n < 256 \<Longrightarrow> n AND push_bit k (mask (8 - k)) = n div 2 ^ k * 2 ^ k" for n :: nat
proof -
  assume n: "n < 256"
  have "n AND push_bit k (mask (8 - k)) = push_bit k (take_bit (8 - k) (drop_bit k n))"
    by (rule bit_eqI) (auto simp: bit_simps)
  also have "take_bit (8 - k) (drop_bit k n) = drop_bit k (take_bit 8 n)"
    by (simp add: drop_bit_take_bit)
  finally show ?thesis using n by (simp add: take_bit_nat_eq_self push_bit_eq_mult drop_bit_eq_div)
qed

lemma masks: "n < 256 \<Longrightarrow> n AND 248 = n div 8 * 8 \<and> n AND 252 = n div 4 * 4" for n :: nat
  using mask_field [of n 3] mask_field [of n 2] by (simp add: mask_eq_exp_minus_1 push_bit_eq_mult)

lemma pack565_value:
  assumes "unat r < 256" "unat g < 256" "unat b < 256"
  shows "unat (pack565 r g b) = unat r div 8 * 2048 + unat g div 4 * 32 + unat b div 8"
proof -
  have 1: "unat (push_bit 8 (r AND 0xF8)) = unat r div 8 * 2048"
    using masks [OF assms(1)] assms(1) by (simp add: push_bit_eq_mult unat_word_ariths unsigned_and_eq)
  have 2: "unat (push_bit 3 (g AND 0xFC)) = unat g div 4 * 32"
    using masks [OF assms(2)] assms(2) by (simp add: push_bit_eq_mult unat_word_ariths unsigned_and_eq)
  have 3: "unat (drop_bit 3 (b AND 0xF8)) = unat b div 8"
    using masks [OF assms(3)] by (simp add: drop_bit_eq_div unat_div unsigned_and_eq)
  have "unat (pack565 r g b) = (unat r div 8 * 2048 OR unat g div 4 * 32) OR unat b div 8"
    by (simp only: pack565_def unsigned_or_eq 1 2 3 or.assoc)
  also have "unat r div 8 * 2048 OR unat g div 4 * 32 = unat r div 8 * 2048 + unat g div 4 * 32"
    using or_plus [of "unat g div 4 * 32" 11 "unat r div 8"] assms(2) by simp
  also have "\<dots> = (unat r div 8 * 64 + unat g div 4) * 2 ^ 5" by simp
  also have "\<dots> OR unat b div 8 = (unat r div 8 * 64 + unat g div 4) * 2 ^ 5 + unat b div 8"
    using assms(3) by (intro or_plus) simp
  finally show ?thesis by simp
qed

text \<open>The two bytes of a word, high byte first.\<close>

lemma be_bytes: "unat (ucast (drop_bit 8 (w :: u16)) :: u8) * 256 + unat (ucast (w AND 0xFF) :: u8) = unat w"
proof -
  have "unat w < 2 ^ LENGTH(16)" by (rule unsigned_less)
  then have "unat (ucast (drop_bit 8 w) :: u8) = unat w div 256"
    by (simp add: unsigned_ucast_eq unsigned_drop_bit_eq drop_bit_eq_div take_bit_nat_eq_self less_mult_imp_div_less unat_div)
  moreover have "unat (ucast (w AND 0xFF) :: u8) = unat w mod 256"
  proof -
    have "w AND 0xFF = take_bit 8 w" by (simp add: take_bit_eq_mask mask_eq_exp_minus_1)
    then show ?thesis by (simp add: unsigned_ucast_eq unsigned_take_bit_eq take_bit_eq_mod unat_mod)
  qed
  ultimately show ?thesis by simp
qed

text \<open>A loop that appends a fixed number of bytes per pixel.\<close>

lemma fold_opt_appends:
  assumes "\<And>i. i < n \<Longrightarrow> f i = Some (g i)" "\<And>i. i < n \<Longrightarrow> length (g i) = k"
  shows "\<exists>out. fold_opt (\<lambda>i out. map_option (\<lambda>bs. out @ bs) (f i)) [0..<n] start = Some (start @ out) \<and>
    length out = k * n \<and> (\<forall>i<n. take k (drop (k * i) out) = g i)"
  using assms
proof (induction n)
  case (Suc n)
  then obtain out where out: "fold_opt (\<lambda>i out. map_option (\<lambda>bs. out @ bs) (f i)) [0..<n] start = Some (start @ out)"
    "length out = k * n" "\<forall>i<n. take k (drop (k * i) out) = g i" by auto
  have "take k (drop (k * i) (out @ g n)) = g i" if "i < Suc n" for i
  proof (cases "i = n")
    case True
    then show ?thesis using out(2) Suc.prems(2) [of n] by simp
  next
    case False
    then have "i < n" using that by simp
    then have "k * i + k \<le> k * n" by (metis Suc_leI mult_Suc_right mult_le_mono2 add.commute)
    then show ?thesis using out \<open>i < n\<close> by simp
  qed
  with out Suc.prems show ?case
    by (intro exI [of _ "out @ g n"]) (simp add: fold_opt_append)
qed simp

definition pixel_bytes :: "u8 list \<Rightarrow> bool \<Rightarrow> nat \<Rightarrow> u8 list" where
  "pixel_bytes bgra f i = (case blended bgra f i of
     Some (r, g, b) \<Rightarrow> [ucast (drop_bit 8 (pack565 r g b)), ucast (pack565 r g b AND 0xFF)] | None \<Rightarrow> [])"

lemma convert_total:
  assumes "unat w * unat h = n" "n < 2 ^ 32" "4 * n \<le> length bgra"
  shows "\<exists>out. bgra_to_rgb565_be bgra w h = Some out \<and> length out = 2 * n \<and>
    (\<forall>i<n. unat (out ! (2 * i)) * 256 + unat (out ! (2 * i + 1)) =
      (let f = opaque_or_blended bgra n; a = bgra ! (i * 4 + 3) in
       shade f (bgra ! (i * 4 + 2)) a div 8 * 2048 + shade f (bgra ! (i * 4 + 1)) a div 4 * 32 + shade f (bgra ! (i * 4)) a div 8))"
proof -
  let ?f = "opaque_or_blended bgra n"
  have idx: "i * 4 + 3 < length bgra" if "i < n" for i using that assms(3) by simp
  have n: "unat (w * h) = n" using assms(1,2) by (simp add: unat_word_ariths)
  have alpha: "any_alpha bgra [0..<n] = Some ?f"
    using any_alpha_total [of "[0..<n]" bgra] idx by (auto simp: opaque_or_blended_def)
  have px: "map_option (\<lambda>(r, g, b). [ucast (drop_bit 8 (pack565 r g b)), ucast (pack565 r g b AND 0xFF)]) (blended bgra ?f i) =
      Some (pixel_bytes bgra ?f i)" "length (pixel_bytes bgra ?f i) = 2" if "i < n" for i
    using blended_total [OF idx [OF that], of ?f] by (auto simp: pixel_bytes_def)
  have body: "(\<lambda>i out. do { (r, g, b) \<leftarrow> blended bgra ?f i; let rgb565 = pack565 r g b;
        Some (out @ [ucast (drop_bit 8 rgb565), ucast (rgb565 AND 0xFF)]) }) =
      (\<lambda>i out. map_option (\<lambda>bs. out @ bs)
        (map_option (\<lambda>(r, g, b). [ucast (drop_bit 8 (pack565 r g b)), ucast (pack565 r g b AND 0xFF)]) (blended bgra ?f i)))"
    by (auto simp: fun_eq_iff Let_def split: Option.bind_split)
  from fold_opt_appends [of n _ "pixel_bytes bgra ?f" 2 "[]", OF px] obtain out where
    out: "bgra_to_rgb565_be bgra w h = Some out" "length out = 2 * n" "\<forall>i<n. take 2 (drop (2 * i) out) = pixel_bytes bgra ?f i"
    using assms(1,2) by (auto simp: bgra_to_rgb565_be_def n alpha body)
  have "unat (out ! (2 * i)) * 256 + unat (out ! (2 * i + 1)) =
      (let f = ?f; a = bgra ! (i * 4 + 3) in shade f (bgra ! (i * 4 + 2)) a div 8 * 2048 +
        shade f (bgra ! (i * 4 + 1)) a div 4 * 32 + shade f (bgra ! (i * 4)) a div 8)" if i: "i < n" for i
  proof -
    obtain r g b where rgb: "blended bgra ?f i = Some (r, g, b)" "unat r = shade ?f (bgra ! (i * 4 + 2)) (bgra ! (i * 4 + 3))"
      "unat g = shade ?f (bgra ! (i * 4 + 1)) (bgra ! (i * 4 + 3))" "unat b = shade ?f (bgra ! (i * 4)) (bgra ! (i * 4 + 3))"
      using blended_total [OF idx [OF i], of ?f] by blast
    have "2 * i + 1 < length out" using i out(2) by simp
    then have "[out ! (2 * i), out ! (2 * i + 1)] = take 2 (drop (2 * i) out)"
      by (simp add: list_eq_iff_nth_eq less_Suc_eq numeral_2_eq_2)
    then have "out ! (2 * i) = ucast (drop_bit 8 (pack565 r g b)) \<and> out ! (2 * i + 1) = ucast (pack565 r g b AND 0xFF)"
      using out(3) i by (simp add: pixel_bytes_def rgb(1))
    then have "unat (out ! (2 * i)) * 256 + unat (out ! (2 * i + 1)) = unat (pack565 r g b)" by (simp only: be_bytes)
    also have "\<dots> = unat r div 8 * 2048 + unat g div 4 * 32 + unat b div 8"
      using rgb(2-4) shade_less by (intro pack565_value) simp_all
    finally show ?thesis by (simp add: rgb(2-4) Let_def)
  qed
  with out(1,2) show ?thesis by blast
qed

section \<open>Properties\<close>

text \<open>
  The icon conversion never panics on a buffer that holds the bitmap, and returns two bytes
  per pixel: read high byte first, the five upper bits of red, six of green and five of blue,
  each channel scaled by the pixel's alpha over 255, or taken as it is when no pixel of the
  bitmap has any alpha (a legacy icon, which blending would turn black).
\<close>

theorem icon_conversion:
  assumes "unat w * unat h = n" "n < 2 ^ 32" "4 * n \<le> length bgra"
  shows "\<exists>out. bgra_to_rgb565_be bgra w h = Some out \<and> length out = 2 * n \<and>
    (\<forall>i<n. unat (out ! (2 * i)) * 256 + unat (out ! (2 * i + 1)) =
      (let f = (\<exists>j<n. bgra ! (j * 4 + 3) \<noteq> 0); a = bgra ! (i * 4 + 3) in
       shade f (bgra ! (i * 4 + 2)) a div 8 * 2048 + shade f (bgra ! (i * 4 + 1)) a div 4 * 32 + shade f (bgra ! (i * 4)) a div 8))"
  using convert_total [OF assms] by (simp only: opaque_or_blended_def)

text \<open>A half transparent orange beside a blue one, and the same without alpha.\<close>

theorem icon_conversion_witness:
  "\<exists>out. bgra_to_rgb565_be [0, 128, 255, 128, 255, 0, 0, 255] 2 1 = Some out \<and> length out = 4 \<and>
     unat (out ! 0) * 256 + unat (out ! 1) = 16 * 2048 + 16 * 32 \<and> unat (out ! 2) * 256 + unat (out ! 3) = 31"
proof -
  have "\<exists>j<2. ([0, 128, 255, 128, 255, 0, 0, 255] :: u8 list) ! (j * 4 + 3) \<noteq> 0" by (rule exI [of _ 0]) simp
  moreover have "unat (2 :: u32) * unat (1 :: u32) = 2" by simp
  ultimately obtain out where "bgra_to_rgb565_be [0, 128, 255, 128, 255, 0, 0, 255] 2 1 = Some out" "length out = 4"
    "\<forall>i<2. unat (out ! (2 * i)) * 256 + unat (out ! (2 * i + 1)) =
      (let a = [0, 128, 255, 128, 255, 0, 0, 255] ! (i * 4 + 3) in
       shade True ([0, 128, 255, 128, 255, 0, 0, 255] ! (i * 4 + 2)) a div 8 * 2048 +
       shade True ([0, 128, 255, 128, 255, 0, 0, 255] ! (i * 4 + 1)) a div 4 * 32 +
       shade True ([0, 128, 255, 128, 255, 0, 0, 255] ! (i * 4)) a div 8)"
    using icon_conversion [of 2 1 2 "[0, 128, 255, 128, 255, 0, 0, 255]"] by (auto simp: Let_def)
  from this(1,2) this(3) [rule_format, of 0] this(3) [rule_format, of 1] show ?thesis
    by (intro exI [of _ out]) (simp add: shade_def)
qed

end
