(* ===== verification/Config.thy ===== *)
theory Config
  imports Prelude "HOL-Library.Monad_Syntax"
begin

text \<open>
  The companion's configuration (\<open>companion/src/config.rs\<close>) and the choice of the serial port
  (\<open>companion/src/main.rs\<close>, lines 74 to 90).  The crate \<open>toml\<close> is a parameter that parses a text into
  a table and prints a table; the deserializer \<open>serde\<close> derives for \<open>Config\<close> is written out from the
  field attributes.  The configuration file is what a write attempt leaves of it.
\<close>

section \<open>The record and its defaults\<close>

record config =
  cf_port :: str
  cf_sensitivity_pct :: u8
  cf_autostart :: bool
  cf_backlight_pct :: u8
  cf_dim_after_secs :: u16
  cf_off_after_secs :: u16
  cf_connection_mode :: str
  cf_wifi_device_ip :: str
  cf_wifi_port :: u16

definition default_sensitivity :: u8 where "default_sensitivity = 2"
definition default_connection_mode :: str where "default_connection_mode = ascii ''usb''"
definition default_wifi_port :: u16 where "default_wifi_port = 9000"
definition default_backlight_pct :: u8 where "default_backlight_pct = 100"
definition config_dim_default :: u16 where "config_dim_default = 30"
definition config_off_default :: u16 where "config_off_default = 90"

definition default_config :: config where
  "default_config = \<lparr>cf_port = [], cf_sensitivity_pct = 2, cf_autostart = False,
     cf_backlight_pct = default_backlight_pct, cf_dim_after_secs = config_dim_default,
     cf_off_after_secs = config_off_default, cf_connection_mode = default_connection_mode,
     cf_wifi_device_ip = [], cf_wifi_port = default_wifi_port\<rparr>"

section \<open>The file format\<close>

datatype toml_value = TString str | TInteger int | TBoolean bool | TOther

type_synonym toml_table = "(str \<times> toml_value) list"

record toml_lib =
  toml_parse :: "str \<Rightarrow> toml_table option"
  toml_print :: "toml_table \<Rightarrow> str option"

definition toml_contract :: "toml_lib \<Rightarrow> bool" where
  "toml_contract T \<longleftrightarrow> (\<forall>t. distinct (map fst t) \<longrightarrow>
     (\<exists>s. toml_print T t = Some s \<and> toml_parse T s = Some t))"

text \<open>A field of the derived deserializer: its default when it is absent, an error on a wrong type.\<close>

definition str_field :: "toml_table \<Rightarrow> string \<Rightarrow> str \<Rightarrow> str option" where
  "str_field t k dflt = (case map_of t (ascii k) of
     None \<Rightarrow> Some dflt | Some (TString s) \<Rightarrow> Some s | Some _ \<Rightarrow> None)"

definition bool_field :: "toml_table \<Rightarrow> string \<Rightarrow> bool \<Rightarrow> bool option" where
  "bool_field t k dflt = (case map_of t (ascii k) of
     None \<Rightarrow> Some dflt | Some (TBoolean b) \<Rightarrow> Some b | Some _ \<Rightarrow> None)"

definition uint_field :: "toml_table \<Rightarrow> string \<Rightarrow> 'a::len word \<Rightarrow> 'a word option" where
  "uint_field t k dflt = (case map_of t (ascii k) of
     None \<Rightarrow> Some dflt
   | Some (TInteger i) \<Rightarrow> if 0 \<le> i \<and> i < 2 ^ LENGTH('a) then Some (of_int i) else None
   | Some _ \<Rightarrow> None)"

definition config_from_table :: "toml_table \<Rightarrow> config option" where
  "config_from_table t = do {
     port \<leftarrow> str_field t ''port'' [];
     sens \<leftarrow> uint_field t ''sensitivity_pct'' default_sensitivity;
     auto \<leftarrow> bool_field t ''autostart'' False;
     pct \<leftarrow> uint_field t ''backlight_pct'' default_backlight_pct;
     dim \<leftarrow> uint_field t ''backlight_dim_after_secs'' config_dim_default;
     off \<leftarrow> uint_field t ''backlight_off_after_secs'' config_off_default;
     mode \<leftarrow> str_field t ''connection_mode'' default_connection_mode;
     ip \<leftarrow> str_field t ''wifi_device_ip'' [];
     wport \<leftarrow> uint_field t ''wifi_port'' default_wifi_port;
     Some \<lparr>cf_port = port, cf_sensitivity_pct = sens, cf_autostart = auto, cf_backlight_pct = pct,
       cf_dim_after_secs = dim, cf_off_after_secs = off, cf_connection_mode = mode,
       cf_wifi_device_ip = ip, cf_wifi_port = wport\<rparr>
   }"

definition config_to_table :: "config \<Rightarrow> toml_table" where
  "config_to_table c =
     [(ascii ''port'', TString (cf_port c)),
      (ascii ''sensitivity_pct'', TInteger (uint (cf_sensitivity_pct c))),
      (ascii ''autostart'', TBoolean (cf_autostart c)),
      (ascii ''backlight_pct'', TInteger (uint (cf_backlight_pct c))),
      (ascii ''backlight_dim_after_secs'', TInteger (uint (cf_dim_after_secs c))),
      (ascii ''backlight_off_after_secs'', TInteger (uint (cf_off_after_secs c))),
      (ascii ''connection_mode'', TString (cf_connection_mode c)),
      (ascii ''wifi_device_ip'', TString (cf_wifi_device_ip c)),
      (ascii ''wifi_port'', TInteger (uint (cf_wifi_port c)))]"

section \<open>Loading and saving\<close>

text \<open>
  \<open>dk_write\<close> gives what the file holds after the n-th attempt to write a text to it: the text, or
  whatever a failed write leaves.
\<close>

record disk =
  dk_file :: "str option"
  dk_write :: "nat \<Rightarrow> str \<Rightarrow> str option"
  dk_writes :: nat

definition disk_write :: "str \<Rightarrow> disk \<Rightarrow> disk" where
  "disk_write s d = d\<lparr>dk_file := dk_write d (dk_writes d) s, dk_writes := dk_writes d + 1\<rparr>"

definition load_config :: "toml_lib \<Rightarrow> disk \<Rightarrow> config" where
  "load_config T d =
     (case Option.bind (dk_file d) (\<lambda>s. Option.bind (toml_parse T s) config_from_table) of
        Some c \<Rightarrow> c | None \<Rightarrow> default_config)"

definition save_config :: "toml_lib \<Rightarrow> config \<Rightarrow> disk \<Rightarrow> disk" where
  "save_config T c d = (case toml_print T (config_to_table c) of Some s \<Rightarrow> disk_write s d | None \<Rightarrow> d)"

definition save_wifi_ip :: "toml_lib \<Rightarrow> str \<Rightarrow> disk \<Rightarrow> disk" where
  "save_wifi_ip T ip d = save_config T ((load_config T d)\<lparr>cf_wifi_device_ip := ip\<rparr>) d"

section \<open>The port\<close>

datatype port_type = UsbPort u16 u16 | OtherPort

definition espressif_vid :: u16 where "espressif_vid = 0x303A"
definition esp32s3_jtag_pid :: u16 where "esp32s3_jtag_pid = 0x1001"

fun first_device :: "(str \<times> port_type) list \<Rightarrow> str option" where
  "first_device [] = None"
| "first_device ((name, ty) # ports) =
     (case ty of
        UsbPort vid pid \<Rightarrow> if vid = espressif_vid \<and> pid = esp32s3_jtag_pid then Some name else first_device ports
      | OtherPort \<Rightarrow> first_device ports)"

definition find_device_port :: "(str \<times> port_type) list option \<Rightarrow> str option" where
  "find_device_port available = (case available of None \<Rightarrow> None | Some ports \<Rightarrow> first_device ports)"

text \<open>\<open>Option::filter\<close> and \<open>or_else\<close>; \<open>None\<close> ends the process.\<close>

definition nonempty :: "str option \<Rightarrow> str option" where
  "nonempty p = (case p of Some s \<Rightarrow> if s = [] then None else Some s | None \<Rightarrow> None)"

definition resolve_port :: "str option \<Rightarrow> config \<Rightarrow> (str \<times> port_type) list option \<Rightarrow> str option" where
  "resolve_port port_override cfg available =
     (case nonempty port_override of
        Some s \<Rightarrow> Some s
      | None \<Rightarrow> (case nonempty (Some (cf_port cfg)) of
            Some s \<Rightarrow> Some s
          | None \<Rightarrow> find_device_port available))"

text \<open>\<open>cmd_tray\<close> up to the tray itself: the port, the configuration and the file.\<close>

definition tray_start :: "toml_lib \<Rightarrow> str option \<Rightarrow> (str \<times> port_type) list option \<Rightarrow> disk \<Rightarrow> (str \<times> config \<times> disk) option" where
  "tray_start T port_override available d =
     (let cfg = load_config T d
      in case resolve_port port_override cfg available of
           None \<Rightarrow> None
         | Some port_name \<Rightarrow>
             if cf_port cfg \<noteq> port_name
             then let cfg = cfg\<lparr>cf_port := port_name\<rparr> in Some (port_name, cfg, save_config T cfg d)
             else Some (port_name, cfg, d))"

section \<open>What the file keeps\<close>

definition disk_healthy :: "disk \<Rightarrow> bool" where
  "disk_healthy d \<longleftrightarrow> (\<forall>n s. dk_write d n s = Some s)"

lemma healthy_write [simp]: "disk_healthy (disk_write s d) = disk_healthy d"
  by (simp add: disk_healthy_def disk_write_def)

lemma healthy_save [simp]: "disk_healthy (save_config T c d) = disk_healthy d"
  by (simp add: save_config_def split: option.splits)

lemma uint_bounds: "uint (x :: u8) < 256" "uint (y :: u16) < 65536"
  using uint_lt2p [of x] uint_lt2p [of y] by simp_all

lemma config_table: "config_from_table (config_to_table c) = Some c"
  by (simp add: config_from_table_def config_to_table_def str_field_def bool_field_def uint_field_def ascii_def
      uint_bounds)

lemma config_keys: "distinct (map fst (config_to_table c))"
  by (simp add: config_to_table_def ascii_def)

lemma load_save:
  assumes "toml_contract T" "disk_healthy d"
  shows "load_config T (save_config T c d) = c"
proof -
  obtain s where "toml_print T (config_to_table c) = Some s" "toml_parse T s = Some (config_to_table c)"
    using assms(1) config_keys unfolding toml_contract_def by blast
  then show ?thesis
    using assms(2) by (simp add: save_config_def load_config_def disk_write_def disk_healthy_def config_table)
qed

lemma load_save_wifi_ip:
  assumes "toml_contract T" "disk_healthy d"
  shows "load_config T (save_wifi_ip T ip d) = (load_config T d)\<lparr>cf_wifi_device_ip := ip\<rparr>"
  using load_save [OF assms] by (simp add: save_wifi_ip_def)

text \<open>The port a start-up chose is the one the next start-up finds.\<close>

lemma first_device_in: "first_device ps = Some n \<Longrightarrow> n \<in> fst ` set ps"
  by (induction ps rule: first_device.induct) (auto split: port_type.splits if_splits)

lemma resolve_nonempty:
  assumes "resolve_port ov cfg av = Some p" "\<And>ps. av = Some ps \<Longrightarrow> [] \<notin> fst ` set ps"
  shows "p \<noteq> []"
  using assms first_device_in [of _ p]
  by (auto simp: resolve_port_def nonempty_def find_device_port_def split: option.splits if_splits)

section \<open>A table format that meets the contract\<close>

text \<open>Each byte of a string is preceded by 1, and 0 ends it; a number is a string of zeros.\<close>

fun put_str :: "str \<Rightarrow> u8 list" where
  "put_str [] = [0]"
| "put_str (b # s) = 1 # b # put_str s"

fun get_str :: "u8 list \<Rightarrow> (str \<times> u8 list) option" where
  "get_str [] = None"
| "get_str [x] = (if x = 0 then Some ([], []) else None)"
| "get_str (x # b # r) = (if x = 0 then Some ([], b # r) else map_option (\<lambda>(s, r). (b # s, r)) (get_str r))"

fun put_value :: "toml_value \<Rightarrow> u8 list" where
  "put_value (TString s) = 2 # put_str s"
| "put_value (TInteger i) = (if i < 0 then 3 else 4) # put_str (replicate (nat \<bar>i\<bar>) 0)"
| "put_value (TBoolean b) = [if b then 5 else 6]"
| "put_value TOther = [7]"

fun get_value :: "u8 list \<Rightarrow> (toml_value \<times> u8 list) option" where
  "get_value [] = None"
| "get_value (x # r) =
     (if x = 2 then map_option (\<lambda>(s, r). (TString s, r)) (get_str r)
      else if x = 3 then map_option (\<lambda>(s, r). (TInteger (- int (length s)), r)) (get_str r)
      else if x = 4 then map_option (\<lambda>(s, r). (TInteger (int (length s)), r)) (get_str r)
      else if x = 5 then Some (TBoolean True, r)
      else if x = 6 then Some (TBoolean False, r)
      else Some (TOther, r))"

fun put_table :: "toml_table \<Rightarrow> u8 list" where
  "put_table [] = []"
| "put_table ((k, v) # t) = put_str k @ put_value v @ put_table t"

fun get_table :: "nat \<Rightarrow> u8 list \<Rightarrow> toml_table option" where
  "get_table 0 bs = (if bs = [] then Some [] else None)"
| "get_table (Suc n) bs =
     (if bs = [] then Some []
      else case get_str bs of
             None \<Rightarrow> None
           | Some (k, r) \<Rightarrow> (case get_value r of
                 None \<Rightarrow> None
               | Some (v, r) \<Rightarrow> map_option (\<lambda>t. (k, v) # t) (get_table n r)))"

definition ref_toml :: toml_lib where
  "ref_toml = \<lparr>toml_parse = (\<lambda>bs. get_table (length bs) bs), toml_print = (\<lambda>t. Some (put_table t))\<rparr>"

lemma get_put_str: "get_str (put_str s @ r) = Some (s, r)"
  by (induction s) (cases r; simp)+

lemma put_str_nonempty [simp]: "put_str s \<noteq> []"
  by (cases s) simp_all

lemma get_put_value: "get_value (put_value v @ r) = Some (v, r)"
  by (cases v) (simp_all add: get_put_str)

lemma get_put_table: "length t \<le> n \<Longrightarrow> get_table n (put_table t) = Some t"
proof (induction n arbitrary: t)
  case (Suc n)
  show ?case
  proof (cases t)
    case (Cons kv t')
    with Suc show ?thesis by (cases kv) (simp add: get_put_str get_put_value)
  qed simp
qed simp

lemma ref_toml_parse: "toml_parse ref_toml (put_table t) = Some t"
proof -
  have "length t \<le> length (put_table t)"
  proof (induction t rule: put_table.induct)
    case (2 k v t)
    have "1 \<le> length (put_str k)" by (cases k) simp_all
    with 2 show ?case by simp
  qed simp
  then show ?thesis by (simp add: ref_toml_def get_put_table)
qed

lemma ref_toml_contract: "toml_contract ref_toml"
  using ref_toml_parse by (simp add: toml_contract_def) (simp add: ref_toml_def)

definition lab_disk :: "str option \<Rightarrow> disk" where
  "lab_disk file = \<lparr>dk_file = file, dk_write = (\<lambda>_. Some), dk_writes = 0\<rparr>"

lemma lab_disk_healthy [simp]: "disk_healthy (lab_disk f)"
  by (simp add: disk_healthy_def lab_disk_def)

section \<open>Properties\<close>

text \<open>
  What is saved is what the next start loads, and recording the device address changes that
  one field of the file: on a disk that keeps what is written, \<open>load\<close> after \<open>save\<close> gives the
  configuration back, and after \<open>save_wifi_ip\<close> the one loaded before with the new address.
\<close>

theorem config_roundtrip:
  assumes "toml_contract T" "disk_healthy d"
  shows "load_config T (save_config T c d) = c \<and>
    load_config T (save_wifi_ip T ip d) = (load_config T d)\<lparr>cf_wifi_device_ip := ip\<rparr>"
  using load_save [OF assms] load_save_wifi_ip [OF assms] by blast

theorem config_roundtrip_witness:
  "load_config ref_toml (save_wifi_ip ref_toml (ascii ''10.0.0.7'') (save_config ref_toml default_config (lab_disk None))) =
     default_config\<lparr>cf_wifi_device_ip := ascii ''10.0.0.7''\<rparr>"
  using config_roundtrip [OF ref_toml_contract, of "lab_disk None" default_config]
    config_roundtrip [OF ref_toml_contract, of "save_config ref_toml default_config (lab_disk None)" default_config "ascii ''10.0.0.7''"]
  by simp

text \<open>
  The port: a command line port wins, then the configured one, then the first serial port
  that carries the knob's USB identifiers; whichever it is, the tray starts with it in its
  configuration and, on a disk that keeps what is written, the file does too, so the next start
  without a command line port opens the same one.
\<close>

theorem port_remembered:
  assumes "toml_contract T" "disk_healthy d" "\<And>ps. av = Some ps \<Longrightarrow> [] \<notin> fst ` set ps"
    and "tray_start T ov av d = Some (p, cfg, d')"
  shows "p = (case nonempty ov of Some s \<Rightarrow> s | None \<Rightarrow>
      if cf_port (load_config T d) \<noteq> [] then cf_port (load_config T d) else the (find_device_port av)) \<and>
    cfg = (load_config T d)\<lparr>cf_port := p\<rparr> \<and> (p = cf_port (load_config T d) \<or> load_config T d' = cfg) \<and>
    (\<forall>av'. \<exists>d''. tray_start T None av' d' = Some (p, cfg, d''))"
proof -
  let ?c = "load_config T d"
  have r: "resolve_port ov ?c av = Some p" "cfg = ?c\<lparr>cf_port := p\<rparr>" "d' = (if cf_port ?c \<noteq> p then save_config T cfg d else d)"
    using assms(4) by (auto simp: tray_start_def Let_def split: option.splits if_splits)
  have p: "p \<noteq> []" using resolve_nonempty [OF r(1) assms(3)] by blast
  have l: "load_config T d' = cfg" using load_save [OF assms(1,2)] r(2,3) by (cases ?c) auto
  have "tray_start T None av' d' = Some (p, cfg, d')" for av'
    using l p by (simp add: tray_start_def resolve_port_def nonempty_def r(2))
  moreover have "p = (case nonempty ov of Some s \<Rightarrow> s | None \<Rightarrow> if cf_port ?c \<noteq> [] then cf_port ?c else the (find_device_port av))"
    using r(1) by (auto simp: resolve_port_def nonempty_def split: option.splits if_splits)
  ultimately show ?thesis using r(2) l by blast
qed

theorem port_remembered_witness:
  "\<exists>cfg d'. tray_start ref_toml None (Some [(ascii ''COM1'', OtherPort), (ascii ''COM8'', UsbPort 0x303A 0x1001)]) (lab_disk None) =
     Some (ascii ''COM8'', cfg, d') \<and> (\<exists>d''. tray_start ref_toml None None d' = Some (ascii ''COM8'', cfg, d''))"
proof -
  let ?av = "Some [(ascii ''COM1'', OtherPort), (ascii ''COM8'', UsbPort 0x303A 0x1001)]"
  obtain cfg d' where s: "tray_start ref_toml None ?av (lab_disk None) = Some (ascii ''COM8'', cfg, d')"
    by (simp add: tray_start_def load_config_def lab_disk_def resolve_port_def nonempty_def default_config_def find_device_port_def
        espressif_vid_def esp32s3_jtag_pid_def Let_def ascii_def)
  have "[] \<notin> fst ` set ps" if "?av = Some ps" for ps using that by (auto simp: ascii_def)
  from port_remembered [OF ref_toml_contract lab_disk_healthy this s] s show ?thesis by blast
qed

text \<open>
  One value out of range costs the user every setting: a file in which, say, the sensitivity
  is not a byte counts as no file at all, so the tray starts from the defaults, and when it then
  records its port it overwrites the file with them.
\<close>

theorem bad_value_loses_settings:
  assumes "toml_contract T" "disk_healthy d" "dk_file d = Some s" "toml_parse T s = Some t"
    and "map_of t (ascii ''sensitivity_pct'') = Some (TInteger i)" "i < 0 \<or> 256 \<le> i" "p \<noteq> []"
  shows "\<exists>d'. tray_start T (Some p) av d = Some (p, default_config\<lparr>cf_port := p\<rparr>, d') \<and>
    load_config T d' = default_config\<lparr>cf_port := p\<rparr>"
proof -
  have "uint_field t ''sensitivity_pct'' default_sensitivity = None" using assms(5,6) by (auto simp: uint_field_def)
  then have "config_from_table t = None" by (simp add: config_from_table_def split: Option.bind_splits)
  then have "load_config T d = default_config" using assms(3,4) by (simp add: load_config_def)
  then show ?thesis
    using load_save [OF assms(1,2)] assms(7)
    by (simp add: tray_start_def resolve_port_def nonempty_def Let_def default_config_def)
qed

theorem bad_value_loses_settings_witness:
  "\<exists>d'. tray_start ref_toml (Some (ascii ''COM3''))  None (lab_disk (Some (put_table
      [(ascii ''backlight_pct'', TInteger 40), (ascii ''sensitivity_pct'', TInteger 300)]))) =
    Some (ascii ''COM3'', default_config\<lparr>cf_port := ascii ''COM3''\<rparr>, d') \<and> cf_backlight_pct (load_config ref_toml d') = 100"
proof -
  define tbl where "tbl = [(ascii ''backlight_pct'', TInteger 40), (ascii ''sensitivity_pct'', TInteger 300)]"
  have f: "dk_file (lab_disk (Some (put_table tbl))) = Some (put_table tbl)" by (simp only: lab_disk_def disk.select_convs)
  have m: "map_of tbl (ascii ''sensitivity_pct'') = Some (TInteger 300)" by (simp add: tbl_def ascii_def)
  have "\<exists>d'. tray_start ref_toml (Some (ascii ''COM3'')) None (lab_disk (Some (put_table tbl))) =
      Some (ascii ''COM3'', default_config\<lparr>cf_port := ascii ''COM3''\<rparr>, d') \<and>
      load_config ref_toml d' = default_config\<lparr>cf_port := ascii ''COM3''\<rparr>"
    by (rule bad_value_loses_settings [OF ref_toml_contract lab_disk_healthy f ref_toml_parse m]) (simp_all add: ascii_def)
  then have "\<exists>d'. tray_start ref_toml (Some (ascii ''COM3'')) None (lab_disk (Some (put_table tbl))) =
      Some (ascii ''COM3'', default_config\<lparr>cf_port := ascii ''COM3''\<rparr>, d') \<and> cf_backlight_pct (load_config ref_toml d') = 100"
    by (auto simp: default_config_def default_backlight_pct_def)
  then show ?thesis unfolding tbl_def .
qed

end
