(* ===== verification/Transport.thy ===== *)
theory Transport
  imports Usb_Serial Audio Icons Config
begin

text \<open>
  The companion's side of the link (\<open>companion/src/worker.rs\<close>): the transport, sending, and the
  four loops that read until a deadline.  What the operating system does is a value of \<open>world\<close>:
  the results the reads will return, the readings of the clock, the outcome of every write, the
  audio service at every call, the configuration file.  A panic, and a loop that does not end,
  is \<open>None\<close>.
\<close>

section \<open>The world\<close>

datatype read_result = Got "u8 list" | ReadTimedOut | ReadFailed

text \<open>
  What a \<open>write_all\<close> does: it writes everything, it writes a part and then fails, or it never returns
  (the streams of \<open>TcpTransport\<close> have a timeout for reading and none for writing).
\<close>

datatype write_result = Written | WriteFailed nat | WriteBlocks

text \<open>
  \<open>wd_rx\<close>: the reads to come; after them every read times out.  \<open>wd_clear n\<close>: how many of the
  pending reads the n-th \<open>clear_input\<close> discards (0 for TCP).  \<open>wd_clock n\<close>: the n-th reading of
  \<open>Instant::now()\<close>, in nanoseconds.  \<open>wd_accept n\<close>: what the n-th \<open>write_all\<close> does.  \<open>wd_sens n\<close>: the n-th load of the shared sensitivity.
\<close>

record world =
  wd_rx :: "read_result list"
  wd_clear :: "nat \<Rightarrow> nat"
  wd_clears :: nat
  wd_clock :: "nat \<Rightarrow> nat"
  wd_looks :: nat
  wd_accept :: "nat \<Rightarrow> write_result"
  wd_writes :: nat
  wd_tx :: "u8 list"
  wd_audio :: "nat \<Rightarrow> os_audio"
  wd_asked :: nat
  wd_calls :: "audio_call list"
  wd_sens :: "nat \<Rightarrow> u8"
  wd_loads :: nat
  wd_icons :: icon_source
  wd_disk :: disk
  wd_replies :: "(nat \<times> (str + str)) list"

definition millis :: "nat \<Rightarrow> nat" where "millis n = n * 1000000"
definition secs :: "nat \<Rightarrow> nat" where "secs n = n * 1000000000"

definition look :: "world \<Rightarrow> world \<times> nat" where
  "look w = (w\<lparr>wd_looks := wd_looks w + 1\<rparr>, wd_clock w (wd_looks w))"

definition host_read :: "world \<Rightarrow> world \<times> read_result" where
  "host_read w = (case wd_rx w of [] \<Rightarrow> (w, ReadTimedOut) | r # rs \<Rightarrow> (w\<lparr>wd_rx := rs\<rparr>, r))"

definition clear_input :: "world \<Rightarrow> world" where
  "clear_input w = w\<lparr>wd_rx := drop (wd_clear w (wd_clears w)) (wd_rx w), wd_clears := wd_clears w + 1\<rparr>"

definition wrote_bytes :: "u8 list \<Rightarrow> world \<Rightarrow> world" where
  "wrote_bytes bytes w = w\<lparr>wd_writes := wd_writes w + 1,
     wd_tx := wd_tx w @ (case wd_accept w (wd_writes w) of WriteFailed k \<Rightarrow> take k bytes | _ \<Rightarrow> bytes)\<rparr>"

text \<open>The result of \<open>write_all\<close> is dropped by \<open>send\<close> once it is printed; \<open>None\<close> is a write that does not return.\<close>

definition write_all :: "u8 list \<Rightarrow> world \<Rightarrow> world option" where
  "write_all bytes w = (if wd_accept w (wd_writes w) = WriteBlocks then None else Some (wrote_bytes bytes w))"

text \<open>The codecs of both directions, the configuration format, and the order a hash map is iterated in.\<close>

record link =
  lk_host :: "host_to_device wire_lib"
  lk_dev :: "device_to_host wire_lib"
  lk_toml :: toml_lib
  lk_order :: "(u32 \<rightharpoonup> u8 list) \<Rightarrow> u32 list"

definition host_send :: "link \<Rightarrow> host_to_device \<Rightarrow> world \<Rightarrow> world option" where
  "host_send L msg w =
     (case encode (lk_host L) msg of
        None \<Rightarrow> None
      | Some (Inl _) \<Rightarrow> Some w
      | Some (Inr bytes) \<Rightarrow> write_all bytes w)"

section \<open>Reading until a deadline\<close>

text \<open>
  The inner loop \<open>loop { match decoder.next_frame() .. }\<close>: it leaves at the first message that
  satisfies \<open>p\<close>, when no frame is left, or at a decoding error.
\<close>

datatype 'm scan_end = Found 'm | Dry | Broken

function scan :: "'m wire_lib \<Rightarrow> ('m \<Rightarrow> bool) \<Rightarrow> decoder \<Rightarrow> decoder \<times> 'm scan_end" where
  "scan W p d =
     (case next_frame W d of
        (d', Inr (Some m)) \<Rightarrow> if p m then (d', Found m) else scan W p d'
      | (d', Inr None) \<Rightarrow> (d', Dry)
      | (d', Inl _) \<Rightarrow> (d', Broken))"
  by pat_completeness auto
termination
  by (relation "measure (\<lambda>(W, p, d). length (dec_buf d))") (auto dest!: next_frame_shrinks [OF sym])

declare scan.simps [simp del]

text \<open>
  The outer loop \<open>while Instant::now() < deadline { match transport.read(..) .. }\<close>: \<open>on_data\<close> is the
  arm for a read that returned bytes, \<open>on_fail\<close> what an error other than a timeout does (\<open>None\<close> goes
  on); \<open>Some r\<close> leaves with \<open>r\<close>.
\<close>

partial_function (option) listen ::
  "(u8 list \<Rightarrow> 'd \<Rightarrow> world \<Rightarrow> 'd \<times> world \<times> 'r option) \<Rightarrow> 'r option \<Rightarrow> nat \<Rightarrow> 'd \<Rightarrow> world \<Rightarrow> ('d \<times> world \<times> 'r option) option" where
  "listen on_data on_fail deadline d w =
     (case look w of (w, now) \<Rightarrow>
        if \<not> now < deadline then Some (d, w, None)
        else (case host_read w of
                (w, Got bs) \<Rightarrow>
                  if bs = [] then listen on_data on_fail deadline d w
                  else (case on_data bs d w of
                          (d, w, Some r) \<Rightarrow> Some (d, w, Some r)
                        | (d, w, None) \<Rightarrow> listen on_data on_fail deadline d w)
              | (w, ReadTimedOut) \<Rightarrow> listen on_data on_fail deadline d w
              | (w, ReadFailed) \<Rightarrow>
                  (case on_fail of Some r \<Rightarrow> Some (d, w, Some r) | None \<Rightarrow> listen on_data on_fail deadline d w)))"

fun is_ready :: "device_to_host \<Rightarrow> bool" where
  "is_ready (Ready _) = True"
| "is_ready Pong = True"
| "is_ready _ = False"

definition ready_data :: "link \<Rightarrow> u8 list \<Rightarrow> decoder \<Rightarrow> world \<Rightarrow> decoder \<times> world \<times> unit option" where
  "ready_data L bs d w =
     (case scan (lk_dev L) is_ready (fst (decoder_push d bs)) of
        (d, Found _) \<Rightarrow> (d, w, Some ())
      | (d, Dry) \<Rightarrow> (d, w, None)
      | (d, Broken) \<Rightarrow> (decoder_reset d, w, None))"

definition wait_for_ready :: "link \<Rightarrow> decoder \<Rightarrow> world \<Rightarrow> (decoder \<times> world) option" where
  "wait_for_ready L d w =
     (case look w of (w, now) \<Rightarrow> do {
        (d, w, _) \<leftarrow> listen (ready_data L) None (now + secs 3) d w;
        Some (d, w)
      })"

definition ack_data :: "link \<Rightarrow> u8 list \<Rightarrow> decoder \<Rightarrow> world \<Rightarrow> decoder \<times> world \<times> unit option" where
  "ack_data L bs d w =
     (case scan (lk_dev L) (\<lambda>m. m = Ack) (fst (decoder_push d bs)) of
        (d, Found _) \<Rightarrow> (d, w, Some ())
      | (d, Dry) \<Rightarrow> (d, w, None)
      | (d, Broken) \<Rightarrow> (decoder_reset d, clear_input w, None))"

definition send_and_wait :: "link \<Rightarrow> host_to_device \<Rightarrow> decoder \<Rightarrow> world \<Rightarrow> (decoder \<times> world) option" where
  "send_and_wait L msg d w = do {
     w \<leftarrow> host_send L msg w;
     case look w of (w, now) \<Rightarrow> do {
       (d, w, _) \<leftarrow> listen (ack_data L) (Some ()) (now + secs 5) d w;
       Some (d, w)
     }
   }"

definition drain_data :: "link \<Rightarrow> u8 list \<Rightarrow> decoder \<times> nat \<Rightarrow> world \<Rightarrow> (decoder \<times> nat) \<times> world \<times> unit option" where
  "drain_data L bs dt w =
     (case dt of (d, n) \<Rightarrow>
        (case scan (lk_dev L) (\<lambda>_. False) (fst (decoder_push d bs)) of (d, _) \<Rightarrow> ((d, n + length bs), w, None)))"

definition drain_for :: "link \<Rightarrow> nat \<Rightarrow> decoder \<Rightarrow> world \<Rightarrow> ((decoder \<times> nat) \<times> world) option" where
  "drain_for L duration d w =
     (case look w of (w, now) \<Rightarrow> do {
        (dt, w, _) \<leftarrow> listen (drain_data L) (Some ()) (now + duration) (d, 0) w;
        Some (dt, w)
      })"

section \<open>Provisioning over a port of its own\<close>

datatype provision_error = SsidTooLong | PasswordTooLong | PortFailed | NeedsReboot | ReadError | ProvisionTimedOut

text \<open>
  The arm for bytes looks at one frame only: a message it is not waiting for ends the inner loop
  as well (\<open>Ok(Some(_)) | Ok(None) => break\<close>).
\<close>

definition provision_data :: "link \<Rightarrow> u8 list \<Rightarrow> decoder \<Rightarrow> world \<Rightarrow> decoder \<times> world \<times> (provision_error + str) option" where
  "provision_data L bs d w =
     (case next_frame (lk_dev L) (fst (decoder_push d bs)) of
        (d, Inr (Some (WifiStatus up ip))) \<Rightarrow>
          if up then (d, w\<lparr>wd_disk := save_wifi_ip (lk_toml L) ip (wd_disk w)\<rparr>, Some (Inr ip))
          else if ip = ascii ''REBOOT'' then (d, w, Some (Inl NeedsReboot))
          else (d, w, None)
      | (d, Inr _) \<Rightarrow> (d, w, None)
      | (d, Inl _) \<Rightarrow> (decoder_reset d, w, None))"

definition provision_wifi ::
  "link \<Rightarrow> bool \<Rightarrow> str \<Rightarrow> str \<Rightarrow> world \<Rightarrow> (world \<times> (provision_error + str)) option" where
  "provision_wifi L port_opens sid pw w =
     (if length sid > 32 then Some (w, Inl SsidTooLong)
      else if length pw > 64 then Some (w, Inl PasswordTooLong)
      else if \<not> port_opens then Some (w, Inl PortFailed)
      else do {
        (_, w) \<leftarrow> drain_for L (millis 100) (decoder_new (16 * 1024)) w;
        let w = clear_input w;
        w \<leftarrow> host_send L Ping w;
        (d, w) \<leftarrow> wait_for_ready L (decoder_new (16 * 1024)) w;
        w \<leftarrow> host_send L (SetWifiConfig sid pw) w;
        case look w of (w, now) \<Rightarrow> do {
          (d, w, r) \<leftarrow> listen (provision_data L) (Some (Inl ReadError)) (now + secs 30) d w;
          Some (w, case r of Some res \<Rightarrow> res | None \<Rightarrow> Inl ProvisionTimedOut)
        }
      })"

section \<open>The loops return\<close>

text \<open>\<open>Instant::now()\<close> passes every deadline and stays beyond it.\<close>

definition clock_live :: "world \<Rightarrow> bool" where
  "clock_live w \<longleftrightarrow> (\<forall>t. \<exists>n. \<forall>k\<ge>n. t \<le> wd_clock w k)"

text \<open>Every write returns, with everything written or with an error.\<close>

definition writes_return :: "world \<Rightarrow> bool" where
  "writes_return w \<longleftrightarrow> (\<forall>n. wd_accept w n \<noteq> WriteBlocks)"

text \<open>
  The rule for \<open>listen\<close>: \<open>I\<close> holds before every round, \<open>Q\<close> at the end; a round reads the clock and,
  before the deadline, the port; the data arm keeps the clock.
\<close>

lemma listen_round_rule:
  assumes "clock_live w" "I d w"
    and over: "\<And>d w. I d w \<Longrightarrow> deadline \<le> wd_clock w (wd_looks w) \<Longrightarrow> Q d (w\<lparr>wd_looks := wd_looks w + 1\<rparr>) None"
    and idle: "\<And>d w. I d w \<Longrightarrow> wd_clock w (wd_looks w) < deadline \<Longrightarrow>
      wd_rx w = [] \<or> (\<exists>rs. wd_rx w = Got [] # rs \<or> wd_rx w = ReadTimedOut # rs) \<Longrightarrow>
      I d (w\<lparr>wd_looks := wd_looks w + 1, wd_rx := tl (wd_rx w)\<rparr>)"
    and fail: "\<And>d w rs. I d w \<Longrightarrow> wd_clock w (wd_looks w) < deadline \<Longrightarrow> wd_rx w = ReadFailed # rs \<Longrightarrow>
      (case on_fail of Some r \<Rightarrow> Q d (w\<lparr>wd_looks := wd_looks w + 1, wd_rx := rs\<rparr>) (Some r)
       | None \<Rightarrow> I d (w\<lparr>wd_looks := wd_looks w + 1, wd_rx := rs\<rparr>))"
    and data: "\<And>d w bs rs d' w' r. I d w \<Longrightarrow> wd_clock w (wd_looks w) < deadline \<Longrightarrow> wd_rx w = Got bs # rs \<Longrightarrow> bs \<noteq> [] \<Longrightarrow>
      on_data bs d (w\<lparr>wd_looks := wd_looks w + 1, wd_rx := rs\<rparr>) = (d', w', r) \<Longrightarrow>
      (case r of Some x \<Rightarrow> Q d' w' r | None \<Rightarrow> I d' w' \<and> wd_clock w' = wd_clock w \<and> wd_looks w' = wd_looks w + 1)"
  shows "\<exists>d' w' r. listen on_data on_fail deadline d w = Some (d', w', r) \<and> Q d' w' r"
proof -
  obtain n where "\<forall>k\<ge>n. deadline \<le> wd_clock w k" using assms(1) unfolding clock_live_def by blast
  then show ?thesis using assms(2)
  proof (induction "n - wd_looks w" arbitrary: d w rule: less_induct)
    case less
    define v where "v = w\<lparr>wd_looks := wd_looks w + 1\<rparr>"
    have l: "look w = (v, wd_clock w (wd_looks w))" "wd_rx v = wd_rx w" by (simp_all add: look_def v_def)
    show ?case
    proof (cases "wd_clock w (wd_looks w) < deadline")
      case False
      then show ?thesis using over [OF less.prems(2)] l(1) by (subst listen.simps) (simp add: v_def)
    next
      case True
      then have "wd_looks w < n" using less.prems(1) by (meson not_le)
      then have IH: "\<exists>d' w' r. listen on_data on_fail deadline d2 w2 = Some (d', w', r) \<and> Q d' w' r"
        if "I d2 w2" "wd_clock w2 = wd_clock w" "wd_looks w2 = wd_looks w + 1" for d2 w2
        using that less.prems(1) by (intro less.hyps) (auto simp: diff_less_mono2)
      define u where "u = w\<lparr>wd_looks := wd_looks w + 1, wd_rx := tl (wd_rx w)\<rparr>"
      have u: "wd_clock u = wd_clock w" "wd_looks u = wd_looks w + 1" by (simp_all add: u_def)
      have rd: "host_read v = (u, case wd_rx w of [] \<Rightarrow> ReadTimedOut | r # rs \<Rightarrow> r)"
        by (cases "wd_rx w") (simp_all add: host_read_def u_def v_def)
      have go: "listen on_data on_fail deadline d w = listen on_data on_fail deadline d u"
        if "wd_rx w = [] \<or> (\<exists>rs. wd_rx w = Got [] # rs \<or> wd_rx w = ReadTimedOut # rs)"
        using that True l(1) rd by (subst listen.simps) auto
      show ?thesis
      proof (cases "wd_rx w = [] \<or> (\<exists>rs. wd_rx w = Got [] # rs \<or> wd_rx w = ReadTimedOut # rs)")
        case idling: True
        from IH [OF idle [OF less.prems(2) True idling]] go [OF idling] show ?thesis by (simp add: u_def)
      next
        case False
        then consider rs where "wd_rx w = ReadFailed # rs" | bs rs where "wd_rx w = Got bs # rs" "bs \<noteq> []"
          by (cases "wd_rx w"; cases "hd (wd_rx w)") auto
        then show ?thesis
        proof cases
          case 1
          have "listen on_data on_fail deadline d w =
              (case on_fail of Some y \<Rightarrow> Some (d, u, Some y) | None \<Rightarrow> listen on_data on_fail deadline d u)"
            using True l(1) rd 1 by (subst listen.simps) simp
          then show ?thesis using fail [OF less.prems(2) True 1] IH [of d u] u 1 by (cases on_fail) (simp_all add: u_def)
        next
          case 2
          obtain d' w' x where od: "on_data bs d u = (d', w', x)" by (cases "on_data bs d u") auto
          have "listen on_data on_fail deadline d w =
              (case x of Some y \<Rightarrow> Some (d', w', Some y) | None \<Rightarrow> listen on_data on_fail deadline d' w')"
            using True l(1) rd 2 od by (subst listen.simps) (simp split: option.splits)
          moreover have "case x of Some y \<Rightarrow> Q d' w' x | None \<Rightarrow> I d' w' \<and> wd_clock w' = wd_clock w \<and> wd_looks w' = wd_looks w + 1"
            using data [OF less.prems(2) True 2] od 2 by (simp add: u_def)
          ultimately show ?thesis using IH [of d' w'] by (cases x) simp_all
        qed
      qed
    qed
  qed
qed

lemma listen_rule:
  assumes "clock_live w" "I d w"
    and looks: "\<And>d w. I d w \<Longrightarrow> I d (fst (look w))"
    and over: "\<And>d w. I d w \<Longrightarrow> deadline \<le> wd_clock w (wd_looks w) \<Longrightarrow> Q d (fst (look w)) None"
    and idle: "\<And>d w rs. I d w \<Longrightarrow> wd_rx w = Got [] # rs \<or> wd_rx w = ReadTimedOut # rs \<Longrightarrow> I d (w\<lparr>wd_rx := rs\<rparr>)"
    and fail: "\<And>d w rs. I d w \<Longrightarrow> wd_rx w = ReadFailed # rs \<Longrightarrow>
      (case on_fail of Some r \<Rightarrow> Q d (w\<lparr>wd_rx := rs\<rparr>) (Some r) | None \<Rightarrow> I d (w\<lparr>wd_rx := rs\<rparr>))"
    and data: "\<And>d w bs rs d' w' r. I d w \<Longrightarrow> wd_rx w = Got bs # rs \<Longrightarrow> bs \<noteq> [] \<Longrightarrow>
      on_data bs d (w\<lparr>wd_rx := rs\<rparr>) = (d', w', r) \<Longrightarrow>
      (case r of Some x \<Rightarrow> Q d' w' r | None \<Rightarrow> I d' w' \<and> wd_clock w' = wd_clock w \<and> wd_looks w' = wd_looks w)"
  shows "\<exists>d' w' r. listen on_data on_fail deadline d w = Some (d', w', r) \<and> Q d' w' r"
proof (rule listen_round_rule [OF assms(1), where I = I])
  fix d w assume h: "I d w" "wd_rx w = [] \<or> (\<exists>rs. wd_rx w = Got [] # rs \<or> wd_rx w = ReadTimedOut # rs)"
  have l: "I d (w\<lparr>wd_looks := wd_looks w + 1\<rparr>)" using looks [OF h(1)] by (simp add: look_def)
  show "I d (w\<lparr>wd_looks := wd_looks w + 1, wd_rx := tl (wd_rx w)\<rparr>)"
  proof (cases "wd_rx w")
    case Nil
    then have "w\<lparr>wd_looks := wd_looks w + 1, wd_rx := tl (wd_rx w)\<rparr> = w\<lparr>wd_looks := wd_looks w + 1\<rparr>" by simp
    with l show ?thesis by simp
  next
    case (Cons r rs)
    then show ?thesis using idle [OF l, of rs] h(2) by auto
  qed
next
  fix d w rs assume h: "I d w" "wd_rx w = ReadFailed # rs"
  show "case on_fail of Some r \<Rightarrow> Q d (w\<lparr>wd_looks := wd_looks w + 1, wd_rx := rs\<rparr>) (Some r)
      | None \<Rightarrow> I d (w\<lparr>wd_looks := wd_looks w + 1, wd_rx := rs\<rparr>)"
    using fail [OF looks [OF h(1)], of rs] h(2) by (simp add: look_def split: option.splits)
next
  fix d w bs rs d' w' r
  assume h: "I d w" "wd_rx w = Got bs # rs" "bs \<noteq> []" "on_data bs d (w\<lparr>wd_looks := wd_looks w + 1, wd_rx := rs\<rparr>) = (d', w', r)"
  then show "case r of Some x \<Rightarrow> Q d' w' r | None \<Rightarrow> I d' w' \<and> wd_clock w' = wd_clock w \<and> wd_looks w' = wd_looks w + 1"
    using data [OF looks [OF h(1)], of bs rs d' w' r] by (simp add: look_def split: option.splits)
qed (use assms(2) over in \<open>simp_all add: look_def\<close>)

text \<open>Waiting changes the pending input and the position of the clock only.\<close>

definition settled :: "world \<Rightarrow> world" where
  "settled w = w\<lparr>wd_rx := [], wd_clears := 0, wd_looks := 0\<rparr>"

lemma settled_simps [simp]:
  "settled (fst (look w)) = settled w" "settled (clear_input w) = settled w" "settled (w\<lparr>wd_rx := rs\<rparr>) = settled w"
  "settled (w\<lparr>wd_looks := l\<rparr>) = settled w"
  by (simp_all add: settled_def look_def clear_input_def)

lemma settledD:
  assumes "settled w' = settled w"
  shows "wd_clock w' = wd_clock w" "wd_tx w' = wd_tx w" "wd_accept w' = wd_accept w" "wd_writes w' = wd_writes w"
    "wd_audio w' = wd_audio w" "wd_calls w' = wd_calls w" "wd_icons w' = wd_icons w" "wd_disk w' = wd_disk w"
    "wd_replies w' = wd_replies w"
  using arg_cong [OF assms, of wd_clock] arg_cong [OF assms, of wd_tx] arg_cong [OF assms, of wd_accept]
    arg_cong [OF assms, of wd_writes] arg_cong [OF assms, of wd_audio] arg_cong [OF assms, of wd_calls]
    arg_cong [OF assms, of wd_icons] arg_cong [OF assms, of wd_disk] arg_cong [OF assms, of wd_replies]
  by (simp_all add: settled_def)

lemma listen_settles:
  assumes "clock_live w"
    and "\<And>bs d w d' w' r. on_data bs d w = (d', w', r) \<Longrightarrow> settled w' = settled w \<and> wd_looks w' = wd_looks w"
  shows "\<exists>d' w' r. listen on_data on_fail deadline d w = Some (d', w', r) \<and> settled w' = settled w"
  using assms(1)
proof (rule listen_rule [where I = "\<lambda>_ v. settled v = settled w"])
  fix d v bs rs d' w' r
  assume h: "settled v = settled w" "on_data bs d (v\<lparr>wd_rx := rs\<rparr>) = (d', w', r)"
  have s: "settled w' = settled v" "wd_looks w' = wd_looks v" using assms(2) [OF h(2)] by simp_all
  then show "case r of Some x \<Rightarrow> settled w' = settled w
      | None \<Rightarrow> settled w' = settled w \<and> wd_clock w' = wd_clock v \<and> wd_looks w' = wd_looks v"
    using h(1) settledD(1) [OF s(1)] by (simp split: option.splits)
qed (auto split: option.splits)

lemma ready_data_settles:
  "ready_data L bs d w = (d', w', r) \<Longrightarrow> settled w' = settled w \<and> wd_looks w' = wd_looks w"
  by (auto simp: ready_data_def split: prod.splits scan_end.splits)

lemma ack_data_settles:
  "ack_data L bs d w = (d', w', r) \<Longrightarrow> settled w' = settled w \<and> wd_looks w' = wd_looks w"
  by (auto simp: ack_data_def split: prod.splits scan_end.splits) (auto simp: clear_input_def)

lemma drain_data_settles:
  "drain_data L bs d w = (d', w', r) \<Longrightarrow> settled w' = settled w \<and> wd_looks w' = wd_looks w"
  by (auto simp: drain_data_def split: prod.splits)

lemma clock_live_settled: "settled w' = settled w \<Longrightarrow> clock_live w' = clock_live w"
  unfolding clock_live_def using settledD(1) [of w' w] by simp

lemma wait_for_ready_returns:
  assumes "clock_live w"
  shows "\<exists>d' w'. wait_for_ready L d w = Some (d', w') \<and> settled w' = settled w"
proof -
  have c: "clock_live (fst (look w))" using assms clock_live_settled [OF settled_simps(1)] by blast
  obtain d' w' r where "listen (ready_data L) None (snd (look w) + secs 3) d (fst (look w)) = Some (d', w', r)"
    "settled w' = settled (fst (look w))"
    using listen_settles [OF c, of "ready_data L"] ready_data_settles by blast
  then show ?thesis by (auto simp: wait_for_ready_def split_beta)
qed

lemma drain_for_returns:
  assumes "clock_live w"
  shows "\<exists>d' n w'. drain_for L dur d w = Some ((d', n), w') \<and> settled w' = settled w"
proof -
  have c: "clock_live (fst (look w))" using assms clock_live_settled [OF settled_simps(1)] by blast
  obtain d' w' r where "listen (drain_data L) (Some ()) (snd (look w) + dur) (d, 0) (fst (look w)) = Some (d', w', r)"
    "settled w' = settled (fst (look w))"
    using listen_settles [OF c, of "drain_data L"] drain_data_settles by blast
  then show ?thesis by (cases d') (auto simp: drain_for_def split_beta)
qed

lemma clock_live_write [simp]: "clock_live (wrote_bytes bs w) = clock_live w"
  by (simp add: clock_live_def wrote_bytes_def)

text \<open>A send with a codec that works writes the frame, or what the port takes of it.\<close>

lemma host_send_writes:
  "encode (lk_host L) msg = Some (Inr f) \<Longrightarrow> writes_return w \<Longrightarrow> host_send L msg w = Some (wrote_bytes f w)"
  by (simp add: host_send_def write_all_def writes_return_def)

lemma writes_return_settled: "settled w' = settled w \<Longrightarrow> writes_return w' = writes_return w"
  unfolding writes_return_def using settledD(3) [of w' w] by simp

lemma writes_return_wrote [simp]: "writes_return (wrote_bytes bs w) = writes_return w"
  by (simp add: writes_return_def wrote_bytes_def)

lemma send_and_wait_returns:
  assumes "clock_live w" "encode (lk_host L) msg = Some (Inr f)" "writes_return w"
  shows "\<exists>d' w'. send_and_wait L msg d w = Some (d', w') \<and> settled w' = settled (wrote_bytes f w)"
proof -
  let ?w = "wrote_bytes f w"
  have c: "clock_live (fst (look ?w))" using assms(1) clock_live_settled [OF settled_simps(1)] clock_live_write by blast
  obtain d' w' r where "listen (ack_data L) (Some ()) (snd (look ?w) + secs 5) d (fst (look ?w)) = Some (d', w', r)"
    "settled w' = settled (fst (look ?w))"
    using listen_settles [OF c, of "ack_data L"] ack_data_settles by blast
  then show ?thesis by (auto simp: send_and_wait_def host_send_writes [OF assms(2,3)] split_beta)
qed

section \<open>What the device's messages do to the loops\<close>

text \<open>The bytes the reads will return, and the messages they and the decoder still owe the companion.\<close>

fun got_bytes :: "read_result \<Rightarrow> u8 list" where
  "got_bytes (Got bs) = bs"
| "got_bytes _ = []"

definition rx_bytes :: "world \<Rightarrow> u8 list" where
  "rx_bytes w = concat (map got_bytes (wd_rx w))"

definition host_owes :: "'m wire_lib \<Rightarrow> decoder \<Rightarrow> world \<Rightarrow> 'm list \<Rightarrow> bool" where
  "host_owes W d w ms \<longleftrightarrow> (\<exists>fs. list_all2 (\<lambda>m f. encode W m = Some (Inr f)) ms fs \<and>
     dec_buf d @ rx_bytes w = concat fs \<and> length (concat fs) \<le> max_frame_len d)"

text \<open>
  A wait of \<open>t\<close> nanoseconds ran out: every reading of the clock before the deadline was followed by a
  read, \<open>n\<close> in all, and of what they delivered the decoder holds no whole frame any more (it is not
  looked at again when nothing was delivered).
\<close>

definition ran_out :: "nat \<Rightarrow> world \<Rightarrow> decoder \<Rightarrow> world \<Rightarrow> bool" where
  "ran_out t w d' w' \<longleftrightarrow> (\<exists>n. wd_looks w' = wd_looks w + n + 2 \<and>
     (\<forall>k<n. wd_clock w (wd_looks w + 1 + k) < wd_clock w (wd_looks w) + t) \<and>
     wd_clock w (wd_looks w) + t \<le> wd_clock w (wd_looks w + 1 + n) \<and>
     wd_rx w' = drop n (wd_rx w) \<and> (0 \<notin> set (dec_buf d') \<or> concat (map got_bytes (take n (wd_rx w))) = []))"

lemma next_frame_dry: "next_frame W d = (d, Inr None) \<Longrightarrow> 0 \<notin> set (dec_buf d)"
proof -
  assume h: "next_frame W d = (d, Inr None)"
  show "0 \<notin> set (dec_buf d)"
  proof (cases "position (\<lambda>b. b = 0) (dec_buf d)")
    case (Some e)
    then have "drop (e + 1) (dec_buf d) = dec_buf d" "e < length (dec_buf d)"
      using arg_cong [OF h, of "\<lambda>r. dec_buf (fst r)"] position_less [OF Some] by (auto simp: next_frame_def split: if_splits)
    then have "length (dec_buf d) - (e + 1) = length (dec_buf d)" by (metis length_drop)
    then show ?thesis using \<open>e < length (dec_buf d)\<close> by simp
  qed (auto simp: position_None)
qed

context wire_format
begin

lemma scan_frames:
  assumes "list_all2 (\<lambda>m f. encode W m = Some (Inr f)) ms fs" and "dec_buf d @ r = concat fs"
  shows "\<exists>pre rest fs' b. list_all (\<lambda>m. \<not> p m) pre \<and> list_all2 (\<lambda>m f. encode W m = Some (Inr f)) rest fs' \<and>
    b @ r = concat fs' \<and> length (concat fs') \<le> length (concat fs) \<and>
    ((\<exists>m. ms = pre @ m # rest \<and> p m \<and> scan W p d = (d\<lparr>dec_buf := b\<rparr>, Found m)) \<or>
     (ms = pre @ rest \<and> scan W p d = (d\<lparr>dec_buf := b\<rparr>, Dry) \<and> 0 \<notin> set b \<and> (r = [] \<longrightarrow> rest = [])))"
  using assms
proof (induction ms arbitrary: fs d)
  case Nil
  then have "dec_buf d = []" by simp
  then have "next_frame W d = (d, Inr None)" by (simp add: next_frame_miss)
  then have "scan W p d = (d, Dry)" by (subst scan.simps) simp
  with Nil show ?case by (intro exI [of _ "[]"] exI [of _ "dec_buf d"]) simp
next
  case (Cons m0 ms0)
  show ?case
  proof (cases rule: next_frame_prefix [OF Cons.prems, case_names hit miss])
    case miss
    have "scan W p d = (d, Dry)" using miss(1) by (subst scan.simps) simp
    then show ?thesis using Cons.prems miss(2) next_frame_dry [OF miss(1)]
      by (intro exI [of _ "[]"] exI [of _ "m0 # ms0"] exI [of _ fs] exI [of _ "dec_buf d"]) auto
  next
    case (hit m ms' f fs' b)
    then have ms: "m = m0" "ms' = ms0" by simp_all
    have enc: "list_all2 (\<lambda>m f. encode W m = Some (Inr f)) ms0 fs'" using Cons.prems(1) hit(2) by simp
    show ?thesis
    proof (cases "p m0")
      case True
      have "scan W p d = (d\<lparr>dec_buf := b\<rparr>, Found m0)" using hit(5) ms True by (subst scan.simps) simp
      then show ?thesis using enc hit(2,4) True
        by (intro exI [of _ "[]"] exI [of _ ms0] exI [of _ fs'] exI [of _ b]) auto
    next
      case False
      have sc: "scan W p d = scan W p (d\<lparr>dec_buf := b\<rparr>)" using hit(5) ms False by (subst scan.simps) simp
      have "dec_buf (d\<lparr>dec_buf := b\<rparr>) @ r = concat fs'" using hit(4) by simp
      from Cons.IH [OF enc this] obtain pre rest gs b' where IH: "list_all (\<lambda>m. \<not> p m) pre"
        "list_all2 (\<lambda>m f. encode W m = Some (Inr f)) rest gs" "b' @ r = concat gs" "length (concat gs) \<le> length (concat fs')"
        "(\<exists>m. ms0 = pre @ m # rest \<and> p m \<and> scan W p (d\<lparr>dec_buf := b\<rparr>) = (d\<lparr>dec_buf := b'\<rparr>, Found m)) \<or>
         (ms0 = pre @ rest \<and> scan W p (d\<lparr>dec_buf := b\<rparr>) = (d\<lparr>dec_buf := b'\<rparr>, Dry) \<and> 0 \<notin> set b' \<and> (r = [] \<longrightarrow> rest = []))" by auto
      show ?thesis
        using IH False hit(2) unfolding sc
        by (intro exI [of _ "m0 # pre"] exI [of _ rest] exI [of _ gs] exI [of _ b']) auto
    qed
  qed
qed

text \<open>A read adds its bytes to what is owed to the decoder.\<close>

lemma push_owed:
  assumes "host_owes W d w ms" "wd_rx w = Got bs # rs"
  shows "\<exists>d'. decoder_push d bs = (d', Inr ()) \<and> max_frame_len d' = max_frame_len d \<and>
    (\<exists>fs. list_all2 (\<lambda>m f. encode W m = Some (Inr f)) ms fs \<and> dec_buf d' @ concat (map got_bytes rs) = concat fs \<and>
       length (concat fs) \<le> max_frame_len d)"
proof -
  obtain fs where fs: "list_all2 (\<lambda>m f. encode W m = Some (Inr f)) ms fs" "dec_buf d @ bs @ concat (map got_bytes rs) = concat fs"
    "length (concat fs) \<le> max_frame_len d" using assms by (auto simp: host_owes_def rx_bytes_def)
  have "length (dec_buf d) + length bs \<le> max_frame_len d" using fs(3) unfolding fs(2) [symmetric] by simp
  then have "decoder_push d bs = (d\<lparr>dec_buf := dec_buf d @ bs\<rparr>, Inr ())" by (simp add: decoder_push_def)
  with fs show ?thesis by (intro exI [of _ "d\<lparr>dec_buf := dec_buf d @ bs\<rparr>"] conjI exI [of _ fs]) simp_all
qed

text \<open>One arm for bytes that scans: either the message is there, or more has to be read.\<close>

lemma scan_owed:
  assumes "host_owes W d w ms" "wd_rx w = Got bs # rs"
  shows "\<exists>pre rest d'. list_all (\<lambda>m. \<not> p m) pre \<and> host_owes W d' (w\<lparr>wd_rx := rs\<rparr>) rest \<and>
    ((\<exists>m. ms = pre @ m # rest \<and> p m \<and> scan W p (fst (decoder_push d bs)) = (d', Found m)) \<or>
     (ms = pre @ rest \<and> scan W p (fst (decoder_push d bs)) = (d', Dry) \<and> 0 \<notin> set (dec_buf d')))"
proof -
  obtain d1 fs where d1: "decoder_push d bs = (d1, Inr ())" "max_frame_len d1 = max_frame_len d"
    "list_all2 (\<lambda>m f. encode W m = Some (Inr f)) ms fs" "dec_buf d1 @ concat (map got_bytes rs) = concat fs"
    "length (concat fs) \<le> max_frame_len d"
    using push_owed [OF assms] by blast
  from scan_frames [OF d1(3,4), of p] obtain pre rest gs b where s: "list_all (\<lambda>m. \<not> p m) pre"
    "list_all2 (\<lambda>m f. encode W m = Some (Inr f)) rest gs" "b @ concat (map got_bytes rs) = concat gs"
    "length (concat gs) \<le> length (concat fs)"
    "(\<exists>m. ms = pre @ m # rest \<and> p m \<and> scan W p d1 = (d1\<lparr>dec_buf := b\<rparr>, Found m)) \<or>
     (ms = pre @ rest \<and> scan W p d1 = (d1\<lparr>dec_buf := b\<rparr>, Dry) \<and> 0 \<notin> set b)" by blast
  have "host_owes W (d1\<lparr>dec_buf := b\<rparr>) (w\<lparr>wd_rx := rs\<rparr>) rest"
    using s(2-4) d1(2,5) by (auto simp: host_owes_def rx_bytes_def intro!: exI [of _ gs])
  with s(1,5) d1(1) show ?thesis by (intro exI [of _ pre] exI [of _ rest] exI [of _ "d1\<lparr>dec_buf := b\<rparr>"]) auto
qed

text \<open>
  The two waiting loops, on a transport that delivers the frames of \<open>ms\<close> and never fails: the
  loop skips messages up to and including the first one it waits for, or it skips messages that
  are all others, leaves no whole frame of what it read, and gives up at the deadline.
\<close>

lemma listen_scans:
  assumes live: "clock_live w" and owes: "host_owes W d w ms" and ok: "ReadFailed \<notin> set (wd_rx w)"
    and arm: "\<And>bs d v d' m. scan W p (fst (decoder_push d bs)) = (d', Found m) \<Longrightarrow> on_data bs d v = (d', v, Some ())"
      "\<And>bs d v d'. scan W p (fst (decoder_push d bs)) = (d', Dry) \<Longrightarrow> on_data bs d v = (d', v, None)"
  shows "\<exists>d' w' r pre rest n. listen on_data on_fail deadline d w = Some (d', w', r) \<and> settled w' = settled w \<and>
    list_all (\<lambda>m. \<not> p m) pre \<and> host_owes W d' w' rest \<and> wd_rx w' = drop n (wd_rx w) \<and>
    (if r = None then ms = pre @ rest \<and> wd_looks w' = wd_looks w + n + 1 \<and> deadline \<le> wd_clock w (wd_looks w + n) \<and>
       (\<forall>k<n. wd_clock w (wd_looks w + k) < deadline) \<and> (0 \<notin> set (dec_buf d') \<or> concat (map got_bytes (take n (wd_rx w))) = [])
     else \<exists>m. p m \<and> ms = pre @ m # rest)"
proof -
  define quiet where "quiet = (\<lambda>d v n. settled v = settled w \<and> wd_rx v = drop n (wd_rx w) \<and>
    (\<forall>k<n. wd_clock w (wd_looks w + k) < deadline) \<and> (0 \<notin> set (dec_buf d) \<or> concat (map got_bytes (take n (wd_rx w))) = []) \<and>
    (\<exists>pre rest. ms = pre @ rest \<and> list_all (\<lambda>m. \<not> p m) pre \<and> host_owes W d v rest))"
  define I where "I = (\<lambda>d v. \<exists>n. wd_looks v = wd_looks w + n \<and> quiet d v n)"
  define Q where "Q = (\<lambda>d v (r :: unit option). if r = None
    then \<exists>n. wd_looks v = wd_looks w + n + 1 \<and> deadline \<le> wd_clock w (wd_looks w + n) \<and> quiet d v n
    else settled v = settled w \<and> (\<exists>n. wd_rx v = drop n (wd_rx w)) \<and>
      (\<exists>pre m rest. p m \<and> ms = pre @ m # rest \<and> list_all (\<lambda>m. \<not> p m) pre \<and> host_owes W d v rest))"
  have same: "host_owes W d (v\<lparr>wd_looks := k\<rparr>) = host_owes W d v" for d v k
    by (simp add: fun_eq_iff host_owes_def rx_bytes_def)
  have clock: "settled v = settled w \<Longrightarrow> wd_clock v = wd_clock w" for v by (rule settledD(1))
  have next_read: "tl (drop n xs) = drop (Suc n) xs" for n and xs :: "read_result list" by (simp add: drop_Suc tl_drop)
  have sofar: "\<forall>k<Suc n. wd_clock w (wd_looks w + k) < deadline"
    if "\<forall>k<n. wd_clock w (wd_looks w + k) < deadline" "wd_clock w (wd_looks w + n) < deadline" for n
    using that by (simp add: less_Suc_eq)
  have taken: "take (Suc n) (wd_rx w) = take n (wd_rx w) @ take 1 (drop n (wd_rx w))" for n
    using take_add [of n 1 "wd_rx w"] by simp
  have "\<exists>d' w' r. listen on_data on_fail deadline d w = Some (d', w', r) \<and> Q d' w' r"
  proof (rule listen_round_rule [OF live, where I = I])
    have "quiet d w 0" using owes unfolding quiet_def by (intro conjI exI [of _ "[]"] exI [of _ ms]) simp_all
    then show "I d w" unfolding I_def by (intro exI [of _ 0]) simp
  next
    fix d v assume "I d v" "deadline \<le> wd_clock v (wd_looks v)"
    then obtain n where n: "wd_looks v = wd_looks w + n" "quiet d v n" by (auto simp: I_def)
    moreover from n have "quiet d (v\<lparr>wd_looks := wd_looks v + 1\<rparr>) n" unfolding quiet_def by (simp add: same)
    moreover have "wd_clock v = wd_clock w" using n(2) clock [of v] by (simp add: quiet_def)
    ultimately show "Q d (v\<lparr>wd_looks := wd_looks v + 1\<rparr>) None"
      using \<open>deadline \<le> wd_clock v (wd_looks v)\<close> unfolding Q_def by (auto intro!: exI [of _ n])
  next
    fix d v
    assume h: "I d v" "wd_clock v (wd_looks v) < deadline" "wd_rx v = [] \<or> (\<exists>rs. wd_rx v = Got [] # rs \<or> wd_rx v = ReadTimedOut # rs)"
    then obtain n where n: "wd_looks v = wd_looks w + n" "quiet d v n" by (auto simp: I_def)
    let ?v = "v\<lparr>wd_looks := wd_looks v + 1, wd_rx := tl (wd_rx v)\<rparr>"
    have "host_owes W d ?v = host_owes W d v" using h(3) by (auto simp: fun_eq_iff host_owes_def rx_bytes_def)
    moreover have "concat (map got_bytes (take (Suc n) (wd_rx w))) = concat (map got_bytes (take n (wd_rx w)))"
      using n(2) h(3) unfolding taken quiet_def by auto
    ultimately have "quiet d ?v (Suc n)"
      using n h(2) clock [of v] sofar [of n] unfolding quiet_def by (simp add: next_read)
    then show "I d ?v" unfolding I_def using n(1) by (intro exI [of _ "Suc n"]) simp
  next
    fix d v rs assume "I d v" "wd_rx v = ReadFailed # rs"
    then obtain n where n: "drop n (wd_rx w) = ReadFailed # rs" by (auto simp: I_def quiet_def)
    have "ReadFailed \<in> set (drop n (wd_rx w))" unfolding n by simp
    then have False using ok by (blast dest: in_set_dropD)
    then show "case on_fail of Some r \<Rightarrow> Q d (v\<lparr>wd_looks := wd_looks v + 1, wd_rx := rs\<rparr>) (Some r)
        | None \<Rightarrow> I d (v\<lparr>wd_looks := wd_looks v + 1, wd_rx := rs\<rparr>)" ..
  next
    fix d bs rs d' r and v w' :: world
    let ?v = "v\<lparr>wd_looks := wd_looks v + 1, wd_rx := rs\<rparr>"
    assume I: "I d v" and early: "wd_clock v (wd_looks v) < deadline" and rx: "wd_rx v = Got bs # rs" and od: "on_data bs d ?v = (d', w', r)"
    then obtain n pre rest where n: "wd_looks v = wd_looks w + n" "settled v = settled w" "wd_rx v = drop n (wd_rx w)"
      "\<forall>k<n. wd_clock w (wd_looks w + k) < deadline" "ms = pre @ rest" "list_all (\<lambda>m. \<not> p m) pre" "host_owes W d v rest"
      by (auto simp: I_def quiet_def)
    have rs: "rs = drop (Suc n) (wd_rx w)" using n(3) rx next_read [of n "wd_rx w"] by (metis list.sel(3))
    have so: "\<forall>k<Suc n. wd_clock w (wd_looks w + k) < deadline" using sofar [OF n(4)] early n(1) clock [OF n(2)] by simp
    from scan_owed [OF n(7) rx, of p] obtain pre' rest' d1 where sc: "list_all (\<lambda>m. \<not> p m) pre'"
      "host_owes W d1 (v\<lparr>wd_rx := rs\<rparr>) rest'"
      "(\<exists>m. rest = pre' @ m # rest' \<and> p m \<and> scan W p (fst (decoder_push d bs)) = (d1, Found m)) \<or>
       (rest = pre' @ rest' \<and> scan W p (fst (decoder_push d bs)) = (d1, Dry) \<and> 0 \<notin> set (dec_buf d1))" by blast
    have o: "host_owes W d1 ?v rest'" using sc(2) by (simp add: host_owes_def rx_bytes_def)
    from sc(3) show "case r of Some x \<Rightarrow> Q d' w' r | None \<Rightarrow> I d' w' \<and> wd_clock w' = wd_clock v \<and> wd_looks w' = wd_looks v + 1"
    proof (elim disjE exE conjE)
      fix m assume h: "rest = pre' @ m # rest'" "p m" "scan W p (fst (decoder_push d bs)) = (d1, Found m)"
      then have e: "d' = d1" "w' = ?v" "r = Some ()" using arm(1) [OF h(3)] od by simp_all
      have "\<exists>pre m rest. p m \<and> ms = pre @ m # rest \<and> list_all (\<lambda>m. \<not> p m) pre \<and> host_owes W d1 ?v rest"
        using n(5,6) sc(1) o h(1,2) by (intro exI [of _ "pre @ pre'"] exI [of _ m] exI [of _ rest']) simp
      then have "Q d1 ?v (Some ())" using n(2) rs unfolding Q_def by auto
      then show ?thesis by (simp add: e)
    next
      assume h: "rest = pre' @ rest'" "scan W p (fst (decoder_push d bs)) = (d1, Dry)" "0 \<notin> set (dec_buf d1)"
      then have e: "d' = d1" "w' = ?v" "r = None" using arm(2) [OF h(2)] od by simp_all
      have "\<exists>pre rest. ms = pre @ rest \<and> list_all (\<lambda>m. \<not> p m) pre \<and> host_owes W d1 ?v rest"
        using n(5,6) sc(1) o h(1) by (intro exI [of _ "pre @ pre'"] exI [of _ rest']) simp
      then have "quiet d1 ?v (Suc n)" using n(2) h(3) rs so unfolding quiet_def by simp
      then have "I d1 ?v" unfolding I_def using n(1) by (intro exI [of _ "Suc n"]) simp
      then show ?thesis by (simp add: e)
    qed
  qed
  then obtain d' w' r where l: "listen on_data on_fail deadline d w = Some (d', w', r)" "Q d' w' r" by blast
  show ?thesis
  proof (cases r)
    case None
    then obtain n pre rest where "wd_looks w' = wd_looks w + n + 1" "deadline \<le> wd_clock w (wd_looks w + n)" "settled w' = settled w"
      "wd_rx w' = drop n (wd_rx w)" "\<forall>k<n. wd_clock w (wd_looks w + k) < deadline"
      "0 \<notin> set (dec_buf d') \<or> concat (map got_bytes (take n (wd_rx w))) = []"
      "ms = pre @ rest" "list_all (\<lambda>m. \<not> p m) pre" "host_owes W d' w' rest"
      using l(2) by (auto simp: Q_def quiet_def)
    then show ?thesis using l(1) None
      by (intro exI [of _ d'] exI [of _ w'] exI [of _ r] exI [of _ pre] exI [of _ rest] exI [of _ n]) simp
  next
    case (Some x)
    then show ?thesis using l by (auto simp: Q_def)
  qed
qed

end

lemma wait_for_ready_skips:
  assumes "wire_format (lk_dev L)" "clock_live w" "host_owes (lk_dev L) d w ms" "ReadFailed \<notin> set (wd_rx w)"
  shows "\<exists>d' w' pre rest. wait_for_ready L d w = Some (d', w') \<and> settled w' = settled w \<and>
    list_all (\<lambda>m. \<not> is_ready m) pre \<and> host_owes (lk_dev L) d' w' rest \<and>
    ((\<exists>m. is_ready m \<and> ms = pre @ m # rest) \<or> ms = pre @ rest \<and> ran_out (secs 3) w d' w')"
proof -
  let ?w = "fst (look w)"
  have c: "clock_live ?w" using assms(2) clock_live_settled [OF settled_simps(1)] by blast
  have o: "host_owes (lk_dev L) d ?w ms" "ReadFailed \<notin> set (wd_rx ?w)"
    using assms(3,4) by (simp_all add: host_owes_def rx_bytes_def look_def)
  obtain d' w' r pre rest n where l: "listen (ready_data L) None (snd (look w) + secs 3) d ?w = Some (d', w', r)"
    "settled w' = settled ?w" "list_all (\<lambda>m. \<not> is_ready m) pre" "host_owes (lk_dev L) d' w' rest" "wd_rx w' = drop n (wd_rx ?w)"
    "if r = None then ms = pre @ rest \<and> wd_looks w' = wd_looks ?w + n + 1 \<and> snd (look w) + secs 3 \<le> wd_clock ?w (wd_looks ?w + n) \<and>
       (\<forall>k<n. wd_clock ?w (wd_looks ?w + k) < snd (look w) + secs 3) \<and>
       (0 \<notin> set (dec_buf d') \<or> concat (map got_bytes (take n (wd_rx ?w))) = [])
     else \<exists>m. is_ready m \<and> ms = pre @ m # rest"
    using wire_format.listen_scans [OF assms(1) c o, of is_ready "ready_data L" None "snd (look w) + secs 3"]
    by (auto simp: ready_data_def)
  have "(\<exists>m. is_ready m \<and> ms = pre @ m # rest) \<or> ms = pre @ rest \<and> ran_out (secs 3) w d' w'"
    using l(5,6) unfolding ran_out_def by (cases "r = None") (auto simp: look_def intro!: exI [of _ n])
  then show ?thesis using l(1-4)
    by (intro exI [of _ d'] exI [of _ w'] exI [of _ pre] exI [of _ rest]) (simp add: wait_for_ready_def look_def split_beta)
qed

lemma send_and_wait_skips:
  assumes "wire_format (lk_dev L)" "clock_live w" "host_owes (lk_dev L) d w ms" "ReadFailed \<notin> set (wd_rx w)"
    and "encode (lk_host L) msg = Some (Inr f)" "writes_return w"
  shows "\<exists>d' w' pre rest. send_and_wait L msg d w = Some (d', w') \<and> settled w' = settled (wrote_bytes f w) \<and>
    Ack \<notin> set pre \<and> host_owes (lk_dev L) d' w' rest \<and>
    (ms = pre @ Ack # rest \<or> ms = pre @ rest \<and> ran_out (secs 5) w d' w')"
proof -
  let ?v = "wrote_bytes f w"
  let ?w = "fst (look ?v)"
  have c: "clock_live ?w" using assms(2) clock_live_settled [OF settled_simps(1)] clock_live_write by blast
  have o: "host_owes (lk_dev L) d ?w ms" "ReadFailed \<notin> set (wd_rx ?w)"
    using assms(3,4) by (simp_all add: host_owes_def rx_bytes_def look_def wrote_bytes_def)
  obtain d' w' r pre rest n where l: "listen (ack_data L) (Some ()) (snd (look ?v) + secs 5) d ?w = Some (d', w', r)"
    "settled w' = settled ?w" "list_all (\<lambda>m. \<not> m = Ack) pre" "host_owes (lk_dev L) d' w' rest" "wd_rx w' = drop n (wd_rx ?w)"
    "if r = None then ms = pre @ rest \<and> wd_looks w' = wd_looks ?w + n + 1 \<and> snd (look ?v) + secs 5 \<le> wd_clock ?w (wd_looks ?w + n) \<and>
       (\<forall>k<n. wd_clock ?w (wd_looks ?w + k) < snd (look ?v) + secs 5) \<and>
       (0 \<notin> set (dec_buf d') \<or> concat (map got_bytes (take n (wd_rx ?w))) = [])
     else \<exists>m. m = Ack \<and> ms = pre @ m # rest"
    using wire_format.listen_scans [OF assms(1) c o, of "\<lambda>m. m = Ack" "ack_data L" "Some ()" "snd (look ?v) + secs 5"]
    by (auto simp: ack_data_def)
  have "ms = pre @ Ack # rest \<or> ms = pre @ rest \<and> ran_out (secs 5) w d' w'"
    using l(5,6) unfolding ran_out_def by (cases "r = None") (auto simp: look_def wrote_bytes_def intro!: exI [of _ n])
  moreover have "Ack \<notin> set pre" using l(3) by (auto simp: list_all_iff)
  ultimately show ?thesis using l(1,2,4)
    by (intro exI [of _ d'] exI [of _ w'] exI [of _ pre] exI [of _ rest])
      (simp add: send_and_wait_def host_send_writes [OF assms(5,6)] split_beta)
qed

end
