(* ===== verification/Worker.thy ===== *)
theory Worker
  imports Transport
begin

text \<open>
  The companion's worker (\<open>companion/src/worker.rs\<close>): the audio sessions it announces, the start of a
  session with the device, the event loop and the reconnection loop.  One round of the loop takes
  what it observes of the tray (the stop flag, the dirty flag with the backlight settings, a
  command) as an argument; everything else is the \<open>world\<close> of theory \<open>Transport\<close>.
\<close>

section \<open>The sessions that are announced\<close>

datatype problem = ComFailed | AudioFailed | NoSessions | PortProblem | WifiConnecting
datatype worker_status = StConnected str | StDisconnected | StError problem

record prepared =
  pr_apps :: "app_info list"
  pr_volumes :: "u32 \<rightharpoonup> f32"
  pr_mutes :: "u32 \<rightharpoonup> bool"
  pr_icons :: "u32 \<rightharpoonup> u8 list"

text \<open>\<open>(s.volume * 100.0).round().clamp(0.0, 100.0) as u8\<close>\<close>

definition session_level :: "f32 \<Rightarrow> u8" where
  "session_level v = as_u8 (clamp 0 100 (f32_round_away (f32_mul v 100)))"

definition info_of :: "audio_session \<Rightarrow> app_info" where
  "info_of s = \<lparr>ai_id = as_pid s, ai_name = as_process_name s, ai_volume = session_level (as_volume s), ai_muted = as_muted s\<rparr>"

definition ask_audio :: "world \<Rightarrow> world \<times> os_audio" where
  "ask_audio w = (w\<lparr>wd_asked := wd_asked w + 1\<rparr>, wd_audio w (wd_asked w))"

text \<open>The loop of \<open>prepare_audio_data\<close>, with the set \<open>seen_pids\<close>.\<close>

fun gather :: "icon_source \<Rightarrow> audio_session list \<Rightarrow> u32 set \<Rightarrow> prepared \<Rightarrow> prepared option" where
  "gather os [] seen p = Some p"
| "gather os (s # ss) seen p =
     (if as_pid s = 0 \<or> as_pid s \<in> seen then gather os ss seen p
      else do {
        icon \<leftarrow> (if as_exe_path s \<noteq> [] then extract_rgb565 os (as_exe_path s) else Some None);
        gather os ss (insert (as_pid s) seen)
          (p\<lparr>pr_apps := pr_apps p @ [info_of s],
             pr_volumes := (pr_volumes p)(as_pid s \<mapsto> as_volume s),
             pr_mutes := (pr_mutes p)(as_pid s \<mapsto> as_muted s),
             pr_icons := (case icon of None \<Rightarrow> pr_icons p | Some px \<Rightarrow> (pr_icons p)(as_pid s \<mapsto> px))\<rparr>)
      })"

definition nothing_prepared :: prepared where
  "nothing_prepared = \<lparr>pr_apps = [], pr_volumes = Map.empty, pr_mutes = Map.empty, pr_icons = Map.empty\<rparr>"

definition prepare_audio_data :: "bool \<Rightarrow> world \<Rightarrow> (world \<times> worker_status list \<times> prepared option) option" where
  "prepare_audio_data com_ok w =
     (if \<not> com_ok then Some (w, [StError ComFailed], None)
      else case ask_audio w of (w, oa) \<Rightarrow>
        (case audio_enumerate oa of
           None \<Rightarrow> Some (w, [StError AudioFailed], None)
         | Some sessions \<Rightarrow> do {
             p \<leftarrow> gather (wd_icons w) sessions {} nothing_prepared;
             if pr_apps p = [] then Some (w, [StError NoSessions], None) else Some (w, [], Some p)
           }))"

section \<open>The session with the device\<close>

text \<open>
  The local variables of \<open>run_inner\<close>; a reply channel is the number under which its answer is
  recorded in \<open>wd_replies\<close>.
\<close>

record session =
  se_decoder :: decoder
  se_apps :: "app_info list"
  se_volumes :: "u32 \<rightharpoonup> f32"
  se_mutes :: "u32 \<rightharpoonup> bool"
  se_icons :: "u32 \<rightharpoonup> u8 list"
  se_last_refresh :: nat
  se_last_heartbeat :: nat
  se_reply :: "nat option"
  se_deadline :: "nat option"

fun send_icons :: "link \<Rightarrow> (u32 \<rightharpoonup> u8 list) \<Rightarrow> u32 list \<Rightarrow> decoder \<Rightarrow> world \<Rightarrow> (decoder \<times> world) option" where
  "send_icons L icons [] d w = Some (d, w)"
| "send_icons L icons (i # is) d w =
     (case icons i of
        None \<Rightarrow> send_icons L icons is d w
      | Some pixels \<Rightarrow> do {
          (d, w) \<leftarrow> send_and_wait L (SetAppIcon i pixels) d w;
          send_icons L icons is d w
        })"

text \<open>\<open>run_inner\<close> up to the loop; \<open>app_infos[0]\<close> panics on an empty list.\<close>

definition worker_setup :: "link \<Rightarrow> prepared \<Rightarrow> world \<Rightarrow> (session \<times> world) option" where
  "worker_setup L p w = do {
     (_, w) \<leftarrow> drain_for L (millis 100) (decoder_new (16 * 1024)) w;
     let w = clear_input w;
     w \<leftarrow> host_send L Ping w;
     (d, w) \<leftarrow> wait_for_ready L (decoder_new (16 * 1024)) w;
     first_id \<leftarrow> (case pr_apps p of [] \<Rightarrow> None | a # _ \<Rightarrow> Some (ai_id a));
     (d, w) \<leftarrow> send_and_wait L (SetAppList (pr_apps p)) d w;
     (d, w) \<leftarrow> send_and_wait L (SetSelectedApp first_id) d w;
     (d, w) \<leftarrow> send_icons L (pr_icons p) (lk_order L (pr_icons p)) d w;
     case look w of (w, t_refresh) \<Rightarrow> (case look w of (w, t_heartbeat) \<Rightarrow>
       Some (\<lparr>se_decoder = d, se_apps = pr_apps p, se_volumes = pr_volumes p, se_mutes = pr_mutes p,
              se_icons = pr_icons p, se_last_refresh = t_refresh, se_last_heartbeat = t_heartbeat,
              se_reply = None, se_deadline = None\<rparr>, w))
   }"

section \<open>One message of the device\<close>

definition load_sens :: "world \<Rightarrow> world \<times> u8" where
  "load_sens w = (w\<lparr>wd_loads := wd_loads w + 1\<rparr>, wd_sens w (wd_loads w))"

text \<open>\<open>(current + delta as f32 * sens).clamp(0.0, 1.0)\<close> with \<open>sens = sensitivity as f32 / 100.0\<close>\<close>

definition new_volume :: "f32 \<Rightarrow> u16 \<Rightarrow> u8 \<Rightarrow> f32" where
  "new_volume current delta sensitivity =
     clamp 0 1 (f32_add current (f32_mul (of_int (sint delta)) (f32_div (of_int (uint sensitivity)) 100)))"

definition audio_result :: "audio_call option \<times> bool \<Rightarrow> world \<Rightarrow> world \<times> bool" where
  "audio_result r w = (w\<lparr>wd_calls := wd_calls w @ (case fst r of None \<Rightarrow> [] | Some c \<Rightarrow> [c])\<rparr>, snd r)"

definition on_volume_delta :: "link \<Rightarrow> u32 \<Rightarrow> u16 \<Rightarrow> session \<Rightarrow> world \<Rightarrow> (session \<times> world) option" where
  "on_volume_delta L app_id delta s w =
     (case load_sens w of (w, sens) \<Rightarrow>
        let current = (case se_volumes s app_id of Some v \<Rightarrow> v | None \<Rightarrow> 1 / 2);
            new_vol = new_volume current delta sens
        in case ask_audio w of (w, oa) \<Rightarrow>
          (case audio_result (audio_set_volume app_id new_vol oa) w of
             (w, True) \<Rightarrow> do {
               w \<leftarrow> host_send L (SetVolume app_id (volume_level new_vol)) w;
               Some (s\<lparr>se_volumes := (se_volumes s)(app_id \<mapsto> new_vol)\<rparr>, w)
             }
           | (w, False) \<Rightarrow> Some (s, w)))"

definition on_app_selected :: "link \<Rightarrow> u32 \<Rightarrow> session \<Rightarrow> world \<Rightarrow> (session \<times> world) option" where
  "on_app_selected L app_id s w = do {
     (d, w) \<leftarrow> (case se_volumes s app_id of
         None \<Rightarrow> Some (se_decoder s, w)
       | Some vol \<Rightarrow> send_and_wait L (SetVolume app_id (volume_level vol)) (se_decoder s) w);
     (d, w) \<leftarrow> (case se_icons s app_id of
         None \<Rightarrow> Some (d, w)
       | Some pixels \<Rightarrow> send_and_wait L (SetAppIcon app_id pixels) d w);
     Some (s\<lparr>se_decoder := d\<rparr>, w)
   }"

definition on_mute_toggle :: "link \<Rightarrow> u32 \<Rightarrow> session \<Rightarrow> world \<Rightarrow> (session \<times> world) option" where
  "on_mute_toggle L app_id s w =
     (let currently = (case se_mutes s app_id of Some b \<Rightarrow> b | None \<Rightarrow> False);
          new_muted = (\<not> currently)
      in case ask_audio w of (w, oa) \<Rightarrow>
        (case audio_result (audio_set_mute app_id new_muted oa) w of
           (w, True) \<Rightarrow> do {
             w \<leftarrow> host_send L (SetMute app_id new_muted) w;
             Some (s\<lparr>se_mutes := (se_mutes s)(app_id \<mapsto> new_muted)\<rparr>, w)
           }
         | (w, False) \<Rightarrow> Some (s, w)))"

definition send_reply :: "nat \<Rightarrow> str + str \<Rightarrow> world \<Rightarrow> world" where
  "send_reply i r w = w\<lparr>wd_replies := wd_replies w @ [(i, r)]\<rparr>"

definition reboot_text :: str where
  "reboot_text = ascii ''device requires reboot to apply new WiFi credentials''"
definition failed_text :: str where "failed_text = ascii ''WiFi connection failed''"
definition timeout_text :: str where "timeout_text = ascii ''timed out waiting for WiFi connection''"

definition on_wifi_status :: "link \<Rightarrow> bool \<Rightarrow> str \<Rightarrow> session \<Rightarrow> world \<Rightarrow> session \<times> world" where
  "on_wifi_status L up ip s w =
     (case se_reply s of
        None \<Rightarrow> (s, w)
      | Some reply \<Rightarrow>
          (s\<lparr>se_reply := None, se_deadline := None\<rparr>,
           if up then send_reply reply (Inr ip) (w\<lparr>wd_disk := save_wifi_ip (lk_toml L) ip (wd_disk w)\<rparr>)
           else if ip = ascii ''REBOOT'' then send_reply reply (Inl reboot_text) w
           else send_reply reply (Inl failed_text) w))"

fun on_event :: "link \<Rightarrow> device_to_host \<Rightarrow> session \<Rightarrow> world \<Rightarrow> (session \<times> world) option" where
  "on_event L (VolumeDelta app_id delta) s w = on_volume_delta L app_id delta s w"
| "on_event L (AppSelected app_id) s w = on_app_selected L app_id s w"
| "on_event L (MuteToggle app_id) s w = on_mute_toggle L app_id s w"
| "on_event L (WifiStatus up ip) s w = Some (on_wifi_status L up ip s w)"
| "on_event L _ s w = Some (s, w)"

text \<open>The loop over the frames of one read.\<close>

partial_function (option) worker_drain :: "link \<Rightarrow> session \<Rightarrow> world \<Rightarrow> (session \<times> world) option" where
  "worker_drain L s w =
     (case next_frame (lk_dev L) (se_decoder s) of
        (d, Inr None) \<Rightarrow> Some (s\<lparr>se_decoder := d\<rparr>, w)
      | (d, Inr (Some msg)) \<Rightarrow>
          (case on_event L msg (s\<lparr>se_decoder := d\<rparr>) w of
             None \<Rightarrow> None
           | Some (s, w) \<Rightarrow> worker_drain L s w)
      | (d, Inl _) \<Rightarrow> Some (s\<lparr>se_decoder := decoder_reset d\<rparr>, clear_input w))"

section \<open>One round of the loop\<close>

datatype worker_command = ProvisionWifi str str nat

record round_obs =
  ro_stop :: bool
  ro_dirty :: bool
  ro_backlight :: "u8 \<times> u16 \<times> u16"
  ro_command :: "worker_command option"

text \<open>The read; the flag says that the loop goes on.\<close>

definition worker_read :: "link \<Rightarrow> session \<Rightarrow> world \<Rightarrow> (session \<times> world \<times> bool) option" where
  "worker_read L s w =
     (case host_read w of
        (w, Got bs) \<Rightarrow>
          if bs = [] then Some (s, w, True)
          else do {
            (s, w) \<leftarrow> worker_drain L (s\<lparr>se_decoder := fst (decoder_push (se_decoder s) bs)\<rparr>) w;
            Some (s, w, True)
          }
      | (w, ReadTimedOut) \<Rightarrow> Some (s, w, True)
      | (w, ReadFailed) \<Rightarrow> Some (s, w, False))"

definition worker_heartbeat :: "link \<Rightarrow> session \<Rightarrow> world \<Rightarrow> (session \<times> world) option" where
  "worker_heartbeat L s w =
     (case look w of (w, now) \<Rightarrow>
        if now - se_last_heartbeat s \<ge> secs 2 then
          (case look w of (w, now) \<Rightarrow> do {
             w \<leftarrow> host_send L Ping w;
             Some (s\<lparr>se_last_heartbeat := now\<rparr>, w)
           })
        else Some (s, w))"

definition worker_backlight :: "link \<Rightarrow> round_obs \<Rightarrow> world \<Rightarrow> world option" where
  "worker_backlight L ob w =
     (if ro_dirty ob then (case ro_backlight ob of (pct, dim_after, off_after) \<Rightarrow> host_send L (SetBacklight pct dim_after off_after) w)
      else Some w)"

definition worker_take_command :: "link \<Rightarrow> round_obs \<Rightarrow> session \<Rightarrow> world \<Rightarrow> (session \<times> world) option" where
  "worker_take_command L ob s w =
     (case ro_command ob of
        None \<Rightarrow> Some (s, w)
      | Some (ProvisionWifi sid pw reply) \<Rightarrow> do {
          w \<leftarrow> host_send L (SetWifiConfig sid pw) w;
          case look w of (w, now) \<Rightarrow>
            Some (s\<lparr>se_reply := Some reply, se_deadline := Some (now + secs 30)\<rparr>, w)
        })"

definition worker_expire :: "session \<Rightarrow> world \<Rightarrow> session \<times> world" where
  "worker_expire s w =
     (case se_deadline s of
        None \<Rightarrow> (s, w)
      | Some dl \<Rightarrow>
          (case look w of (w, now) \<Rightarrow>
             if now > dl then
               (s\<lparr>se_reply := None, se_deadline := None\<rparr>,
                case se_reply s of Some reply \<Rightarrow> send_reply reply (Inl timeout_text) w | None \<Rightarrow> w)
             else (s, w)))"

text \<open>The list built at a refresh, and what the loop over the sessions remembers of them.\<close>

fun fresh_infos :: "audio_session list \<Rightarrow> u32 set \<Rightarrow> app_info list" where
  "fresh_infos [] seen = []"
| "fresh_infos (s # ss) seen =
     (if as_pid s = 0 \<or> as_pid s \<in> seen then fresh_infos ss seen
      else info_of s # fresh_infos ss (insert (as_pid s) seen))"

fun note_sessions :: "icon_source \<Rightarrow> u32 set \<Rightarrow> audio_session list \<Rightarrow> session \<Rightarrow> session option" where
  "note_sessions os new_pids [] s = Some s"
| "note_sessions os new_pids (a # as) s =
     (if as_pid a = 0 \<or> as_pid a \<notin> new_pids then note_sessions os new_pids as s
      else do {
        let s = s\<lparr>se_volumes := (se_volumes s)(as_pid a \<mapsto> as_volume a), se_mutes := (se_mutes s)(as_pid a \<mapsto> as_muted a)\<rparr>;
        icon \<leftarrow> (if se_icons s (as_pid a) = None \<and> as_exe_path a \<noteq> [] then extract_rgb565 os (as_exe_path a) else Some None);
        note_sessions os new_pids as
          (case icon of None \<Rightarrow> s | Some px \<Rightarrow> s\<lparr>se_icons := (se_icons s)(as_pid a \<mapsto> px)\<rparr>)
      })"

definition worker_refresh :: "link \<Rightarrow> session \<Rightarrow> world \<Rightarrow> (session \<times> world) option" where
  "worker_refresh L s w =
     (case look w of (w, now) \<Rightarrow>
        if now - se_last_refresh s \<ge> secs 5 then
          (case look w of (w, now) \<Rightarrow>
             let s = s\<lparr>se_last_refresh := now\<rparr>
             in case ask_audio w of (w, oa) \<Rightarrow>
                  (case audio_enumerate oa of
                     None \<Rightarrow> Some (s, w)
                   | Some new_sessions \<Rightarrow>
                       let new_infos = fresh_infos new_sessions {};
                           old_pids = set (map ai_id (se_apps s));
                           new_pids = set (map ai_id new_infos)
                       in if old_pids \<noteq> new_pids then do {
                            s \<leftarrow> note_sessions (wd_icons w) new_pids new_sessions s;
                            w \<leftarrow> host_send L (SetAppList new_infos) w;
                            Some (s, w)
                          } else Some (s, w)))
        else Some (s, w))"

definition worker_round :: "link \<Rightarrow> round_obs \<Rightarrow> session \<Rightarrow> world \<Rightarrow> (session \<times> world \<times> bool) option" where
  "worker_round L ob s w =
     (if ro_stop ob then Some (s, w, False)
      else do {
        (s, w, on) \<leftarrow> worker_read L s w;
        if \<not> on then Some (s, w, False)
        else do {
          (s, w) \<leftarrow> worker_heartbeat L s w;
          w \<leftarrow> worker_backlight L ob w;
          (s, w) \<leftarrow> worker_take_command L ob s w;
          let (s, w) = worker_expire s w;
          (s, w) \<leftarrow> worker_refresh L s w;
          Some (s, w, True)
        }
      })"

text \<open>
  The loop, over the observations of its first rounds.  The flag is false once the loop has been left
  (the stop flag, a read that fails); it is still true when the observations end before that, and the
  loop of the source then goes on with the next round.
\<close>

fun worker_rounds :: "link \<Rightarrow> round_obs list \<Rightarrow> session \<Rightarrow> world \<Rightarrow> (session \<times> world \<times> bool) option" where
  "worker_rounds L [] s w = Some (s, w, True)"
| "worker_rounds L (ob # obs) s w = do {
     (s, w, on) \<leftarrow> worker_round L ob s w;
     if on then worker_rounds L obs s w else Some (s, w, False)
   }"

definition run_inner :: "link \<Rightarrow> prepared \<Rightarrow> round_obs list \<Rightarrow> world \<Rightarrow> (session \<times> world \<times> bool) option" where
  "run_inner L p obs w = do {
     (s, w) \<leftarrow> worker_setup L p w;
     worker_rounds L obs s w
   }"

text \<open>
  \<open>run\<close>: the sessions, the port, then the loop.  The result is the world, the statuses sent, and
  whether the loop is still running.
\<close>

definition worker_run :: "link \<Rightarrow> bool \<Rightarrow> bool \<Rightarrow> str \<Rightarrow> round_obs list \<Rightarrow> world \<Rightarrow> (world \<times> worker_status list \<times> bool) option" where
  "worker_run L com_ok port_opens port_name obs w = do {
     (w, st, p) \<leftarrow> prepare_audio_data com_ok w;
     case p of
       None \<Rightarrow> Some (w, st, False)
     | Some p \<Rightarrow>
         if \<not> port_opens then Some (w, st @ [StError PortProblem], False)
         else do {
           (_, w, on) \<leftarrow> run_inner L p obs w;
           Some (w, st @ [StConnected port_name], on)
         }
   }"

text \<open>
  \<open>run_wifi\<close>, over its attempts to connect: the stop flag when the attempt begins, what the
  connection will deliver (\<open>None\<close>: it is refused), the first rounds of the session, and whether the flag
  is seen set after it, before or in the wait for the next attempt.  The result says where the loop
  is: it has returned, it is about to connect (the attempts ended), or it is in the session of the
  last attempt (its rounds ended, and the session is still running).
\<close>

record wifi_attempt =
  wa_stop :: bool
  wa_rx :: "read_result list option"
  wa_rounds :: "round_obs list"
  wa_stop_after :: bool

datatype wifi_progress = Returned | Connecting | Serving

fun wifi_attempts :: "link \<Rightarrow> str \<Rightarrow> prepared \<Rightarrow> wifi_attempt list \<Rightarrow> world \<Rightarrow> (world \<times> worker_status list \<times> wifi_progress) option" where
  "wifi_attempts L addr p [] w = Some (w, [], Connecting)"
| "wifi_attempts L addr p (a # as) w =
     (if wa_stop a then Some (w, [], Returned)
      else case wa_rx a of
        None \<Rightarrow>
          if wa_stop_after a then Some (w, [StError WifiConnecting], Returned)
          else do {
            (w, st, r) \<leftarrow> wifi_attempts L addr p as w;
            Some (w, StError WifiConnecting # st, r)
          }
      | Some rx \<Rightarrow> do {
          (_, w, on) \<leftarrow> run_inner L p (wa_rounds a) (w\<lparr>wd_rx := rx\<rparr>);
          if on then Some (w, [StConnected addr], Serving)
          else if wa_stop_after a then Some (w, [StConnected addr, StDisconnected], Returned)
          else do {
            (w, st, r) \<leftarrow> wifi_attempts L addr p as w;
            Some (w, StConnected addr # StDisconnected # st, r)
          }
        })"

definition run_wifi :: "link \<Rightarrow> bool \<Rightarrow> str \<Rightarrow> wifi_attempt list \<Rightarrow> world \<Rightarrow> (world \<times> worker_status list \<times> wifi_progress) option" where
  "run_wifi L com_ok addr attempts w = do {
     (w, st, p) \<leftarrow> prepare_audio_data com_ok w;
     case p of
       None \<Rightarrow> Some (w, st, Returned)
     | Some p \<Rightarrow> do {
         (w, st', r) \<leftarrow> wifi_attempts L addr p attempts w;
         Some (w, st @ st', r)
       }
   }"

end
