(* ===== verification/Worker_Safety.thy ===== *)
theory Worker_Safety
  imports Worker
begin

text \<open>
  The worker neither panics nor hangs: every wait ends at its deadline, the loop over the frames of
  a read ends because every frame uses up input, and no operation of a session panics.
\<close>

section \<open>What is left to read\<close>

definition pend :: "decoder \<Rightarrow> world \<Rightarrow> nat" where
  "pend d w = length (dec_buf d) + length (rx_bytes w)"

lemma pend_simps [simp]:
  "pend d (wrote_bytes bs w) = pend d w" "pend d (fst (look w)) = pend d w" "pend d (fst (ask_audio w)) = pend d w"
  "pend d (fst (load_sens w)) = pend d w" "pend d (fst (audio_result r w)) = pend d w" "pend d (send_reply i x w) = pend d w"
  "pend d (w\<lparr>wd_disk := dk\<rparr>) = pend d w"
  by (simp_all add: pend_def rx_bytes_def wrote_bytes_def look_def ask_audio_def load_sens_def audio_result_def send_reply_def)

lemma live_simps [simp]:
  "clock_live (fst (look w)) = clock_live w" "clock_live (fst (ask_audio w)) = clock_live w"
  "clock_live (fst (load_sens w)) = clock_live w" "clock_live (fst (audio_result r w)) = clock_live w"
  "clock_live (send_reply i x w) = clock_live w" "clock_live (w\<lparr>wd_disk := dk\<rparr>) = clock_live w"
  "clock_live (w\<lparr>wd_rx := rs\<rparr>) = clock_live w" "clock_live (clear_input w) = clock_live w"
  by (simp_all add: clock_live_def look_def ask_audio_def load_sens_def audio_result_def send_reply_def clear_input_def)

text \<open>The clock runs and the writes return: what the worker needs of its world to get through an operation.\<close>

definition responsive :: "world \<Rightarrow> bool" where
  "responsive w \<longleftrightarrow> clock_live w \<and> writes_return w"

lemma responsive_clock: "responsive w \<Longrightarrow> clock_live w"
  by (simp add: responsive_def)

lemma responsive_settled: "settled w' = settled w \<Longrightarrow> responsive w' = responsive w"
  using clock_live_settled [of w' w] writes_return_settled [of w' w] by (simp add: responsive_def)

lemma responsive_simps [simp]:
  "responsive (wrote_bytes bs w) = responsive w"
  "responsive (fst (look w)) = responsive w" "responsive (fst (ask_audio w)) = responsive w"
  "responsive (fst (load_sens w)) = responsive w" "responsive (fst (audio_result r w)) = responsive w"
  "responsive (send_reply i x w) = responsive w" "responsive (w\<lparr>wd_disk := dk\<rparr>) = responsive w"
  "responsive (w\<lparr>wd_rx := rs\<rparr>) = responsive w" "responsive (clear_input w) = responsive w"
  by (simp_all add: responsive_def)
    (simp_all add: writes_return_def look_def ask_audio_def load_sens_def audio_result_def send_reply_def clear_input_def)

lemma rx_drop: "length (concat (map got_bytes (drop n rs))) \<le> length (concat (map got_bytes rs))"
proof -
  have "concat (map got_bytes rs) = concat (map got_bytes (take n rs)) @ concat (map got_bytes (drop n rs))"
    by (metis append_take_drop_id concat_append map_append)
  then show ?thesis by simp
qed

lemma pend_clear: "pend d (clear_input w) \<le> pend d w"
  using rx_drop by (simp add: pend_def rx_bytes_def clear_input_def)

lemma pend_read: "wd_rx w = r # rs \<Longrightarrow> pend d (w\<lparr>wd_rx := rs\<rparr>) + length (got_bytes r) = pend d w"
  by (simp add: pend_def rx_bytes_def)

lemma pend_push: "wd_rx w = Got bs # rs \<Longrightarrow> pend (fst (decoder_push d bs)) (w\<lparr>wd_rx := rs\<rparr>) \<le> pend d w"
  by (simp add: pend_def rx_bytes_def decoder_push_def)

lemma scan_shrinks: "scan W p d = (d', r) \<Longrightarrow> length (dec_buf d') \<le> length (dec_buf d)"
proof (induction W p d arbitrary: d' r rule: scan.induct)
  case (1 W p d)
  obtain d1 x where nf: "next_frame W d = (d1, x)" by fastforce
  have "length (dec_buf d1) \<le> length (dec_buf d)"
    using nf by (auto simp: next_frame_def split: option.splits if_splits)
  then show ?case
    using 1 nf by (subst (asm) (2) scan.simps) (fastforce split: sum.splits option.splits if_splits)
qed

lemma ack_data_pend:
  assumes "ack_data L bs d (w\<lparr>wd_rx := rs\<rparr>) = (d', w', r)" "wd_rx w = Got bs # rs"
  shows "pend d' w' \<le> pend d w \<and> responsive w' = responsive w \<and> wd_clock w' = wd_clock w \<and> wd_looks w' = wd_looks w"
proof -
  let ?v = "w\<lparr>wd_rx := rs\<rparr>"
  obtain d1 x where s: "scan (lk_dev L) (\<lambda>m. m = Ack) (fst (decoder_push d bs)) = (d1, x)" by fastforce
  have p: "pend d1 ?v \<le> pend d w" using scan_shrinks [OF s] pend_push [OF assms(2), of d] by (simp add: pend_def)
  show ?thesis
  proof (cases x)
    case Broken
    then have "d' = decoder_reset d1" "w' = clear_input ?v" using assms(1) s by (simp_all add: ack_data_def)
    moreover have "pend (decoder_reset d1) (clear_input ?v) \<le> pend d1 ?v"
      using pend_clear [of "decoder_reset d1" ?v] by (simp add: pend_def decoder_reset_def)
    ultimately show ?thesis using p responsive_simps(9) [of ?v] by (simp add: clear_input_def)
  next
    case (Found m)
    then have e: "d' = d1" "w' = ?v" using assms(1) s by (simp_all add: ack_data_def)
    show ?thesis using p unfolding e by simp
  next
    case Dry
    then have e: "d' = d1" "w' = ?v" using assms(1) s by (simp_all add: ack_data_def)
    show ?thesis using p unfolding e by simp
  qed
qed

text \<open>
  When an attempt of the reconnection loop makes it return: the stop flag is set when it begins, or in the
  wait after a refused connection or a session that was left.
\<close>

definition attempt_stops :: "link \<Rightarrow> prepared \<Rightarrow> wifi_attempt \<Rightarrow> world \<Rightarrow> bool" where
  "attempt_stops L p a w \<longleftrightarrow> wa_stop a \<or> wa_stop_after a \<and> (case wa_rx a of None \<Rightarrow> True
     | Some rx \<Rightarrow> map_option (\<lambda>(_, _, b). b) (run_inner L p (wa_rounds a) (w\<lparr>wd_rx := rx\<rparr>)) = Some False)"

section \<open>Every operation returns\<close>

locale linked_worker =
  fixes L :: link
  assumes host: "wire_format (lk_host L)" and dev: "wire_format (lk_dev L)"
begin

lemma encode_total: "encode (lk_host L) m \<noteq> None"
  using cobs_contract.encode_never_panics [OF wire_format.axioms(1) [OF host]] .

text \<open>The operation returned, the world is still responsive, and no input was added.\<close>

definition returns :: "(decoder \<times> world) option \<Rightarrow> decoder \<Rightarrow> world \<Rightarrow> bool" where
  "returns r d w \<longleftrightarrow> (\<exists>d' w'. r = Some (d', w') \<and> responsive w' \<and> pend d' w' \<le> pend d w)"

lemma send_total:
  assumes "responsive w"
  shows "\<exists>w'. host_send L m w = Some w' \<and> responsive w' \<and> (\<forall>d. pend d w' = pend d w)"
proof -
  obtain r where "encode (lk_host L) m = Some r" using encode_total by blast
  then show ?thesis using assms
    by (cases r) (simp_all add: host_send_def write_all_def responsive_def writes_return_def clock_live_def wrote_bytes_def pend_def rx_bytes_def)
qed

lemma listen_ack_total:
  assumes "responsive w"
  shows "\<exists>d' w' r. listen (ack_data L) (Some ()) deadline d w = Some (d', w', r) \<and> responsive w' \<and> pend d' w' \<le> pend d w"
  using responsive_clock [OF assms]
proof (rule listen_rule [where I = "\<lambda>d1 v. responsive v \<and> pend d1 v \<le> pend d w"])
  show "responsive w \<and> pend d w \<le> pend d w" using assms by simp
next
  fix d1 v rs assume "responsive v \<and> pend d1 v \<le> pend d w" "wd_rx v = ReadFailed # rs"
  then show "case Some () of Some r \<Rightarrow> responsive (v\<lparr>wd_rx := rs\<rparr>) \<and> pend d1 (v\<lparr>wd_rx := rs\<rparr>) \<le> pend d w
      | None \<Rightarrow> responsive (v\<lparr>wd_rx := rs\<rparr>) \<and> pend d1 (v\<lparr>wd_rx := rs\<rparr>) \<le> pend d w"
    using pend_read [of v ReadFailed rs d1] by simp
next
  fix d1 v rs assume "responsive v \<and> pend d1 v \<le> pend d w" "wd_rx v = Got [] # rs \<or> wd_rx v = ReadTimedOut # rs"
  then show "responsive (v\<lparr>wd_rx := rs\<rparr>) \<and> pend d1 (v\<lparr>wd_rx := rs\<rparr>) \<le> pend d w"
    using pend_read [of v _ rs d1] by fastforce
next
  fix d1 v bs rs d' w' r
  assume "responsive v \<and> pend d1 v \<le> pend d w" "wd_rx v = Got bs # rs" "ack_data L bs d1 (v\<lparr>wd_rx := rs\<rparr>) = (d', w', r)"
  then show "case r of Some x \<Rightarrow> responsive w' \<and> pend d' w' \<le> pend d w
      | None \<Rightarrow> (responsive w' \<and> pend d' w' \<le> pend d w) \<and> wd_clock w' = wd_clock v \<and> wd_looks w' = wd_looks v"
    using ack_data_pend by (fastforce split: option.splits)
qed auto

lemma send_and_wait_total:
  assumes "responsive w"
  shows "returns (send_and_wait L m d w) d w"
proof -
  obtain v where v: "host_send L m w = Some v" "responsive v" "pend d v = pend d w" using send_total [OF assms] by blast
  have "responsive (fst (look v))" using v(2) by simp
  then obtain d' w' r where "listen (ack_data L) (Some ()) (snd (look v) + secs 5) d (fst (look v)) = Some (d', w', r)"
    "responsive w'" "pend d' w' \<le> pend d (fst (look v))" using listen_ack_total by blast
  then show ?thesis using v by (auto simp: returns_def send_and_wait_def split_beta)
qed

lemma returnsE:
  assumes "returns r d w"
  obtains d' w' where "r = Some (d', w')" "responsive w'" "pend d' w' \<le> pend d w"
  using assms unfolding returns_def by blast

lemma returns_bind:
  assumes "returns r d w" and "\<And>d' w'. responsive w' \<Longrightarrow> pend d' w' \<le> pend d w \<Longrightarrow> returns (h (d', w')) d' w'"
  shows "returns (Option.bind r h) d w"
proof -
  obtain d' w' where r: "r = Some (d', w')" "responsive w'" "pend d' w' \<le> pend d w" using assms(1) by (auto simp: returns_def)
  with assms(2) [OF r(2,3)] show ?thesis by (auto simp: returns_def dest: order_trans)
qed

lemma returns_Some: "responsive w \<Longrightarrow> returns (Some (d, w)) d w"
  by (simp add: returns_def)

definition fine_event :: "session \<Rightarrow> world \<Rightarrow> (session \<times> world) option \<Rightarrow> bool" where
  "fine_event s w r \<longleftrightarrow> (\<exists>s' w'. r = Some (s', w') \<and> responsive w' \<and> pend (se_decoder s') w' \<le> pend (se_decoder s) w \<and>
     se_apps s' = se_apps s)"

lemma volume_delta_total: "responsive w \<Longrightarrow> fine_event s w (on_volume_delta L i dl s w)"
proof -
  assume c: "responsive w"
  define v where "v = fst (ask_audio (fst (load_sens w)))"
  have v: "responsive v" "pend d v = pend d w" for d using c by (simp_all add: v_def)
  define cur where "cur = (case se_volumes s i of Some x \<Rightarrow> x | None \<Rightarrow> 1 / 2)"
  define r where "r = audio_set_volume i (new_volume cur dl (snd (load_sens w))) (snd (ask_audio (fst (load_sens w))))"
  obtain w1 where w1: "host_send L (SetVolume i (volume_level (new_volume cur dl (snd (load_sens w))))) (fst (audio_result r v)) = Some w1"
    "responsive w1" "\<forall>d. pend d w1 = pend d v"
    using send_total [of "fst (audio_result r v)"] v(1) by fastforce
  have "on_volume_delta L i dl s w =
      (if snd (audio_result r v) then Some (s\<lparr>se_volumes := (se_volumes s)(i \<mapsto> new_volume cur dl (snd (load_sens w)))\<rparr>, w1)
       else Some (s, fst (audio_result r v)))"
    using w1(1) by (simp add: on_volume_delta_def split_beta Let_def cur_def [symmetric] v_def [symmetric] r_def [symmetric] split: bool.splits)
  then show ?thesis using w1 v by (simp add: fine_event_def)
qed

lemma mute_toggle_total: "responsive w \<Longrightarrow> fine_event s w (on_mute_toggle L i s w)"
proof -
  assume c: "responsive w"
  define b where "b = (\<not> (case se_mutes s i of Some x \<Rightarrow> x | None \<Rightarrow> False))"
  define v where "v = fst (ask_audio w)"
  define r where "r = audio_set_mute i b (snd (ask_audio w))"
  have v: "responsive v" "pend d v = pend d w" for d using c by (simp_all add: v_def)
  obtain w1 where w1: "host_send L (SetMute i b) (fst (audio_result r v)) = Some w1" "responsive w1" "\<forall>d. pend d w1 = pend d v"
    using send_total [of "fst (audio_result r v)"] v(1) by fastforce
  have "on_mute_toggle L i s w =
      (if snd (audio_result r v) then Some (s\<lparr>se_mutes := (se_mutes s)(i \<mapsto> b)\<rparr>, w1) else Some (s, fst (audio_result r v)))"
    using w1(1) by (simp add: on_mute_toggle_def split_beta Let_def b_def [symmetric] v_def [symmetric] r_def [symmetric] split: bool.splits)
  then show ?thesis using w1 v by (simp add: fine_event_def)
qed

lemma app_selected_total: "responsive w \<Longrightarrow> fine_event s w (on_app_selected L i s w)"
proof -
  assume c: "responsive w"
  have "returns (do { (d, w) \<leftarrow> (case se_volumes s i of None \<Rightarrow> Some (se_decoder s, w)
         | Some vol \<Rightarrow> send_and_wait L (SetVolume i (volume_level vol)) (se_decoder s) w);
       case se_icons s i of None \<Rightarrow> Some (d, w) | Some pixels \<Rightarrow> send_and_wait L (SetAppIcon i pixels) d w }) (se_decoder s) w"
    using c by (intro returns_bind) (auto intro: returns_Some send_and_wait_total split: option.splits)
  then show ?thesis
    unfolding on_app_selected_def returns_def fine_event_def
    by (auto simp: split_beta split: Option.bind_splits option.splits)
qed

lemma event_total: "responsive w \<Longrightarrow> fine_event s w (on_event L m s w)"
proof (cases m)
  case (WifiStatus up ip)
  then show "responsive w \<Longrightarrow> ?thesis"
    by (auto simp: fine_event_def on_wifi_status_def split: option.splits)
next
  case (VolumeDelta i dl)
  then show "responsive w \<Longrightarrow> ?thesis" by (simp add: volume_delta_total)
next
  case (MuteToggle i)
  then show "responsive w \<Longrightarrow> ?thesis" by (simp add: mute_toggle_total)
next
  case (AppSelected i)
  then show "responsive w \<Longrightarrow> ?thesis" by (simp add: app_selected_total)
qed (simp_all add: fine_event_def)

lemma drain_total:
  assumes "responsive w"
  shows "\<exists>s' w'. worker_drain L s w = Some (s', w') \<and> responsive w' \<and> se_apps s' = se_apps s"
  using assms
proof (induction "pend (se_decoder s) w" arbitrary: s w rule: less_induct)
  case less
  obtain d r where nf: "next_frame (lk_dev L) (se_decoder s) = (d, r)" by fastforce
  consider e where "r = Inl e" | "r = Inr None" | m where "r = Inr (Some m)" by (metis sum.exhaust not_None_eq)
  then show ?case
  proof cases
    case (3 m)
    have "length (dec_buf d) < length (dec_buf (se_decoder s))" using next_frame_shrinks [OF nf] 3 by simp
    then have lt: "pend d w < pend (se_decoder s) w" by (simp add: pend_def)
    obtain s1 w1 where s1: "on_event L m (s\<lparr>se_decoder := d\<rparr>) w = Some (s1, w1)" "responsive w1"
      "pend (se_decoder s1) w1 \<le> pend d w" "se_apps s1 = se_apps s"
      using event_total [OF less.prems, of "s\<lparr>se_decoder := d\<rparr>" m] by (auto simp: fine_event_def)
    then have "\<exists>s' w'. worker_drain L s1 w1 = Some (s', w') \<and> responsive w' \<and> se_apps s' = se_apps s1"
      using lt by (intro less.hyps) simp_all
    then show ?thesis using nf 3 s1(1,4) by (subst worker_drain.simps) auto
  qed (use nf less.prems in \<open>subst worker_drain.simps; simp\<close>)+
qed

lemma extract_total: "extract_rgb565 os path \<noteq> None"
proof (cases "extract_bgra os path")
  case (Some bgra)
  then have "length bgra = 4 * 4096" by (auto simp: extract_bgra_def icon_side_def)
  then have "\<exists>out. bgra_to_rgb565_be bgra icon_side icon_side = Some out"
    using convert_total [of icon_side icon_side 4096 bgra] by (auto simp: icon_side_def)
  then show ?thesis using Some by (auto simp: extract_rgb565_def)
qed (simp add: extract_rgb565_def)

lemma note_total: "\<exists>s'. note_sessions os ps as s = Some s' \<and> se_decoder s' = se_decoder s \<and> se_apps s' = se_apps s"
proof (induction "as" arbitrary: s)
  case (Cons a "as")
  define t where "t = s\<lparr>se_volumes := (se_volumes s)(as_pid a \<mapsto> as_volume a), se_mutes := (se_mutes s)(as_pid a \<mapsto> as_muted a)\<rparr>"
  obtain x where x: "extract_rgb565 os (as_exe_path a) = Some x" using extract_total by blast
  define icon where "icon = (if se_icons t (as_pid a) = None \<and> as_exe_path a \<noteq> [] then x else None)"
  have icon: "(if se_icons t (as_pid a) = None \<and> as_exe_path a \<noteq> [] then extract_rgb565 os (as_exe_path a) else Some None) = Some icon"
    using x by (simp add: icon_def)
  define u where "u = (case icon of None \<Rightarrow> t | Some px \<Rightarrow> t\<lparr>se_icons := (se_icons t)(as_pid a \<mapsto> px)\<rparr>)"
  have "se_decoder u = se_decoder s" "se_apps u = se_apps s" by (simp_all add: u_def t_def split: option.splits)
  moreover have "note_sessions os ps (a # as) s = (if as_pid a = 0 \<or> as_pid a \<notin> ps then note_sessions os ps as s else note_sessions os ps as u)"
    using icon by (simp add: t_def [symmetric] u_def)
  ultimately show ?case using Cons.IH [of u] Cons.IH [of s] by simp
qed simp

definition goes_on :: "session \<Rightarrow> (session \<times> world) option \<Rightarrow> bool" where
  "goes_on s r \<longleftrightarrow> (\<exists>s' w'. r = Some (s', w') \<and> responsive w' \<and> se_apps s' = se_apps s)"

lemma heartbeat_total: "responsive w \<Longrightarrow> goes_on s (worker_heartbeat L s w)"
proof -
  assume c: "responsive w"
  obtain w1 where "host_send L Ping (fst (look (fst (look w)))) = Some w1" "responsive w1"
    using send_total [of "fst (look (fst (look w)))"] c by auto
  then show ?thesis using c by (simp add: worker_heartbeat_def goes_on_def split_beta)
qed

lemma backlight_total: "responsive w \<Longrightarrow> \<exists>w'. worker_backlight L ob w = Some w' \<and> responsive w'"
  using send_total by (auto simp: worker_backlight_def split: prod.splits) blast

lemma command_total: "responsive w \<Longrightarrow> goes_on s (worker_take_command L ob s w)"
proof (cases "ro_command ob")
  case (Some c)
  assume live: "responsive w"
  obtain sid pw i where c: "c = ProvisionWifi sid pw i" by (cases c)
  obtain w1 where "host_send L (SetWifiConfig sid pw) w = Some w1" "responsive w1" using send_total [OF live] by blast
  then show ?thesis using Some c by (simp add: worker_take_command_def goes_on_def split_beta)
qed (simp add: worker_take_command_def goes_on_def)

lemma expire_live: "responsive w \<Longrightarrow> responsive (snd (worker_expire s w)) \<and> se_apps (fst (worker_expire s w)) = se_apps s"
  by (auto simp: worker_expire_def split_beta split: option.splits)

lemma refresh_total: "responsive w \<Longrightarrow> goes_on s (worker_refresh L s w)"
proof -
  assume c: "responsive w"
  define v where "v = fst (ask_audio (fst (look (fst (look w)))))"
  have v: "responsive v" using c by (simp add: v_def)
  have "goes_on s (do { s \<leftarrow> note_sessions (wd_icons v) ps as (s\<lparr>se_last_refresh := t\<rparr>); w \<leftarrow> host_send L m v; Some (s, w) })" for ps "as" t m
  proof -
    obtain s1 where "note_sessions (wd_icons v) ps as (s\<lparr>se_last_refresh := t\<rparr>) = Some s1" "se_apps s1 = se_apps s"
      using note_total [of "wd_icons v" ps "as" "s\<lparr>se_last_refresh := t\<rparr>"] by auto
    then show ?thesis using send_total [OF v, of m] by (auto simp: goes_on_def)
  qed
  note noted = this
  show ?thesis
  proof (cases "secs 5 \<le> snd (look w) - se_last_refresh s")
    case False
    then show ?thesis using c by (simp add: worker_refresh_def split_beta goes_on_def)
  next
    case True
    show ?thesis
    proof (cases "audio_enumerate (snd (ask_audio (fst (look (fst (look w))))))")
      case None
      then show ?thesis using True v
        by (simp add: worker_refresh_def split_beta Let_def v_def goes_on_def)
    next
      case (Some ss)
      have eq: "worker_refresh L s w =
          (let t = snd (look (fst (look w))); new_infos = fresh_infos ss {} in
           if set (map ai_id (se_apps s)) \<noteq> set (map ai_id new_infos)
           then do { s \<leftarrow> note_sessions (wd_icons v) (set (map ai_id new_infos)) ss (s\<lparr>se_last_refresh := t\<rparr>);
                     w \<leftarrow> host_send L (SetAppList new_infos) v; Some (s, w) }
           else Some (s\<lparr>se_last_refresh := t\<rparr>, v))"
        using True Some by (simp add: worker_refresh_def split_beta Let_def v_def)
      have id: "goes_on s (Some (s\<lparr>se_last_refresh := t\<rparr>, v))" for t using v by (simp add: goes_on_def)
      show ?thesis unfolding eq Let_def by (rule if_split [THEN iffD2]) (use noted id in blast)
    qed
  qed
qed

text \<open>The same for the functions that also say whether the loop goes on.\<close>

definition rounds_on :: "session \<Rightarrow> (session \<times> world \<times> bool) option \<Rightarrow> bool" where
  "rounds_on s r \<longleftrightarrow> (\<exists>s' w' b. r = Some (s', w', b) \<and> responsive w' \<and> se_apps s' = se_apps s)"

lemma rounds_on_Some [simp]: "rounds_on s (Some (s', w', b)) \<longleftrightarrow> responsive w' \<and> se_apps s' = se_apps s"
  by (simp add: rounds_on_def)

lemma read_total: "responsive w \<Longrightarrow> rounds_on s (worker_read L s w)"
proof -
  assume c: "responsive w"
  show ?thesis
  proof (cases "\<exists>bs rs. wd_rx w = Got bs # rs \<and> bs \<noteq> []")
    case True
    then obtain bs rs where r: "wd_rx w = Got bs # rs" "bs \<noteq> []" by blast
    let ?d = "fst (decoder_push (se_decoder s) bs)"
    obtain s1 w1 where "worker_drain L (s\<lparr>se_decoder := ?d\<rparr>) (w\<lparr>wd_rx := rs\<rparr>) = Some (s1, w1)" "responsive w1" "se_apps s1 = se_apps s"
      using drain_total [of "w\<lparr>wd_rx := rs\<rparr>" "s\<lparr>se_decoder := ?d\<rparr>"] c by auto
    then show ?thesis using r by (simp add: worker_read_def host_read_def)
  next
    case False
    then show ?thesis using c
      by (cases "wd_rx w") (auto simp: worker_read_def host_read_def split: read_result.splits)
  qed
qed

lemma round_total: "responsive w \<Longrightarrow> rounds_on s (worker_round L ob s w)"
proof -
  assume c: "responsive w"
  obtain s1 w1 b where r: "worker_read L s w = Some (s1, w1, b)" "responsive w1" "se_apps s1 = se_apps s"
    using read_total [OF c] unfolding rounds_on_def by blast
  obtain s2 w2 where h: "worker_heartbeat L s1 w1 = Some (s2, w2)" "responsive w2" "se_apps s2 = se_apps s1"
    using heartbeat_total [OF r(2)] unfolding goes_on_def by blast
  obtain w3 where b: "worker_backlight L ob w2 = Some w3" "responsive w3" using backlight_total [OF h(2)] by blast
  obtain s4 w4 where t: "worker_take_command L ob s2 w3 = Some (s4, w4)" "responsive w4" "se_apps s4 = se_apps s2"
    using command_total [OF b(2)] unfolding goes_on_def by blast
  obtain s5 w5 where e: "worker_expire s4 w4 = (s5, w5)" by fastforce
  then have e': "responsive w5" "se_apps s5 = se_apps s4" using expire_live [OF t(2), of s4] by simp_all
  obtain s6 w6 where f: "worker_refresh L s5 w5 = Some (s6, w6)" "responsive w6" "se_apps s6 = se_apps s5"
    using refresh_total [OF e'(1)] unfolding goes_on_def by blast
  show ?thesis using c r h b t e e' f by (simp add: worker_round_def)
qed

lemma rounds_total: "responsive w \<Longrightarrow> rounds_on s (worker_rounds L obs s w)"
proof (induction obs arbitrary: s w)
  case (Cons ob obs)
  obtain s1 w1 b where r: "worker_round L ob s w = Some (s1, w1, b)" "responsive w1" "se_apps s1 = se_apps s"
    using round_total [OF Cons.prems] unfolding rounds_on_def by blast
  then show ?case using Cons.IH [OF r(2), of s1] by (cases b) (auto simp: rounds_on_def)
qed simp

lemma icons_total: "responsive w \<Longrightarrow> \<exists>d' w'. send_icons L icons is d w = Some (d', w') \<and> responsive w'"
proof (induction "is" arbitrary: d w)
  case (Cons i "is")
  show ?case
  proof (cases "icons i")
    case None
    then show ?thesis using Cons by simp
  next
    case (Some px)
    obtain d1 w1 where s: "send_and_wait L (SetAppIcon i px) d w = Some (d1, w1)" "responsive w1"
      using send_and_wait_total [OF Cons.prems] by (rule returnsE)
    then show ?thesis using Some Cons.IH [OF s(2), of d1] by simp
  qed
qed simp

lemma setup_total:
  assumes "responsive w" "pr_apps p \<noteq> []"
  shows "\<exists>s w'. worker_setup L p w = Some (s, w') \<and> responsive w' \<and> se_apps s = pr_apps p"
proof -
  let ?d0 = "decoder_new (16 * 1024)"
  obtain d1 n w1 where 1: "drain_for L (millis 100) ?d0 w = Some ((d1, n), w1)" "settled w1 = settled w"
    using drain_for_returns [OF responsive_clock [OF assms(1)]] by blast
  have c1: "responsive (clear_input w1)" using responsive_settled [OF 1(2)] assms(1) by simp
  obtain w2 where 2: "host_send L Ping (clear_input w1) = Some w2" "responsive w2" using send_total [OF c1] by blast
  obtain d3 w3 where 3: "wait_for_ready L ?d0 w2 = Some (d3, w3)" "settled w3 = settled w2"
    using wait_for_ready_returns [OF responsive_clock [OF 2(2)]] by blast
  have c3: "responsive w3" using responsive_settled [OF 3(2)] 2(2) by simp
  obtain a as' where a: "pr_apps p = a # as'" using assms(2) by (cases "pr_apps p") auto
  obtain d4 w4 where 4: "send_and_wait L (SetAppList (a # as')) d3 w3 = Some (d4, w4)" "responsive w4"
    using send_and_wait_total [OF c3] by (rule returnsE)
  obtain d5 w5 where 5: "send_and_wait L (SetSelectedApp (ai_id a)) d4 w4 = Some (d5, w5)" "responsive w5"
    using send_and_wait_total [OF 4(2)] by (rule returnsE)
  obtain d6 w6 where 6: "send_icons L (pr_icons p) (lk_order L (pr_icons p)) d5 w5 = Some (d6, w6)" "responsive w6"
    using icons_total [OF 5(2)] by blast
  show ?thesis
    using 1(1) 2(1) 3(1) 4(1) 5(1) 6 a by (simp add: worker_setup_def Let_def split_beta)
qed

lemma gather_total: "\<exists>p'. gather os ss seen p = Some p'"
proof (induction ss arbitrary: seen p)
  case (Cons s ss)
  obtain x where "extract_rgb565 os (as_exe_path s) = Some x" using extract_total by blast
  then show ?case using Cons by (cases "as_exe_path s = []") simp_all
qed simp

lemma prepare_total:
  assumes "responsive w"
  shows "\<exists>w' st p. prepare_audio_data com_ok w = Some (w', st, p) \<and> responsive w' \<and> (\<forall>q. p = Some q \<longrightarrow> pr_apps q \<noteq> [])"
proof -
  define v where "v = fst (ask_audio w)"
  have v: "responsive v" using assms by (simp add: v_def)
  show ?thesis
  proof (cases "com_ok \<and> audio_enumerate (snd (ask_audio w)) \<noteq> None")
    case False
    then show ?thesis using assms v by (cases com_ok) (simp_all add: prepare_audio_data_def split_beta v_def)
  next
    case True
    then obtain ss where ss: "audio_enumerate (snd (ask_audio w)) = Some ss" by blast
    obtain q where "gather (wd_icons v) ss {} nothing_prepared = Some q" using gather_total by blast
    then show ?thesis using True ss v by (simp add: prepare_audio_data_def split_beta v_def [symmetric])
  qed
qed

lemma inner_total:
  assumes "responsive w" "pr_apps p \<noteq> []"
  shows "\<exists>s w' b. run_inner L p obs w = Some (s, w', b) \<and> responsive w'"
proof -
  obtain s w1 where "worker_setup L p w = Some (s, w1)" "responsive w1" using setup_total [OF assms] by blast
  then show ?thesis using rounds_total [of w1 s obs] by (auto simp: run_inner_def rounds_on_def)
qed

text \<open>A round leaves the loop for the stop flag and for a read that fails, and for nothing else.\<close>

lemma round_left:
  assumes "responsive w"
  shows "\<exists>s' w'. worker_round L ob s w = Some (s', w', \<not> (ro_stop ob \<or> snd (host_read w) = ReadFailed)) \<and> responsive w'"
proof -
  obtain s' w' b where r: "worker_round L ob s w = Some (s', w', b)" "responsive w'"
    using round_total [OF assms] unfolding rounds_on_def by blast
  moreover have "b = (\<not> (ro_stop ob \<or> snd (host_read w) = ReadFailed))"
    using r(1) by (auto simp: worker_round_def worker_read_def split_beta split: if_splits Option.bind_splits read_result.splits prod.splits)
  ultimately show ?thesis by blast
qed

lemma rounds_left:
  "responsive w \<Longrightarrow> \<exists>s' w' b. worker_rounds L obs s w = Some (s', w', b) \<and> responsive w' \<and>
    (b \<longleftrightarrow> (\<forall>k<length obs. \<exists>sk wk. worker_rounds L (take k obs) s w = Some (sk, wk, True) \<and>
       \<not> ro_stop (obs ! k) \<and> snd (host_read wk) \<noteq> ReadFailed))"
proof (induction obs arbitrary: s w)
  case (Cons ob obs)
  obtain s1 w1 where r: "worker_round L ob s w = Some (s1, w1, \<not> (ro_stop ob \<or> snd (host_read w) = ReadFailed))" "responsive w1"
    using round_left [OF Cons.prems] by blast
  show ?case
  proof (cases "ro_stop ob \<or> snd (host_read w) = ReadFailed")
    case True
    then show ?thesis using r by (auto intro!: exI [of _ 0])
  next
    case False
    with r have "worker_round L ob s w = Some (s1, w1, True)" by simp
    with Cons.IH [OF r(2), of s1] False show ?thesis by (simp add: All_less_Suc2)
  qed
qed auto

lemma inner_left:
  assumes "responsive w" "pr_apps p \<noteq> []"
  shows "\<exists>s w' b. run_inner L p obs w = Some (s, w', b) \<and> responsive w' \<and>
    (b \<longleftrightarrow> (\<forall>k<length obs. \<exists>sk wk. run_inner L p (take k obs) w = Some (sk, wk, True) \<and>
       \<not> ro_stop (obs ! k) \<and> snd (host_read wk) \<noteq> ReadFailed))"
proof -
  obtain s w1 where s: "worker_setup L p w = Some (s, w1)" "responsive w1" using setup_total [OF assms] by blast
  have "run_inner L p os w = worker_rounds L os s w1" for os using s(1) by (simp add: run_inner_def)
  then show ?thesis using rounds_left [OF s(2), of obs s] by simp
qed

lemma run_total: "responsive w \<Longrightarrow> worker_run L com_ok port_opens name obs w \<noteq> None"
proof -
  assume "responsive w"
  then obtain w1 st p where p: "prepare_audio_data com_ok w = Some (w1, st, p)" "responsive w1" "\<forall>q. p = Some q \<longrightarrow> pr_apps q \<noteq> []"
    using prepare_total by blast
  then show ?thesis using inner_total [OF p(2), of "the p" obs] by (cases p) (auto simp: worker_run_def)
qed

text \<open>The reconnection loop returns at such an attempt and at no other.\<close>

lemma attempts_left:
  assumes "pr_apps p \<noteq> []"
  shows "responsive w \<Longrightarrow> \<exists>w' st r. wifi_attempts L addr p as w = Some (w', st, r) \<and> responsive w' \<and>
    (r = Returned \<longleftrightarrow> (\<exists>k<length as. \<exists>wk stk. wifi_attempts L addr p (take k as) w = Some (wk, stk, Connecting) \<and> attempt_stops L p (as ! k) wk))"
proof (induction "as" arbitrary: w)
  case (Cons a "as")
  have wrap: "Option.bind x (\<lambda>(w, st, r). Some (w, f st, r)) = map_option (\<lambda>(w, st, r). (w, f st, r)) x"
    for x :: "(world \<times> worker_status list \<times> wifi_progress) option" and f by (cases x) auto
  have step: ?case if go: "\<And>bs. wifi_attempts L addr p (a # bs) w = map_option (\<lambda>(w, st, r). (w, pre @ st, r)) (wifi_attempts L addr p bs v)"
      and "responsive v" "\<not> attempt_stops L p a w" for pre v
  proof -
    have "(\<exists>k<length (a # as). \<exists>wk stk. wifi_attempts L addr p (take k (a # as)) w = Some (wk, stk, Connecting) \<and> attempt_stops L p ((a # as) ! k) wk) \<longleftrightarrow>
        (\<exists>k<length as. \<exists>wk stk. wifi_attempts L addr p (take k as) v = Some (wk, stk, Connecting) \<and> attempt_stops L p (as ! k) wk)"
      using that(3) by (auto simp: Ex_less_Suc2 go simp del: wifi_attempts.simps(2))
    note stops = this
    note live = that(2)
    obtain w' st r where ih: "wifi_attempts L addr p as v = Some (w', st, r)" "responsive w'"
      "(r = Returned) = (\<exists>k<length as. \<exists>wk stk. wifi_attempts L addr p (take k as) v = Some (wk, stk, Connecting) \<and> attempt_stops L p (as ! k) wk)"
      using Cons.IH [OF live] by blast
    have "wifi_attempts L addr p (a # as) w = Some (w', pre @ st, r)" by (simp only: go ih(1) option.map prod.case)
    then show ?thesis using ih(2,3) unfolding stops [symmetric] by blast
  qed
  have over: ?case if "\<And>bs. wifi_attempts L addr p (a # bs) w = Some (v, st, r)" "responsive v"
      "(r = Returned) = attempt_stops L p a w" "r \<noteq> Connecting" for v st r
    using that by (auto simp: Ex_less_Suc2 simp del: wifi_attempts.simps(2))
  show ?case
  proof (cases "wa_stop a")
    case True
    then show ?thesis by (intro over [of _ _ Returned]) (use Cons.prems in \<open>simp_all add: attempt_stops_def\<close>)
  next
    case False
    note run = False
    show ?thesis
    proof (cases "wa_rx a")
      case None
      show ?thesis
      proof (cases "wa_stop_after a")
        case True
        then show ?thesis using None run by (intro over [of _ _ Returned]) (use Cons.prems in \<open>simp_all add: attempt_stops_def\<close>)
      next
        case False
        then show ?thesis using None run
          by (intro step [of "[StError WifiConnecting]" w]) (use Cons.prems in \<open>simp_all add: attempt_stops_def wrap\<close>)
      qed
    next
      case (Some rx)
      obtain s v b where i: "run_inner L p (wa_rounds a) (w\<lparr>wd_rx := rx\<rparr>) = Some (s, v, b)" "responsive v"
        using inner_total [of "w\<lparr>wd_rx := rx\<rparr>" p "wa_rounds a"] Cons.prems assms by auto
      consider b | "\<not> b" "wa_stop_after a" | "\<not> b" "\<not> wa_stop_after a" by blast
      then show ?thesis
      proof cases
        case 1
        then show ?thesis using Some run i by (intro over [of _ _ Serving]) (simp_all add: attempt_stops_def)
      next
        case 2
        then show ?thesis using Some run i by (intro over [of _ _ Returned]) (simp_all add: attempt_stops_def)
      next
        case 3
        then show ?thesis using Some run i
          by (intro step [of "[StConnected addr, StDisconnected]" v]) (simp_all add: attempt_stops_def wrap)
      qed
    qed
  qed
qed simp

lemma run_wifi_total: "responsive w \<Longrightarrow> run_wifi L com_ok addr as w \<noteq> None"
proof -
  assume "responsive w"
  then obtain w1 st p where p: "prepare_audio_data com_ok w = Some (w1, st, p)" "responsive w1" "\<forall>q. p = Some q \<longrightarrow> pr_apps q \<noteq> []"
    using prepare_total by blast
  then show ?thesis using attempts_left [OF _ p(2), of "the p" addr "as"] by (cases p) (auto simp: run_wifi_def)
qed

end

end
