(* ===== verification/Worker_Session.thy ===== *)
theory Worker_Session
  imports Worker_Safety
begin

text \<open>
  What a session of the worker does: which sessions it announces, in which order the device learns
  of them, how it pairs its requests with the answers, and what a turn of the knob does.
\<close>

section \<open>The messages of a session's start\<close>

definition port_healthy :: "world \<Rightarrow> bool" where
  "port_healthy w \<longleftrightarrow> (\<forall>n. wd_accept w n = Written)"

lemma healthy_writes: "port_healthy w \<Longrightarrow> writes_return w"
  by (simp add: port_healthy_def writes_return_def)

lemma healthy_responds: "clock_live w \<Longrightarrow> port_healthy w \<Longrightarrow> responsive w"
  by (simp add: responsive_def healthy_writes)

lemma wrote:
  assumes "settled w' = settled (wrote_bytes f w)" "port_healthy w"
  shows "wd_tx w' = wd_tx w @ f" "port_healthy w'"
  using settledD(2,3) [OF assms(1)] assms(2) by (simp_all add: wrote_bytes_def port_healthy_def)

lemma untouched:
  assumes "settled w' = settled w"
  shows "wd_tx w' = wd_tx w" "port_healthy w' = port_healthy w" "clock_live w' = clock_live w"
  using settledD(2,3) [OF assms] clock_live_settled [OF assms] by (simp_all add: port_healthy_def)

definition icon_messages :: "(u32 \<rightharpoonup> u8 list) \<Rightarrow> u32 list \<Rightarrow> host_to_device list" where
  "icon_messages icons is = List.map_filter (\<lambda>i. map_option (SetAppIcon i) (icons i)) is"

definition setup_messages :: "link \<Rightarrow> prepared \<Rightarrow> host_to_device list" where
  "setup_messages L p = [Ping, SetAppList (pr_apps p), SetSelectedApp (ai_id (hd (pr_apps p)))] @
     icon_messages (pr_icons p) (lk_order L (pr_icons p))"

lemma send_icons_tx:
  assumes "clock_live w" "port_healthy w" "list_all2 (\<lambda>m f. encode (lk_host L) m = Some (Inr f)) (icon_messages icons is) fs"
  shows "\<exists>d' w'. send_icons L icons is d w = Some (d', w') \<and> wd_tx w' = wd_tx w @ concat fs"
  using assms
proof (induction "is" arbitrary: d w fs)
  case Nil
  then show ?case by (simp add: icon_messages_def map_filter_simps)
next
  case (Cons i "is")
  show ?case
  proof (cases "icons i")
    case None
    then show ?thesis using Cons by (simp add: icon_messages_def map_filter_simps)
  next
    case (Some px)
    then obtain f fs' where f: "fs = f # fs'" "encode (lk_host L) (SetAppIcon i px) = Some (Inr f)"
      "list_all2 (\<lambda>m f. encode (lk_host L) m = Some (Inr f)) (icon_messages icons is) fs'"
      using Cons.prems(3) by (auto simp: icon_messages_def map_filter_simps list_all2_Cons1)
    obtain d1 w1 where s: "send_and_wait L (SetAppIcon i px) d w = Some (d1, w1)" "settled w1 = settled (wrote_bytes f w)"
      using send_and_wait_returns [OF Cons.prems(1) f(2) healthy_writes [OF Cons.prems(2)]] by blast
    have "clock_live w1" using untouched(3) [OF s(2)] Cons.prems(1) by simp
    from Cons.IH [OF this wrote(2) [OF s(2) Cons.prems(2)] f(3), of d1] s(1) wrote(1) [OF s(2) Cons.prems(2)] Some f(1)
    show ?thesis by auto
  qed
qed

lemma setup_tx:
  assumes "clock_live w" "port_healthy w" "pr_apps p \<noteq> []"
    and "list_all2 (\<lambda>m f. encode (lk_host L) m = Some (Inr f)) (setup_messages L p) fs"
  shows "\<exists>s w'. worker_setup L p w = Some (s, w') \<and> wd_tx w' = wd_tx w @ concat fs \<and> se_apps s = pr_apps p \<and>
    se_volumes s = pr_volumes p \<and> se_mutes s = pr_mutes p \<and> se_icons s = pr_icons p \<and> se_reply s = None"
proof -
  obtain a as' where a: "pr_apps p = a # as'" using assms(3) by (cases "pr_apps p") auto
  from assms(4) obtain f1 f2 f3 gs where fs: "fs = f1 # f2 # f3 # gs" "encode (lk_host L) Ping = Some (Inr f1)"
    "encode (lk_host L) (SetAppList (pr_apps p)) = Some (Inr f2)" "encode (lk_host L) (SetSelectedApp (ai_id a)) = Some (Inr f3)"
    "list_all2 (\<lambda>m f. encode (lk_host L) m = Some (Inr f)) (icon_messages (pr_icons p) (lk_order L (pr_icons p))) gs"
    by (auto simp: setup_messages_def list_all2_Cons1 a)
  let ?d0 = "decoder_new (16 * 1024)"
  obtain d1 n w1 where 1: "drain_for L (millis 100) ?d0 w = Some ((d1, n), w1)" "settled w1 = settled w"
    using drain_for_returns [OF assms(1)] by blast
  define w2 where "w2 = clear_input w1"
  have w2: "settled w2 = settled w" by (simp add: w2_def 1(2))
  have c2: "clock_live w2" "port_healthy w2" "wd_tx w2 = wd_tx w" using untouched [OF w2] assms(1,2) by simp_all
  define w3 where "w3 = wrote_bytes f1 w2"
  have c3: "clock_live w3" "port_healthy w3" "wd_tx w3 = wd_tx w @ f1"
    using c2 wrote [of w3 f1 w2] by (simp_all add: w3_def)
  obtain d4 w4 where 4: "wait_for_ready L ?d0 w3 = Some (d4, w4)" "settled w4 = settled w3"
    using wait_for_ready_returns [OF c3(1)] by blast
  have c4: "clock_live w4" "port_healthy w4" "wd_tx w4 = wd_tx w @ f1" using untouched [OF 4(2)] c3 by simp_all
  obtain d5 w5 where 5: "send_and_wait L (SetAppList (pr_apps p)) d4 w4 = Some (d5, w5)" "settled w5 = settled (wrote_bytes f2 w4)"
    using send_and_wait_returns [OF c4(1) fs(3) healthy_writes [OF c4(2)]] by blast
  have c5: "clock_live w5" "port_healthy w5" "wd_tx w5 = wd_tx w @ f1 @ f2"
    using untouched(3) [OF 5(2)] wrote [OF 5(2) c4(2)] c4 by simp_all
  obtain d6 w6 where 6: "send_and_wait L (SetSelectedApp (ai_id a)) d5 w5 = Some (d6, w6)" "settled w6 = settled (wrote_bytes f3 w5)"
    using send_and_wait_returns [OF c5(1) fs(4) healthy_writes [OF c5(2)]] by blast
  have c6: "clock_live w6" "port_healthy w6" "wd_tx w6 = wd_tx w @ f1 @ f2 @ f3"
    using untouched(3) [OF 6(2)] wrote [OF 6(2) c5(2)] c5 by simp_all
  obtain d7 w7 where 7: "send_icons L (pr_icons p) (lk_order L (pr_icons p)) d6 w6 = Some (d7, w7)" "wd_tx w7 = wd_tx w6 @ concat gs"
    using send_icons_tx [OF c6(1,2) fs(5)] by blast
  show ?thesis
    using 1(1) 4(1) 5(1) 6(1) 7 c6(3) host_send_writes [OF fs(2) healthy_writes [OF c2(2)]]
    by (simp add: worker_setup_def Let_def split_beta w2_def [symmetric] w3_def [symmetric] a look_def fs(1))
qed

section \<open>The announced sessions\<close>

lemma gather_spec:
  assumes "gather os ss seen p = Some q"
  shows "pr_apps q = pr_apps p @ fresh_infos ss seen"
    "dom (pr_volumes q) = dom (pr_volumes p) \<union> set (map ai_id (fresh_infos ss seen))"
    "dom (pr_mutes q) = dom (pr_mutes p) \<union> set (map ai_id (fresh_infos ss seen))"
    "dom (pr_icons q) \<subseteq> dom (pr_icons p) \<union> set (map ai_id (fresh_infos ss seen))"
  using assms
proof (induction ss arbitrary: seen p)
  case (Cons s ss)
  {
    case 1 then show ?case using Cons.IH(1) by (auto simp: info_of_def split: if_splits Option.bind_splits)
  next
    case 2 then show ?case using Cons.IH(2) by (auto simp: info_of_def split: if_splits Option.bind_splits)
  next
    case 3 then show ?case using Cons.IH(3) by (auto simp: info_of_def split: if_splits Option.bind_splits)
  next
    case 4
    show ?case
    proof (cases "as_pid s = 0 \<or> as_pid s \<in> seen")
      case True
      then show ?thesis using 4 Cons.IH(4) [of seen p] by simp
    next
      case False
      then obtain icon where g: "gather os ss (insert (as_pid s) seen)
          (p\<lparr>pr_apps := pr_apps p @ [info_of s], pr_volumes := (pr_volumes p)(as_pid s \<mapsto> as_volume s),
             pr_mutes := (pr_mutes p)(as_pid s \<mapsto> as_muted s),
             pr_icons := (case icon of None \<Rightarrow> pr_icons p | Some px \<Rightarrow> (pr_icons p)(as_pid s \<mapsto> px))\<rparr>) = Some q"
        using 4 by (auto split: Option.bind_splits)
      from Cons.IH(4) [OF this] show ?thesis using False by (cases icon) (auto simp: info_of_def)
    qed
  }
qed simp_all

lemma fresh_infos_ids:
  "distinct (map ai_id (fresh_infos ss seen)) \<and> set (map ai_id (fresh_infos ss seen)) = as_pid ` set ss - insert 0 seen"
proof (induction ss arbitrary: seen)
  case (Cons s ss)
  show ?case
    using Cons.IH [of seen] Cons.IH [of "insert (as_pid s) seen"] by (auto simp: info_of_def)
qed simp

lemma extract_length:
  assumes "extract_rgb565 os path = Some (Some px)"
  shows "length px = 8192"
proof -
  obtain bgra where b: "extract_bgra os path = Some bgra" "bgra_to_rgb565_be bgra icon_side icon_side = Some px"
    using assms by (auto simp: extract_rgb565_def split: option.splits)
  then have "length bgra = 4 * 4096" by (auto simp: extract_bgra_def icon_side_def)
  then obtain out where "bgra_to_rgb565_be bgra icon_side icon_side = Some out" "length out = 2 * 4096"
    using convert_total [of icon_side icon_side 4096 bgra] by (auto simp: icon_side_def)
  with b(2) show ?thesis by simp
qed

lemma gather_icons:
  assumes "gather os ss seen p = Some q" "\<forall>i px. pr_icons p i = Some px \<longrightarrow> length px = 8192"
  shows "\<forall>i px. pr_icons q i = Some px \<longrightarrow> length px = 8192"
  using assms
proof (induction ss arbitrary: seen p)
  case (Cons s ss)
  show ?case
  proof (cases "as_pid s = 0 \<or> as_pid s \<in> seen")
    case True
    then show ?thesis using Cons by simp
  next
    case False
    then obtain icon where icon: "(if as_exe_path s \<noteq> [] then extract_rgb565 os (as_exe_path s) else Some None) = Some icon"
      and g: "gather os ss (insert (as_pid s) seen)
          (p\<lparr>pr_apps := pr_apps p @ [info_of s], pr_volumes := (pr_volumes p)(as_pid s \<mapsto> as_volume s),
             pr_mutes := (pr_mutes p)(as_pid s \<mapsto> as_muted s),
             pr_icons := (case icon of None \<Rightarrow> pr_icons p | Some px \<Rightarrow> (pr_icons p)(as_pid s \<mapsto> px))\<rparr>) = Some q"
      using Cons.prems(1) by (auto split: Option.bind_splits)
    have "length px = 8192" if "icon = Some px" for px
      using icon that extract_length by (auto split: if_splits)
    then have "\<forall>i px. (case icon of None \<Rightarrow> pr_icons p | Some px \<Rightarrow> (pr_icons p)(as_pid s \<mapsto> px)) i = Some px \<longrightarrow> length px = 8192"
      using Cons.prems(2) by (cases icon) simp_all
    with Cons.IH [OF g] show ?thesis by simp
  qed
qed simp

text \<open>A level is a percentage.\<close>

lemma session_level_le: "unat (session_level v) \<le> 100"
proof -
  define x where "x = clamp 0 100 (f32_round_away (f32_mul v 100))"
  have x: "0 \<le> x" "x \<le> 100" using clamp_bounds [of 0 100 "f32_round_away (f32_mul v 100)"] by (simp_all add: x_def)
  have t: "0 \<le> trunc x" "trunc x \<le> 100"
    using x by (simp_all add: trunc_def floor_le_iff)
  then have "clamp 0 255 (trunc x) = trunc x" by (intro clamp_id) simp_all
  then have "unat (as_u8 x) = nat (trunc x)"
    using t by (simp add: as_u8_def unsigned_of_int take_bit_int_eq_self)
  then show ?thesis using t by (simp add: session_level_def x_def [symmetric])
qed

lemma fresh_infos_levels: "list_all (\<lambda>a. unat (ai_volume a) \<le> 100) (fresh_infos ss seen)"
  by (induction ss seen rule: fresh_infos.induct) (simp_all add: info_of_def session_level_le)

section \<open>Volumes stay in range\<close>

definition in_range :: "(u32 \<rightharpoonup> f32) \<Rightarrow> bool" where
  "in_range m \<longleftrightarrow> (\<forall>i v. m i = Some v \<longrightarrow> 0 \<le> v \<and> v \<le> 1)"

lemma in_range_upd [simp]: "in_range m \<Longrightarrow> 0 \<le> v \<Longrightarrow> v \<le> 1 \<Longrightarrow> in_range (m(i \<mapsto> v))"
  by (simp add: in_range_def)

lemmas in_range_if [simp] = in_range_upd [unfolded fun_upd_def]

definition volumes_ok :: "session \<Rightarrow> bool" where
  "volumes_ok s \<longleftrightarrow> in_range (se_volumes s)"

definition audio_ok :: "world \<Rightarrow> bool" where
  "audio_ok w \<longleftrightarrow> (\<forall>n. audio_contract (wd_audio w n))"

lemma audio_ok_simps [simp]:
  "audio_ok (wrote_bytes bs w) = audio_ok w" "audio_ok (fst (look w)) = audio_ok w" "audio_ok (fst (ask_audio w)) = audio_ok w"
  "audio_ok (fst (load_sens w)) = audio_ok w" "audio_ok (fst (audio_result r w)) = audio_ok w" "audio_ok (send_reply i x w) = audio_ok w"
  "audio_ok (w\<lparr>wd_disk := dk\<rparr>) = audio_ok w" "audio_ok (w\<lparr>wd_rx := rs\<rparr>) = audio_ok w" "audio_ok (clear_input w) = audio_ok w"
  by (simp_all add: audio_ok_def wrote_bytes_def look_def ask_audio_def load_sens_def audio_result_def send_reply_def clear_input_def)

lemma audio_ok_settled: "settled w' = settled w \<Longrightarrow> audio_ok w' = audio_ok w"
  unfolding audio_ok_def using settledD(5) [of w' w] by simp

lemma host_send_frame: "host_send L m w = Some w' \<Longrightarrow> w' = w \<or> (\<exists>f. w' = wrote_bytes f w)"
  by (auto simp: host_send_def write_all_def split: option.splits sum.splits if_splits)

lemma host_send_ok: "host_send L m w = Some w' \<Longrightarrow> (clock_live w' = clock_live w) \<and> (audio_ok w' = audio_ok w)"
  by (auto dest!: host_send_frame)

lemma send_and_wait_ok:
  assumes "send_and_wait L m d w = Some (d', w')" "clock_live w"
  shows "clock_live w' \<and> audio_ok w' = audio_ok w"
proof -
  obtain v where v: "host_send L m w = Some v" using assms(1) by (auto simp: send_and_wait_def split: Option.bind_splits)
  have c: "clock_live (fst (look v))" using host_send_ok [OF v] assms(2) by simp
  obtain d1 w1 r where l: "listen (ack_data L) (Some ()) (snd (look v) + secs 5) d (fst (look v)) = Some (d1, w1, r)"
    "settled w1 = settled (fst (look v))"
    using listen_settles [OF c, of "ack_data L"] ack_data_settles by blast
  have "w' = w1" using assms(1) v l(1) by (simp add: send_and_wait_def split_beta)
  moreover have "settled w1 = settled v" using l(2) by simp
  ultimately show ?thesis
    using clock_live_settled [of w1 v] audio_ok_settled [of w1 v] host_send_ok [OF v] assms(2) by simp
qed

lemma new_volume_range: "0 \<le> new_volume c dl sens \<and> new_volume c dl sens \<le> 1"
  unfolding new_volume_def by (rule clamp_bounds) simp

text \<open>One message keeps the clock, the audio service and the range.\<close>

definition sound :: "session \<Rightarrow> world \<Rightarrow> bool" where
  "sound s w \<longleftrightarrow> clock_live w \<and> audio_ok w \<and> volumes_ok s"

lemma sound_decoder [simp]: "sound (s\<lparr>se_decoder := d\<rparr>) w = sound s w"
  by (simp add: sound_def volumes_ok_def)

lemma event_sound:
  assumes "on_event L m s w = Some (s', w')" "sound s w"
  shows "sound s' w'"
proof (cases m)
  case (VolumeDelta i dl)
  then show ?thesis using assms new_volume_range
    by (auto simp: on_volume_delta_def split_beta Let_def sound_def volumes_ok_def dest!: host_send_ok
        split: bool.splits Option.bind_splits if_splits)
next
  case (AppSelected i)
  then show ?thesis using assms
    by (auto simp: on_app_selected_def sound_def volumes_ok_def dest!: send_and_wait_ok split: Option.bind_splits option.splits)
next
  case (MuteToggle i)
  then show ?thesis using assms
    by (auto simp: on_mute_toggle_def split_beta Let_def sound_def volumes_ok_def dest!: host_send_ok
        split: bool.splits Option.bind_splits if_splits)
next
  case (WifiStatus up ip)
  then show ?thesis using assms by (auto simp: on_wifi_status_def sound_def volumes_ok_def split: option.splits)
qed (use assms in auto)

lemma drain_sound:
  assumes "worker_drain L s w = Some r" "sound s w"
  shows "sound (fst r) (snd r)"
proof -
  have "sound s w \<longrightarrow> sound (fst r) (snd r)"
  proof (rule worker_drain.raw_induct [of "\<lambda>L s w r. sound s w \<longrightarrow> sound (fst r) (snd r)", OF _ assms(1)])
    fix drain L s w r
    assume IH: "\<And>L s w r. drain L s w = Some r \<Longrightarrow> sound s w \<longrightarrow> sound (fst r) (snd r)"
      and body: "(case next_frame (lk_dev L) (se_decoder s) of
          (d, Inl _) \<Rightarrow> Some (s\<lparr>se_decoder := decoder_reset d\<rparr>, clear_input w)
        | (d, Inr None) \<Rightarrow> Some (s\<lparr>se_decoder := d\<rparr>, w)
        | (d, Inr (Some msg)) \<Rightarrow> (case on_event L msg (s\<lparr>se_decoder := d\<rparr>) w of None \<Rightarrow> None | Some (s, w) \<Rightarrow> drain L s w)) = Some r"
    obtain d x where nf: "next_frame (lk_dev L) (se_decoder s) = (d, x)" by fastforce
    consider e where "x = Inl e" | "x = Inr None" | m where "x = Inr (Some m)" by (metis sum.exhaust not_None_eq)
    then show "sound s w \<longrightarrow> sound (fst r) (snd r)"
    proof cases
      case (3 m)
      then obtain s1 w1 where e: "on_event L m (s\<lparr>se_decoder := d\<rparr>) w = Some (s1, w1)" "drain L s1 w1 = Some r"
        using body nf by (auto split: option.splits)
      show ?thesis using event_sound [OF e(1)] IH [OF e(2)] by simp
    qed (use body nf in \<open>auto simp: sound_def volumes_ok_def\<close>)
  qed
  then show ?thesis using assms(2) by blast
qed

lemma note_sound:
  assumes "note_sessions os ps as s = Some s'" "volumes_ok s" "\<forall>a\<in>set as. 0 \<le> as_volume a \<and> as_volume a \<le> 1"
  shows "volumes_ok s'"
  using assms
proof (induction "as" arbitrary: s)
  case (Cons a "as")
  show ?case
  proof (cases "as_pid a = 0 \<or> as_pid a \<notin> ps")
    case True
    then show ?thesis using Cons by auto
  next
    case False
    define t where "t = s\<lparr>se_volumes := (se_volumes s)(as_pid a \<mapsto> as_volume a), se_mutes := (se_mutes s)(as_pid a \<mapsto> as_muted a)\<rparr>"
    obtain icon where n: "note_sessions os ps as
        (case icon of None \<Rightarrow> t | Some px \<Rightarrow> t\<lparr>se_icons := (se_icons t)(as_pid a \<mapsto> px)\<rparr>) = Some s'"
      using Cons.prems(1) False by (auto simp: t_def [symmetric] Let_def split: Option.bind_splits)
    have "volumes_ok (case icon of None \<Rightarrow> t | Some px \<Rightarrow> t\<lparr>se_icons := (se_icons t)(as_pid a \<mapsto> px)\<rparr>)"
      using Cons.prems(2,3) by (auto simp: volumes_ok_def t_def split: option.splits)
    from Cons.IH [OF n this] Cons.prems(3) show ?thesis by simp
  qed
qed simp

lemma refresh_sound:
  assumes "worker_refresh L s w = Some (s', w')" "sound s w"
  shows "sound s' w'"
proof (cases "secs 5 \<le> snd (look w) - se_last_refresh s")
  case False
  then show ?thesis using assms by (auto simp: worker_refresh_def split_beta sound_def)
next
  case True
  define u where "u = fst (look (fst (look w)))"
  define s1 where "s1 = s\<lparr>se_last_refresh := snd (look (fst (look w)))\<rparr>"
  have ok: "clock_live (fst (ask_audio u))" "audio_ok (fst (ask_audio u))" "volumes_ok s1" "audio_contract (snd (ask_audio u))"
    using assms(2) by (simp_all add: sound_def u_def s1_def volumes_ok_def) (simp add: audio_ok_def ask_audio_def look_def)
  show ?thesis
  proof (cases "audio_enumerate (snd (ask_audio u))")
    case None
    then show ?thesis using assms(1) True ok
      by (auto simp: worker_refresh_def split_beta Let_def u_def [symmetric] s1_def [symmetric] sound_def)
  next
    case (Some ss)
    have vols: "\<forall>a\<in>set ss. 0 \<le> as_volume a \<and> as_volume a \<le> 1" using enumerate_volumes [OF ok(4) Some] by blast
    have "(s' = s1 \<and> w' = fst (ask_audio u)) \<or>
        (\<exists>ps m os. note_sessions os ps ss s1 = Some s' \<and> host_send L m (fst (ask_audio u)) = Some w')"
      using assms(1) True Some
      by (auto simp: worker_refresh_def split_beta Let_def u_def [symmetric] s1_def [symmetric] split: if_splits Option.bind_splits)
    then show ?thesis using ok vols by (auto simp: sound_def dest: host_send_ok note_sound)
  qed
qed

lemma round_sound:
  assumes "worker_round L ob s w = Some (s', w', b)" "sound s w"
  shows "sound s' w'"
proof (cases "ro_stop ob")
  case True
  then show ?thesis using assms by (simp add: worker_round_def)
next
  case False
  obtain s1 w1 on where r: "worker_read L s w = Some (s1, w1, on)"
    using assms(1) False by (auto simp: worker_round_def split: Option.bind_splits)
  have s1: "sound s1 w1"
  proof (cases "\<exists>bs rs. wd_rx w = Got bs # rs \<and> bs \<noteq> []")
    case True
    then obtain bs rs where x: "wd_rx w = Got bs # rs" "bs \<noteq> []" by blast
    then have d: "worker_drain L (s\<lparr>se_decoder := fst (decoder_push (se_decoder s) bs)\<rparr>) (w\<lparr>wd_rx := rs\<rparr>) = Some (s1, w1)"
      using r by (auto simp: worker_read_def host_read_def split: Option.bind_splits)
    have "sound s (w\<lparr>wd_rx := rs\<rparr>)" using assms(2) by (simp add: sound_def)
    then show ?thesis using drain_sound [OF d] by simp
  next
    case False
    then show ?thesis using r assms(2)
      by (cases "wd_rx w") (auto simp: worker_read_def host_read_def sound_def split: read_result.splits if_splits)
  qed
  show ?thesis
  proof (cases on)
    case off: False
    then show ?thesis using assms(1) r s1 False by (simp add: worker_round_def)
  next
    case on: True
    obtain s2 w2 w3 s4 w4 s5 w5 where h: "worker_heartbeat L s1 w1 = Some (s2, w2)" and b: "worker_backlight L ob w2 = Some w3"
      and t: "worker_take_command L ob s2 w3 = Some (s4, w4)" and e: "worker_expire s4 w4 = (s5, w5)"
      and f: "worker_refresh L s5 w5 = Some (s', w')"
      using assms(1) r on False by (auto simp: worker_round_def split: Option.bind_splits prod.splits)
    have "sound s2 w2" using h s1
      by (auto simp: worker_heartbeat_def split_beta sound_def volumes_ok_def dest!: host_send_ok split: if_splits Option.bind_splits)
    then have "sound s2 w3" using b by (auto simp: worker_backlight_def sound_def dest!: host_send_ok split: if_splits prod.splits)
    then have "sound s4 w4" using t
      by (auto simp: worker_take_command_def split_beta sound_def volumes_ok_def dest!: host_send_ok
          split: option.splits worker_command.splits Option.bind_splits)
    then have "sound s5 w5" using e
      by (auto simp: worker_expire_def split_beta sound_def volumes_ok_def split: option.splits if_splits)
    then show ?thesis using refresh_sound [OF f] by blast
  qed
qed

lemma rounds_sound: "worker_rounds L obs s w = Some (s', w', b) \<Longrightarrow> sound s w \<Longrightarrow> sound s' w'"
proof (induction obs arbitrary: s w)
  case (Cons ob obs)
  obtain s1 w1 b1 where r: "worker_round L ob s w = Some (s1, w1, b1)" using Cons.prems(1) by (auto split: Option.bind_splits)
  have "sound s1 w1" by (rule round_sound [OF r Cons.prems(2)])
  then show ?case using Cons r by (cases b1) auto
qed simp

lemma gather_volumes:
  assumes "gather os ss seen p = Some q" "\<forall>s\<in>set ss. 0 \<le> as_volume s \<and> as_volume s \<le> 1" "in_range (pr_volumes p)"
  shows "in_range (pr_volumes q)"
  using assms
proof (induction ss arbitrary: seen p)
  case (Cons s ss)
  show ?case
  proof (cases "as_pid s = 0 \<or> as_pid s \<in> seen")
    case True
    then have g: "gather os ss seen p = Some q" using Cons.prems(1) by simp
    show ?thesis by (rule Cons.IH [OF g _ Cons.prems(3)]) (use Cons.prems(2) in auto)
  next
    case False
    then obtain icon where g: "gather os ss (insert (as_pid s) seen)
          (p\<lparr>pr_apps := pr_apps p @ [info_of s], pr_volumes := (pr_volumes p)(as_pid s \<mapsto> as_volume s),
             pr_mutes := (pr_mutes p)(as_pid s \<mapsto> as_muted s),
             pr_icons := (case icon of None \<Rightarrow> pr_icons p | Some px \<Rightarrow> (pr_icons p)(as_pid s \<mapsto> px))\<rparr>) = Some q"
      using Cons.prems(1) by (auto split: Option.bind_splits)
    show ?thesis by (rule Cons.IH [OF g]) (use Cons.prems(2,3) in auto)
  qed
qed simp

section \<open>Provisioning commands\<close>

text \<open>The reply channels that have been answered, and the one that is waited for.\<close>

definition tally :: "session \<Rightarrow> world \<Rightarrow> nat list" where
  "tally s w = map fst (wd_replies w) @ (case se_reply s of Some i \<Rightarrow> [i] | None \<Rightarrow> [])"

definition paired :: "session \<Rightarrow> bool" where
  "paired s \<longleftrightarrow> (se_reply s = None) = (se_deadline s = None)"

definition keeps_tally :: "session \<Rightarrow> world \<Rightarrow> session \<Rightarrow> world \<Rightarrow> bool" where
  "keeps_tally s w s' w' \<longleftrightarrow> (clock_live w \<longrightarrow> clock_live w') \<and> (paired s \<longrightarrow> paired s') \<and> tally s' w' = tally s w"

lemma keeps_refl: "keeps_tally s w s w"
  by (simp add: keeps_tally_def)

lemma keeps_trans: "keeps_tally s w s1 w1 \<Longrightarrow> keeps_tally s1 w1 s2 w2 \<Longrightarrow> keeps_tally s w s2 w2"
  by (simp add: keeps_tally_def)

lemma replies_simps [simp]:
  "wd_replies (wrote_bytes bs w) = wd_replies w" "wd_replies (fst (look w)) = wd_replies w"
  "wd_replies (fst (ask_audio w)) = wd_replies w" "wd_replies (fst (load_sens w)) = wd_replies w"
  "wd_replies (fst (audio_result r w)) = wd_replies w" "wd_replies (clear_input w) = wd_replies w"
  "wd_replies (send_reply i x w) = wd_replies w @ [(i, x)]"
  by (simp_all add: wrote_bytes_def look_def ask_audio_def load_sens_def audio_result_def clear_input_def send_reply_def)

lemma keeps_same:
  "clock_live w' = clock_live w \<Longrightarrow> wd_replies w' = wd_replies w \<Longrightarrow> se_reply s' = se_reply s \<Longrightarrow> se_deadline s' = se_deadline s \<Longrightarrow>
   keeps_tally s w s' w'"
  by (simp add: keeps_tally_def paired_def tally_def)

lemma host_send_keeps: "host_send L m w = Some w' \<Longrightarrow> clock_live w' = clock_live w \<and> wd_replies w' = wd_replies w"
  by (auto dest!: host_send_frame)

lemma send_and_wait_keeps:
  assumes "send_and_wait L m d w = Some (d', w')" "clock_live w"
  shows "clock_live w' \<and> wd_replies w' = wd_replies w"
proof -
  obtain v where v: "host_send L m w = Some v" using assms(1) by (auto simp: send_and_wait_def split: Option.bind_splits)
  have c: "clock_live (fst (look v))" using host_send_keeps [OF v] assms(2) by simp
  obtain d1 w1 r where l: "listen (ack_data L) (Some ()) (snd (look v) + secs 5) d (fst (look v)) = Some (d1, w1, r)"
    "settled w1 = settled (fst (look v))"
    using listen_settles [OF c, of "ack_data L"] ack_data_settles by blast
  have "w' = w1" using assms(1) v l(1) by (simp add: send_and_wait_def split_beta)
  then show ?thesis
    using clock_live_settled [of w1 v] settledD(9) [of w1 v] l(2) host_send_keeps [OF v] assms(2) by simp
qed

lemma event_keeps:
  assumes "on_event L m s w = Some (s', w')" "clock_live w"
  shows "keeps_tally s w s' w'"
proof (cases m)
  case (VolumeDelta i dl)
  then show ?thesis using assms
    by (auto simp: on_volume_delta_def split_beta Let_def dest!: host_send_keeps intro!: keeps_same
        split: bool.splits Option.bind_splits if_splits)
next
  case (AppSelected i)
  then show ?thesis using assms
    by (auto simp: on_app_selected_def dest!: send_and_wait_keeps intro!: keeps_same split: Option.bind_splits option.splits)
next
  case (MuteToggle i)
  then show ?thesis using assms
    by (auto simp: on_mute_toggle_def split_beta Let_def dest!: host_send_keeps intro!: keeps_same
        split: bool.splits Option.bind_splits if_splits)
next
  case (WifiStatus up ip)
  then show ?thesis using assms
    by (auto simp: on_wifi_status_def keeps_tally_def paired_def tally_def split: option.splits)
qed (use assms in \<open>auto simp: keeps_refl\<close>)

lemma drain_keeps:
  assumes "worker_drain L s w = Some r" "clock_live w"
  shows "keeps_tally s w (fst r) (snd r)"
proof -
  have "clock_live w \<longrightarrow> keeps_tally s w (fst r) (snd r)"
  proof (rule worker_drain.raw_induct [of "\<lambda>L s w r. clock_live w \<longrightarrow> keeps_tally s w (fst r) (snd r)", OF _ assms(1)])
    fix drain L s w r
    assume IH: "\<And>L s w r. drain L s w = Some r \<Longrightarrow> clock_live w \<longrightarrow> keeps_tally s w (fst r) (snd r)"
      and body: "(case next_frame (lk_dev L) (se_decoder s) of
          (d, Inl _) \<Rightarrow> Some (s\<lparr>se_decoder := decoder_reset d\<rparr>, clear_input w)
        | (d, Inr None) \<Rightarrow> Some (s\<lparr>se_decoder := d\<rparr>, w)
        | (d, Inr (Some msg)) \<Rightarrow> (case on_event L msg (s\<lparr>se_decoder := d\<rparr>) w of None \<Rightarrow> None | Some (s, w) \<Rightarrow> drain L s w)) = Some r"
    obtain d x where nf: "next_frame (lk_dev L) (se_decoder s) = (d, x)" by fastforce
    consider e where "x = Inl e" | "x = Inr None" | m where "x = Inr (Some m)" by (metis sum.exhaust not_None_eq)
    then show "clock_live w \<longrightarrow> keeps_tally s w (fst r) (snd r)"
    proof cases
      case (3 m)
      then obtain s1 w1 where e: "on_event L m (s\<lparr>se_decoder := d\<rparr>) w = Some (s1, w1)" "drain L s1 w1 = Some r"
        using body nf by (auto split: option.splits)
      show ?thesis
      proof
        assume c: "clock_live w"
        have k: "keeps_tally (s\<lparr>se_decoder := d\<rparr>) w s1 w1" by (rule event_keeps [OF e(1) c])
        then have "clock_live w1" using c by (simp add: keeps_tally_def)
        then have "keeps_tally s1 w1 (fst r) (snd r)" using IH [OF e(2)] by simp
        moreover have "keeps_tally s w (s\<lparr>se_decoder := d\<rparr>) w" by (simp add: keeps_same)
        ultimately show "keeps_tally s w (fst r) (snd r)" using k by (blast intro: keeps_trans)
      qed
    qed (use body nf in \<open>auto intro!: keeps_same\<close>)
  qed
  then show ?thesis using assms(2) by blast
qed

lemma refresh_keeps:
  assumes "worker_refresh L s w = Some (s', w')"
  shows "keeps_tally s w s' w'"
proof -
  have noted: "note_sessions os ps as t = Some t' \<Longrightarrow> se_reply t' = se_reply t \<and> se_deadline t' = se_deadline t" for os ps "as" t t'
    by (induction os ps "as" t rule: note_sessions.induct) (fastforce simp: Let_def split: Option.bind_splits if_splits option.splits)+
  show ?thesis
    using assms by (auto simp: worker_refresh_def split_beta Let_def dest!: noted host_send_keeps intro!: keeps_same
        split: if_splits Option.bind_splits option.splits)
qed

definition command_ids :: "round_obs list \<Rightarrow> nat list" where
  "command_ids obs = List.map_filter (\<lambda>ob. case ro_command ob of Some (ProvisionWifi _ _ i) \<Rightarrow> Some i | None \<Rightarrow> None) obs"

text \<open>
  What a round does to the tally: nothing, or it takes a command, which drops the reply waited for.
\<close>

definition taken :: "round_obs \<Rightarrow> session \<Rightarrow> world \<Rightarrow> session \<Rightarrow> world \<Rightarrow> bool" where
  "taken ob s w s' w' \<longleftrightarrow> clock_live w' \<and> (paired s \<longrightarrow> paired s') \<and>
     (case command_ids [ob] of
        [] \<Rightarrow> tally s' w' = tally s w
      | i # _ \<Rightarrow> \<exists>pre suf. tally s w = pre @ suf \<and> tally s' w' = pre @ [i])"

lemma command_ids_Cons: "command_ids (ob # obs) = command_ids [ob] @ command_ids obs"
  by (simp add: command_ids_def map_filter_simps split: option.splits worker_command.splits)

lemma round_keeps:
  assumes "worker_round L ob s w = Some (s', w', b)" "clock_live w"
  shows "if b then taken ob s w s' w' else keeps_tally s w s' w'"
proof (cases "ro_stop ob")
  case True
  then show ?thesis using assms by (simp add: worker_round_def keeps_refl)
next
  case False
  obtain s1 w1 on where r: "worker_read L s w = Some (s1, w1, on)"
    using assms(1) False by (auto simp: worker_round_def split: Option.bind_splits)
  have s1: "keeps_tally s w s1 w1"
  proof (cases "\<exists>bs rs. wd_rx w = Got bs # rs \<and> bs \<noteq> []")
    case True
    then obtain bs rs where x: "wd_rx w = Got bs # rs" "bs \<noteq> []" by blast
    then have d: "worker_drain L (s\<lparr>se_decoder := fst (decoder_push (se_decoder s) bs)\<rparr>) (w\<lparr>wd_rx := rs\<rparr>) = Some (s1, w1)"
      using r by (auto simp: worker_read_def host_read_def split: Option.bind_splits)
    have "keeps_tally (s\<lparr>se_decoder := fst (decoder_push (se_decoder s) bs)\<rparr>) (w\<lparr>wd_rx := rs\<rparr>) s1 w1"
      using drain_keeps [OF d] assms(2) by simp
    moreover have "keeps_tally s w (s\<lparr>se_decoder := fst (decoder_push (se_decoder s) bs)\<rparr>) (w\<lparr>wd_rx := rs\<rparr>)"
      by (rule keeps_same) simp_all
    ultimately show ?thesis by (blast intro: keeps_trans)
  next
    case False
    then show ?thesis using r
      by (cases "wd_rx w") (auto simp: worker_read_def host_read_def intro!: keeps_same split: read_result.splits if_splits)
  qed
  show ?thesis
  proof (cases on)
    case off: False
    then show ?thesis using assms(1) r s1 False by (simp add: worker_round_def)
  next
    case on: True
    obtain s2 w2 w3 s4 w4 s5 w5 where h: "worker_heartbeat L s1 w1 = Some (s2, w2)" and b: "worker_backlight L ob w2 = Some w3"
      and t: "worker_take_command L ob s2 w3 = Some (s4, w4)" and e: "worker_expire s4 w4 = (s5, w5)"
      and f: "worker_refresh L s5 w5 = Some (s', w')" and "b"
      using assms(1) r on False by (auto simp: worker_round_def split: Option.bind_splits prod.splits)
    have "keeps_tally s1 w1 s2 w2" using h
      by (auto simp: worker_heartbeat_def split_beta dest!: host_send_keeps intro!: keeps_same split: if_splits Option.bind_splits)
    moreover have "keeps_tally s2 w2 s2 w3" using b
      by (auto simp: worker_backlight_def dest!: host_send_keeps intro!: keeps_same split: if_splits prod.splits)
    ultimately have k3: "keeps_tally s w s2 w3" using s1 by (blast intro: keeps_trans)
    have t4: "taken ob s2 w3 s4 w4"
    proof (cases "ro_command ob")
      case None
      then show ?thesis using t k3 assms(2) by (simp add: worker_take_command_def taken_def command_ids_def map_filter_simps keeps_tally_def)
    next
      case (Some c)
      obtain sid pw i where c: "c = ProvisionWifi sid pw i" by (cases c)
      then have "se_reply s4 = Some i" "se_deadline s4 \<noteq> None" "wd_replies w4 = wd_replies w3" "clock_live w4 = clock_live w3"
        using t Some by (auto simp: worker_take_command_def split_beta dest!: host_send_keeps split: Option.bind_splits)
      then have "tally s4 w4 = map fst (wd_replies w3) @ [i]" "clock_live w4" "paired s4"
        using k3 assms(2) by (auto simp: tally_def paired_def keeps_tally_def)
      moreover have "tally s2 w3 = map fst (wd_replies w3) @ (case se_reply s2 of Some i \<Rightarrow> [i] | None \<Rightarrow> [])" by (simp add: tally_def)
      ultimately show ?thesis using Some c by (auto simp: taken_def command_ids_def map_filter_simps)
    qed
    have "keeps_tally s4 w4 s5 w5" using e
      by (auto simp: worker_expire_def split_beta keeps_tally_def paired_def tally_def split: option.splits if_splits)
    with refresh_keeps [OF f] have k5: "keeps_tally s4 w4 s' w'" by (blast intro: keeps_trans)
    have "taken ob s w s' w'" using k3 t4 k5 assms(2)
      by (simp add: taken_def keeps_tally_def split: list.splits)
    then show ?thesis using \<open>b\<close> by simp
  qed
qed

lemma rounds_quiet:
  "worker_rounds L obs s w = Some (s', w', b) \<Longrightarrow> clock_live w \<Longrightarrow> command_ids obs = [] \<Longrightarrow> tally s' w' = tally s w"
proof (induction obs arbitrary: s w)
  case (Cons ob obs)
  have ids: "command_ids [ob] = []" "command_ids obs = []" using Cons.prems(3) command_ids_Cons [of ob obs] by auto
  obtain s1 w1 b1 where r: "worker_round L ob s w = Some (s1, w1, b1)" using Cons.prems(1) by (auto split: Option.bind_splits)
  have k: "tally s1 w1 = tally s w" "clock_live w1"
    using round_keeps [OF r Cons.prems(2)] Cons.prems(2) ids(1) by (auto simp: taken_def keeps_tally_def split: if_splits)
  then show ?case using Cons.IH [of s1 w1] Cons.prems(1) r ids(2) by (cases b1) auto
qed simp

lemma rounds_tally:
  assumes "worker_rounds L obs s w = Some (s', w', b)" "clock_live w" "paired s" "distinct (tally s w @ command_ids obs)"
  shows "distinct (tally s' w') \<and> set (tally s' w') \<subseteq> set (tally s w @ command_ids obs) \<and> paired s' \<and>
    (b \<and> command_ids obs \<noteq> [] \<longrightarrow> last (command_ids obs) \<in> set (tally s' w'))"
  using assms
proof (induction obs arbitrary: s w)
  case Nil
  then show ?case by (simp add: command_ids_def map_filter_simps)
next
  case (Cons ob obs)
  obtain s1 w1 b1 where r: "worker_round L ob s w = Some (s1, w1, b1)" using Cons.prems(1) by (auto split: Option.bind_splits)
  note k = round_keeps [OF r Cons.prems(2)]
  show ?case
  proof (cases b1)
    case False
    then have "s' = s1" "w' = w1" "\<not> b" using Cons.prems(1) r by auto
    then show ?thesis using k False Cons.prems(3,4) by (auto simp: keeps_tally_def)
  next
    case True
    then have l: "worker_rounds L obs s1 w1 = Some (s', w', b)" and t: "taken ob s w s1 w1" using Cons.prems(1) r k by auto
    have c: "clock_live w1" "paired s1" using t Cons.prems(3) by (auto simp: taken_def)
    have ids: "distinct (tally s1 w1 @ command_ids obs)" "set (tally s1 w1) \<subseteq> set (tally s w @ command_ids [ob])"
      using t Cons.prems(4) command_ids_Cons [of ob obs] by (auto simp: taken_def split: list.splits)
    note IH = Cons.IH [OF l c ids(1)]
    have "last (command_ids (ob # obs)) \<in> set (tally s' w')" if "b" "command_ids (ob # obs) \<noteq> []"
    proof (cases "command_ids obs = []")
      case True
      then have "command_ids (ob # obs) = command_ids [ob]" "tally s' w' = tally s1 w1"
        using command_ids_Cons [of ob obs] rounds_quiet [OF l c(1)] by simp_all
      moreover have "\<exists>i. command_ids [ob] = [i]"
        using that(2) calculation(1) by (auto simp: command_ids_def map_filter_simps split: option.splits worker_command.splits)
      ultimately show ?thesis using t by (auto simp: taken_def)
    next
      case False
      then show ?thesis using IH that(1) command_ids_Cons [of ob obs] by simp
    qed
    with IH ids(2) command_ids_Cons [of ob obs] show ?thesis by auto
  qed
qed

end
