(* ===== verification/Worker_Promises.thy ===== *)
theory Worker_Promises
  imports Worker_Session
begin

text \<open>
  What the companion's worker promises: it returns, it announces each session once, the start of a
  session is the messages of \<open>setup_messages\<close> in order, answers are paired with requests, a knob turn
  keeps the volume in range, a provisioning request is answered once, and what a refresh resends.
\<close>

section \<open>The start of a session changes nothing but the line\<close>

definition quietly :: "world \<Rightarrow> world \<Rightarrow> bool" where
  "quietly w w' \<longleftrightarrow> clock_live w' \<and> audio_ok w' = audio_ok w \<and> wd_replies w' = wd_replies w"

lemma quietly_trans: "quietly w w1 \<Longrightarrow> quietly w1 w2 \<Longrightarrow> quietly w w2"
  by (simp add: quietly_def)

lemma quietly_settled: "settled w' = settled w \<Longrightarrow> clock_live w \<Longrightarrow> quietly w w'"
  using clock_live_settled [of w' w] audio_ok_settled [of w' w] settledD(9) [of w' w] by (simp add: quietly_def)

lemma quietly_send: "host_send L m w = Some w' \<Longrightarrow> clock_live w \<Longrightarrow> quietly w w'"
  using host_send_ok [of L m w w'] host_send_keeps [of L m w w'] by (simp add: quietly_def)

lemma quietly_wait: "send_and_wait L m d w = Some (d', w') \<Longrightarrow> clock_live w \<Longrightarrow> quietly w w'"
  using send_and_wait_ok [of L m d w d' w'] send_and_wait_keeps [of L m d w d' w'] by (simp add: quietly_def)

lemma quietly_icons: "send_icons L icons is d w = Some (d', w') \<Longrightarrow> clock_live w \<Longrightarrow> quietly w w'"
proof (induction "is" arbitrary: d w)
  case (Cons i "is")
  show ?case
  proof (cases "icons i")
    case (Some px)
    then obtain d1 w1 where s: "send_and_wait L (SetAppIcon i px) d w = Some (d1, w1)" "send_icons L icons is d1 w1 = Some (d', w')"
      using Cons.prems(1) by (auto split: Option.bind_splits)
    have "quietly w w1" by (rule quietly_wait [OF s(1) Cons.prems(2)])
    with Cons.IH [OF s(2)] show ?thesis by (simp add: quietly_def)
  qed (use Cons in simp)
qed (simp add: quietly_def)

lemma setup_keeps:
  assumes "worker_setup L p w = Some (s, w')" "clock_live w"
  shows "quietly w w'" "se_volumes s = pr_volumes p" "se_reply s = None" "se_deadline s = None"
proof -
  let ?d0 = "decoder_new (16 * 1024)"
  obtain d1 n w1 where 1: "drain_for L (millis 100) ?d0 w = Some ((d1, n), w1)" "settled w1 = settled w"
    using drain_for_returns [OF assms(2)] by blast
  have q1: "quietly w (clear_input w1)" by (rule quietly_settled) (simp_all add: 1(2) assms(2))
  obtain w2 where 2: "host_send L Ping (clear_input w1) = Some w2"
    using assms(1) 1(1) by (auto simp: worker_setup_def Let_def split: Option.bind_splits)
  have q2: "quietly w w2" using quietly_trans [OF q1 quietly_send [OF 2]] q1 by (simp add: quietly_def)
  obtain d3 w3 where 3: "wait_for_ready L ?d0 w2 = Some (d3, w3)" "settled w3 = settled w2"
    using wait_for_ready_returns q2 unfolding quietly_def by blast
  have q3: "quietly w w3" using quietly_trans [OF q2 quietly_settled [OF 3(2)]] q2 by (simp add: quietly_def)
  obtain i d4 w4 d5 w5 d6 w6 where 4: "send_and_wait L (SetAppList (pr_apps p)) d3 w3 = Some (d4, w4)"
    and 5: "send_and_wait L (SetSelectedApp i) d4 w4 = Some (d5, w5)"
    and 6: "send_icons L (pr_icons p) (lk_order L (pr_icons p)) d5 w5 = Some (d6, w6)"
    and e: "se_volumes s = pr_volumes p" "se_reply s = None" "se_deadline s = None" "w' = fst (look (fst (look w6)))"
    using assms(1) 1(1) 2 3(1) by (auto simp: worker_setup_def Let_def split_beta split: Option.bind_splits)
  have "quietly w w6"
    using q3 quietly_wait [OF 4] quietly_wait [OF 5] quietly_icons [OF 6] by (simp add: quietly_def)
  then show "quietly w w'" by (simp add: quietly_def e(4))
  show "se_volumes s = pr_volumes p" "se_reply s = None" "se_deadline s = None" by (fact e)+
qed

section \<open>A laboratory\<close>

definition lab_link :: link where
  "lab_link = \<lparr>lk_host = host_wire, lk_dev = dev_wire, lk_toml = ref_toml, lk_order = (\<lambda>_. [])\<rparr>"

definition lab_session :: os_session where
  "lab_session = \<lparr>os_pid = Some 7, os_simple = True, os_volume = Some (1/2), os_mute = Some False, os_path = None, os_accepts = True\<rparr>"

definition lab_audio :: os_audio where
  "lab_audio = \<lparr>oa_ready = True, oa_sessions = [Some lab_session]\<rparr>"

definition lab_world :: "read_result list \<Rightarrow> world" where
  "lab_world rx = \<lparr>wd_rx = rx, wd_clear = (\<lambda>_. 0), wd_clears = 0, wd_clock = secs, wd_looks = 0, wd_accept = (\<lambda>_. Written),
     wd_writes = 0, wd_tx = [], wd_audio = (\<lambda>_. lab_audio), wd_asked = 0, wd_calls = [], wd_sens = (\<lambda>_. 2), wd_loads = 0,
     wd_icons = (\<lambda>_. None), wd_disk = lab_disk None, wd_replies = []\<rparr>"

lemma lab_world_live: "clock_live (lab_world rx)"
proof -
  have "t \<le> secs k" if "t \<le> k" for t k using that by (simp add: secs_def)
  then show ?thesis by (auto simp: clock_live_def lab_world_def)
qed

lemma lab_world_responds: "responsive (lab_world rx)"
  using lab_world_live by (simp add: responsive_def writes_return_def lab_world_def)

lemma lab_world_healthy: "port_healthy (lab_world rx)"
  by (simp add: port_healthy_def lab_world_def)

lemma lab_link_ok: "wire_format (lk_host lab_link)" "wire_format (lk_dev lab_link)"
  by (simp_all add: lab_link_def host_link.wire_format_axioms dev_link.wire_format_axioms)

definition frame_of :: "host_to_device \<Rightarrow> u8 list" where
  "frame_of m = cobs_encode host_wire (wr_h2d m @ [crc8 (wr_h2d m)]) @ [0]"

lemma lab_frame: "encode host_wire m = Some (Inr (frame_of m))"
  using host_link.encode_shape [of m "wr_h2d m"] by (simp add: frame_of_def host_wire_def cobs_wire_def)

lemma lab_frames: "list_all2 (\<lambda>m f. encode (lk_host lab_link) m = Some (Inr f)) ms (map frame_of ms)"
  by (simp add: list_all2_conv_all_nth lab_link_def lab_frame)

interpretation lab: linked_worker lab_link
  by (rule linked_worker.intro) (rule lab_link_ok)+

definition lab_prepared_data :: prepared where
  "lab_prepared_data = \<lparr>pr_apps = [\<lparr>ai_id = 7, ai_name = [], ai_volume = session_level (1/2), ai_muted = False\<rparr>],
     pr_volumes = [7 \<mapsto> 1/2], pr_mutes = [7 \<mapsto> False], pr_icons = Map.empty\<rparr>"

lemma lab_prepared: "prepare_audio_data True (lab_world rx) = Some ((lab_world rx)\<lparr>wd_asked := 1\<rparr>, [], Some lab_prepared_data)"
  by (simp add: prepare_audio_data_def ask_audio_def lab_world_def lab_audio_def lab_session_def audio_enumerate_def session_of_def
      nothing_prepared_def info_of_def exe_name_def file_name_def ends_with_def ascii_def lab_prepared_data_def)

section \<open>A refresh\<close>

lemma refresh_due:
  assumes "secs 5 \<le> wd_clock w (wd_looks w) - se_last_refresh s" "audio_enumerate (wd_audio w (wd_asked w)) = Some ss"
    and "set (map ai_id (se_apps s)) \<noteq> set (map ai_id (fresh_infos ss {}))"
    and "encode (lk_host L) (SetAppList (fresh_infos ss {})) = Some (Inr f)" "writes_return w"
  shows "\<exists>s' w'. worker_refresh L s w = Some (s', w') \<and> wd_tx w' = wd_tx (wrote_bytes f w) \<and> wd_accept w' = wd_accept w \<and>
    se_apps s' = se_apps s \<and> wd_clock w' = wd_clock w \<and> wd_looks w' = wd_looks w + 2 \<and> wd_audio w' = wd_audio w \<and>
    wd_asked w' = wd_asked w + 1 \<and> se_last_refresh s' = wd_clock w (wd_looks w + 1)"
proof -
  define v where "v = w\<lparr>wd_looks := wd_looks w + 2, wd_asked := wd_asked w + 1\<rparr>"
  define s1 where "s1 = s\<lparr>se_last_refresh := wd_clock w (wd_looks w + 1)\<rparr>"
  have keep: "note_sessions os ps as t = Some t' \<Longrightarrow> se_apps t' = se_apps t \<and> se_last_refresh t' = se_last_refresh t" for os ps "as" t t'
    by (induction os ps "as" t rule: note_sessions.induct) (fastforce simp: Let_def split: Option.bind_splits if_splits option.splits)+
  obtain s2 where s2: "note_sessions (wd_icons v) (set (map ai_id (fresh_infos ss {}))) ss s1 = Some s2"
    using lab.note_total by blast
  have "worker_refresh L s w = Some (s2, wrote_bytes f v)"
    using assms s2 by (simp add: worker_refresh_def look_def ask_audio_def v_def s1_def Let_def host_send_writes writes_return_def)
  then show ?thesis using keep [OF s2] by (simp add: v_def s1_def wrote_bytes_def)
qed

lemma refresh_same:
  assumes "audio_enumerate (wd_audio w (wd_asked w)) = Some ss" "set (map ai_id (se_apps s)) = set (map ai_id (fresh_infos ss {}))"
  shows "\<exists>s' w'. worker_refresh L s w = Some (s', w') \<and> wd_tx w' = wd_tx w"
  using assms by (simp add: worker_refresh_def look_def ask_audio_def Let_def)

section \<open>A turn of the knob\<close>

lemma volume_delta_effect:
  assumes "port_healthy w" "v = new_volume (case se_volumes s i of Some x \<Rightarrow> x | None \<Rightarrow> 1 / 2) dl (wd_sens w (wd_loads w))"
    and "oa = wd_audio w (wd_asked w)" "hit = (if oa_ready oa then find_session i (oa_sessions oa) else None)"
    and "encode (lk_host L) (SetVolume i (volume_level v)) = Some (Inr f)"
  shows "0 \<le> v \<and> v \<le> 1 \<and> unat (volume_level v) \<le> 100 \<and>
    (\<exists>w'. on_event L (VolumeDelta i dl) s w =
        Some (if map_option os_accepts hit = Some True then s\<lparr>se_volumes := (se_volumes s)(i \<mapsto> v)\<rparr> else s, w') \<and>
      wd_tx w' = wd_tx w @ (if map_option os_accepts hit = Some True then f else []) \<and>
      wd_calls w' = wd_calls w @ (if hit = None then [] else [VolumeSet i v]))"
proof -
  have v: "0 \<le> v" "v \<le> 1" using new_volume_range by (simp_all add: assms(2))
  then have "clamp 0 1 v = v" by (intro clamp_id)
  then have r: "audio_set_volume i v oa = (case hit of None \<Rightarrow> (None, False) | Some x \<Rightarrow> (Some (VolumeSet i v), os_accepts x))"
    by (simp add: audio_set_volume_def with_session_def assms(4))
  have acc: "wd_accept w n = Written" for n using assms(1) by (simp add: port_healthy_def)
  show ?thesis
    using v volume_level_le [OF v] r acc assms(5)
    by (cases hit) (auto simp: on_volume_delta_def load_sens_def ask_audio_def assms(2,3) [symmetric] audio_result_def Let_def
        host_send_writes [OF _ healthy_writes] port_healthy_def wrote_bytes_def split: bool.splits)
qed

section \<open>Properties\<close>


definition lab_round :: round_obs where
  "lab_round = \<lparr>ro_stop = False, ro_dirty = True, ro_backlight = (80, 30, 90), ro_command = Some (ProvisionWifi [97] [98] 0)\<rparr>"


text \<open>
  C25. The sessions the worker announces: never none; their identifiers are the process ids of the
  sessions the system lists, each once and never 0; every one has a volume and a mute state, and
  no other id has; each level is a percentage; and every icon has exactly the 64 * 64 * 2 bytes
  the device draws.
\<close>

theorem announced_sessions:
  assumes "prepare_audio_data com_ok w = Some (w', st, Some p)"
  shows "\<exists>ss. audio_enumerate (wd_audio w (wd_asked w)) = Some ss \<and> pr_apps p \<noteq> [] \<and> distinct (map ai_id (pr_apps p)) \<and>
    set (map ai_id (pr_apps p)) = as_pid ` set ss - {0} \<and> dom (pr_volumes p) = set (map ai_id (pr_apps p)) \<and>
    dom (pr_mutes p) = set (map ai_id (pr_apps p)) \<and> dom (pr_icons p) \<subseteq> set (map ai_id (pr_apps p)) \<and>
    list_all (\<lambda>a. unat (ai_volume a) \<le> 100) (pr_apps p) \<and>
    (\<forall>i px. pr_icons p i = Some px \<longrightarrow> length px = 64 * 64 * 2)"
proof -
  obtain ss q where ss: "audio_enumerate (wd_audio w (wd_asked w)) = Some ss"
    and q: "gather (wd_icons (fst (ask_audio w))) ss {} nothing_prepared = Some p" "pr_apps p \<noteq> []"
    using assms by (auto simp: prepare_audio_data_def split_beta ask_audio_def split: if_splits option.splits Option.bind_splits)
  note spec = gather_spec [OF q(1)]
  have "\<forall>i px. pr_icons p i = Some px \<longrightarrow> length px = 8192"
    by (rule gather_icons [OF q(1)]) (simp add: nothing_prepared_def)
  then show ?thesis
    using ss q(2) spec fresh_infos_ids [of ss "{}"] fresh_infos_levels [of ss "{}"]
    by (auto simp: nothing_prepared_def)
qed

theorem announced_sessions_witness:
  "\<exists>w' p. prepare_audio_data True (lab_world []) = Some (w', [], Some p) \<and> map ai_id (pr_apps p) = [7] \<and> dom (pr_volumes p) = {7}"
  using announced_sessions [OF lab_prepared [of "[]"]] lab_prepared [of "[]"] by (simp add: lab_prepared_data_def)

text \<open>
  C9. The start of a session, over a port that takes what is written: the worker sends exactly a
  ping, the list of the announced apps, the selection of the first one, and the icons in the
  order the map is iterated in, each as one frame; it does so whether the device answers, answers
  something else, or is silent, since every wait ends at its deadline.
\<close>

theorem session_setup:
  assumes "clock_live w" "port_healthy w" "pr_apps p \<noteq> []"
    and "list_all2 (\<lambda>m f. encode (lk_host L) m = Some (Inr f)) (setup_messages L p) fs"
  shows "\<exists>s w'. worker_setup L p w = Some (s, w') \<and> wd_tx w' = wd_tx w @ concat fs \<and> se_apps s = pr_apps p \<and>
    se_volumes s = pr_volumes p \<and> se_mutes s = pr_mutes p \<and> se_icons s = pr_icons p \<and> se_reply s = None"
  by (rule setup_tx [OF assms])

theorem session_setup_witness:
  "\<exists>s w'. worker_setup lab_link lab_prepared_data (lab_world [Got [2, 1, 7, 0], ReadTimedOut]) = Some (s, w') \<and>
    wd_tx w' = frame_of Ping @ frame_of (SetAppList (pr_apps lab_prepared_data)) @ frame_of (SetSelectedApp 7)"
proof -
  have m: "setup_messages lab_link lab_prepared_data = [Ping, SetAppList (pr_apps lab_prepared_data), SetSelectedApp 7]"
    by (simp add: setup_messages_def icon_messages_def lab_prepared_data_def lab_link_def map_filter_simps)
  have ne: "pr_apps lab_prepared_data \<noteq> []" by (simp add: lab_prepared_data_def)
  from session_setup [OF lab_world_live lab_world_healthy ne lab_frames, of "[Got [2, 1, 7, 0], ReadTimedOut]"]
  show ?thesis by (fastforce simp: m lab_world_def)
qed

text \<open>
  C10. Requests and answers are paired: on a port that delivers the frames of the messages \<open>ms\<close> (no more
  than the decoder holds) and does not fail, and whose writes return, \<open>wait_for_ready\<close> consumes the
  messages up to and including the first \<open>Ready\<close> or \<open>Pong\<close>, and \<open>send_and_wait\<close> those up to and including
  the first \<open>Ack\<close> after sending a message that can be encoded, leaving the later ones for the next
  call.  They return without it only when it has
  not come: the port was read after every reading of the clock before the deadline (three and five
  seconds), the messages consumed are others, and of what those reads delivered no whole frame is left.
\<close>

theorem answers_paired:
  assumes "wire_format (lk_dev L)" "clock_live w" "host_owes (lk_dev L) d w ms" "ReadFailed \<notin> set (wd_rx w)"
    and "encode (lk_host L) msg = Some (Inr f)" "writes_return w"
  shows "(\<exists>d' w' pre rest. wait_for_ready L d w = Some (d', w') \<and> list_all (\<lambda>m. \<not> is_ready m) pre \<and>
      host_owes (lk_dev L) d' w' rest \<and>
      ((\<exists>m. is_ready m \<and> ms = pre @ m # rest) \<or> ms = pre @ rest \<and> ran_out (secs 3) w d' w')) \<and>
    (\<exists>d' w' pre rest. send_and_wait L msg d w = Some (d', w') \<and> Ack \<notin> set pre \<and> host_owes (lk_dev L) d' w' rest \<and>
      (ms = pre @ Ack # rest \<or> ms = pre @ rest \<and> ran_out (secs 5) w d' w'))"
  using wait_for_ready_skips [OF assms(1-4)] send_and_wait_skips [OF assms] by blast

lemma dry_owes_nothing:
  assumes "wire_format W" "host_owes W d w ms" "wd_rx w = []" "0 \<notin> set (dec_buf d)"
  shows "ms = []"
proof (cases ms)
  case (Cons m ms')
  then obtain f fs where "encode W m = Some (Inr f)" "dec_buf d = f @ concat fs"
    using assms(2,3) by (auto simp: host_owes_def rx_bytes_def list_all2_Cons1)
  then show ?thesis using wire_format.frame_shape [OF assms(1)] assms(4) by (metis Un_iff list.set_intros(1) set_append)
qed

text \<open>The answers are taken as they come: the acknowledgement skips nothing, the pong behind it is left.\<close>

theorem answers_paired_witness:
  "(\<exists>d' w'. wait_for_ready lab_link (decoder_new 64) (lab_world [Got [3, 8], Got [56, 0, 3, 1, 7, 0]]) = Some (d', w') \<and>
      host_owes dev_wire d' w' []) \<and>
   (\<exists>d' w'. send_and_wait lab_link Ping (decoder_new 64) (lab_world [Got [3, 8], Got [56, 0, 3, 1, 7, 0]]) = Some (d', w') \<and>
      host_owes dev_wire d' w' [Pong])"
proof -
  let ?w = "lab_world [Got [3, 8], Got [56, 0, 3, 1, 7, 0]]"
  have e: "encode dev_wire Ack = Some (Inr [3, 8, 56, 0])" "encode dev_wire Pong = Some (Inr [3, 1, 7, 0])" by code_simp+
  have o: "host_owes (lk_dev lab_link) (decoder_new 64) ?w [Ack, Pong]"
    unfolding host_owes_def by (rule exI [of _ "[[3, 8, 56, 0], [3, 1, 7, 0]]"]) (simp add: lab_link_def lab_world_def e decoder_new_def rx_bytes_def)
  have f: "ReadFailed \<notin> set (wd_rx ?w)" and c: "wd_clock ?w = secs" "wd_looks ?w = 0" and wr: "writes_return ?w"
    by (simp_all add: lab_world_def writes_return_def)
  have p: "encode (lk_host lab_link) Ping = Some (Inr (frame_of Ping))" by (simp add: lab_link_def lab_frame)
  have none: "ms = []" if "ran_out (secs t) ?w d' w'" "3 \<le> t" "host_owes (lk_dev lab_link) d' w' ms" for t d' w' ms
  proof -
    note over = that(1)
    obtain n where n: "secs t \<le> secs (1 + n)" "wd_rx w' = drop n (wd_rx ?w)"
      "0 \<notin> set (dec_buf d') \<or> concat (map got_bytes (take n (wd_rx ?w))) = []"
      using over unfolding ran_out_def c by (auto simp: secs_def)
    then have "2 \<le> n" using that(2) by (simp add: secs_def)
    then have "wd_rx w' = []" "0 \<notin> set (dec_buf d')" using n(2,3) by (simp_all add: lab_world_def)
    then show "ms = []" using dry_owes_nothing [OF lab_link_ok(2) that(3)] by blast
  qed
  note paired = answers_paired [OF lab_link_ok(2) lab_world_live o f p wr]
  obtain d' w' pre rest where r: "wait_for_ready lab_link (decoder_new 64) ?w = Some (d', w')" "list_all (\<lambda>m. \<not> is_ready m) pre"
    "host_owes (lk_dev lab_link) d' w' rest" "(\<exists>m. is_ready m \<and> [Ack, Pong] = pre @ m # rest) \<or> [Ack, Pong] = pre @ rest \<and> ran_out (secs 3) ?w d' w'"
    using paired by blast
  have "rest = []" using r(2,4) none [OF _ _ r(3), of 3] by (auto simp: Cons_eq_append_conv)
  obtain d2 w2 pre2 rest2 where a: "send_and_wait lab_link Ping (decoder_new 64) ?w = Some (d2, w2)" "Ack \<notin> set pre2"
    "host_owes (lk_dev lab_link) d2 w2 rest2" "[Ack, Pong] = pre2 @ Ack # rest2 \<or> [Ack, Pong] = pre2 @ rest2 \<and> ran_out (secs 5) ?w d2 w2"
    using paired by blast
  have "rest2 = [Pong]" using a(2,4) none [OF _ _ a(3), of 5] by (auto simp: Cons_eq_append_conv)
  then show ?thesis using r(1,3) a(1,3) \<open>rest = []\<close> by (simp add: lab_link_def)
qed

text \<open>
  A turn of the knob, on a port that takes what is written: the new volume is the remembered
  one (or one half) moved by the delta times the sensitivity and held between 0 and 1; it is set
  on the first session of the process, and only if the system accepts it does the worker remember
  it and tell the device the level, at most 100.
\<close>

theorem knob_turn:
  assumes "port_healthy w" "v = new_volume (case se_volumes s i of Some x \<Rightarrow> x | None \<Rightarrow> 1 / 2) dl (wd_sens w (wd_loads w))"
    and "oa = wd_audio w (wd_asked w)" "hit = (if oa_ready oa then find_session i (oa_sessions oa) else None)"
    and "encode (lk_host L) (SetVolume i (volume_level v)) = Some (Inr f)"
  shows "0 \<le> v \<and> v \<le> 1 \<and> unat (volume_level v) \<le> 100 \<and>
    (\<exists>w'. on_event L (VolumeDelta i dl) s w =
        Some (if map_option os_accepts hit = Some True then s\<lparr>se_volumes := (se_volumes s)(i \<mapsto> v)\<rparr> else s, w') \<and>
      wd_tx w' = wd_tx w @ (if map_option os_accepts hit = Some True then f else []) \<and>
      wd_calls w' = wd_calls w @ (if hit = None then [] else [VolumeSet i v]))"
  by (rule volume_delta_effect [OF assms])

theorem knob_turn_witness:
  "\<exists>s w'. se_volumes s = Map.empty \<and> on_event lab_link (VolumeDelta 7 5) s (lab_world []) =
      Some (s\<lparr>se_volumes := [7 \<mapsto> new_volume (1 / 2) 5 2]\<rparr>, w') \<and>
    wd_tx w' = frame_of (SetVolume 7 (volume_level (new_volume (1 / 2) 5 2)))"
proof -
  let ?hit = "if oa_ready lab_audio then find_session 7 (oa_sessions lab_audio) else None"
  let ?s = "\<lparr>se_decoder = decoder_new 64, se_apps = [], se_volumes = Map.empty, se_mutes = Map.empty,
      se_icons = Map.empty, se_last_refresh = 0, se_last_heartbeat = 0, se_reply = None, se_deadline = None\<rparr>"
  have hit: "map_option os_accepts ?hit = Some True" by (simp add: lab_audio_def lab_session_def)
  define v where "v = new_volume (case se_volumes ?s 7 of Some x \<Rightarrow> x | None \<Rightarrow> 1 / 2) 5 (wd_sens (lab_world []) (wd_loads (lab_world [])))"
  have w: "wd_audio (lab_world []) (wd_asked (lab_world [])) = lab_audio" "wd_sens (lab_world []) (wd_loads (lab_world [])) = 2"
    "wd_tx (lab_world []) = []" by (simp_all add: lab_world_def)
  have v: "v = new_volume (1 / 2) 5 2" by (simp add: v_def w)
  have f: "encode (lk_host lab_link) (SetVolume 7 (volume_level v)) = Some (Inr (frame_of (SetVolume 7 (volume_level v))))"
    by (simp add: lab_link_def lab_frame)
  show ?thesis
    using knob_turn [OF lab_world_healthy v_def refl refl f] hit unfolding w v
    by (intro exI [where x = ?s]) auto
qed

text \<open>
  Volumes stay in range through a whole session: if the audio service reports volumes between
  0 and 1, as it documents, then after the start and any number of rounds every volume the worker
  remembers is between 0 and 1, so every level it sends is at most 100.
\<close>

theorem worker_volumes_bounded:
  assumes "wire_format (lk_host L)" "wire_format (lk_dev L)" "clock_live w" "\<And>n. audio_contract (wd_audio w n)"
    and "prepare_audio_data com_ok w = Some (w1, st, Some p)" "run_inner L p obs w1 = Some (s', w', b)"
    and "se_volumes s' i = Some v"
  shows "0 \<le> v \<and> v \<le> 1 \<and> unat (volume_level v) \<le> 100"
proof -
  obtain ss where ss: "audio_enumerate (wd_audio w (wd_asked w)) = Some ss" "w1 = fst (ask_audio w)"
    and g: "gather (wd_icons (fst (ask_audio w))) ss {} nothing_prepared = Some p" "pr_apps p \<noteq> []"
    using assms(5) by (auto simp: prepare_audio_data_def split_beta ask_audio_def split: if_splits option.splits Option.bind_splits)
  have ran: "in_range (pr_volumes p)"
    by (rule gather_volumes [OF g(1)]) (use enumerate_volumes [OF assms(4) ss(1)] in \<open>auto simp: nothing_prepared_def in_range_def\<close>)
  have c1: "clock_live w1" "audio_ok w1" using assms(3,4) ss(2) by (simp, simp add: audio_ok_def ask_audio_def)
  obtain s w2 where up: "worker_setup L p w1 = Some (s, w2)" "worker_rounds L obs s w2 = Some (s', w', b)"
    using assms(6) by (auto simp: run_inner_def split: Option.bind_splits)
  have "sound s w2" using setup_keeps(1,2) [OF up(1) c1(1)] c1(2) ran by (simp add: sound_def volumes_ok_def quietly_def)
  then have "sound s' w'" by (rule rounds_sound [OF up(2)])
  then have "0 \<le> v" "v \<le> 1" using assms(7) by (auto simp: sound_def volumes_ok_def in_range_def)
  then show ?thesis using volume_level_le by simp
qed

theorem worker_volumes_bounded_witness:
  "\<exists>s' w'. run_inner lab_link lab_prepared_data [] ((lab_world [])\<lparr>wd_asked := 1\<rparr>) = Some (s', w', True) \<and>
    se_volumes s' 7 = Some (1 / 2) \<and> unat (volume_level (1 / 2)) \<le> 100"
proof -
  let ?w = "(lab_world [])\<lparr>wd_asked := 1\<rparr>"
  have c: "clock_live ?w" using lab_world_live [of "[]"] by (simp add: clock_live_def)
  have h: "port_healthy ?w" using lab_world_healthy [of "[]"] by (simp add: port_healthy_def)
  have ne: "pr_apps lab_prepared_data \<noteq> []" by (simp add: lab_prepared_data_def)
  obtain s w1 where s: "worker_setup lab_link lab_prepared_data ?w = Some (s, w1)" "se_volumes s = pr_volumes lab_prepared_data"
    using setup_tx [OF c h ne lab_frames] by blast
  have a: "audio_contract (wd_audio (lab_world []) n)" for n
    by (simp add: lab_world_def lab_audio_def lab_session_def audio_contract_def)
  have v: "se_volumes s 7 = Some (1 / 2)" by (simp add: s(2) lab_prepared_data_def)
  have r: "run_inner lab_link lab_prepared_data [] ?w = Some (s, w1, True)" unfolding run_inner_def s(1) by simp
  from worker_volumes_bounded [OF lab_link_ok lab_world_live a lab_prepared r v] r v show ?thesis by blast
qed

text \<open>
  C21. A request to provision WiFi is answered at most once and only if it was made: through a whole
  session no reply channel is written twice, and none that no command brought; and while the loop
  runs the last request is answered or still waited for (an earlier one that was still waited for
  is dropped without an answer when the next command comes).
\<close>

theorem provisioning_answered_once:
  assumes "clock_live w" "wd_replies w = []" "run_inner L p obs w = Some (s', w', b)" "distinct (command_ids obs)"
  shows "distinct (map fst (wd_replies w')) \<and> set (map fst (wd_replies w')) \<subseteq> set (command_ids obs) \<and>
    (b \<and> command_ids obs \<noteq> [] \<longrightarrow>
      last (command_ids obs) \<in> set (map fst (wd_replies w')) \<or> se_reply s' = Some (last (command_ids obs)))"
proof -
  obtain s1 w1 where up: "worker_setup L p w = Some (s1, w1)" "worker_rounds L obs s1 w1 = Some (s', w', b)"
    using assms(3) by (auto simp: run_inner_def split: Option.bind_splits)
  note k = setup_keeps [OF up(1) assms(1)]
  have "tally s1 w1 = []" "paired s1" "clock_live w1"
    using k assms(2) by (simp_all add: tally_def paired_def quietly_def)
  with rounds_tally [OF up(2)] assms(4) show ?thesis
    by (auto simp: tally_def split: option.splits)
qed

theorem provisioning_answered_once_witness:
  "\<exists>s' w' b. run_inner lab_link lab_prepared_data
      [\<lparr>ro_stop = False, ro_dirty = True, ro_backlight = (80, 30, 90), ro_command = Some (ProvisionWifi [97] [98] 4)\<rparr>]
      (lab_world [Got [3, 8, 56, 0], Got [6, 9, 1, 1, 49, 79, 0]]) = Some (s', w', b) \<and> set (map fst (wd_replies w')) \<subseteq> {4}"
proof -
  let ?obs = "[\<lparr>ro_stop = False, ro_dirty = True, ro_backlight = (80, 30, 90), ro_command = Some (ProvisionWifi [97] [98] 4)\<rparr>]"
  let ?w = "lab_world [Got [3, 8, 56, 0], Got [6, 9, 1, 1, 49, 79, 0]]"
  have ne: "pr_apps lab_prepared_data \<noteq> []" by (simp add: lab_prepared_data_def)
  obtain s' w' b where r: "run_inner lab_link lab_prepared_data ?obs ?w = Some (s', w', b)"
    using lab.inner_total [OF lab_world_responds ne] by blast
  have ids: "command_ids ?obs = [4]" "wd_replies ?w = []" by (simp_all add: command_ids_def map_filter_simps lab_world_def)
  show ?thesis using provisioning_answered_once [OF lab_world_live ids(2) r] r ids(1) by auto
qed

text \<open>
  What the refresh compares with: \<open>run_inner\<close> compares the sessions with the list it began with and
  never replaces that list.  So two refreshes in a row with the same changed sessions send the same
  \<open>SetAppList\<close> twice (and the device starts over twice), and when the sessions are the first ones
  again nothing is sent, and the device keeps the list with the changes.
\<close>

theorem refresh_repeats:
  assumes "port_healthy w" "audio_enumerate (wd_audio w (wd_asked w)) = Some ss" "audio_enumerate (wd_audio w (wd_asked w + 1)) = Some ss"
    and "audio_enumerate (wd_audio w (wd_asked w + 2)) = Some ss0" "set (map ai_id (se_apps s)) = set (map ai_id (fresh_infos ss0 {}))"
    and "set (map ai_id (se_apps s)) \<noteq> set (map ai_id (fresh_infos ss {}))"
    and "encode (lk_host L) (SetAppList (fresh_infos ss {})) = Some (Inr f)"
    and "secs 5 \<le> wd_clock w (wd_looks w) - se_last_refresh s"
    and "secs 5 \<le> wd_clock w (wd_looks w + 2) - wd_clock w (wd_looks w + 1)"
  shows "\<exists>s1 w1 s2 w2 s3 w3. worker_refresh L s w = Some (s1, w1) \<and> worker_refresh L s1 w1 = Some (s2, w2) \<and>
    wd_tx w2 = wd_tx w @ f @ f \<and> worker_refresh L s2 w2 = Some (s3, w3) \<and> wd_tx w3 = wd_tx w2"
proof -
  obtain s1 w1 where 1: "worker_refresh L s w = Some (s1, w1)" "wd_tx w1 = wd_tx (wrote_bytes f w)" "wd_accept w1 = wd_accept w"
    "se_apps s1 = se_apps s" "wd_clock w1 = wd_clock w" "wd_looks w1 = wd_looks w + 2" "wd_audio w1 = wd_audio w"
    "wd_asked w1 = wd_asked w + 1" "se_last_refresh s1 = wd_clock w (wd_looks w + 1)"
    using refresh_due [OF assms(8,2,6,7) healthy_writes [OF assms(1)]] by blast
  obtain s2 w2 where 2: "worker_refresh L s1 w1 = Some (s2, w2)" "wd_tx w2 = wd_tx (wrote_bytes f w1)" "se_apps s2 = se_apps s1"
    "wd_audio w2 = wd_audio w1" "wd_asked w2 = wd_asked w1 + 1"
    using refresh_due [of w1 s1 ss L f] assms(1,3,6,7,9) 1 by (auto simp: port_healthy_def writes_return_def)
  have "audio_enumerate (wd_audio w2 (wd_asked w2)) = Some ss0" using assms(4) 1(7,8) 2(4,5) by simp
  then obtain s3 w3 where 3: "worker_refresh L s2 w2 = Some (s3, w3)" "wd_tx w3 = wd_tx w2"
    using refresh_same [of w2 ss0 s2 L] assms(5) 1(4) 2(3) by auto
  have "wd_tx w2 = wd_tx w @ f @ f" using 1 2 assms(1) by (simp add: wrote_bytes_def port_healthy_def)
  then show ?thesis using 1(1) 2(1) 3 by blast
qed

theorem refresh_repeats_witness:
  "\<exists>s1 w1 s2 w2. worker_refresh lab_link \<lparr>se_decoder = decoder_new 64, se_apps = [], se_volumes = Map.empty, se_mutes = Map.empty,
      se_icons = Map.empty, se_last_refresh = 0, se_last_heartbeat = 0, se_reply = None, se_deadline = None\<rparr>
      ((lab_world [])\<lparr>wd_clock := (\<lambda>k. secs (6 * (k + 1))), wd_audio := (\<lambda>n. if n < 2 then lab_audio else lab_audio\<lparr>oa_sessions := []\<rparr>)\<rparr>) =
      Some (s1, w1) \<and>
    worker_refresh lab_link s1 w1 = Some (s2, w2) \<and>
    wd_tx w2 = frame_of (SetAppList (pr_apps lab_prepared_data)) @ frame_of (SetAppList (pr_apps lab_prepared_data))"
proof -
  let ?s = "\<lparr>se_decoder = decoder_new 64, se_apps = [], se_volumes = Map.empty, se_mutes = Map.empty,
      se_icons = Map.empty, se_last_refresh = 0, se_last_heartbeat = 0, se_reply = None, se_deadline = None\<rparr>"
  let ?w = "(lab_world [])\<lparr>wd_clock := (\<lambda>k. secs (6 * (k + 1))), wd_audio := (\<lambda>n. if n < 2 then lab_audio else lab_audio\<lparr>oa_sessions := []\<rparr>)\<rparr>"
  have h: "port_healthy ?w" by (simp add: port_healthy_def lab_world_def)
  have a: "audio_enumerate (wd_audio ?w (wd_asked ?w)) = Some [session_of lab_session]"
    "audio_enumerate (wd_audio ?w (wd_asked ?w + 1)) = Some [session_of lab_session]"
    "audio_enumerate (wd_audio ?w (wd_asked ?w + 2)) = Some []"
    by (simp_all add: lab_world_def lab_audio_def lab_session_def audio_enumerate_def)
  have i: "fresh_infos [session_of lab_session] {} = pr_apps lab_prepared_data"
    by (simp add: lab_session_def session_of_def info_of_def exe_name_def file_name_def ends_with_def ascii_def lab_prepared_data_def)
  have eq: "set (map ai_id (se_apps ?s)) = set (map ai_id (fresh_infos [] {}))" by simp
  have ne: "set (map ai_id (se_apps ?s)) \<noteq> set (map ai_id (fresh_infos [session_of lab_session] {}))"
    unfolding i by (simp add: lab_prepared_data_def)
  have e: "encode (lk_host lab_link) (SetAppList (fresh_infos [session_of lab_session] {})) =
    Some (Inr (frame_of (SetAppList (pr_apps lab_prepared_data))))" unfolding i by (simp add: lab_link_def lab_frame)
  have t: "secs 5 \<le> wd_clock ?w (wd_looks ?w) - se_last_refresh ?s"
    "secs 5 \<le> wd_clock ?w (wd_looks ?w + 2) - wd_clock ?w (wd_looks ?w + 1)"
    by (simp_all add: lab_world_def secs_def)
  from refresh_repeats [OF h a eq ne e t] show ?thesis by (fastforce simp: lab_world_def)
qed

end
