(* ===== verification/Cli.thy ===== *)
theory Cli
  imports Worker_Promises
begin

text \<open>
  The commands of the companion's command line (\<open>companion/src/main.rs\<close>): \<open>run\<close>, \<open>list\<close>, \<open>dump-icons\<close>,
  \<open>serial-test\<close> and the kept \<open>push-apps\<close>.  A command ends by returning or by \<open>exit(1)\<close>; the lines it
  prints are not modelled, except the rows of \<open>list\<close>, nor are the pauses before the first write.
\<close>

datatype 'a ended = Exited | Ended 'a

section \<open>\<open>run\<close>\<close>

text \<open>
  The rounds of the worker as \<open>cmd_run\<close> starts it: the stop flag is never set, no command is ever
  sent, and the dirty flag is up for the first round only.  \<open>cmd_run\<close> is followed over the first \<open>n\<close> rounds;
  the flag of its result says that the loop is still running after them.
\<close>

fun cli_rounds :: "config \<Rightarrow> nat \<Rightarrow> bool \<Rightarrow> round_obs list" where
  "cli_rounds cfg 0 dirty = []"
| "cli_rounds cfg (Suc n) dirty =
     \<lparr>ro_stop = False, ro_dirty = dirty,
      ro_backlight = (cf_backlight_pct cfg, cf_dim_after_secs cfg, cf_off_after_secs cfg), ro_command = None\<rparr>
     # cli_rounds cfg n False"

definition cmd_run :: "link \<Rightarrow> bool \<Rightarrow> str option \<Rightarrow> (str \<times> port_type) list option \<Rightarrow> (str \<Rightarrow> bool) \<Rightarrow> nat \<Rightarrow> world \<Rightarrow>
    (world \<times> worker_status list \<times> bool) ended option" where
  "cmd_run L com_ok port_override available opens n w =
     (if \<not> com_ok then Some Exited
      else let cfg = load_config (lk_toml L) (wd_disk w)
        in case resolve_port port_override cfg available of
             None \<Rightarrow> Some Exited
           | Some port_name \<Rightarrow>
               let w = w\<lparr>wd_sens := (\<lambda>_. cf_sensitivity_pct cfg)\<rparr>
               in map_option Ended (worker_run L com_ok (opens port_name) port_name (cli_rounds cfg n True) w))"

section \<open>\<open>list\<close> and \<open>dump-icons\<close>\<close>

text \<open>\<open>f32 as u32\<close>\<close>

definition as_u32 :: "f32 \<Rightarrow> u32" where
  "as_u32 x = of_int (clamp 0 (2 ^ 32 - 1) (trunc x))"

definition list_row :: "audio_session \<Rightarrow> u32 \<times> u32 \<times> str \<times> str" where
  "list_row s = (as_pid s, as_u32 (f32_round_away (f32_mul (as_volume s) 100)),
     (if as_muted s then ascii ''yes'' else ascii ''no''), as_process_name s)"

definition cmd_list :: "bool \<Rightarrow> world \<Rightarrow> (u32 \<times> u32 \<times> str \<times> str) list ended" where
  "cmd_list com_ok w =
     (if \<not> com_ok then Exited
      else case audio_enumerate (snd (ask_audio w)) of
        None \<Rightarrow> Exited
      | Some sessions \<Rightarrow> if sessions = [] then Ended [] else Ended (map list_row sessions))"

text \<open>
  The files \<open>dump-icons\<close> writes, by name; a session without an icon, or a file that cannot be
  created (\<open>create\<close>), is reported and skipped.
\<close>

definition ppm_name :: "audio_session \<Rightarrow> str" where
  "ppm_name s = ascii ''icon-'' @ show_dec (unat (as_pid s)) @ ascii ''-'' @ as_process_name s @ ascii ''.ppm''"

fun dump_all :: "icon_source \<Rightarrow> (str \<Rightarrow> bool) \<Rightarrow> audio_session list \<Rightarrow> (str \<times> u8 list) list option" where
  "dump_all os create [] = Some []"
| "dump_all os create (s # ss) = do {
     ppm \<leftarrow> dump_ppm os (as_exe_path s);
     files \<leftarrow> dump_all os create ss;
     Some (case ppm of
         Some bytes \<Rightarrow> if create (ppm_name s) then (ppm_name s, bytes) # files else files
       | None \<Rightarrow> files)
   }"

definition cmd_dump_icons :: "bool \<Rightarrow> (str \<Rightarrow> bool) \<Rightarrow> world \<Rightarrow> (str \<times> u8 list) list ended option" where
  "cmd_dump_icons com_ok create w =
     (if \<not> com_ok then Some Exited
      else case audio_enumerate (snd (ask_audio w)) of
        None \<Rightarrow> Some Exited
      | Some sessions \<Rightarrow> map_option Ended (dump_all (wd_icons w) create (filter (\<lambda>s. as_exe_path s \<noteq> []) sessions)))"

section \<open>\<open>serial-test\<close>\<close>

definition cmd_serial_test :: "link \<Rightarrow> bool \<Rightarrow> world \<Rightarrow> world ended option" where
  "cmd_serial_test L port_opens w =
     (if \<not> port_opens then Some Exited
      else do {
        (_, w) \<leftarrow> drain_for L (millis 100) (decoder_new (16 * 1024)) w;
        w \<leftarrow> host_send L Ping w;
        ((d, _), w) \<leftarrow> drain_for L (millis 500) (decoder_new (16 * 1024)) w;
        w \<leftarrow> host_send L (EchoReq (ascii ''hello, knob!'')) w;
        ((d, _), w) \<leftarrow> drain_for L (millis 500) d w;
        (_, w) \<leftarrow> drain_for L (secs 10) d w;
        Some (Ended w)
      })"

section \<open>\<open>push-apps\<close>\<close>

text \<open>The list and the icons, over the sessions with a path; a process with two sessions is listed twice.\<close>

fun push_lists :: "icon_source \<Rightarrow> audio_session list \<Rightarrow> (app_info list \<times> (u32 \<times> u8 list) list) option" where
  "push_lists os [] = Some ([], [])"
| "push_lists os (s # ss) =
     (if as_exe_path s = [] then push_lists os ss
      else do {
        icon \<leftarrow> extract_rgb565 os (as_exe_path s);
        (infos, icons) \<leftarrow> push_lists os ss;
        Some (info_of s # infos, case icon of Some px \<Rightarrow> (as_pid s, px) # icons | None \<Rightarrow> icons)
      })"

fun push_icons :: "link \<Rightarrow> (u32 \<times> u8 list) list \<Rightarrow> decoder \<Rightarrow> world \<Rightarrow> (decoder \<times> world) option" where
  "push_icons L [] d w = Some (d, w)"
| "push_icons L ((app_id, pixels) # icons) d w = do {
     (d, w) \<leftarrow> send_and_wait L (SetAppIcon app_id pixels) d w;
     push_icons L icons d w
   }"

definition cmd_push_apps :: "link \<Rightarrow> bool \<Rightarrow> bool \<Rightarrow> world \<Rightarrow> world ended option" where
  "cmd_push_apps L com_ok port_opens w =
     (if \<not> com_ok then Some Exited
      else case ask_audio w of (w, oa) \<Rightarrow>
        (case audio_enumerate oa of
           None \<Rightarrow> Some Exited
         | Some sessions \<Rightarrow> do {
             (app_infos, icons_out) \<leftarrow> push_lists (wd_icons w) sessions;
             case app_infos of
               [] \<Rightarrow> Some (Ended w)
             | a # _ \<Rightarrow>
                 if \<not> port_opens then Some Exited
                 else do {
                   (_, w) \<leftarrow> drain_for L (millis 100) (decoder_new (16 * 1024)) w;
                   let w = clear_input w;
                   (d, w) \<leftarrow> send_and_wait L (SetAppList app_infos) (decoder_new (16 * 1024)) w;
                   (d, w) \<leftarrow> send_and_wait L (SetSelectedApp (ai_id a)) d w;
                   (d, w) \<leftarrow> push_icons L icons_out d w;
                   (_, w) \<leftarrow> drain_for L (secs 3) d w;
                   Some (Ended w)
                 }
           }))"

section \<open>What the commands send and write\<close>

lemma drained:
  assumes "clock_live w" "port_healthy w"
  obtains d n w' where "drain_for L dur d0 w = Some ((d, n), w')" "clock_live w'" "port_healthy w'" "wd_tx w' = wd_tx w"
proof -
  obtain d n w' where d: "drain_for L dur d0 w = Some ((d, n), w')" "settled w' = settled w"
    using drain_for_returns [OF assms(1)] by blast
  then show thesis using that untouched [OF d(2)] assms by simp
qed

lemma sent:
  assumes "clock_live w" "port_healthy w" "encode (lk_host L) m = Some (Inr f)"
  obtains d' w' where "send_and_wait L m d w = Some (d', w')" "clock_live w'" "port_healthy w'" "wd_tx w' = wd_tx w @ f"
proof -
  obtain d' w' where s: "send_and_wait L m d w = Some (d', w')" "settled w' = settled (wrote_bytes f w)"
    using send_and_wait_returns [OF assms(1,3) healthy_writes [OF assms(2)]] by blast
  then show thesis using that untouched(3) [OF s(2)] wrote [OF s(2) assms(2)] assms(1) by simp
qed

lemma written:
  assumes "clock_live w" "port_healthy w"
  shows "clock_live (wrote_bytes f w)" "port_healthy (wrote_bytes f w)" "wd_tx (wrote_bytes f w) = wd_tx w @ f"
  using assms wrote [of "wrote_bytes f w" f w] by simp_all

lemma serial_test_tx:
  assumes "clock_live w" "port_healthy w" "encode (lk_host L) Ping = Some (Inr f)"
    and "encode (lk_host L) (EchoReq (ascii ''hello, knob!'')) = Some (Inr g)"
  shows "\<exists>w'. cmd_serial_test L True w = Some (Ended w') \<and> wd_tx w' = wd_tx w @ f @ g"
proof -
  let ?d0 = "decoder_new (16 * 1024)"
  obtain d1 n1 w1 where 1: "drain_for L (millis 100) ?d0 w = Some ((d1, n1), w1)" "clock_live w1" "port_healthy w1"
    "wd_tx w1 = wd_tx w" by (rule drained [OF assms(1,2)])
  note w2 = written [OF 1(2,3), of f]
  obtain d3 n3 w3 where 3: "drain_for L (millis 500) ?d0 (wrote_bytes f w1) = Some ((d3, n3), w3)" "clock_live w3" "port_healthy w3"
    "wd_tx w3 = wd_tx (wrote_bytes f w1)" by (rule drained [OF w2(1,2)])
  note w4 = written [OF 3(2,3), of g]
  obtain d5 n5 w5 where 5: "drain_for L (millis 500) d3 (wrote_bytes g w3) = Some ((d5, n5), w5)" "clock_live w5" "port_healthy w5"
    "wd_tx w5 = wd_tx (wrote_bytes g w3)" by (rule drained [OF w4(1,2)])
  obtain d6 n6 w6 where 6: "drain_for L (secs 10) d5 w5 = Some ((d6, n6), w6)" "wd_tx w6 = wd_tx w5"
    by (rule drained [OF 5(2,3)])
  show ?thesis
    using 1(1,4) 3(1,4) 5(1,4) 6 w2(3) w4(3) host_send_writes [OF assms(3) healthy_writes [OF 1(3)]] host_send_writes [OF assms(4) healthy_writes [OF 3(3)]]
    by (simp add: cmd_serial_test_def)
qed

lemma push_icons_tx:
  assumes "clock_live w" "port_healthy w" "list_all2 (\<lambda>(i, px) f. encode (lk_host L) (SetAppIcon i px) = Some (Inr f)) icons fs"
  shows "\<exists>d' w'. push_icons L icons d w = Some (d', w') \<and> clock_live w' \<and> port_healthy w' \<and> wd_tx w' = wd_tx w @ concat fs"
  using assms
proof (induction icons arbitrary: d w fs)
  case (Cons p icons)
  obtain i px where p: "p = (i, px)" by (cases p)
  obtain f gs where f: "fs = f # gs" "encode (lk_host L) (SetAppIcon i px) = Some (Inr f)"
    "list_all2 (\<lambda>(i, px) f. encode (lk_host L) (SetAppIcon i px) = Some (Inr f)) icons gs"
    using Cons.prems(3) by (auto simp: p list_all2_Cons1)
  obtain d1 w1 where s: "send_and_wait L (SetAppIcon i px) d w = Some (d1, w1)" "clock_live w1" "port_healthy w1" "wd_tx w1 = wd_tx w @ f"
    by (rule sent [OF Cons.prems(1,2) f(2)])
  from Cons.IH [OF s(2,3) f(3), of d1] s show ?case by (auto simp: p f(1))
qed auto

lemma push_lists_total: "\<exists>infos icons. push_lists os ss = Some (infos, icons) \<and>
    infos = map info_of (filter (\<lambda>s. as_exe_path s \<noteq> []) ss)"
proof (induction ss)
  case (Cons s ss)
  obtain x where "extract_rgb565 os (as_exe_path s) = Some x" using lab.extract_total by blast
  then show ?case using Cons by auto
qed simp


text \<open>The picture: a header and three bytes for each of the 4096 pixels.\<close>

lemma dump_ppm_length:
  "\<exists>r. dump_ppm os path = Some r \<and> (r = None \<longleftrightarrow> os path = None) \<and> (case r of Some out \<Rightarrow> length out = 13 + 3 * 4096 | None \<Rightarrow> True)"
proof (cases "extract_bgra os path")
  case None
  then show ?thesis by (simp add: dump_ppm_def extract_bgra_def)
next
  case (Some bgra)
  then have len: "length bgra = 4 * 4096" and os: "os path \<noteq> None" by (auto simp: extract_bgra_def icon_side_def)
  have n: "unat (icon_side * icon_side) = 4096" "unat icon_side = 64" by (simp_all add: icon_side_def)
  have idx: "i * 4 + 3 < length bgra" if "i < 4096" for i using that len by simp
  obtain f where alpha: "any_alpha bgra [0..<4096] = Some f" using any_alpha_total [of "[0..<4096]" bgra] idx by auto
  define px where "px = (\<lambda>i. case blended bgra f i of Some (r, g, b) \<Rightarrow> [ucast r, ucast g, ucast b :: u8] | None \<Rightarrow> [])"
  have px: "map_option (\<lambda>(r, g, b). [ucast r, ucast g, ucast b :: u8]) (blended bgra f i) = Some (px i)" "length (px i) = 3"
    if "i < 4096" for i using blended_total [OF idx [OF that], of f] by (auto simp: px_def)
  have body: "(\<lambda>i out. do { (r, g, b) \<leftarrow> blended bgra f i; Some (out @ [ucast r, ucast g, ucast b :: u8]) }) =
      (\<lambda>i out. map_option (\<lambda>bs. out @ bs) (map_option (\<lambda>(r, g, b). [ucast r, ucast g, ucast b :: u8]) (blended bgra f i)))"
    by (auto simp: fun_eq_iff split: Option.bind_split)
  define header where "header = ascii ''P6'' @ [10 :: u8] @ show_dec 64 @ ascii '' '' @ show_dec 64 @ [10] @ ascii ''255'' @ [10]"
  have h: "length header = 13" by (simp add: header_def ascii_def show_dec.simps)
  obtain out where "fold_opt (\<lambda>i out. map_option (\<lambda>bs. out @ bs)
      (map_option (\<lambda>(r, g, b). [ucast r, ucast g, ucast b :: u8]) (blended bgra f i))) [0..<4096] header = Some (header @ out)"
    "length out = 3 * 4096"
    using fold_opt_appends [of 4096 "\<lambda>i. map_option (\<lambda>(r, g, b). [ucast r, ucast g, ucast b :: u8]) (blended bgra f i)" px 3 header, OF px]
    by blast
  then have "dump_ppm os path = Some (Some (header @ out))" "length (header @ out) = 13 + 3 * 4096"
    using Some alpha h by (simp_all add: dump_ppm_def n body Let_def header_def del: upt_rec_numeral)
  then show ?thesis using os by auto
qed

lemma dump_all_total: "\<exists>files. dump_all os create ss = Some files \<and> list_all (\<lambda>(_, bytes). length bytes = 13 + 3 * 4096) files"
proof (induction ss)
  case (Cons s ss)
  then show ?case using dump_ppm_length [of os "as_exe_path s"] by (auto split: option.splits)
qed simp

section \<open>Properties\<close>

text \<open>
  The debugging commands, over a port that takes what is written: \<open>serial-test\<close> sends a ping and
  an echo request and nothing else; \<open>push-apps\<close> sends one list with every session that has a path
  (a process with two sessions twice, unlike the worker), the selection of the first one and then
  the icons in the order of the list; and both return whatever the device does.
\<close>

theorem debug_commands_send:
  assumes "clock_live w" "port_healthy w" "\<And>m. encode (lk_host L) m = Some (Inr (frame m))"
    and "audio_enumerate (wd_audio w (wd_asked w)) = Some ss" "listed = filter (\<lambda>s. as_exe_path s \<noteq> []) ss" "listed \<noteq> []"
  shows "(\<exists>w'. cmd_serial_test L True w = Some (Ended w') \<and>
      wd_tx w' = wd_tx w @ frame Ping @ frame (EchoReq (ascii ''hello, knob!''))) \<and>
    (\<exists>w' icons. cmd_push_apps L True True w = Some (Ended w') \<and> push_lists (wd_icons w) ss = Some (map info_of listed, icons) \<and>
      wd_tx w' = wd_tx w @ frame (SetAppList (map info_of listed)) @ frame (SetSelectedApp (as_pid (hd listed))) @
        concat (map (\<lambda>(i, px). frame (SetAppIcon i px)) icons))"
proof -
  let ?d0 = "decoder_new (16 * 1024)" and ?w = "fst (ask_audio w)"
  obtain icons where l: "push_lists (wd_icons w) ss = Some (map info_of listed, icons)"
    using push_lists_total assms(5) by blast
  obtain a as' where a: "map info_of listed = a # as'" "ai_id a = as_pid (hd listed)"
    using assms(6) by (cases listed) (auto simp: info_of_def)
  have c: "clock_live ?w" "port_healthy ?w" "wd_tx ?w = wd_tx w" "wd_icons ?w = wd_icons w"
    using assms(1,2) by (simp_all add: ask_audio_def port_healthy_def clock_live_def)
  obtain d1 n1 w1 where 1: "drain_for L (millis 100) ?d0 ?w = Some ((d1, n1), w1)" "clock_live w1" "port_healthy w1" "wd_tx w1 = wd_tx w"
    by (rule drained [OF c(1,2)]) (simp add: c(3))
  have c1: "clock_live (clear_input w1)" "port_healthy (clear_input w1)" "wd_tx (clear_input w1) = wd_tx w"
    using untouched [of "clear_input w1" w1] 1 by simp_all
  obtain d2 w2 where 2: "send_and_wait L (SetAppList (a # as')) ?d0 (clear_input w1) = Some (d2, w2)" "clock_live w2" "port_healthy w2"
    "wd_tx w2 = wd_tx w @ frame (SetAppList (a # as'))" by (rule sent [OF c1(1,2) assms(3)]) (simp add: c1(3))
  obtain d3 w3 where 3: "send_and_wait L (SetSelectedApp (ai_id a)) d2 w2 = Some (d3, w3)" "clock_live w3" "port_healthy w3"
    "wd_tx w3 = wd_tx w2 @ frame (SetSelectedApp (ai_id a))" by (rule sent [OF 2(2,3) assms(3)])
  have "list_all2 (\<lambda>(i, px) f. encode (lk_host L) (SetAppIcon i px) = Some (Inr f)) icons (map (\<lambda>(i, px). frame (SetAppIcon i px)) icons)"
    using assms(3) by (simp add: list_all2_conv_all_nth split_beta)
  then obtain d4 w4 where 4: "push_icons L icons d3 w3 = Some (d4, w4)" "clock_live w4" "port_healthy w4"
    "wd_tx w4 = wd_tx w3 @ concat (map (\<lambda>(i, px). frame (SetAppIcon i px)) icons)"
    using push_icons_tx [OF 3(2,3)] by blast
  obtain d5 n5 w5 where 5: "drain_for L (secs 3) d4 w4 = Some ((d5, n5), w5)" "wd_tx w5 = wd_tx w4"
    by (rule drained [OF 4(2,3)])
  have "cmd_push_apps L True True w = Some (Ended w5)"
    using assms(4) l a 1(1) 2(1) 3(1) 4(1) 5(1) c(4) by (simp add: cmd_push_apps_def ask_audio_def Let_def)
  moreover have "wd_tx w5 = wd_tx w @ frame (SetAppList (map info_of listed)) @ frame (SetSelectedApp (as_pid (hd listed))) @
      concat (map (\<lambda>(i, px). frame (SetAppIcon i px)) icons)" using 5(2) 4(4) 3(4) 2(4) a by simp
  moreover have "\<exists>w'. cmd_serial_test L True w = Some (Ended w') \<and>
      wd_tx w' = wd_tx w @ frame Ping @ frame (EchoReq (ascii ''hello, knob!''))"
    by (rule serial_test_tx [OF assms(1,2) assms(3) assms(3)])
  ultimately show ?thesis using l by blast
qed

theorem debug_commands_send_witness:
  "\<exists>w'. cmd_serial_test lab_link True ((lab_world [])\<lparr>wd_audio := (\<lambda>_. \<lparr>oa_ready = True,
      oa_sessions = [Some (lab_session\<lparr>os_path := Some (ascii ''a.exe'')\<rparr>)]\<rparr>)\<rparr>) = Some (Ended w') \<and>
    wd_tx w' = frame_of Ping @ frame_of (EchoReq (ascii ''hello, knob!''))"
proof -
  let ?s = "lab_session\<lparr>os_path := Some (ascii ''a.exe'')\<rparr>"
  let ?w = "(lab_world [])\<lparr>wd_audio := (\<lambda>_. \<lparr>oa_ready = True, oa_sessions = [Some ?s]\<rparr>)\<rparr>"
  have c: "clock_live ?w" "port_healthy ?w"
    using lab_world_live [of "[]"] lab_world_healthy [of "[]"] by (simp_all add: clock_live_def port_healthy_def)
  have e: "encode (lk_host lab_link) m = Some (Inr (frame_of m))" for m by (simp add: lab_link_def lab_frame)
  have a: "audio_enumerate (wd_audio ?w (wd_asked ?w)) = Some [session_of ?s]"
    by (simp add: audio_enumerate_def lab_session_def)
  have "filter (\<lambda>s. as_exe_path s \<noteq> []) [session_of ?s] \<noteq> []"
    by (simp add: session_of_def lab_session_def Let_def ascii_def)
  from debug_commands_send [OF c e a refl this] show ?thesis by (simp add: lab_world_def)
qed

end
