(* ===== verification/Tray.thy ===== *)
theory Tray
  imports Worker
begin

text \<open>
  The companion's tray program (\<open>companion/src/tray_app.rs\<close>): the menu and its identifiers, what a
  click does to the live configuration, the check marks, the values shared with the worker and the
  file, and the choice between the two workers.  The library \<open>tray_icon\<close> gives every item an identifier
  (a parameter) and delivers clicks; the check marks are what it has been told last, except that a
  click may leave the mark of the clicked item in either state before the program sees it.
  Dialogs, the registry and the editor are calls that are recorded.
\<close>

section \<open>The values shared with the worker\<close>

record backlight_shared =
  bs_pct :: u8
  bs_dim_after_secs :: u16
  bs_off_after_secs :: u16
  bs_dirty :: bool

definition backlight_shared_new :: "u8 \<Rightarrow> u16 \<Rightarrow> u16 \<Rightarrow> backlight_shared" where
  "backlight_shared_new pct dim_after off_after =
     \<lparr>bs_pct = pct, bs_dim_after_secs = dim_after, bs_off_after_secs = off_after, bs_dirty = True\<rparr>"

definition snapshot :: "backlight_shared \<Rightarrow> host_to_device" where
  "snapshot b = SetBacklight (bs_pct b) (bs_dim_after_secs b) (bs_off_after_secs b)"

section \<open>The menu\<close>

type_synonym menu_id = nat

datatype menu_entry = Item menu_id str bool | Check menu_id str bool | Separator | Sub str "menu_entry list"

record menu_ids =
  mi_exit :: menu_id
  mi_autostart :: menu_id
  mi_sens_1 :: menu_id
  mi_sens_2 :: menu_id
  mi_sens_5 :: menu_id
  mi_brightness_items :: "(menu_id \<times> u8) list"
  mi_dim_items :: "(menu_id \<times> u16) list"
  mi_off_items :: "(menu_id \<times> u16) list"
  mi_conn_usb :: menu_id
  mi_conn_wifi :: menu_id
  mi_conn_auto :: menu_id
  mi_wifi_configure :: menu_id
  mi_wifi_provision :: menu_id

definition choice :: "(menu_id \<times> 'v) list \<Rightarrow> menu_id \<Rightarrow> 'v option" where
  "choice items i = map_option snd (find (\<lambda>(item, _). item = i) items)"

definition brightness_choice :: "menu_ids \<Rightarrow> menu_id \<Rightarrow> u8 option" where
  "brightness_choice ids i = choice (mi_brightness_items ids) i"
definition dim_choice :: "menu_ids \<Rightarrow> menu_id \<Rightarrow> u16 option" where
  "dim_choice ids i = choice (mi_dim_items ids) i"
definition off_choice :: "menu_ids \<Rightarrow> menu_id \<Rightarrow> u16 option" where
  "off_choice ids i = choice (mi_off_items ids) i"

definition brightness_choices :: "u8 list" where "brightness_choices = [25, 50, 75, 100]"

definition dim_choices :: "(u16 \<times> str) list" where
  "dim_choices = [(10, ascii ''10 s''), (30, ascii ''30 s''), (60, ascii ''1 min''), (180, ascii ''3 min''), (0, ascii ''Never'')]"

definition off_choices :: "(u16 \<times> str) list" where
  "off_choices = [(30, ascii ''30 s''), (90, ascii ''90 s''), (300, ascii ''5 min''), (600, ascii ''10 min''), (0, ascii ''Never'')]"

text \<open>
  The identifiers: the items are created in the order of the source, the \<open>k\<close>-th gets \<open>new_id k\<close>.
\<close>

definition menu_ids_of :: "(nat \<Rightarrow> menu_id) \<Rightarrow> menu_ids" where
  "menu_ids_of new_id = \<lparr>mi_exit = new_id 24, mi_autostart = new_id 18,
     mi_sens_1 = new_id 1, mi_sens_2 = new_id 2, mi_sens_5 = new_id 3,
     mi_brightness_items = zip (map new_id [4..<8]) brightness_choices,
     mi_dim_items = zip (map new_id [8..<13]) (map fst dim_choices),
     mi_off_items = zip (map new_id [13..<18]) (map fst off_choices),
     mi_conn_usb = new_id 19, mi_conn_wifi = new_id 20, mi_conn_auto = new_id 21,
     mi_wifi_configure = new_id 22, mi_wifi_provision = new_id 23\<rparr>"

definition build_menu :: "(nat \<Rightarrow> menu_id) \<Rightarrow> config \<Rightarrow> menu_entry list \<times> menu_ids" where
  "build_menu new_id cfg =
     (let ids = menu_ids_of new_id; pct = cf_sensitivity_pct cfg; cm = cf_connection_mode cfg
      in ([Item (new_id 0) (ascii ''Rusty ESP Knob'') False,
           Separator,
           Sub (ascii ''Sensitivity'')
             [Check (mi_sens_1 ids) (ascii ''1%'') (pct = 1), Check (mi_sens_2 ids) (ascii ''2%'') (pct = 2),
              Check (mi_sens_5 ids) (ascii ''5%'') (pct = 5)],
           Sub (ascii ''Brightness'')
             (map (\<lambda>(i, p). Check i (show_dec (unat p) @ ascii ''%'') (cf_backlight_pct cfg = p)) (mi_brightness_items ids)),
           Sub (ascii ''Dim after'')
             (map2 (\<lambda>(i, s) (_, lbl). Check i lbl (cf_dim_after_secs cfg = s)) (mi_dim_items ids) dim_choices),
           Sub (ascii ''Off after dim'')
             (map2 (\<lambda>(i, s) (_, lbl). Check i lbl (cf_off_after_secs cfg = s)) (mi_off_items ids) off_choices),
           Check (mi_autostart ids) (ascii ''Auto-start on login'') (cf_autostart cfg),
           Sub (ascii ''WiFi / Connection'')
             [Check (mi_conn_usb ids) (ascii ''USB (serial)'') (cm = ascii ''usb''),
              Check (mi_conn_wifi ids) (ascii ''WiFi (TCP)'') (cm = ascii ''wifi''),
              Check (mi_conn_auto ids) (ascii ''Auto'') (cm = ascii ''auto''),
              Separator,
              Item (mi_wifi_provision ids) (ascii ''Provision WiFi via USB...'') True,
              Item (mi_wifi_configure ids) (ascii ''Edit Config File...'') True],
           Separator,
           Item (mi_exit ids) (ascii ''Exit'') True], ids))"

text \<open>The marks a menu is built with, by identifier.\<close>

fun entry_marks :: "menu_entry \<Rightarrow> (menu_id \<times> bool) list" where
  "entry_marks (Check i _ b) = [(i, b)]"
| "entry_marks (Sub _ es) = concat (map entry_marks es)"
| "entry_marks _ = []"

definition menu_marks :: "menu_entry list \<Rightarrow> menu_id \<rightharpoonup> bool" where
  "menu_marks es = map_of (concat (map entry_marks es))"

section \<open>The state of the tray\<close>

datatype tooltip = TipConnected str | TipDisconnected | TipError problem | TipRestart
datatype tray_call = Autostart bool | SetTooltip tooltip | OpenConfigFile | ProvisionDialog

record tray =
  tr_cfg :: config
  tr_marks :: "menu_id \<rightharpoonup> bool"
  tr_sensitivity :: u8
  tr_backlight :: backlight_shared
  tr_stop :: bool
  tr_disk :: disk
  tr_calls :: "tray_call list"

definition set_checked :: "menu_id \<Rightarrow> bool \<Rightarrow> tray \<Rightarrow> tray" where
  "set_checked i b t = t\<lparr>tr_marks := (tr_marks t)(i \<mapsto> b)\<rparr>"

definition check_all :: "(menu_id \<times> 'v) list \<Rightarrow> 'v \<Rightarrow> tray \<Rightarrow> tray" where
  "check_all items v t = fold (\<lambda>(item, val). set_checked item (val = v)) items t"

definition tray_save :: "toml_lib \<Rightarrow> tray \<Rightarrow> tray" where
  "tray_save T t = t\<lparr>tr_disk := save_config T (tr_cfg t) (tr_disk t)\<rparr>"

definition tray_tells :: "tray_call \<Rightarrow> tray \<Rightarrow> tray" where
  "tray_tells c t = t\<lparr>tr_calls := tr_calls t @ [c]\<rparr>"

section \<open>The setters\<close>

definition set_sensitivity :: "toml_lib \<Rightarrow> menu_ids \<Rightarrow> u8 \<Rightarrow> tray \<Rightarrow> tray" where
  "set_sensitivity T ids pct t =
     (let t = t\<lparr>tr_cfg := (tr_cfg t)\<lparr>cf_sensitivity_pct := pct\<rparr>, tr_sensitivity := pct\<rparr>;
          t = set_checked (mi_sens_1 ids) (pct = 1) t;
          t = set_checked (mi_sens_2 ids) (pct = 2) t;
          t = set_checked (mi_sens_5 ids) (pct = 5) t
      in tray_save T t)"

definition set_brightness :: "toml_lib \<Rightarrow> menu_ids \<Rightarrow> u8 \<Rightarrow> tray \<Rightarrow> tray" where
  "set_brightness T ids pct t =
     (let t = t\<lparr>tr_cfg := (tr_cfg t)\<lparr>cf_backlight_pct := pct\<rparr>\<rparr>;
          t = t\<lparr>tr_backlight := (tr_backlight t)\<lparr>bs_pct := pct\<rparr>\<rparr>;
          t = t\<lparr>tr_backlight := (tr_backlight t)\<lparr>bs_dirty := True\<rparr>\<rparr>
      in tray_save T (check_all (mi_brightness_items ids) pct t))"

definition set_dim_after :: "toml_lib \<Rightarrow> menu_ids \<Rightarrow> u16 \<Rightarrow> tray \<Rightarrow> tray" where
  "set_dim_after T ids after t =
     (let t = t\<lparr>tr_cfg := (tr_cfg t)\<lparr>cf_dim_after_secs := after\<rparr>\<rparr>;
          t = t\<lparr>tr_backlight := (tr_backlight t)\<lparr>bs_dim_after_secs := after\<rparr>\<rparr>;
          t = t\<lparr>tr_backlight := (tr_backlight t)\<lparr>bs_dirty := True\<rparr>\<rparr>
      in tray_save T (check_all (mi_dim_items ids) after t))"

definition set_off_after :: "toml_lib \<Rightarrow> menu_ids \<Rightarrow> u16 \<Rightarrow> tray \<Rightarrow> tray" where
  "set_off_after T ids after t =
     (let t = t\<lparr>tr_cfg := (tr_cfg t)\<lparr>cf_off_after_secs := after\<rparr>\<rparr>;
          t = t\<lparr>tr_backlight := (tr_backlight t)\<lparr>bs_off_after_secs := after\<rparr>\<rparr>;
          t = t\<lparr>tr_backlight := (tr_backlight t)\<lparr>bs_dirty := True\<rparr>\<rparr>
      in tray_save T (check_all (mi_off_items ids) after t))"

definition set_connection_mode :: "toml_lib \<Rightarrow> menu_ids \<Rightarrow> str \<Rightarrow> tray \<Rightarrow> tray" where
  "set_connection_mode T ids mode t =
     (let t = t\<lparr>tr_cfg := (tr_cfg t)\<lparr>cf_connection_mode := mode\<rparr>\<rparr>;
          t = set_checked (mi_conn_usb ids) (mode = ascii ''usb'') t;
          t = set_checked (mi_conn_wifi ids) (mode = ascii ''wifi'') t;
          t = set_checked (mi_conn_auto ids) (mode = ascii ''auto'') t;
          ondisk = (load_config T (tr_disk t))\<lparr>cf_connection_mode := mode\<rparr>;
          t = t\<lparr>tr_disk := save_config T ondisk (tr_disk t)\<rparr>
      in t\<lparr>tr_cfg := (tr_cfg t)\<lparr>cf_wifi_device_ip := cf_wifi_device_ip ondisk\<rparr>\<rparr>)"

section \<open>The event loop\<close>

text \<open>One click; the flag is false when the loop is left.\<close>

definition tray_click :: "toml_lib \<Rightarrow> menu_ids \<Rightarrow> menu_id \<Rightarrow> tray \<Rightarrow> tray \<times> bool" where
  "tray_click T ids i t =
     (if i = mi_exit ids then (t\<lparr>tr_stop := True\<rparr>, False)
      else (if i = mi_autostart ids then
              let t = t\<lparr>tr_cfg := (tr_cfg t)\<lparr>cf_autostart := \<not> cf_autostart (tr_cfg t)\<rparr>\<rparr>;
                  t = set_checked (mi_autostart ids) (cf_autostart (tr_cfg t)) t
              in tray_save T (tray_tells (Autostart (cf_autostart (tr_cfg t))) t)
            else if i = mi_sens_1 ids then set_sensitivity T ids 1 t
            else if i = mi_sens_2 ids then set_sensitivity T ids 2 t
            else if i = mi_sens_5 ids then set_sensitivity T ids 5 t
            else (case brightness_choice ids i of
              Some pct \<Rightarrow> set_brightness T ids pct t
            | None \<Rightarrow> (case dim_choice ids i of
                Some after \<Rightarrow> set_dim_after T ids after t
              | None \<Rightarrow> (case off_choice ids i of
                  Some after \<Rightarrow> set_off_after T ids after t
                | None \<Rightarrow>
                    if i = mi_conn_usb ids then tray_tells (SetTooltip TipRestart) (set_connection_mode T ids (ascii ''usb'') t)
                    else if i = mi_conn_wifi ids then tray_tells (SetTooltip TipRestart) (set_connection_mode T ids (ascii ''wifi'') t)
                    else if i = mi_conn_auto ids then tray_tells (SetTooltip TipRestart) (set_connection_mode T ids (ascii ''auto'') t)
                    else if i = mi_wifi_configure ids then tray_tells OpenConfigFile t
                    else if i = mi_wifi_provision ids then tray_tells ProvisionDialog t
                    else t))), True))"

fun status_tip :: "worker_status \<Rightarrow> tooltip" where
  "status_tip (StConnected p) = TipConnected p"
| "status_tip StDisconnected = TipDisconnected"
| "status_tip (StError e) = TipError e"

text \<open>
  What one pass of the loop observes: a status, a click with the mark the library has given the
  clicked item, if it has one, and what the worker has done to the file since the last pass (it
  writes it when a provisioning request is answered).
\<close>

record tray_obs =
  to_status :: "worker_status option"
  to_click :: "(menu_id \<times> bool) option"
  to_worker :: "disk \<Rightarrow> disk"

definition library_mark :: "menu_id \<Rightarrow> bool \<Rightarrow> tray \<Rightarrow> tray" where
  "library_mark i b t = (if tr_marks t i = None then t else t\<lparr>tr_marks := (tr_marks t)(i \<mapsto> b)\<rparr>)"

definition tray_pass :: "toml_lib \<Rightarrow> menu_ids \<Rightarrow> tray_obs \<Rightarrow> tray \<Rightarrow> tray \<times> bool" where
  "tray_pass T ids ob t =
     (let t = t\<lparr>tr_disk := to_worker ob (tr_disk t)\<rparr>;
          t = (case to_status ob of Some st \<Rightarrow> tray_tells (SetTooltip (status_tip st)) t | None \<Rightarrow> t)
      in case to_click ob of
           Some (i, b) \<Rightarrow> tray_click T ids i (library_mark i b t)
         | None \<Rightarrow> (t, True))"

fun tray_loop :: "toml_lib \<Rightarrow> menu_ids \<Rightarrow> tray_obs list \<Rightarrow> tray \<Rightarrow> tray \<times> bool" where
  "tray_loop T ids [] t = (t, True)"
| "tray_loop T ids (ob # obs) t =
     (case tray_pass T ids ob t of
        (t, True) \<Rightarrow> tray_loop T ids obs t
      | (t, False) \<Rightarrow> (t, False))"

section \<open>The start\<close>

datatype worker_mode = RunWifi str u16 | RunUsb str

definition worker_mode_of :: "str \<Rightarrow> config \<Rightarrow> worker_mode" where
  "worker_mode_of port_name cfg =
     (if cf_connection_mode cfg = ascii ''wifi'' \<and> cf_wifi_device_ip cfg \<noteq> []
      then RunWifi (cf_wifi_device_ip cfg) (cf_wifi_port cfg)
      else RunUsb port_name)"

definition tray_boot :: "(nat \<Rightarrow> menu_id) \<Rightarrow> str \<Rightarrow> config \<Rightarrow> disk \<Rightarrow> tray \<times> menu_ids \<times> worker_mode" where
  "tray_boot new_id port_name cfg d =
     (case build_menu new_id cfg of (menu, ids) \<Rightarrow>
        (\<lparr>tr_cfg = cfg, tr_marks = menu_marks menu, tr_sensitivity = cf_sensitivity_pct cfg,
          tr_backlight = backlight_shared_new (cf_backlight_pct cfg) (cf_dim_after_secs cfg) (cf_off_after_secs cfg),
          tr_stop = False, tr_disk = d, tr_calls = []\<rparr>,
         ids, worker_mode_of port_name cfg))"

section \<open>The icon\<close>

text \<open>\<open>make_icon\<close>: \<open>sqrtf\<close> is \<open>f32::sqrt\<close>; the buffer is written pixel by pixel.\<close>

definition icon_pixel :: "(f32 \<Rightarrow> f32) \<Rightarrow> nat \<Rightarrow> nat \<Rightarrow> u8 list" where
  "icon_pixel sqrtf y x =
     (let dx = f32_sub (of_nat x) (31 / 2); dy = f32_sub (of_nat y) (31 / 2);
          dist = sqrtf (f32_add (f32_mul dx dx) (f32_mul dy dy))
      in if dist > 14 then [0, 0, 0, 0]
         else if dist \<ge> 23 / 2 then [0xB7, 0x41, 0x0E, 0xFF]
         else if (x = 15 \<or> x = 16) \<and> dy < - 2 \<and> dist < f32_sub (23 / 2) 1 then [0xFF, 0xFF, 0xFF, 0xFF]
         else [0x40, 0x18, 0x08, 0xFF])"

definition make_icon :: "(f32 \<Rightarrow> f32) \<Rightarrow> u8 list" where
  "make_icon sqrtf = concat (map (\<lambda>y. concat (map (icon_pixel sqrtf y) [0..<32])) [0..<32])"

end
