(* ===== verification/Tray_Promises.thy ===== *)
theory Tray_Promises
  imports Tray
begin

text \<open>
  What the tray promises: the check marks, the values shared with the worker and the live
  configuration agree after any clicks, and what a click leaves in the file.
\<close>

section \<open>Groups of check marks\<close>

definition group_ok :: "(menu_id \<times> 'v) list \<Rightarrow> 'v \<Rightarrow> (menu_id \<rightharpoonup> bool) \<Rightarrow> bool" where
  "group_ok items v m \<longleftrightarrow> list_all (\<lambda>(i, x). m i = Some (x = v)) items"

definition marked :: "(menu_id \<times> 'v) list \<Rightarrow> 'v \<Rightarrow> (menu_id \<rightharpoonup> bool) \<Rightarrow> (menu_id \<rightharpoonup> bool)" where
  "marked items v m = fold (\<lambda>(i, x) m. m(i \<mapsto> (x = v))) items m"

lemma marked_simps [simp]:
  "marked [] v m = m" "marked ((i, x) # items) v m = marked items v (m(i \<mapsto> (x = v)))"
  by (simp_all add: marked_def)

lemma check_all_marks: "check_all items v t = t\<lparr>tr_marks := marked items v (tr_marks t)\<rparr>"
  by (induction items arbitrary: t) (auto simp: check_all_def set_checked_def)

lemma marked_other: "j \<notin> fst ` set items \<Longrightarrow> marked items v m j = m j"
  by (induction items arbitrary: m) auto

lemma dom_marked [simp]: "dom (marked items v m) = dom m \<union> fst ` set items"
proof (induction items arbitrary: m)
  case (Cons p items)
  then show ?case by (cases p) (simp del: fun_upd_apply)
qed simp

lemma group_marked: "distinct (map fst items) \<Longrightarrow> group_ok items v (marked items v m)"
proof (induction items arbitrary: m)
  case (Cons p items)
  then show ?case by (cases p) (auto simp: group_ok_def marked_other)
qed (simp add: group_ok_def)

lemma group_cong: "(\<And>i. i \<in> fst ` set items \<Longrightarrow> m i = m' i) \<Longrightarrow> group_ok items v m = group_ok items v m'"
  by (force simp: group_ok_def list_all_iff)

lemma group_marked_other: "fst ` set items \<inter> fst ` set others = {} \<Longrightarrow> group_ok items v (marked others x m) = group_ok items v m"
  by (rule group_cong) (auto intro: marked_other)

lemma group_upd_other: "i \<notin> fst ` set items \<Longrightarrow> group_ok items v (m(i := b)) = group_ok items v m"
  by (rule group_cong) auto

section \<open>The groups of the menu\<close>

definition sens_items :: "menu_ids \<Rightarrow> (menu_id \<times> u8) list" where
  "sens_items ids = [(mi_sens_1 ids, 1), (mi_sens_2 ids, 2), (mi_sens_5 ids, 5)]"

definition conn_items :: "menu_ids \<Rightarrow> (menu_id \<times> str) list" where
  "conn_items ids = [(mi_conn_usb ids, ascii ''usb''), (mi_conn_wifi ids, ascii ''wifi''), (mi_conn_auto ids, ascii ''auto'')]"

definition auto_items :: "menu_ids \<Rightarrow> (menu_id \<times> bool) list" where
  "auto_items ids = [(mi_autostart ids, True)]"

definition check_ids :: "menu_ids \<Rightarrow> menu_id list" where
  "check_ids ids = map fst (sens_items ids) @ map fst (mi_brightness_items ids) @ map fst (mi_dim_items ids) @
     map fst (mi_off_items ids) @ map fst (auto_items ids) @ map fst (conn_items ids)"

definition ids_ok :: "menu_ids \<Rightarrow> bool" where
  "ids_ok ids \<longleftrightarrow> distinct (check_ids ids @ [mi_exit ids, mi_wifi_configure ids, mi_wifi_provision ids])"

lemma menu_ids_ok:
  assumes "inj new_id"
  shows "ids_ok (menu_ids_of new_id)"
proof -
  have "check_ids (menu_ids_of new_id) @ [new_id 24, new_id 22, new_id 23] =
      map new_id ([1, 2, 3] @ [4..<8] @ [8..<13] @ [13..<18] @ [18, 19, 20, 21, 24, 22, 23])"
    by (simp add: check_ids_def menu_ids_of_def sens_items_def conn_items_def auto_items_def brightness_choices_def
        dim_choices_def off_choices_def upt_rec)
  moreover have "distinct (map new_id ([1, 2, 3] @ [4..<8] @ [8..<13] @ [13..<18] @ [18, 19, 20, 21, 24, 22, 23]))"
    unfolding distinct_map by (rule conjI [OF _ inj_on_subset [OF assms subset_UNIV]]) simp
  moreover have "mi_exit (menu_ids_of new_id) = new_id 24" "mi_wifi_configure (menu_ids_of new_id) = new_id 22"
    "mi_wifi_provision (menu_ids_of new_id) = new_id 23" by (simp_all add: menu_ids_of_def)
  ultimately show ?thesis by (simp only: ids_ok_def)
qed

section \<open>The invariant\<close>

definition tray_ok :: "menu_ids \<Rightarrow> tray \<Rightarrow> bool" where
  "tray_ok ids t \<longleftrightarrow>
     (let c = tr_cfg t; m = tr_marks t in
      group_ok (sens_items ids) (cf_sensitivity_pct c) m \<and> group_ok (mi_brightness_items ids) (cf_backlight_pct c) m \<and>
      group_ok (mi_dim_items ids) (cf_dim_after_secs c) m \<and> group_ok (mi_off_items ids) (cf_off_after_secs c) m \<and>
      group_ok (auto_items ids) (cf_autostart c) m \<and> group_ok (conn_items ids) (cf_connection_mode c) m \<and>
      dom m = set (check_ids ids) \<and> tr_sensitivity t = cf_sensitivity_pct c \<and>
      bs_pct (tr_backlight t) = cf_backlight_pct c \<and> bs_dim_after_secs (tr_backlight t) = cf_dim_after_secs c \<and>
      bs_off_after_secs (tr_backlight t) = cf_off_after_secs c)"

lemma set_sensitivity_marks:
  "set_sensitivity T ids pct t = tray_save T (t\<lparr>tr_cfg := (tr_cfg t)\<lparr>cf_sensitivity_pct := pct\<rparr>, tr_sensitivity := pct,
     tr_marks := marked (sens_items ids) pct (tr_marks t)\<rparr>)"
  by (simp add: set_sensitivity_def Let_def set_checked_def sens_items_def)

lemma set_brightness_marks:
  "set_brightness T ids pct t = tray_save T (t\<lparr>tr_cfg := (tr_cfg t)\<lparr>cf_backlight_pct := pct\<rparr>,
     tr_backlight := (tr_backlight t)\<lparr>bs_pct := pct, bs_dirty := True\<rparr>, tr_marks := marked (mi_brightness_items ids) pct (tr_marks t)\<rparr>)"
  by (simp add: set_brightness_def Let_def check_all_marks)

lemma set_dim_after_marks:
  "set_dim_after T ids s t = tray_save T (t\<lparr>tr_cfg := (tr_cfg t)\<lparr>cf_dim_after_secs := s\<rparr>,
     tr_backlight := (tr_backlight t)\<lparr>bs_dim_after_secs := s, bs_dirty := True\<rparr>, tr_marks := marked (mi_dim_items ids) s (tr_marks t)\<rparr>)"
  by (simp add: set_dim_after_def Let_def check_all_marks)

lemma set_off_after_marks:
  "set_off_after T ids s t = tray_save T (t\<lparr>tr_cfg := (tr_cfg t)\<lparr>cf_off_after_secs := s\<rparr>,
     tr_backlight := (tr_backlight t)\<lparr>bs_off_after_secs := s, bs_dirty := True\<rparr>, tr_marks := marked (mi_off_items ids) s (tr_marks t)\<rparr>)"
  by (simp add: set_off_after_def Let_def check_all_marks)

lemma set_connection_mode_marks:
  "set_connection_mode T ids mode t =
     (let ondisk = (load_config T (tr_disk t))\<lparr>cf_connection_mode := mode\<rparr> in
      t\<lparr>tr_cfg := (tr_cfg t)\<lparr>cf_connection_mode := mode, cf_wifi_device_ip := cf_wifi_device_ip ondisk\<rparr>,
        tr_marks := marked (conn_items ids) mode (tr_marks t), tr_disk := save_config T ondisk (tr_disk t)\<rparr>)"
  by (simp add: set_connection_mode_def Let_def set_checked_def conn_items_def eq_commute [of "ascii x" mode for x])

lemmas setters_marks = set_sensitivity_marks set_brightness_marks set_dim_after_marks set_off_after_marks
  set_connection_mode_marks tray_save_def tray_tells_def Let_def

lemma choice_Some: "choice items i = Some v \<Longrightarrow> (i, v) \<in> set items"
  by (auto simp: choice_def find_Some_iff in_set_conv_nth)

lemma choice_None: "choice items i = None \<longleftrightarrow> i \<notin> fst ` set items"
  by (force simp: choice_def find_None_iff)


section \<open>The clicks keep it\<close>

lemma group_distinct:
  assumes "ids_ok ids"
  shows "distinct (map fst (sens_items ids))" "distinct (map fst (mi_brightness_items ids))" "distinct (map fst (mi_dim_items ids))"
    "distinct (map fst (mi_off_items ids))" "distinct (map fst (auto_items ids))" "distinct (map fst (conn_items ids))"
  using assms by (simp_all add: ids_ok_def check_ids_def)

lemma distinct_parts:
  assumes "distinct ((a @ b @ c @ d @ e @ f) @ g)"
  shows "set a \<inter> set b = {}" "set a \<inter> set c = {}" "set a \<inter> set d = {}" "set a \<inter> set e = {}" "set a \<inter> set f = {}"
    "set b \<inter> set a = {}" "set b \<inter> set c = {}" "set b \<inter> set d = {}" "set b \<inter> set e = {}" "set b \<inter> set f = {}"
    "set c \<inter> set a = {}" "set c \<inter> set b = {}" "set c \<inter> set d = {}" "set c \<inter> set e = {}" "set c \<inter> set f = {}"
    "set d \<inter> set a = {}" "set d \<inter> set b = {}" "set d \<inter> set c = {}" "set d \<inter> set e = {}" "set d \<inter> set f = {}"
    "set e \<inter> set a = {}" "set e \<inter> set b = {}" "set e \<inter> set c = {}" "set e \<inter> set d = {}" "set e \<inter> set f = {}"
    "set f \<inter> set a = {}" "set f \<inter> set b = {}" "set f \<inter> set c = {}" "set f \<inter> set d = {}" "set f \<inter> set e = {}"
  using assms by auto

lemma group_disjoint:
  assumes "ids_ok ids"
  shows "fst ` set (sens_items ids) \<inter> fst ` set (mi_brightness_items ids) = {}" "fst ` set (sens_items ids) \<inter> fst ` set (mi_dim_items ids) = {}"
    "fst ` set (sens_items ids) \<inter> fst ` set (mi_off_items ids) = {}" "fst ` set (sens_items ids) \<inter> fst ` set (auto_items ids) = {}"
    "fst ` set (sens_items ids) \<inter> fst ` set (conn_items ids) = {}" "fst ` set (mi_brightness_items ids) \<inter> fst ` set (sens_items ids) = {}"
    "fst ` set (mi_brightness_items ids) \<inter> fst ` set (mi_dim_items ids) = {}" "fst ` set (mi_brightness_items ids) \<inter> fst ` set (mi_off_items ids) = {}"
    "fst ` set (mi_brightness_items ids) \<inter> fst ` set (auto_items ids) = {}" "fst ` set (mi_brightness_items ids) \<inter> fst ` set (conn_items ids) = {}"
    "fst ` set (mi_dim_items ids) \<inter> fst ` set (sens_items ids) = {}" "fst ` set (mi_dim_items ids) \<inter> fst ` set (mi_brightness_items ids) = {}"
    "fst ` set (mi_dim_items ids) \<inter> fst ` set (mi_off_items ids) = {}" "fst ` set (mi_dim_items ids) \<inter> fst ` set (auto_items ids) = {}"
    "fst ` set (mi_dim_items ids) \<inter> fst ` set (conn_items ids) = {}" "fst ` set (mi_off_items ids) \<inter> fst ` set (sens_items ids) = {}"
    "fst ` set (mi_off_items ids) \<inter> fst ` set (mi_brightness_items ids) = {}" "fst ` set (mi_off_items ids) \<inter> fst ` set (mi_dim_items ids) = {}"
    "fst ` set (mi_off_items ids) \<inter> fst ` set (auto_items ids) = {}" "fst ` set (mi_off_items ids) \<inter> fst ` set (conn_items ids) = {}"
    "fst ` set (auto_items ids) \<inter> fst ` set (sens_items ids) = {}" "fst ` set (auto_items ids) \<inter> fst ` set (mi_brightness_items ids) = {}"
    "fst ` set (auto_items ids) \<inter> fst ` set (mi_dim_items ids) = {}" "fst ` set (auto_items ids) \<inter> fst ` set (mi_off_items ids) = {}"
    "fst ` set (auto_items ids) \<inter> fst ` set (conn_items ids) = {}" "fst ` set (conn_items ids) \<inter> fst ` set (sens_items ids) = {}"
    "fst ` set (conn_items ids) \<inter> fst ` set (mi_brightness_items ids) = {}" "fst ` set (conn_items ids) \<inter> fst ` set (mi_dim_items ids) = {}"
    "fst ` set (conn_items ids) \<inter> fst ` set (mi_off_items ids) = {}" "fst ` set (conn_items ids) \<inter> fst ` set (auto_items ids) = {}"
  using distinct_parts [OF assms [unfolded ids_ok_def check_ids_def]] by (simp_all only: set_map)

lemma marks_known: "tray_ok ids t \<Longrightarrow> tr_marks t i = None \<longleftrightarrow> i \<notin> set (check_ids ids)"
  by (auto simp: tray_ok_def Let_def)

text \<open>The library touches the mark of the clicked item only; the handler then sets its whole group.\<close>

lemma library_mark_marks: "library_mark i b t = t\<lparr>tr_marks := tr_marks (library_mark i b t)\<rparr>"
  by (simp add: library_mark_def)

lemma library_mark_fields [simp]:
  "tr_cfg (library_mark i b t) = tr_cfg t" "tr_sensitivity (library_mark i b t) = tr_sensitivity t"
  "tr_backlight (library_mark i b t) = tr_backlight t" "tr_disk (library_mark i b t) = tr_disk t"
  "tr_stop (library_mark i b t) = tr_stop t" "tr_calls (library_mark i b t) = tr_calls t"
  by (simp_all add: library_mark_def)

lemma dom_library_mark [simp]: "dom (tr_marks (library_mark i b t)) = dom (tr_marks t)"
  by (auto simp: library_mark_def)

lemma group_clicked:
  assumes "group_ok others w (tr_marks t)" "i \<in> fst ` set items" "fst ` set items \<inter> fst ` set others = {}"
  shows "group_ok others w (marked items v (tr_marks (library_mark i b t)))"
proof -
  have "i \<notin> fst ` set others" using assms(2,3) by blast
  then have "group_ok others w (tr_marks (library_mark i b t))"
    using assms(1) group_upd_other [of i others w "tr_marks t" "Some b"] by (simp add: library_mark_def)
  then show ?thesis using group_marked_other [of others items] assms(3) by (simp add: Int_commute)
qed

lemma tray_ok_unclicked: "i \<notin> set (check_ids ids) \<Longrightarrow> tray_ok ids t \<Longrightarrow> library_mark i b t = t"
  using marks_known [of ids t i] by (simp add: library_mark_def)


lemma setter_ok:
  assumes "ids_ok ids" "tray_ok ids t"
  shows "i \<in> fst ` set (sens_items ids) \<Longrightarrow> tray_ok ids (set_sensitivity T ids v (library_mark i b t))"
    and "i \<in> fst ` set (mi_brightness_items ids) \<Longrightarrow> tray_ok ids (set_brightness T ids p (library_mark i b t))"
    and "i \<in> fst ` set (mi_dim_items ids) \<Longrightarrow> tray_ok ids (set_dim_after T ids s (library_mark i b t))"
    and "i \<in> fst ` set (mi_off_items ids) \<Longrightarrow> tray_ok ids (set_off_after T ids s (library_mark i b t))"
    and "i \<in> fst ` set (conn_items ids) \<Longrightarrow> tray_ok ids (set_connection_mode T ids m (library_mark i b t))"
  using assms(2) group_marked [OF group_distinct(1) [OF assms(1)]] group_marked [OF group_distinct(2) [OF assms(1)]]
    group_marked [OF group_distinct(3) [OF assms(1)]] group_marked [OF group_distinct(4) [OF assms(1)]]
    group_marked [OF group_distinct(6) [OF assms(1)]]
  by (simp_all add: setters_marks tray_ok_def group_clicked group_disjoint [OF assms(1)] check_ids_def Un_ac)


lemma autostart_ok:
  assumes "ids_ok ids" "tray_ok ids t"
  shows "tray_ok ids (fst (tray_click T ids (mi_autostart ids) (library_mark (mi_autostart ids) b t)))"
proof -
  have i: "mi_autostart ids \<in> fst ` set (auto_items ids)" "mi_autostart ids \<noteq> mi_exit ids"
    using assms(1) by (auto simp: auto_items_def ids_ok_def check_ids_def)
  define v where "v = (\<not> cf_autostart (tr_cfg t))"
  define m where "m = marked (auto_items ids) v (tr_marks (library_mark (mi_autostart ids) b t))"
  have m: "(tr_marks (library_mark (mi_autostart ids) b t))(mi_autostart ids \<mapsto> v) = m"
    by (simp add: m_def auto_items_def)
  have "group_ok (auto_items ids) v m" unfolding m_def by (rule group_marked [OF group_distinct(5) [OF assms(1)]])
  moreover have "dom m = dom (tr_marks t) \<union> fst ` set (auto_items ids)" by (simp add: m_def)
  moreover have "group_ok items w m" if "group_ok items w (tr_marks t)" "fst ` set (auto_items ids) \<inter> fst ` set items = {}"
    for items :: "(menu_id \<times> 'x) list" and w using group_clicked [OF that(1) i(1) that(2)] by (simp add: m_def)
  moreover have "group_ok items w m" if "group_ok items w (tr_marks t)" "fst ` set (auto_items ids) \<inter> fst ` set items = {}"
    for items :: "(menu_id \<times> u16) list" and w using group_clicked [OF that(1) i(1) that(2)] by (simp add: m_def)
  moreover have "group_ok items w m" if "group_ok items w (tr_marks t)" "fst ` set (auto_items ids) \<inter> fst ` set items = {}"
    for items :: "(menu_id \<times> str) list" and w using group_clicked [OF that(1) i(1) that(2)] by (simp add: m_def)
  moreover have "group_ok items w m" if "group_ok items w (tr_marks t)" "fst ` set (auto_items ids) \<inter> fst ` set items = {}"
    for items :: "(menu_id \<times> u8) list" and w using group_clicked [OF that(1) i(1) that(2)] by (simp add: m_def)
  ultimately have "tray_ok ids (t\<lparr>tr_cfg := (tr_cfg t)\<lparr>cf_autostart := v\<rparr>, tr_marks := m\<rparr>)"
    using assms(2) group_disjoint [OF assms(1)] by (simp add: tray_ok_def Let_def check_ids_def Un_ac)
  then show ?thesis
    using i(2) m by (simp add: tray_click_def Let_def set_checked_def tray_save_def tray_tells_def v_def tray_ok_def)
qed

lemma apart: "A \<inter> B = {} \<Longrightarrow> i \<in> A \<Longrightarrow> i \<notin> B"
  by blast

lemma click_ok:
  assumes "ids_ok ids" "tray_ok ids t"
  shows "tray_ok ids (fst (tray_click T ids i (library_mark i b t)))"
proof (cases "i \<in> set (check_ids ids)")
  case False
  have choices: "brightness_choice ids i = None" "dim_choice ids i = None" "off_choice ids i = None"
    using False by (simp_all add: check_ids_def brightness_choice_def dim_choice_def off_choice_def choice_None)
  have "i \<noteq> mi_autostart ids" "i \<noteq> mi_sens_1 ids" "i \<noteq> mi_sens_2 ids" "i \<noteq> mi_sens_5 ids" "i \<noteq> mi_conn_usb ids"
    "i \<noteq> mi_conn_wifi ids" "i \<noteq> mi_conn_auto ids"
    using False by (auto simp: check_ids_def sens_items_def conn_items_def auto_items_def)
  with choices have "tr_marks (fst (tray_click T ids i t)) = tr_marks t" "tr_cfg (fst (tray_click T ids i t)) = tr_cfg t"
    "tr_sensitivity (fst (tray_click T ids i t)) = tr_sensitivity t" "tr_backlight (fst (tray_click T ids i t)) = tr_backlight t"
    by (simp_all add: tray_click_def tray_tells_def)
  then show ?thesis using assms(2) tray_ok_unclicked [OF False assms(2)] by (simp add: tray_ok_def)
next
  case True
  have ne: "i \<noteq> mi_exit ids" using True assms(1) by (auto simp: ids_ok_def)
  show ?thesis
  proof (cases "i = mi_autostart ids")
    case True
    then show ?thesis using autostart_ok [OF assms] by simp
  next
    case na: False
    consider "i \<in> fst ` set (sens_items ids)" | "i \<in> fst ` set (mi_brightness_items ids)" | "i \<in> fst ` set (mi_dim_items ids)"
      | "i \<in> fst ` set (mi_off_items ids)" | "i \<in> fst ` set (conn_items ids)"
    proof -
      have "i \<in> fst ` set (sens_items ids) \<or> i \<in> fst ` set (mi_brightness_items ids) \<or> i \<in> fst ` set (mi_dim_items ids) \<or>
          i \<in> fst ` set (mi_off_items ids) \<or> i \<in> fst ` set (auto_items ids) \<or> i \<in> fst ` set (conn_items ids)"
        using True by (simp only: check_ids_def set_append set_map Un_iff)
      moreover have "i \<notin> fst ` set (auto_items ids)" using na by (simp add: auto_items_def)
      ultimately show thesis using that by blast
    qed
    then show ?thesis
    proof cases
      case 1
      have s: "tray_ok ids (set_sensitivity T ids v (library_mark i b t))" for v by (rule setter_ok(1) [OF assms 1])
      have "i = mi_sens_1 ids \<or> i = mi_sens_2 ids \<or> i = mi_sens_5 ids" using 1 by (simp add: sens_items_def)
      then show ?thesis using ne na s by (elim disjE) (auto simp: tray_click_def)
    next
      case 2
      then obtain p where "brightness_choice ids i = Some p" using choice_None by (metis brightness_choice_def not_None_eq)
      moreover have "i \<notin> fst ` set (sens_items ids)" by (rule apart [OF group_disjoint(6) [OF assms(1)] 2])
      ultimately show ?thesis using setter_ok(2) [OF assms 2] ne na by (simp add: tray_click_def sens_items_def)
    next
      case 3
      then obtain s where "dim_choice ids i = Some s" using choice_None by (metis dim_choice_def not_None_eq)
      moreover have "i \<notin> fst ` set (sens_items ids)" "i \<notin> fst ` set (mi_brightness_items ids)"
        by (rule apart [OF _ 3], rule group_disjoint [OF assms(1)])+
      ultimately show ?thesis using setter_ok(3) [OF assms 3] ne na
        by (simp add: tray_click_def sens_items_def brightness_choice_def choice_None [THEN iffD2])
    next
      case 4
      then obtain s where "off_choice ids i = Some s" using choice_None by (metis off_choice_def not_None_eq)
      moreover have "i \<notin> fst ` set (sens_items ids)" "i \<notin> fst ` set (mi_brightness_items ids)" "i \<notin> fst ` set (mi_dim_items ids)"
        by (rule apart [OF _ 4], rule group_disjoint [OF assms(1)])+
      ultimately show ?thesis using setter_ok(4) [OF assms 4] ne na
        by (simp add: tray_click_def sens_items_def brightness_choice_def dim_choice_def choice_None [THEN iffD2])
    next
      case 5
      have "i \<notin> fst ` set (sens_items ids)" "i \<notin> fst ` set (mi_brightness_items ids)" "i \<notin> fst ` set (mi_dim_items ids)"
        "i \<notin> fst ` set (mi_off_items ids)"
        by (rule apart [OF _ 5], rule group_disjoint [OF assms(1)])+
      then have none: "brightness_choice ids i = None" "dim_choice ids i = None" "off_choice ids i = None"
        and sens: "i \<noteq> mi_sens_1 ids" "i \<noteq> mi_sens_2 ids" "i \<noteq> mi_sens_5 ids"
        by (simp_all add: brightness_choice_def dim_choice_def off_choice_def choice_None sens_items_def)
      have "i = mi_conn_usb ids \<or> i = mi_conn_wifi ids \<or> i = mi_conn_auto ids" using 5 by (simp add: conn_items_def)
      then have last: "i \<noteq> mi_conn_usb ids \<Longrightarrow> i \<noteq> mi_conn_wifi ids \<Longrightarrow> i = mi_conn_auto ids" by blast
      have "fst (tray_click T ids i u) = tray_tells (SetTooltip TipRestart) (set_connection_mode T ids
          (if i = mi_conn_usb ids then ascii ''usb'' else if i = mi_conn_wifi ids then ascii ''wifi'' else ascii ''auto'') u)" for u
        unfolding tray_click_def none option.case using ne na sens last
        by (cases "i = mi_conn_usb ids"; cases "i = mi_conn_wifi ids") simp_all
      then show ?thesis using setter_ok(5) [OF assms 5] by (simp add: tray_ok_def tray_tells_def)
    qed
  qed
qed

lemma loop_ok: "ids_ok ids \<Longrightarrow> tray_ok ids t \<Longrightarrow> tray_ok ids (fst (tray_loop T ids obs t))"
proof (induction obs arbitrary: t)
  case (Cons ob obs)
  define u where "u = (case to_status ob of Some st \<Rightarrow> tray_tells (SetTooltip (status_tip st)) (t\<lparr>tr_disk := to_worker ob (tr_disk t)\<rparr>)
    | None \<Rightarrow> t\<lparr>tr_disk := to_worker ob (tr_disk t)\<rparr>)"
  have "tray_ok ids u" using Cons.prems(2) by (auto simp: u_def tray_ok_def tray_tells_def split: option.splits)
  then have "tray_ok ids (fst (tray_pass T ids ob t))"
    using click_ok [OF Cons.prems(1)] by (simp add: tray_pass_def u_def [symmetric] split: option.splits)
  then show ?case using Cons.IH [OF Cons.prems(1)] by (auto split: prod.splits bool.splits)
qed simp

text \<open>The menu is built with the marks of the configuration.\<close>

definition group_marks :: "(menu_id \<times> 'v) list \<Rightarrow> 'v \<Rightarrow> (menu_id \<times> bool) list" where
  "group_marks items v = map (\<lambda>(i, x). (i, x = v)) items"

lemma map_fst_group_marks [simp]: "map fst (group_marks items v) = map fst items"
  by (induction items) (auto simp: group_marks_def)

lemma group_from_list:
  assumes "distinct (map fst es)" "set (group_marks items v) \<subseteq> set es"
  shows "group_ok items v (map_of es)"
proof -
  have "map_of es i = Some (x = v)" if "(i, x) \<in> set items" for i x
    using assms that by (intro map_of_is_SomeI) (auto simp: group_marks_def)
  then show ?thesis by (auto simp: group_ok_def list_all_iff)
qed

lemma built_marks:
  "concat (map entry_marks (fst (build_menu new_id cfg))) =
     (let ids = menu_ids_of new_id in
      group_marks (sens_items ids) (cf_sensitivity_pct cfg) @ group_marks (mi_brightness_items ids) (cf_backlight_pct cfg) @
      group_marks (mi_dim_items ids) (cf_dim_after_secs cfg) @ group_marks (mi_off_items ids) (cf_off_after_secs cfg) @
      group_marks (auto_items ids) (cf_autostart cfg) @ group_marks (conn_items ids) (cf_connection_mode cfg))"
proof -
  have "(cf_connection_mode cfg = ascii s) = (ascii s = cf_connection_mode cfg)" for s by (rule eq_commute)
  then show ?thesis
    by (simp add: build_menu_def Let_def menu_ids_of_def brightness_choices_def dim_choices_def off_choices_def upt_rec
        group_marks_def sens_items_def conn_items_def auto_items_def)
qed

lemma tray_boot_ok:
  assumes "inj new_id" "tray_boot new_id port cfg d = (t, ids, mode)"
  shows "tray_ok ids t" "ids_ok ids"
proof -
  have ids: "ids = menu_ids_of new_id" using assms(2) by (simp add: tray_boot_def build_menu_def Let_def)
  show ok: "ids_ok ids" unfolding ids by (rule menu_ids_ok [OF assms(1)])
  define es where "es = concat (map entry_marks (fst (build_menu new_id cfg)))"
  have es: "es = group_marks (sens_items ids) (cf_sensitivity_pct cfg) @ group_marks (mi_brightness_items ids) (cf_backlight_pct cfg) @
      group_marks (mi_dim_items ids) (cf_dim_after_secs cfg) @ group_marks (mi_off_items ids) (cf_off_after_secs cfg) @
      group_marks (auto_items ids) (cf_autostart cfg) @ group_marks (conn_items ids) (cf_connection_mode cfg)"
    unfolding es_def built_marks ids by (simp add: Let_def)
  have fst: "map fst es = check_ids ids" by (simp add: es check_ids_def)
  have d: "distinct (map fst es)" using ok by (simp add: fst ids_ok_def)
  have "dom (map_of es) = set (check_ids ids)" by (metis dom_map_of_conv_image_fst fst image_set)
  moreover have "group_ok (sens_items ids) (cf_sensitivity_pct cfg) (map_of es)"
    "group_ok (mi_brightness_items ids) (cf_backlight_pct cfg) (map_of es)" "group_ok (mi_dim_items ids) (cf_dim_after_secs cfg) (map_of es)"
    "group_ok (mi_off_items ids) (cf_off_after_secs cfg) (map_of es)" "group_ok (auto_items ids) (cf_autostart cfg) (map_of es)"
    "group_ok (conn_items ids) (cf_connection_mode cfg) (map_of es)"
    by (rule group_from_list [OF d]; simp only: es set_append; blast)+
  moreover have "t = \<lparr>tr_cfg = cfg, tr_marks = map_of es, tr_sensitivity = cf_sensitivity_pct cfg,
      tr_backlight = backlight_shared_new (cf_backlight_pct cfg) (cf_dim_after_secs cfg) (cf_off_after_secs cfg),
      tr_stop = False, tr_disk = d, tr_calls = []\<rparr>"
    using assms(2) by (simp add: tray_boot_def split_beta es_def menu_marks_def)
  ultimately show "tray_ok ids t" by (simp add: tray_ok_def Let_def backlight_shared_new_def)
qed


section \<open>What a click leaves in the file\<close>

lemma setters_save:
  assumes "toml_contract T" "disk_healthy (tr_disk t)"
  shows "load_config T (tr_disk (set_sensitivity T ids p t)) = (tr_cfg t)\<lparr>cf_sensitivity_pct := p\<rparr>"
    "load_config T (tr_disk (set_brightness T ids p t)) = (tr_cfg t)\<lparr>cf_backlight_pct := p\<rparr>"
    "load_config T (tr_disk (set_dim_after T ids s t)) = (tr_cfg t)\<lparr>cf_dim_after_secs := s\<rparr>"
    "load_config T (tr_disk (set_off_after T ids s t)) = (tr_cfg t)\<lparr>cf_off_after_secs := s\<rparr>"
    "load_config T (tr_disk (set_connection_mode T ids m t)) = (load_config T (tr_disk t))\<lparr>cf_connection_mode := m\<rparr>"
  using load_save [OF assms] by (simp_all add: setters_marks)

section \<open>Properties\<close>

text \<open>
  C20. The tray shows and shares what it has: after any sequence of clicks, statuses and writes of
  the worker, whatever the library does to the mark of a clicked item, every check mark says
  whether its choice is the live configuration's, and the sensitivity and the three backlight
  values the worker reads are the live configuration's too.
\<close>

theorem tray_agrees:
  assumes "inj new_id" "tray_boot new_id port cfg d = (t, ids, mode)" "tray_loop T ids obs t = (t', on)"
  shows "group_ok (sens_items ids) (cf_sensitivity_pct (tr_cfg t')) (tr_marks t') \<and>
    group_ok (mi_brightness_items ids) (cf_backlight_pct (tr_cfg t')) (tr_marks t') \<and>
    group_ok (mi_dim_items ids) (cf_dim_after_secs (tr_cfg t')) (tr_marks t') \<and>
    group_ok (mi_off_items ids) (cf_off_after_secs (tr_cfg t')) (tr_marks t') \<and>
    group_ok (auto_items ids) (cf_autostart (tr_cfg t')) (tr_marks t') \<and>
    group_ok (conn_items ids) (cf_connection_mode (tr_cfg t')) (tr_marks t') \<and>
    tr_sensitivity t' = cf_sensitivity_pct (tr_cfg t') \<and>
    snapshot (tr_backlight t') = SetBacklight (cf_backlight_pct (tr_cfg t')) (cf_dim_after_secs (tr_cfg t')) (cf_off_after_secs (tr_cfg t'))"
proof -
  have "tray_ok ids t'" using loop_ok [OF tray_boot_ok(2,1) [OF assms(1,2)], of T obs] assms(3) by simp
  then show ?thesis by (simp add: tray_ok_def Let_def snapshot_def)
qed

theorem tray_agrees_witness:
  "\<exists>t t' ids on. tray_boot id (ascii ''COM8'') default_config (lab_disk None) = (t, ids, RunUsb (ascii ''COM8'')) \<and>
     tray_loop ref_toml ids [\<lparr>to_status = None, to_click = Some (5, False), to_worker = id\<rparr>] t = (t', on) \<and>
     group_ok (mi_brightness_items ids) (cf_backlight_pct (tr_cfg t')) (tr_marks t')"
proof -
  obtain t ids mode where b: "tray_boot id (ascii ''COM8'') default_config (lab_disk None) = (t, ids, mode)" using prod_cases3 by blast
  have m: "mode = RunUsb (ascii ''COM8'')" using b by (simp add: tray_boot_def build_menu_def Let_def worker_mode_of_def default_config_def)
  obtain t' on where l: "tray_loop ref_toml ids [\<lparr>to_status = None, to_click = Some (5, False), to_worker = id\<rparr>] t = (t', on)" by fastforce
  from tray_agrees [OF inj_on_id b l] b l m show ?thesis by blast
qed

text \<open>
  C39. The address the device was found at is lost: when the worker has written the address of a
  freshly provisioned device to the file, the next click on a brightness, on a disk that keeps what
  is written, saves the live configuration, with the address the program was started with.  A click
  on a connection mode instead keeps the new address, in the file and in the live configuration.
\<close>

theorem address_overwritten:
  assumes "toml_contract T" "disk_healthy (tr_disk t)" "told = t\<lparr>tr_disk := save_wifi_ip T ip (tr_disk t)\<rparr>"
  shows "cf_wifi_device_ip (load_config T (tr_disk told)) = ip \<and>
    cf_wifi_device_ip (load_config T (tr_disk (set_brightness T ids p told))) = cf_wifi_device_ip (tr_cfg t) \<and>
    load_config T (tr_disk (set_connection_mode T ids m told)) =
      (load_config T (tr_disk t))\<lparr>cf_wifi_device_ip := ip, cf_connection_mode := m\<rparr> \<and>
    cf_wifi_device_ip (tr_cfg (set_connection_mode T ids m told)) = ip"
proof -
  have h: "disk_healthy (tr_disk told)" using assms(2,3) by (simp add: save_wifi_ip_def)
  have l: "load_config T (tr_disk told) = (load_config T (tr_disk t))\<lparr>cf_wifi_device_ip := ip\<rparr>"
    using load_save_wifi_ip [OF assms(1,2)] by (simp add: assms(3))
  show ?thesis
    using setters_save(2,5) [OF assms(1) h] l by (simp add: set_connection_mode_marks Let_def) (simp add: assms(3))
qed

theorem address_overwritten_witness:
  "\<exists>t ids mode. tray_boot id (ascii ''COM8'') default_config (lab_disk None) = (t, ids, mode) \<and>
     cf_wifi_device_ip (load_config ref_toml (tr_disk (set_brightness ref_toml ids 50
       (t\<lparr>tr_disk := save_wifi_ip ref_toml (ascii ''10.0.0.7'') (tr_disk t)\<rparr>)))) = []"
proof -
  obtain t ids mode where b: "tray_boot id (ascii ''COM8'') default_config (lab_disk None) = (t, ids, mode)" using prod_cases3 by blast
  have t: "tr_disk t = lab_disk None" "cf_wifi_device_ip (tr_cfg t) = []"
    using b by (auto simp: tray_boot_def build_menu_def Let_def default_config_def)
  show ?thesis using address_overwritten [OF ref_toml_contract _ refl, of t "ascii ''10.0.0.7''" ids 50] b t by auto
qed

end
