(* ===== verification/Tray_Handoff.thy ===== *)
theory Tray_Handoff
  imports Tray Worker_Session
begin

text \<open>
  The handover of the backlight settings from the tray's thread to the worker's
  (\<open>BacklightShared\<close> of \<open>companion/src/worker.rs\<close>, stored by the setters of
  \<open>companion/src/tray_app.rs\<close> and read in the loop of \<open>run_inner\<close>), over the sessions that \<open>run_wifi\<close>
  starts one after the other.
\<close>

section \<open>The steps\<close>

text \<open>
  The tray stores a value and then the flag; the worker swaps the flag and then loads the three
  values and sends them.  The steps interleave in any order.  (On the atomics of the source the
  flag is stored with release and swapped with acquire, so a swap that sees it sees the values stored
  before it: the loads are not older than in the interleavings.)  \<open>ho_device\<close> is the last settings
  message the device got since it was switched on, \<open>ho_sessions\<close> counts the connections.
\<close>

datatype tray_pc = TrayIdle | TrayStored
datatype worker_pc = WorkerAway | WorkerSetup | WorkerIdle | WorkerSwapped | GotPct u8 | GotDim u8 u16 | GotAll u8 u16 u16

record handoff =
  ho_shared :: backlight_shared
  ho_tray :: tray_pc
  ho_worker :: worker_pc
  ho_device :: "host_to_device option"
  ho_sessions :: nat

text \<open>
  The loop of \<open>run_wifi\<close>: a connection is made and \<open>run_inner\<close> begins; it sends the messages of a session's
  start (\<open>setup_messages\<close>, none of which has the settings) and enters its loop; a read that fails between
  two rounds leaves it, and \<open>run_wifi\<close> is back where it connects.  None of this touches the shared
  values or the flag.
\<close>

inductive reconnect_step :: "handoff \<Rightarrow> handoff \<Rightarrow> bool" where
  connected: "ho_worker s = WorkerAway \<Longrightarrow> reconnect_step s (s\<lparr>ho_worker := WorkerSetup, ho_sessions := ho_sessions s + 1\<rparr>)"
| set_up: "ho_worker s = WorkerSetup \<Longrightarrow> reconnect_step s (s\<lparr>ho_worker := WorkerIdle\<rparr>)"
| dropped: "ho_worker s = WorkerIdle \<Longrightarrow> reconnect_step s (s\<lparr>ho_worker := WorkerAway\<rparr>)"

inductive_cases reconnect_stepE: "reconnect_step s s'"

text \<open>
  With \<open>lossy\<close>, a write may fail (\<open>send\<close> prints the error and goes on), and the device may be switched
  off and on at any time, after which it has its own settings: the case the documentation of
  \<open>run_wifi\<close> gives as the reason for reconnecting.
\<close>

inductive handoff_step :: "bool \<Rightarrow> handoff \<Rightarrow> handoff \<Rightarrow> bool" for lossy where
  store_pct: "ho_tray s = TrayIdle \<Longrightarrow>
    handoff_step lossy s (s\<lparr>ho_shared := (ho_shared s)\<lparr>bs_pct := p\<rparr>, ho_tray := TrayStored\<rparr>)"
| store_dim: "ho_tray s = TrayIdle \<Longrightarrow>
    handoff_step lossy s (s\<lparr>ho_shared := (ho_shared s)\<lparr>bs_dim_after_secs := v\<rparr>, ho_tray := TrayStored\<rparr>)"
| store_off: "ho_tray s = TrayIdle \<Longrightarrow>
    handoff_step lossy s (s\<lparr>ho_shared := (ho_shared s)\<lparr>bs_off_after_secs := v\<rparr>, ho_tray := TrayStored\<rparr>)"
| store_flag: "ho_tray s = TrayStored \<Longrightarrow>
    handoff_step lossy s (s\<lparr>ho_shared := (ho_shared s)\<lparr>bs_dirty := True\<rparr>, ho_tray := TrayIdle\<rparr>)"
| swap_flag: "ho_worker s = WorkerIdle \<Longrightarrow> bs_dirty (ho_shared s) \<Longrightarrow>
    handoff_step lossy s (s\<lparr>ho_shared := (ho_shared s)\<lparr>bs_dirty := False\<rparr>, ho_worker := WorkerSwapped\<rparr>)"
| load_pct: "ho_worker s = WorkerSwapped \<Longrightarrow>
    handoff_step lossy s (s\<lparr>ho_worker := GotPct (bs_pct (ho_shared s))\<rparr>)"
| load_dim: "ho_worker s = GotPct p \<Longrightarrow>
    handoff_step lossy s (s\<lparr>ho_worker := GotDim p (bs_dim_after_secs (ho_shared s))\<rparr>)"
| load_off: "ho_worker s = GotDim p v \<Longrightarrow>
    handoff_step lossy s (s\<lparr>ho_worker := GotAll p v (bs_off_after_secs (ho_shared s))\<rparr>)"
| send_all: "ho_worker s = GotAll p v u \<Longrightarrow>
    handoff_step lossy s (s\<lparr>ho_worker := WorkerIdle, ho_device := Some (SetBacklight p v u)\<rparr>)"
| reconnect: "reconnect_step s s' \<Longrightarrow> handoff_step lossy s s'"
| send_fails: "lossy \<Longrightarrow> ho_worker s = GotAll p v u \<Longrightarrow> handoff_step lossy s (s\<lparr>ho_worker := WorkerIdle\<rparr>)"
| power_cycle: "lossy \<Longrightarrow> handoff_step lossy s (s\<lparr>ho_device := None\<rparr>)"

inductive_cases handoff_stepE: "handoff_step lossy s s'"

definition handoff_start :: "config \<Rightarrow> handoff" where
  "handoff_start cfg = \<lparr>ho_shared = backlight_shared_new (cf_backlight_pct cfg) (cf_dim_after_secs cfg) (cf_off_after_secs cfg),
     ho_tray = TrayIdle, ho_worker = WorkerAway, ho_device = None, ho_sessions = 0\<rparr>"

definition handoff_reach :: "bool \<Rightarrow> config \<Rightarrow> handoff \<Rightarrow> bool" where
  "handoff_reach lossy cfg = (handoff_step lossy)\<^sup>*\<^sup>* (handoff_start cfg)"

text \<open>A value the worker has not picked up yet is announced, or about to be.\<close>

definition announced :: "handoff \<Rightarrow> bool" where
  "announced s \<longleftrightarrow> bs_dirty (ho_shared s) \<or> ho_tray s = TrayStored"

definition handoff_inv :: "handoff \<Rightarrow> bool" where
  "handoff_inv s \<longleftrightarrow> announced s \<or> (case ho_worker s of
     WorkerAway \<Rightarrow> ho_device s = Some (snapshot (ho_shared s))
   | WorkerSetup \<Rightarrow> ho_device s = Some (snapshot (ho_shared s))
   | WorkerIdle \<Rightarrow> ho_device s = Some (snapshot (ho_shared s))
   | WorkerSwapped \<Rightarrow> True
   | GotPct p \<Rightarrow> p = bs_pct (ho_shared s)
   | GotDim p v \<Rightarrow> p = bs_pct (ho_shared s) \<and> v = bs_dim_after_secs (ho_shared s)
   | GotAll p v u \<Rightarrow> SetBacklight p v u = snapshot (ho_shared s))"

lemma handoff_inv_step: "handoff_step False s s' \<Longrightarrow> handoff_inv s \<Longrightarrow> handoff_inv s'"
  by (erule handoff_stepE) (auto simp: handoff_inv_def announced_def snapshot_def elim!: reconnect_stepE)

lemma handoff_inv_reach: "handoff_reach False cfg s \<Longrightarrow> handoff_inv s"
  unfolding handoff_reach_def
proof (induction rule: rtranclp_induct)
  case base
  then show ?case by (simp add: handoff_inv_def announced_def handoff_start_def backlight_shared_new_def)
next
  case (step s s')
  then show ?case using handoff_inv_step by blast
qed

text \<open>Left alone, the worker finishes: it connects if it has to, and then at most a swap, three loads and a send.\<close>

definition settles :: "handoff \<Rightarrow> bool" where
  "settles s \<longleftrightarrow> (\<exists>s'. (handoff_step False)\<^sup>*\<^sup>* s s' \<and> ho_shared s' = (ho_shared s)\<lparr>bs_dirty := False\<rparr> \<and> ho_tray s' = TrayIdle \<and>
     ho_worker s' = WorkerIdle \<and> ho_device s' = Some (snapshot (ho_shared s)))"

lemma settles_from:
  assumes "handoff_step False s s1" "settles s1" "ho_shared s1 = (ho_shared s)\<lparr>bs_dirty := bs_dirty (ho_shared s1)\<rparr>"
  shows "settles s"
proof -
  have "(ho_shared s1)\<lparr>bs_dirty := False\<rparr> = (ho_shared s)\<lparr>bs_dirty := False\<rparr>" "snapshot (ho_shared s1) = snapshot (ho_shared s)"
    using arg_cong [OF assms(3), of "\<lambda>b. b\<lparr>bs_dirty := False\<rparr>"] arg_cong [OF assms(3), of snapshot] by (simp_all add: snapshot_def)
  then show ?thesis using assms(1,2) unfolding settles_def by (metis converse_rtranclp_into_rtranclp)
qed


lemma settles_swapped:
  assumes "ho_worker s = WorkerSwapped" "ho_tray s = TrayIdle" "\<not> bs_dirty (ho_shared s)"
  shows "settles s"
proof -
  let ?b = "ho_shared s"
  have d: "?b\<lparr>bs_dirty := False\<rparr> = ?b" using assms(3) by simp
  define s1 where "s1 = s\<lparr>ho_worker := GotPct (bs_pct ?b)\<rparr>"
  define s2 where "s2 = s1\<lparr>ho_worker := GotDim (bs_pct ?b) (bs_dim_after_secs ?b)\<rparr>"
  define s3 where "s3 = s2\<lparr>ho_worker := GotAll (bs_pct ?b) (bs_dim_after_secs ?b) (bs_off_after_secs ?b)\<rparr>"
  define s4 where "s4 = s3\<lparr>ho_worker := WorkerIdle, ho_device := Some (snapshot ?b)\<rparr>"
  have "handoff_step False s s1" unfolding s1_def by (rule load_pct [OF assms(1)])
  moreover have "handoff_step False s1 s2" using load_dim [of s1 "bs_pct ?b"] by (simp add: s2_def) (simp add: s1_def)
  moreover have "handoff_step False s2 s3"
    using load_off [of s2 "bs_pct ?b" "bs_dim_after_secs ?b"] by (simp add: s3_def) (simp add: s2_def s1_def)
  moreover have "handoff_step False s3 s4"
    using send_all [of s3 "bs_pct ?b" "bs_dim_after_secs ?b" "bs_off_after_secs ?b"]
    by (simp add: s4_def snapshot_def) (simp add: s3_def)
  ultimately have "(handoff_step False)\<^sup>*\<^sup>* s s4" by (meson converse_rtranclp_into_rtranclp r_into_rtranclp)
  moreover have "ho_shared s4 = ?b" "ho_tray s4 = TrayIdle" "ho_worker s4 = WorkerIdle" "ho_device s4 = Some (snapshot ?b)"
    using assms(2) by (simp_all add: s4_def s3_def s2_def s1_def)
  ultimately show ?thesis unfolding settles_def d by blast
qed

lemma settles_idle:
  assumes "ho_worker s = WorkerIdle" "ho_tray s = TrayIdle" "handoff_inv s"
  shows "settles s"
proof (cases "bs_dirty (ho_shared s)")
  case True
  show ?thesis
    by (rule settles_from [OF swap_flag [OF assms(1) True]]) (use assms(2) in \<open>auto intro: settles_swapped\<close>)
next
  case False
  then have "ho_device s = Some (snapshot (ho_shared s))" "(ho_shared s)\<lparr>bs_dirty := False\<rparr> = ho_shared s"
    using assms by (simp_all add: handoff_inv_def announced_def)
  then show ?thesis using assms(1,2) unfolding settles_def by auto
qed

lemma settles_inv:
  assumes "ho_tray s = TrayIdle" "handoff_inv s"
  shows "settles s"
proof -
  have all: "settles s" if "ho_worker s = GotAll p v u" "ho_tray s = TrayIdle" "handoff_inv s" for s p v u
    by (rule settles_from [OF send_all [OF that(1)]])
      (use that(2) handoff_inv_step [OF send_all [OF that(1)] that(3)] in \<open>auto intro: settles_idle\<close>)
  have dim: "settles s" if "ho_worker s = GotDim p v" "ho_tray s = TrayIdle" "handoff_inv s" for s p v
    by (rule settles_from [OF load_off [OF that(1)]])
      (use that(2) handoff_inv_step [OF load_off [OF that(1)] that(3)] in \<open>auto intro: all\<close>)
  have pct: "settles s" if "ho_worker s = GotPct p" "ho_tray s = TrayIdle" "handoff_inv s" for s p
    by (rule settles_from [OF load_dim [OF that(1)]])
      (use that(2) handoff_inv_step [OF load_dim [OF that(1)] that(3)] in \<open>auto intro: dim\<close>)
  have swapped: "settles s" if "ho_worker s = WorkerSwapped" "ho_tray s = TrayIdle" "handoff_inv s" for s
    by (rule settles_from [OF load_pct [OF that(1)]])
      (use that(2) handoff_inv_step [OF load_pct [OF that(1)] that(3)] in \<open>auto intro: pct\<close>)
  have starting: "settles s" if "ho_worker s = WorkerSetup" "ho_tray s = TrayIdle" "handoff_inv s" for s
    by (rule settles_from [OF reconnect [OF set_up [OF that(1)]]])
      (use that(2) handoff_inv_step [OF reconnect [OF set_up [OF that(1)]] that(3)] in \<open>auto intro: settles_idle\<close>)
  have away: "settles s" if "ho_worker s = WorkerAway" "ho_tray s = TrayIdle" "handoff_inv s" for s
    by (rule settles_from [OF reconnect [OF connected [OF that(1)]]])
      (use that(2) handoff_inv_step [OF reconnect [OF connected [OF that(1)]] that(3)] in \<open>auto intro: starting\<close>)
  show ?thesis
    using assms all dim pct swapped settles_idle starting away by (cases "ho_worker s") blast+
qed

text \<open>A setter of the tray is a store followed by the flag; the worker's line is a swap, three loads and a send.\<close>

lemma set_brightness_steps:
  "ho_tray s = TrayIdle \<Longrightarrow> ho_shared s = tr_backlight t \<Longrightarrow>
   (handoff_step lossy)\<^sup>*\<^sup>* s (s\<lparr>ho_shared := tr_backlight (set_brightness T ids p t)\<rparr>)"
proof -
  assume h: "ho_tray s = TrayIdle" "ho_shared s = tr_backlight t"
  let ?s1 = "s\<lparr>ho_shared := (ho_shared s)\<lparr>bs_pct := p\<rparr>, ho_tray := TrayStored\<rparr>"
  have "handoff_step lossy s ?s1" by (rule store_pct [OF h(1)])
  moreover have "handoff_step lossy ?s1 (?s1\<lparr>ho_shared := (ho_shared ?s1)\<lparr>bs_dirty := True\<rparr>, ho_tray := TrayIdle\<rparr>)"
    by (rule store_flag) simp
  moreover have "tr_backlight (set_brightness T ids p t) = (tr_backlight t)\<lparr>bs_pct := p, bs_dirty := True\<rparr>"
  proof -
    have "tr_backlight (check_all items v u) = tr_backlight u" for items :: "(menu_id \<times> u8) list" and v u
      by (induction items arbitrary: u) (auto simp: check_all_def set_checked_def)
    then show ?thesis by (simp add: set_brightness_def Let_def tray_save_def)
  qed
  moreover have "s\<lparr>ho_shared := x, ho_tray := TrayIdle\<rparr> = s\<lparr>ho_shared := x\<rparr>" for x using h(1) by (cases s) simp
  ultimately show ?thesis using h(2) by (auto intro: converse_rtranclp_into_rtranclp)
qed

section \<open>While the user changes nothing\<close>

text \<open>Steps in which the tray stores nothing, with everything else that can happen.\<close>

definition untouched_step :: "handoff \<Rightarrow> handoff \<Rightarrow> bool" where
  "untouched_step s s' \<longleftrightarrow> handoff_step True s s' \<and> ho_tray s' = TrayIdle"

definition between_sends :: "handoff \<Rightarrow> bool" where
  "between_sends s \<longleftrightarrow> ho_tray s = TrayIdle \<and> \<not> bs_dirty (ho_shared s) \<and> ho_worker s \<in> {WorkerAway, WorkerSetup, WorkerIdle}"

lemma untouched_stays:
  "untouched_step\<^sup>*\<^sup>* s s' \<Longrightarrow> between_sends s \<Longrightarrow>
   between_sends s' \<and> ho_shared s' = ho_shared s \<and> (ho_device s' = ho_device s \<or> ho_device s' = None)"
proof (induction rule: rtranclp_induct)
  case (step t u)
  then have "handoff_step True t u" "ho_tray u = TrayIdle" "between_sends t" by (simp_all add: untouched_step_def)
  then have "between_sends u \<and> ho_shared u = ho_shared t \<and> (ho_device u = ho_device t \<or> ho_device u = None)"
    by (elim handoff_stepE) (auto simp: between_sends_def elim!: reconnect_stepE)
  with step show ?case by auto
qed simp

lemma start_without_settings: "SetBacklight p v u \<notin> set (setup_messages L q)"
proof -
  have "SetBacklight p v u \<notin> set (icon_messages icons is)" for icons "is"
    by (induction "is") (auto simp: icon_messages_def map_filter_simps split: option.splits)
  then show ?thesis by (simp add: setup_messages_def)
qed

text \<open>A first session that takes the flag down, a device that is switched off and on, and a second session.\<close>

lemma second_session:
  obtains t where "handoff_reach True cfg t" "ho_sessions t = 2" "ho_worker t = WorkerIdle" "ho_tray t = TrayIdle"
    "ho_shared t = (ho_shared (handoff_start cfg))\<lparr>bs_dirty := False\<rparr>" "ho_device t = None"
proof -
  define b where "b = ho_shared (handoff_start cfg)"
  define c where "c = b\<lparr>bs_dirty := False\<rparr>"
  define st where "st = (\<lambda>b w d n. \<lparr>ho_shared = b, ho_tray = TrayIdle, ho_worker = w, ho_device = d, ho_sessions = n\<rparr>)"
  have start: "handoff_start cfg = st b WorkerAway None 0" by (simp add: handoff_start_def st_def b_def)
  have dirty: "bs_dirty b" by (simp add: handoff_start_def backlight_shared_new_def b_def)
  have cn: "handoff_step True (st x WorkerAway d n) (st x WorkerSetup d (n + 1))" for x d n
    using reconnect [OF connected [of "st x WorkerAway d n"]] by (simp add: st_def)
  have su: "handoff_step True (st x WorkerSetup d n) (st x WorkerIdle d n)" for x d n
    using reconnect [OF set_up [of "st x WorkerSetup d n"]] by (simp add: st_def)
  have dr: "handoff_step True (st x WorkerIdle d n) (st x WorkerAway d n)" for x d n
    using reconnect [OF dropped [of "st x WorkerIdle d n"]] by (simp add: st_def)
  have pc: "handoff_step True (st x w d n) (st x w None n)" for x w d n
    using power_cycle [of True "st x w d n"] by (simp add: st_def)
  have sw: "handoff_step True (st b WorkerIdle d n) (st c WorkerSwapped d n)" for d n
    using swap_flag [of "st b WorkerIdle d n" True] dirty by (simp add: st_def c_def)
  have l1: "handoff_step True (st c WorkerSwapped d n) (st c (GotPct (bs_pct b)) d n)" for d n
    using load_pct [of "st c WorkerSwapped d n" True] by (simp add: st_def c_def)
  have l2: "handoff_step True (st c (GotPct q) d n) (st c (GotDim q (bs_dim_after_secs b)) d n)" for q d n
    using load_dim [of "st c (GotPct q) d n" q True] by (simp add: st_def c_def)
  have l3: "handoff_step True (st c (GotDim q v) d n) (st c (GotAll q v (bs_off_after_secs b)) d n)" for q v d n
    using load_off [of "st c (GotDim q v) d n" q v True] by (simp add: st_def c_def)
  have se: "handoff_step True (st c (GotAll q v u) d n) (st c WorkerIdle (Some (SetBacklight q v u)) n)" for q v u d n
    using send_all [of "st c (GotAll q v u) d n" q v u True] by (simp add: st_def)
  have "(handoff_step True)\<^sup>*\<^sup>* (handoff_start cfg) (st c WorkerIdle None (0 + 1 + 1))"
    unfolding start
    by (rule converse_rtranclp_into_rtranclp, rule cn, rule converse_rtranclp_into_rtranclp, rule su, rule
        converse_rtranclp_into_rtranclp, rule sw, rule converse_rtranclp_into_rtranclp, rule l1, rule
        converse_rtranclp_into_rtranclp, rule l2, rule converse_rtranclp_into_rtranclp, rule l3, rule
        converse_rtranclp_into_rtranclp, rule se, rule converse_rtranclp_into_rtranclp, rule dr, rule
        converse_rtranclp_into_rtranclp, rule pc, rule converse_rtranclp_into_rtranclp, rule cn, rule
        converse_rtranclp_into_rtranclp, rule su, rule rtranclp.rtrancl_refl)
  then show thesis by (intro that [of "st c WorkerIdle None (0 + 1 + 1)"]) (simp_all add: handoff_reach_def st_def c_def b_def)
qed

section \<open>Properties\<close>



text \<open>
  C40. A device that comes back does not get its settings again.  A session starts without them; only
  the flag makes the worker send them, and reconnecting does not raise it: once a session has taken it
  down and sent the settings, then as long as the user stores nothing, through any number of lost connections, new
  sessions and restarts of the device, nothing is sent and the device has what it had or its own
  settings.  And this happens: there is a run in which the device is switched off and on, a
  second session is up, and the device runs with its own settings for as long as the user
  changes nothing.
\<close>

theorem settings_not_pushed_again:
  assumes "ho_tray s = TrayIdle" "\<not> bs_dirty (ho_shared s)" "ho_worker s \<in> {WorkerAway, WorkerSetup, WorkerIdle}"
    and "untouched_step\<^sup>*\<^sup>* s s'"
  shows "SetBacklight p v u \<notin> set (setup_messages L q) \<and> ho_shared s' = ho_shared s \<and>
    ho_worker s' \<in> {WorkerAway, WorkerSetup, WorkerIdle} \<and> (ho_device s' = ho_device s \<or> ho_device s' = None) \<and>
    (\<exists>t. handoff_reach True cfg t \<and> ho_sessions t = 2 \<and> ho_worker t = WorkerIdle \<and> ho_tray t = TrayIdle \<and>
       ho_shared t = (ho_shared (handoff_start cfg))\<lparr>bs_dirty := False\<rparr> \<and> ho_device t = None \<and>
       (\<forall>t'. untouched_step\<^sup>*\<^sup>* t t' \<longrightarrow> ho_device t' = None))"
proof -
  have b: "between_sends s" using assms(1-3) by (simp add: between_sends_def)
  obtain t where t: "handoff_reach True cfg t" "ho_sessions t = 2" "ho_worker t = WorkerIdle" "ho_tray t = TrayIdle"
    "ho_shared t = (ho_shared (handoff_start cfg))\<lparr>bs_dirty := False\<rparr>" "ho_device t = None"
    by (rule second_session)
  have "between_sends t" using t(3-5) by (simp add: between_sends_def)
  then have "\<forall>t'. untouched_step\<^sup>*\<^sup>* t t' \<longrightarrow> ho_device t' = None" using untouched_stays [of t] t(6) by auto
  with untouched_stays [OF assms(4) b] t start_without_settings [of p v u L q] show ?thesis
    by (auto simp: between_sends_def)
qed

theorem settings_not_pushed_again_witness:
  "\<exists>t. handoff_reach True default_config t \<and> ho_sessions t = 2 \<and> ho_device t = None \<and>
     bs_pct (ho_shared t) = 100 \<and> (\<forall>t'. untouched_step\<^sup>*\<^sup>* t t' \<longrightarrow> ho_device t' = None)"
proof -
  let ?s = "(handoff_start default_config)\<lparr>ho_shared := (ho_shared (handoff_start default_config))\<lparr>bs_dirty := False\<rparr>\<rparr>"
  have "ho_tray ?s = TrayIdle" "\<not> bs_dirty (ho_shared ?s)" "ho_worker ?s \<in> {WorkerAway, WorkerSetup, WorkerIdle}"
    "untouched_step\<^sup>*\<^sup>* ?s ?s" by (simp_all add: handoff_start_def)
  from settings_not_pushed_again [OF this, where cfg = default_config] obtain t where
    "handoff_reach True default_config t" "ho_sessions t = 2" "ho_device t = None"
    "ho_shared t = (ho_shared (handoff_start default_config))\<lparr>bs_dirty := False\<rparr>"
    "\<forall>t'. untouched_step\<^sup>*\<^sup>* t t' \<longrightarrow> ho_device t' = None" by blast
  moreover have "bs_pct (ho_shared (handoff_start default_config)) = 100"
    by (simp add: handoff_start_def backlight_shared_new_def default_config_def default_backlight_pct_def)
  ultimately show ?thesis by (intro exI [of _ t]) simp
qed

end
