(* ===== verification/Spec2Isabelle.thy ===== *)
theory Spec2Isabelle
  imports Firmware_Watch Ledc I2c_Clock I2c_Recovery Bus_Devices Spi_Clock Dma_Buffers Cli Tray_Promises Tray_Handoff
begin

text \<open>
  A verification library for the rusty-esp-knob repository: a volume knob (firmware for an ESP32-S3
  board) and the Windows program that drives it (the companion), with the protocol they share.

  The parts and how they interact.  The companion enumerates the audio sessions of the system,
  announces them to the knob, and turns the knob's messages into volume and mute changes; the
  firmware shows the sessions as a carousel, sends what the user does, and keeps the display, the
  backlight, the touch controller and both transports going.  The two talk in frames: a postcard
  message with a CRC in a COBS frame, over USB or over TCP.

  Theories, in the order of the code.
    \<^item> \<open>Prelude\<close>, \<open>Float32\<close>: the integer and \<open>f32\<close> operations of Rust's standard library, the slice
      searches, the option folds, and the generic lemmas.  A function that can panic returns an
      \<open>option\<close> whose \<open>None\<close> is the panic; a \<open>Result\<close> is a sum.
    \<^item> \<open>Messages\<close>, \<open>Codec\<close>, \<open>Link\<close> (\<open>protocol/src\<close>): the messages, \<open>encode\<close>, \<open>decode\<close>, the CRC and the
      streaming decoder, over the crates postcard and cobs as the parameter \<open>wire_lib\<close>, whose documented
      behaviour is the locale \<open>wire_format\<close>; \<open>Reference_Wire\<close> writes both formats out and interprets
      the locale with them.
    \<^item> \<open>Backlight\<close>, \<open>Encoder\<close>, \<open>Touch\<close>, \<open>Haptic\<close>, \<open>Nvs\<close> (\<open>firmware/src\<close>): the idle state machine, the
      debounced quadrature counter, the edge-reporting touch read, the register writes of the haptic
      driver, the credential record in flash.
    \<^item> \<open>Ledc\<close> (\<open>esp-hal-patched/src/ledc\<close>): the timer and channel drivers under the backlight, with the
      registers as records of their fields; every state of the controller is one of this driver's,
      and the divisors and fades are exact in natural numbers.
    \<^item> \<open>I2c_Master\<close>, \<open>I2c_Contract\<close>, \<open>Bus_Devices\<close> (\<open>esp-hal-patched/src/i2c/master\<close>): the blocking I2C
      driver as a compiler of transactions to programs of the controller, which is the parameter
      \<open>i2c_hw\<close>; the documented transaction contract holds for every list of operations and every
      length; through it the haptic and touch drivers reach register files on the bus.
    \<^item> \<open>I2c_Clock\<close> (\<open>i2c/master/mod.rs\<close>): the timeouts, the clock divider, the timings of the bus and the setup
      that writes them; exact for every frequency from 153 Hz to 4 MHz, and what happens outside.
    \<^item> \<open>I2c_Recovery\<close> (\<open>i2c/master/mod.rs\<close>): clearing a stuck bus, in software as a state machine over
      the levels of the two lines, which ends for every device and sends its stop condition in time for
      one that lets go; and the end of the clearing in hardware.
    \<^item> \<open>Display\<close>, \<open>Panel\<close>, \<open>Framebuffer\<close>, \<open>Drawing\<close> (\<open>firmware/src/sh8601\<close>, the drawing functions of
      \<open>main.rs\<close>): the commands the driver sends, a reference panel that interprets them, the scanline
      fills, and every screen over the graphics libraries as a parameter.
    \<^item> \<open>Spi_Master\<close> (\<open>esp-hal-patched/src/spi/master.rs\<close>): the half-duplex DMA write under the display, down to
      the registers; the bus of \<open>Display\<close> is refined by it, each logged transfer being the phases the
      registers describe when the operation starts.
    \<^item> \<open>Spi_Clock\<close> (\<open>spi/master.rs\<close>): the search for the dividers of the SPI clock, its register, and
      \<open>apply_config\<close>.
    \<^item> \<open>Dma_Descriptors\<close>, \<open>Dma_Buffers\<close> (\<open>esp-hal-patched/src/dma\<close>): the descriptors under the display's buffer,
      their links and lengths, and the buffers of both directions; a specification of the controller that
      follows the links reads what was filled in, and what it stores is what is received.
    \<^item> \<open>Usb_Serial\<close>, \<open>Wifi_Tcp\<close>: \<open>poll\<close> and \<open>send\<close> of both transports.  What a transport still owes its client
      is \<open>usb_owes\<close>: the messages whose frames are in the decoder or the FIFO.
    \<^item> \<open>Firmware\<close>: boot, both message handlers and every step of an iteration of the main loop;
      \<open>Firmware_Safety\<close>: none of it panics; \<open>App_State\<close>: the handlers, the gestures and the loss of the
      companion refine an abstract carousel; \<open>Firmware_Protocol\<close>, \<open>Firmware_Watch\<close>: which answers go
      out, what reaches the panel, when the list is forgotten.
    \<^item> \<open>Icons\<close>, \<open>Config\<close>, \<open>Audio\<close> (\<open>companion/src\<close>): pixel conversion, the configuration and the port,
      the sessions, over what the system returns.
    \<^item> \<open>Transport\<close>, \<open>Worker\<close>: the waiting loops and the whole of \<open>worker.rs\<close> over a \<open>world\<close> that records
      what an execution observes (reads, the clock, the ports, the audio service) and does;
      \<open>Worker_Safety\<close>: they return and do not panic, and when the loops are left; \<open>Worker_Session\<close>, \<open>Worker_Promises\<close>: what a
      session announces, how requests and answers pair, what a turn of the knob does.
    \<^item> \<open>Tray\<close>, \<open>Tray_Promises\<close>, \<open>Tray_Handoff\<close>: the tray's menu and clicks, the agreement of marks,
      shared values and configuration, and the handover of the backlight settings between the two
      threads, over lost and restored connections, as a step relation.
    \<^item> \<open>Cli\<close>: the commands of \<open>companion/src/main.rs\<close>.
    \<^item> this theory: the composition of both ends over USB.

  How state is modelled.  Each component's record has the fields of the source's struct or the
  local variables of its loop (\<open>fw\<close> for \<open>main\<close>, \<open>session\<close> for \<open>run_inner\<close>, \<open>tray\<close> for the tray's
  \<open>run\<close>), words keep their width, and peripherals are environments: a script of what reads
  return, a record of the calls made.  Loops that end by their data are \<open>function\<close>s with a measure;
  the chunking and the waits of the I2C driver, and
  the waiting loops of the worker, which end by the clock, are \<open>partial_function (option)\<close>, and
  \<open>clock_live\<close> (every instant is passed) and \<open>writes_return\<close> (no write blocks for ever) are the hypotheses
  under which they return.  A loop without an end (\<open>run_inner\<close>, \<open>run_wifi\<close>) is followed over the
  observations of its first rounds, and its result says whether it has been left.  The only
  bounds are the sources' own: 12 KiB decoders on the device, 16 KiB in the companion, the
  spin budget of the USB send, and the frame limit in \<open>usb_owes\<close>, which is the capacity of the decoder.

  Interfaces.  \<open>cobs_contract\<close> and \<open>wire_format\<close> (interpreted as \<open>host_link\<close> and \<open>dev_link\<close>),
  \<open>register_chip\<close> and \<open>nor_flash\<close> (interpreted on a register file, on the I2C driver, on a flash sector
  and a torn write), \<open>i2c_bus\<close> and its extension \<open>register_bus\<close> (a controller that plays its programs and a
  device that acknowledges, interpreted on a simulated controller with any device),
  \<open>linked_firmware\<close> (an environment that meets the contracts of its parameters, interpreted on the
  laboratory environment) and \<open>linked_worker\<close> (both directions of the codec, interpreted on
  \<open>lab_link\<close>) are the contracts the client lemmas are proved under.

  Not modelled, and why.  The HAL and radio crates beyond the functions the drivers' correctness
  turns on (the half-duplex SPI write, the non-blocking FIFO operations, the LEDC and I2C drivers) are
  register access for other chips and peripherals; of the I2C driver the asynchronous side is left out, of the SPI driver reads, full
  duplex and the waits, of the DMA buffers the cache and the kinds this firmware has no use for; embassy, smoltcp, embedded-graphics, postcard, cobs, toml,
  serialport and the Windows API are parameters.  Printing and logging, the dialogs, the registry entry and the editor
  of the tray have no logic to verify.  The sequentially consistent interleavings of
  \<open>Tray_Handoff\<close> stand for the acquire and release accesses of the source.
\<close>

section \<open>The companion drives the device\<close>

text \<open>The receive loop of the main loop, run in one iteration after the other.\<close>

primrec usb_rounds :: "('b, 's) fw_env \<Rightarrow> nat \<Rightarrow> ('b, 's) fw \<Rightarrow> ('b, 's) fw option" where
  "usb_rounds e 0 s = Some s"
| "usb_rounds e (Suc n) s = Option.bind (usb_loop e s) (usb_rounds e n)"

lemma usb_rounds_all:
  assumes "env_ok e" "fw_ok s" "usb_owes (en_host e) (fw_usb s) ms"
  shows "\<exists>n s'. usb_rounds e n s = Some s' \<and> fw_ok s' \<and> abs_fw s' = fold ca_host ms (abs_fw s)"
  using assms(2,3)
proof (induction "length (rx_script (us_jtag (fw_usb s)))" arbitrary: s ms rule: less_induct)
  case less
  obtain s1 past rest where s1: "usb_loop e s = Some s1" "fw_ok s1" "ms = past @ rest"
    "abs_fw s1 = fold ca_host past (abs_fw s)" "usb_owes (en_host e) (fw_usb s1) rest"
    "if rx_script (us_jtag (fw_usb s)) = [] then rest = [] \<and> rx_script (us_jtag (fw_usb s1)) = []
     else length (rx_script (us_jtag (fw_usb s1))) < length (rx_script (us_jtag (fw_usb s)))"
    using linked_firmware.usb_loop_owes [OF linked_firmware.intro [OF assms(1)] less.prems] by blast
  show ?case
  proof (cases "rx_script (us_jtag (fw_usb s)) = []")
    case True
    then show ?thesis using s1 by (intro exI [of _ 1]) simp
  next
    case False
    then obtain n s' where "usb_rounds e n s1 = Some s'" "fw_ok s'" "abs_fw s' = fold ca_host rest (abs_fw s1)"
      using less.hyps [OF _ s1(2,5)] s1(6) by auto
    then show ?thesis using s1(1,3,4) by (intro exI [of _ "Suc n"]) simp
  qed
qed

text \<open>What the messages of a session's start make of the carousel, whatever it was.\<close>

lemma icon_messages_carousel:
  "ca_selected c = Some i \<Longrightarrow> fold ca_host (icon_messages icons is) c =
     (if i \<in> set is then case icons i of Some px \<Rightarrow> c\<lparr>ca_icon := px\<rparr> | None \<Rightarrow> c else c)"
proof (induction "is" arbitrary: c)
  case (Cons j "is")
  show ?case
  proof (cases "icons j")
    case None
    then show ?thesis using Cons by (auto simp: icon_messages_def map_filter_simps)
  next
    case (Some px)
    have "icon_messages icons (j # is) = SetAppIcon j px # icon_messages icons is"
      using Some by (simp add: icon_messages_def map_filter_simps)
    then show ?thesis using Cons Some by (auto split: option.splits)
  qed
qed (simp add: icon_messages_def map_filter_simps)

definition announced_carousel :: "prepared \<Rightarrow> carousel" where
  "announced_carousel p =
     (let a = hd (pr_apps p) in
      \<lparr>ca_apps = pr_apps p, ca_selected = Some (ai_id a), ca_idx = 0,
       ca_icon = (case pr_icons p (ai_id a) of Some px \<Rightarrow> px | None \<Rightarrow> []), ca_volume = ai_volume a, ca_muted = ai_muted a\<rparr>)"

lemma setup_carousel:
  assumes "pr_apps p \<noteq> []" "set (lk_order L (pr_icons p)) = dom (pr_icons p)"
  shows "fold ca_host (setup_messages L p) c = announced_carousel p"
proof -
  obtain a as' where a: "pr_apps p = a # as'" using assms(1) by (cases "pr_apps p") auto
  define c1 where "c1 = (ca_select (Some (ai_id a)) (ca_host (SetAppList (pr_apps p)) c))\<lparr>ca_icon := []\<rparr>"
  have apps: "ca_apps (ca_select x c') = ca_apps c'" for x c' by (simp add: ca_select_def Let_def split: option.splits)
  have "c1 = \<lparr>ca_apps = pr_apps p, ca_selected = Some (ai_id a), ca_idx = 0, ca_icon = [],
      ca_volume = ai_volume a, ca_muted = ai_muted a\<rparr>"
  proof -
    have "ca_apps (ca_host (SetAppList (pr_apps p)) c) = a # as'" by (simp add: apps a)
    then show ?thesis unfolding c1_def by (cases "ca_host (SetAppList (pr_apps p)) c") (simp add: ca_select_def index_of_def a)
  qed
  moreover have "fold ca_host (setup_messages L p) c = fold ca_host (icon_messages (pr_icons p) (lk_order L (pr_icons p))) c1"
    by (simp add: setup_messages_def c1_def a)
  ultimately show ?thesis
    using icon_messages_carousel [of c1 "ai_id a" "pr_icons p"] assms(2)
    by (auto simp: announced_carousel_def a dom_def split: option.splits)
qed

section \<open>Properties\<close>

text \<open>
  C3. The companion's start of a session puts its sessions on the knob: over a port that takes
  what is written, with the same codec at both ends and a device whose FIFO delivers exactly the
  bytes the worker wrote (at any pace, with any gaps, no more than its decoder holds), there is a
  number of runs of the device's receive loop after which the carousel is the announced one,
  whatever it was before: the list, the first session selected with its level and mute state,
  and its icon.
\<close>

theorem companion_drives_device:
  assumes "clock_live w" "port_healthy w" "wd_tx w = []" "pr_apps p \<noteq> []" "set (lk_order L (pr_icons p)) = dom (pr_icons p)"
    and "list_all2 (\<lambda>m f. encode (lk_host L) m = Some (Inr f)) (setup_messages L p) fs" "worker_setup L p w = Some (sess, w')"
    and "env_ok e" "fw_ok s" "en_host e = lk_host L" "dec_buf (us_decoder (fw_usb s)) = []"
    and "script_bytes (rx_script (us_jtag (fw_usb s))) = wd_tx w'" "length (wd_tx w') \<le> max_frame_len (us_decoder (fw_usb s))"
  shows "\<exists>n s'. usb_rounds e n s = Some s' \<and> fw_ok s' \<and> abs_fw s' = announced_carousel p"
proof -
  have tx: "wd_tx w' = concat fs" using setup_tx [OF assms(1,2,4,6)] assms(3,7) by simp
  have "usb_owes (en_host e) (fw_usb s) (setup_messages L p)"
    unfolding usb_owes_def using assms(6,10-13) tx by auto
  from usb_rounds_all [OF assms(8,9) this] show ?thesis unfolding setup_carousel [OF assms(4,5)] .
qed

lemma lab_setup_short: "length (concat (map frame_of (setup_messages lab_link lab_prepared_data))) \<le> usb_max_frame_len"
proof -
  have len: "length (frame_of m) \<le> cobs_max (length (wr_h2d m) + 1) + 1" for m
    using cobs_enc_length [of "[]" "wr_h2d m @ [crc8 (wr_h2d m)]"]
    by (simp add: frame_of_def host_wire_def cobs_wire_def)
  have "length (wr_h2d (SetAppList (pr_apps lab_prepared_data))) = 6" "length (wr_h2d (SetSelectedApp 7)) = 2" "length (wr_h2d Ping) = 1"
    by (simp_all add: lab_prepared_data_def wr_seq_def wr_app_def wr_word_def wr_byte_def wr_bool_def wr_nat.simps)
  moreover have "setup_messages lab_link lab_prepared_data = [Ping, SetAppList (pr_apps lab_prepared_data), SetSelectedApp 7]"
    by (simp add: setup_messages_def icon_messages_def lab_prepared_data_def lab_link_def map_filter_simps)
  ultimately show ?thesis
    using len [of Ping] len [of "SetAppList (pr_apps lab_prepared_data)"] len [of "SetSelectedApp 7"]
    by (simp add: cobs_max_def usb_max_frame_len_def del: wr_h2d.simps)
qed

theorem companion_drives_device_witness:
  "\<exists>(s :: (reg_file, u8 list) fw) n s'. usb_rounds lab_env n s = Some s' \<and> fw_apps s = [] \<and> map ai_id (fw_apps s') = [7] \<and>
     fw_selected_app s' = Some 7"
proof -
  let ?p = lab_prepared_data and ?w = "lab_world []"
  have ne: "pr_apps ?p \<noteq> []" and order: "set (lk_order lab_link (pr_icons ?p)) = dom (pr_icons ?p)"
    by (simp_all add: lab_prepared_data_def lab_link_def)
  have tx0: "wd_tx ?w = []" by (simp add: lab_world_def)
  obtain sess w' where w': "worker_setup lab_link ?p ?w = Some (sess, w')"
    "wd_tx w' = concat (map frame_of (setup_messages lab_link ?p))"
    using setup_tx [OF lab_world_live [of "[]"] lab_world_healthy ne lab_frames] tx0 by auto
  obtain s0 where s0: "fw_boot lab_env lab_bus (lab_jtag [] (\<lambda>_. True)) lab_i2c [] None = Some s0" "fw_reach lab_env s0"
    by (rule lab_boot)
  define s where "s = s0\<lparr>fw_usb := usb_new (lab_jtag (map Some (wd_tx w')) (\<lambda>_. True))\<rparr>"
  have bytes: "script_bytes (map Some bs) = bs" for bs by (induction bs) simp_all
  have ok: "fw_ok s" using fw_reach_ok [OF lab_env_ok s0(2)] by (simp add: s_def)
  have dev: "dec_buf (us_decoder (fw_usb s)) = []" "script_bytes (rx_script (us_jtag (fw_usb s))) = wd_tx w'"
    "length (wd_tx w') \<le> max_frame_len (us_decoder (fw_usb s))"
    using lab_setup_short by (simp_all add: s_def usb_new_def decoder_new_def lab_jtag_def bytes w'(2))
  have codec: "en_host lab_env = lk_host lab_link" by (simp add: lab_env_def lab_link_def)
  obtain n s' where s': "usb_rounds lab_env n s = Some s'" "abs_fw s' = announced_carousel ?p"
    using companion_drives_device [OF lab_world_live lab_world_healthy tx0 ne order lab_frames w'(1) lab_env_ok ok codec dev] by blast
  have "fw_apps s = []" using fresh_boot [OF s0(1)] by (simp add: s_def)
  moreover have "fw_apps s' = pr_apps ?p" "fw_selected_app s' = Some 7"
    using s'(2) by (simp_all add: abs_fw_def announced_carousel_def lab_prepared_data_def)
  ultimately show ?thesis using s'(1) by (intro exI [of _ s] exI [of _ n] exI [of _ s']) (simp add: lab_prepared_data_def)
qed

text \<open>
  C4. A turn of the knob comes back to the knob: when the frame of the device's \<open>VolumeDelta\<close> reaches
  an idle worker, the worker reads it, sets the new volume of the session (which the system
  accepts), and the frame it writes, delivered to a device that has the app selected, makes the
  device show that volume, at most 100, and list the app with it; so knob, companion and system
  agree after one exchange.
\<close>

theorem knob_turn_shown:
  assumes "wire_format (lk_dev L)" "port_healthy w" "wd_tx w = []" "encode (lk_dev L) (VolumeDelta i dl) = Some (Inr bs)"
    and "wd_rx w = Got bs # rs" "dec_buf (se_decoder sess) = []" "length bs \<le> max_frame_len (se_decoder sess)"
    and "oa = wd_audio w (wd_asked w)" "oa_ready oa" "find_session i (oa_sessions oa) = Some x" "os_accepts x"
    and "v = new_volume (case se_volumes sess i of Some y \<Rightarrow> y | None \<Rightarrow> 1 / 2) dl (wd_sens w (wd_loads w))"
    and "encode (lk_host L) (SetVolume i (volume_level v)) = Some (Inr f)" "worker_read L sess w = Some (sess', w', on)"
    and "env_ok e" "fw_ok s" "en_host e = lk_host L" "fw_selected_app s = Some i" "dec_buf (us_decoder (fw_usb s)) = []"
    and "script_bytes (rx_script (us_jtag (fw_usb s))) = wd_tx w'" "length f \<le> max_frame_len (us_decoder (fw_usb s))"
  shows "on \<and> se_volumes sess' i = Some v \<and> wd_calls w' = wd_calls w @ [VolumeSet i v] \<and>
    (\<exists>n s'. usb_rounds e n s = Some s' \<and> fw_volume s' = volume_level v \<and> unat (fw_volume s') \<le> 100 \<and>
      fw_apps s' = update_first (\<lambda>a. ai_id a = i) (\<lambda>a. a\<lparr>ai_volume := volume_level v\<rparr>) (fw_apps s))"
proof -
  let ?w = "w\<lparr>wd_rx := rs\<rparr>" and ?d = "(se_decoder sess)\<lparr>dec_buf := bs\<rparr>" and ?e = "(se_decoder sess)\<lparr>dec_buf := []\<rparr>"
  have ne: "bs \<noteq> []" using wire_format.frame_shape [OF assms(1,4)] by blast
  have w: "port_healthy ?w" "wd_audio ?w (wd_asked ?w) = oa" "wd_sens ?w (wd_loads ?w) = wd_sens w (wd_loads w)" "wd_tx ?w = []"
    "wd_calls ?w = wd_calls w" using assms(2,3,8) by (simp_all add: port_healthy_def)
  have hit: "(if oa_ready oa then find_session i (oa_sessions oa) else None) = Some x" using assms(9,10) by simp
  let ?sess = "sess\<lparr>se_decoder := ?e\<rparr>"
  note effect = volume_delta_effect [OF w(1), of v ?sess i dl oa "Some x" L f]
  have v: "unat (volume_level v) \<le> 100" and
    "\<exists>w1. on_event L (VolumeDelta i dl) ?sess ?w = Some (?sess\<lparr>se_volumes := (se_volumes sess)(i \<mapsto> v)\<rparr>, w1) \<and>
      wd_tx w1 = f \<and> wd_calls w1 = wd_calls w @ [VolumeSet i v]"
    using effect assms(11-13) w hit by auto
  then obtain w1 where w1: "on_event L (VolumeDelta i dl) ?sess ?w = Some (?sess\<lparr>se_volumes := (se_volumes sess)(i \<mapsto> v)\<rparr>, w1)"
    "wd_tx w1 = f" "wd_calls w1 = wd_calls w @ [VolumeSet i v]" by blast
  have "next_frame (lk_dev L) ?d = (?e, Inr (Some (VolumeDelta i dl)))"
    using wire_format.next_frame_hit [OF assms(1,4), of ?d "[]"] by simp
  moreover have "next_frame (lk_dev L) ?e = (?e, Inr None)" by (rule wire_format.next_frame_miss [OF assms(1)]) simp
  ultimately have "worker_drain L (sess\<lparr>se_decoder := ?d\<rparr>) ?w = Some (?sess\<lparr>se_volumes := (se_volumes sess)(i \<mapsto> v)\<rparr>, w1)"
    using w1(1) by (simp add: worker_drain.simps)
  then have r: "sess' = ?sess\<lparr>se_volumes := (se_volumes sess)(i \<mapsto> v)\<rparr>" "w' = w1" "on"
    using assms(5-7,14) ne by (simp_all add: worker_read_def host_read_def decoder_push_def)
  have "usb_owes (en_host e) (fw_usb s) [SetVolume i (volume_level v)]"
    unfolding usb_owes_def using assms(13,17,19-21) r(2) w1(2) by (intro exI [of _ "[f]"]) simp
  from usb_rounds_all [OF assms(15,16) this] obtain n s' where s': "usb_rounds e n s = Some s'"
    "abs_fw s' = ca_host (SetVolume i (volume_level v)) (abs_fw s)" by auto
  have "fw_volume s' = volume_level v"
    "fw_apps s' = update_first (\<lambda>a. ai_id a = i) (\<lambda>a. a\<lparr>ai_volume := volume_level v\<rparr>) (fw_apps s)"
    using arg_cong [OF s'(2), of ca_volume] arg_cong [OF s'(2), of ca_apps] assms(18)
    by (simp_all add: abs_fw_def ca_update_def Let_def)
  then have "usb_rounds e n s = Some s' \<and> fw_volume s' = volume_level v \<and> unat (fw_volume s') \<le> 100 \<and>
      fw_apps s' = update_first (\<lambda>a. ai_id a = i) (\<lambda>a. a\<lparr>ai_volume := volume_level v\<rparr>) (fw_apps s)"
    using s'(1) v by simp
  then show ?thesis using r w1(3) by auto
qed

theorem knob_turn_shown_witness:
  "\<exists>(s :: (reg_file, u8 list) fw) n s'. fw_apps s = lab_apps \<and> usb_rounds lab_env n s = Some s' \<and>
     fw_volume s' = volume_level (new_volume (1 / 2) 1 2) \<and> unat (fw_volume s') \<le> 100"
proof -
  let ?w = "lab_world [Got [5, 5, 7, 2, 165, 0]]" and ?v = "new_volume (1 / 2) 1 2"
  let ?sess = "\<lparr>se_decoder = decoder_new 64, se_apps = [], se_volumes = Map.empty, se_mutes = Map.empty,
      se_icons = Map.empty, se_last_refresh = 0, se_last_heartbeat = 0, se_reply = None, se_deadline = None\<rparr>"
  have e: "encode (lk_dev lab_link) (VolumeDelta 7 1) = Some (Inr [5, 5, 7, 2, 165, 0])"
    unfolding lab_link_def link.select_convs by code_simp
  have f: "encode (lk_host lab_link) (SetVolume 7 (volume_level ?v)) = Some (Inr (frame_of (SetVolume 7 (volume_level ?v))))"
    by (simp add: lab_link_def lab_frame)
  have w: "wd_rx ?w = Got [5, 5, 7, 2, 165, 0] # []" "wd_tx ?w = []" "wd_audio ?w (wd_asked ?w) = lab_audio"
    "wd_sens ?w (wd_loads ?w) = 2" by (simp_all add: lab_world_def)
  have a: "oa_ready lab_audio" "find_session 7 (oa_sessions lab_audio) = Some lab_session" "os_accepts lab_session"
    by (simp_all add: lab_audio_def lab_session_def)
  have dec: "dec_buf (se_decoder ?sess) = []" "length [5, 5, 7, 2, 165, 0 :: u8] \<le> max_frame_len (se_decoder ?sess)"
    by (simp_all add: decoder_new_def)
  have v: "?v = new_volume (case se_volumes ?sess 7 of Some y \<Rightarrow> y | None \<Rightarrow> 1 / 2) 1 (wd_sens ?w (wd_loads ?w))" by (simp add: w(4))
  obtain sess' w' on where r: "worker_read lab_link ?sess ?w = Some (sess', w', on)"
    using lab.read_total [OF lab_world_responds] unfolding lab.rounds_on_def by blast
  have len: "length (frame_of (SetVolume 7 x)) \<le> 7" for x
    using cobs_enc_length [of "[]" "wr_h2d (SetVolume 7 x) @ [crc8 (wr_h2d (SetVolume 7 x))]"]
    by (simp add: frame_of_def host_wire_def cobs_wire_def wr_word_def wr_byte_def wr_nat.simps cobs_max_def)
  obtain s0 :: "(reg_file, u8 list) fw" where s0: "fw_ok s0" "fw_apps s0 = lab_apps" "fw_selected_app s0 = Some 7"
    by (rule lab_with_apps)
  define s where "s = s0\<lparr>fw_usb := usb_new (lab_jtag (map Some (wd_tx w')) (\<lambda>_. True))\<rparr>"
  have bytes: "script_bytes (map Some bs) = bs" for bs by (induction bs) simp_all
  have dev: "fw_ok s" "en_host lab_env = lk_host lab_link" "fw_selected_app s = Some 7" "dec_buf (us_decoder (fw_usb s)) = []"
    "script_bytes (rx_script (us_jtag (fw_usb s))) = wd_tx w'"
    "length (frame_of (SetVolume 7 (volume_level ?v))) \<le> max_frame_len (us_decoder (fw_usb s))"
    using s0 len [of "volume_level ?v"]
    by (simp_all add: s_def usb_new_def decoder_new_def lab_jtag_def bytes lab_env_def lab_link_def usb_max_frame_len_def)
  have "fw_apps s = lab_apps" by (simp add: s_def s0(2))
  moreover obtain n s' where "usb_rounds lab_env n s = Some s'" "fw_volume s' = volume_level ?v" "unat (fw_volume s') \<le> 100"
    using knob_turn_shown [OF lab_link_ok(2) lab_world_healthy w(2) e w(1) dec w(3) [symmetric] a v f r lab_env_ok dev] by blast
  ultimately show ?thesis by (intro exI [of _ s] exI [of _ n] exI [of _ s']) simp
qed

end
